(* ===== verification/Lcm_Prelude.thy ===== *)
theory Lcm_Prelude
  imports Complex_Main "HOL-Library.Log_Nat"
begin

text \<open>
  What every component of the model shares: the JavaScript number domain with the arithmetic the
  sources use on it, the string functions of the JavaScript standard library that the sources
  call, the values that stand for thrown errors, and operations that pass a state and may throw,
  with a small Hoare logic for them.

  A JavaScript string is a list of code units.  The model uses HOL's \<open>string\<close>, so it
  ranges over the code units 0 to 255; no definition inspects a larger one.
\<close>

named_theorems triple_rules
  \<open>Hoare rules for the combinators and for the operations of the model\<close>

named_theorems reads_rules
  \<open>operations that only read the database, with the value they read\<close>

section \<open>JavaScript numbers\<close>

text \<open>
  A number is a finite value, an infinity or NaN.  Negative zero is not told apart from zero:
  the modelled code never observes the difference.
\<close>

datatype js_number = Num rat | PosInf | NegInf | NaN

definition js_nat :: "nat \<Rightarrow> js_number" where
  "js_nat n = Num (of_nat n)"

fun js_isFinite :: "js_number \<Rightarrow> bool" where
  "js_isFinite (Num _) = True"
| "js_isFinite _ = False"

text \<open>Comparisons are false as soon as one side is NaN.\<close>

fun js_less :: "js_number \<Rightarrow> js_number \<Rightarrow> bool" where
  "js_less (Num a) (Num b) = (a < b)"
| "js_less NegInf (Num _) = True"
| "js_less NegInf PosInf = True"
| "js_less (Num _) PosInf = True"
| "js_less _ _ = False"

fun js_leq :: "js_number \<Rightarrow> js_number \<Rightarrow> bool" where
  "js_leq (Num a) (Num b) = (a \<le> b)"
| "js_leq NegInf (Num _) = True"
| "js_leq NegInf NegInf = True"
| "js_leq NegInf PosInf = True"
| "js_leq (Num _) PosInf = True"
| "js_leq PosInf PosInf = True"
| "js_leq _ _ = False"

text \<open>The value of \<open>Math.floor\<close> and \<open>Math.trunc\<close>.\<close>

fun js_floor :: "js_number \<Rightarrow> js_number" where
  "js_floor (Num a) = Num (of_int \<lfloor>a\<rfloor>)"
| "js_floor x = x"

fun js_trunc :: "js_number \<Rightarrow> js_number" where
  "js_trunc (Num a) = Num (of_int (if 0 \<le> a then \<lfloor>a\<rfloor> else \<lceil>a\<rceil>))"
| "js_trunc x = x"

definition js_max :: "js_number \<Rightarrow> js_number \<Rightarrow> js_number" where
  "js_max a b = (if a = NaN \<or> b = NaN then NaN else if js_less a b then b else a)"

definition js_min :: "js_number \<Rightarrow> js_number \<Rightarrow> js_number" where
  "js_min a b = (if a = NaN \<or> b = NaN then NaN else if js_less b a then b else a)"

fun js_minus :: "js_number \<Rightarrow> js_number \<Rightarrow> js_number" where
  "js_minus (Num a) (Num b) = Num (a - b)"
| "js_minus PosInf (Num _) = PosInf"
| "js_minus PosInf NegInf = PosInf"
| "js_minus NegInf (Num _) = NegInf"
| "js_minus NegInf PosInf = NegInf"
| "js_minus (Num _) PosInf = NegInf"
| "js_minus (Num _) NegInf = PosInf"
| "js_minus _ _ = NaN"

text \<open>
  Multiplication rounds the exact product to the nearest double, ties to even.  \<open>binade x\<close>
  is the exponent of the largest power of two below \<open>x\<close>; the unit in the last place is
  52 binary places below it, and never below the smallest subnormal.
\<close>

definition binade :: "rat \<Rightarrow> int" where
  "binade x = (let (n, d) = quotient_of x;
                   k = int (floorlog 2 (nat n)) - int (floorlog 2 (nat d))
               in if 2 powi k \<le> x then k else k - 1)"

definition round_half_even :: "rat \<Rightarrow> int" where
  "round_half_even x = (let q = \<lfloor>x\<rfloor>; r = x - of_int q
     in if r < 1 / 2 then q else if 1 / 2 < r then q + 1
        else if even q then q else q + 1)"

definition round_double :: "rat \<Rightarrow> rat" where
  "round_double x = (if x = 0 then 0 else
     let u = 2 powi (max (binade \<bar>x\<bar> - 52) (- 1074))
     in sgn x * (of_int (round_half_even (\<bar>x\<bar> / u)) * u))"

definition to_double :: "rat \<Rightarrow> js_number" where
  "to_double x = (let r = round_double x
     in if 2 ^ 1024 \<le> r then PosInf else if r \<le> - (2 ^ 1024) then NegInf else Num r)"

definition js_signed_inf :: "bool \<Rightarrow> js_number" where
  "js_signed_inf neg = (if neg then NegInf else PosInf)"

fun js_mul :: "js_number \<Rightarrow> js_number \<Rightarrow> js_number" where
  "js_mul (Num a) (Num b) = to_double (a * b)"
| "js_mul NaN _ = NaN"
| "js_mul _ NaN = NaN"
| "js_mul (Num a) y = (if a = 0 then NaN else js_signed_inf ((a < 0) \<noteq> (y = NegInf)))"
| "js_mul x (Num b) = (if b = 0 then NaN else js_signed_inf ((b < 0) \<noteq> (x = NegInf)))"
| "js_mul x y = js_signed_inf ((x = NegInf) \<noteq> (y = NegInf))"

text \<open>The floor of a finite number the code has just tested to be positive, as a natural.\<close>

fun js_floor_nat :: "js_number \<Rightarrow> nat" where
  "js_floor_nat (Num a) = nat \<lfloor>a\<rfloor>"
| "js_floor_nat _ = 0"

lemma js_less_nat [simp]: "js_less (js_nat a) (js_nat b) \<longleftrightarrow> a < b"
  by (simp add: js_nat_def)

lemma js_leq_nat [simp]: "js_leq (js_nat a) (js_nat b) \<longleftrightarrow> a \<le> b"
  by (simp add: js_nat_def)

lemma js_less_not_leq: "js_less a b \<Longrightarrow> \<not> js_leq b a"
  by (cases a; cases b) auto

lemma js_less_trans_leq: "js_leq a b \<Longrightarrow> js_less b c \<Longrightarrow> js_less a c"
  by (cases a; cases b; cases c) auto

lemma js_leq_refl: "a \<noteq> NaN \<Longrightarrow> js_leq a a"
  by (cases a) auto

lemma js_not_less_leq: "a \<noteq> NaN \<Longrightarrow> b \<noteq> NaN \<Longrightarrow> \<not> js_less a b \<longleftrightarrow> js_leq b a"
  by (cases a; cases b) auto

section \<open>Strings\<close>

text \<open>Decimal notation, as \<open>String(n)\<close> and template literals print an integer.\<close>

fun show_nat :: "nat \<Rightarrow> string" where
  "show_nat n = (if n < 10 then [char_of (48 + n)]
                 else show_nat (n div 10) @ [char_of (48 + n mod 10)])"

declare show_nat.simps [simp del]

definition show_int :: "int \<Rightarrow> string" where
  "show_int i = (if i < 0 then ''-'' @ show_nat (nat (- i)) else show_nat (nat i))"

lemma show_nat_nonempty [simp]: "show_nat n \<noteq> []"
  by (subst show_nat.simps) simp

text \<open>\<open>Array.prototype.join\<close>, \<open>String.prototype.padStart\<close>, \<open>trim\<close>, \<open>startsWith\<close>.\<close>

fun joinWith :: "string \<Rightarrow> string list \<Rightarrow> string" where
  "joinWith sep [] = ''''"
| "joinWith sep [x] = x"
| "joinWith sep (x # y # ys) = x @ sep @ joinWith sep (y # ys)"

definition padStart :: "nat \<Rightarrow> char \<Rightarrow> string \<Rightarrow> string" where
  "padStart n c s = replicate (n - length s) c @ s"

definition isWhitespace :: "char \<Rightarrow> bool" where
  "isWhitespace c = (let k = (of_char c :: nat) in (9 \<le> k \<and> k \<le> 13) \<or> k = 32 \<or> k = 160)"

definition trim :: "string \<Rightarrow> string" where
  "trim s = rev (dropWhile isWhitespace (rev (dropWhile isWhitespace s)))"

definition startsWith :: "string \<Rightarrow> string \<Rightarrow> bool" where
  "startsWith s p = (take (length p) s = p)"

definition newline :: string where
  "newline = [char_of (10 :: nat)]"

lemma length_trim: "length (trim s) \<le> length s"
  using length_dropWhile_le [of isWhitespace "rev (dropWhile isWhitespace s)"]
    length_dropWhile_le [of isWhitespace s]
  by (simp add: trim_def)

section \<open>Lists\<close>

text \<open>The elements in order of first occurrence, each once.\<close>

fun dedupe_from :: "'a set \<Rightarrow> 'a list \<Rightarrow> 'a list" where
  "dedupe_from seen [] = []"
| "dedupe_from seen (x # xs) =
     (if x \<in> seen then dedupe_from seen xs else x # dedupe_from (insert x seen) xs)"

lemma set_dedupe_from: "set (dedupe_from seen xs) = set xs - seen"
  by (induction xs arbitrary: seen) auto

lemma distinct_dedupe_from: "distinct (dedupe_from seen xs)"
  by (induction xs arbitrary: seen) (auto simp: set_dedupe_from)

lemma dedupe_from_disjoint:
  "distinct xs \<Longrightarrow> set xs \<inter> seen = {} \<Longrightarrow> dedupe_from seen xs = xs"
  by (induction xs arbitrary: seen) auto

text \<open>The last \<open>n\<close> elements, as \<open>slice(-n)\<close> for a positive \<open>n\<close>.\<close>

definition takeLast :: "nat \<Rightarrow> 'a list \<Rightarrow> 'a list" where
  "takeLast n xs = drop (length xs - n) xs"

lemma length_takeLast: "length (takeLast n xs) = min n (length xs)"
  by (simp add: takeLast_def)

lemma set_takeLast: "set (takeLast n xs) \<subseteq> set xs"
  by (simp add: takeLast_def set_drop_subset)

lemma takeLast_append_right: "n \<le> length ys \<Longrightarrow> takeLast n (xs @ ys) = takeLast n ys"
  by (simp add: takeLast_def)

lemma sorted_wrt_split_less:
  assumes "sorted_wrt (\<lambda>a b. f a < (f b :: int)) (pre @ mid @ suf)" and "x \<in> set pre" and "y \<in> set mid"
  shows "f x < f y"
  using assms by (auto simp: sorted_wrt_append)

lemma find_Some_mem: "List.find P xs = Some x \<Longrightarrow> x \<in> set xs \<and> P x"
  by (auto simp: find_Some_iff)

lemma find_unique:
  assumes "distinct (map f xs)" and "x \<in> set xs"
  shows "List.find (\<lambda>y. f y = f x) xs = Some x"
proof -
  have "List.find (\<lambda>y. f y = f x) xs \<noteq> None"
    using assms(2) by (auto simp: find_None_iff)
  then obtain y where y: "List.find (\<lambda>y. f y = f x) xs = Some y" by blast
  from find_Some_mem [OF this] have "y \<in> set xs" and "f y = f x" by auto
  with assms have "y = x" by (meson distinct_map inj_onD)
  with y show ?thesis by simp
qed

section \<open>Errors and operations\<close>

text \<open>
  What a modelled function may throw: an intentional abort, a rejected input (with the field that
  the code names), a violated constraint of the database engine, a failed driver command, a
  storage error (with its code), a failure of a function that a caller supplied, or exhausted
  fuel where a loop of the model has a bound.
\<close>

datatype lcm_error =
    AbortError
  | InputError string
  | RangeError string
  | TypeError string
  | ConstraintError string
  | DriverError
  | StorageError string
  | CallerError string
  | OutOfFuel

type_synonym ('w, 'a) op = "'w \<Rightarrow> (lcm_error + 'a) \<times> 'w"

definition ret :: "'a \<Rightarrow> ('w, 'a) op" where
  "ret a = (\<lambda>w. (Inr a, w))"

definition throw :: "lcm_error \<Rightarrow> ('w, 'a) op" where
  "throw e = (\<lambda>w. (Inl e, w))"

definition bindM :: "('w, 'a) op \<Rightarrow> ('a \<Rightarrow> ('w, 'b) op) \<Rightarrow> ('w, 'b) op" where
  "bindM m k = (\<lambda>w. case m w of (Inl e, w') \<Rightarrow> (Inl e, w') | (Inr a, w') \<Rightarrow> k a w')"

definition getW :: "('w \<Rightarrow> 'a) \<Rightarrow> ('w, 'a) op" where
  "getW f = (\<lambda>w. (Inr (f w), w))"

definition modifyW :: "('w \<Rightarrow> 'w) \<Rightarrow> ('w, unit) op" where
  "modifyW f = (\<lambda>w. (Inr (), f w))"

text \<open>A checked value: throw the error of a sum, or return its value.\<close>

definition liftE :: "lcm_error + 'a \<Rightarrow> ('w, 'a) op" where
  "liftE r = (case r of Inl e \<Rightarrow> throw e | Inr a \<Rightarrow> ret a)"

text \<open>\<open>try { m } catch (e) { h(e) }\<close> and \<open>try { m } finally { f }\<close> (\<open>f\<close> does not throw).\<close>

definition catchM :: "('w, 'a) op \<Rightarrow> (lcm_error \<Rightarrow> ('w, 'a) op) \<Rightarrow> ('w, 'a) op" where
  "catchM m h = (\<lambda>w. case m w of (Inl e, w') \<Rightarrow> h e w' | (Inr a, w') \<Rightarrow> (Inr a, w'))"

definition finallyM :: "('w, 'a) op \<Rightarrow> ('w \<Rightarrow> 'w) \<Rightarrow> ('w, 'a) op" where
  "finallyM m f = (\<lambda>w. case m w of (r, w') \<Rightarrow> (r, f w'))"

text \<open>A loop over a list that collects the results.\<close>

fun mapM :: "('a \<Rightarrow> ('w, 'b) op) \<Rightarrow> 'a list \<Rightarrow> ('w, 'b list) op" where
  "mapM f [] = ret []"
| "mapM f (x # xs) = bindM (f x) (\<lambda>y. bindM (mapM f xs) (\<lambda>ys. ret (y # ys)))"

fun foreachM :: "('a \<Rightarrow> ('w, unit) op) \<Rightarrow> 'a list \<Rightarrow> ('w, unit) op" where
  "foreachM f [] = ret ()"
| "foreachM f (x # xs) = bindM (f x) (\<lambda>_. foreachM f xs)"

lemma ret_apply: "ret a w = (Inr a, w)"
  by (simp add: ret_def)

lemma throw_apply: "throw e w = (Inl e, w)"
  by (simp add: throw_def)

lemmas op_apply = ret_apply throw_apply

lemma getW_apply [simp]: "getW f w = (Inr (f w), w)"
  by (simp add: getW_def)

lemma modifyW_apply [simp]: "modifyW f w = (Inr (), f w)"
  by (simp add: modifyW_def)

lemma liftE_simps [simp]: "liftE (Inl e) = throw e" "liftE (Inr a) = ret a"
  by (simp_all add: liftE_def)

lemma bindM_Inr: "m w = (Inr a, w') \<Longrightarrow> bindM m k w = k a w'"
  by (simp add: bindM_def)

lemma bindM_Inl: "m w = (Inl e, w') \<Longrightarrow> bindM m k w = (Inl e, w')"
  by (simp add: bindM_def)

lemma bindM_ret [simp]: "bindM (ret a) k = k a"
  by (rule ext) (simp add: bindM_def op_apply)

lemma bindM_throw [simp]: "bindM (throw e) k = throw e"
  by (rule ext) (simp add: bindM_def op_apply)

lemma bindM_getW [simp]: "bindM (getW f) k w = k (f w) w"
  by (simp add: bindM_def)

lemma bindM_modifyW [simp]: "bindM (modifyW f) k w = k () (f w)"
  by (simp add: bindM_def)

lemma bindM_assoc: "bindM (bindM m k) l = bindM m (\<lambda>a. bindM (k a) l)"
  by (rule ext) (simp add: bindM_def split: prod.split sum.split)

lemma bindM_cases:
  assumes "bindM m k w = (r, w')"
  obtains (Fail) e where "m w = (Inl e, w')" and "r = Inl e"
  | (Ok) a v where "m w = (Inr a, v)" and "k a v = (r, w')"
  using assms by (auto simp: bindM_def split: prod.splits sum.splits)

section \<open>A Hoare logic for operations\<close>

text \<open>
  \<open>triple P m Q E\<close>: from a state with \<open>P\<close>, \<open>m\<close> either returns \<open>a\<close> in a state
  with \<open>Q a\<close> or throws in a state with \<open>E\<close>.
\<close>

definition triple ::
  "('w \<Rightarrow> bool) \<Rightarrow> ('w, 'a) op \<Rightarrow> ('a \<Rightarrow> 'w \<Rightarrow> bool) \<Rightarrow> ('w \<Rightarrow> bool) \<Rightarrow> bool" where
  "triple P m Q E \<longleftrightarrow>
     (\<forall>w. P w \<longrightarrow> (case m w of (Inl e, w') \<Rightarrow> E w' | (Inr a, w') \<Rightarrow> Q a w'))"

lemma tripleI:
  assumes "\<And>w a w'. P w \<Longrightarrow> m w = (Inr a, w') \<Longrightarrow> Q a w'"
    and "\<And>w e w'. P w \<Longrightarrow> m w = (Inl e, w') \<Longrightarrow> E w'"
  shows "triple P m Q E"
  unfolding triple_def using assms by (auto split: prod.splits sum.splits)

lemma triple_value: "triple P m Q E \<Longrightarrow> P w \<Longrightarrow> m w = (Inr a, w') \<Longrightarrow> Q a w'"
  unfolding triple_def by (auto split: prod.splits sum.splits)

lemma triple_error: "triple P m Q E \<Longrightarrow> P w \<Longrightarrow> m w = (Inl e, w') \<Longrightarrow> E w'"
  unfolding triple_def by force

lemma triple_outcome:
  "triple P m (\<lambda>_. E) E \<Longrightarrow> P w \<Longrightarrow> m w = (r, w') \<Longrightarrow> E w'"
  by (cases r) (auto dest: triple_value triple_error)

lemma triple_conseq:
  assumes "triple P' m Q' E'" and "\<And>w. P w \<Longrightarrow> P' w"
    and "\<And>a w. Q' a w \<Longrightarrow> Q a w" and "\<And>w. E' w \<Longrightarrow> E w"
  shows "triple P m Q E"
  using assms by (intro tripleI) (blast dest: triple_value triple_error)+

lemma triple_ret [triple_rules]: "(\<And>w. P w \<Longrightarrow> Q a w) \<Longrightarrow> triple P (ret a) Q E"
  by (rule tripleI) (auto simp: op_apply)

lemma triple_throw [triple_rules]: "(\<And>w. P w \<Longrightarrow> E w) \<Longrightarrow> triple P (throw e) Q E"
  by (rule tripleI) (auto simp: op_apply)

lemma triple_bind:
  assumes "triple P m R E" and "\<And>a. triple (R a) (k a) Q E"
  shows "triple P (bindM m k) Q E"
  using assms
  by (intro tripleI) (auto elim!: bindM_cases dest: triple_value triple_error)

lemma triple_if [triple_rules]:
  assumes "c \<Longrightarrow> triple P m Q E" and "\<not> c \<Longrightarrow> triple P n Q E"
  shows "triple P (if c then m else n) Q E"
  using assms by simp

lemma triple_catch:
  assumes "triple P m Q E'" and "\<And>e. triple E' (h e) Q E"
  shows "triple P (catchM m h) Q E"
  using assms unfolding catchM_def
  by (intro tripleI) (auto split: prod.splits sum.splits dest: triple_value triple_error)

lemma triple_pre: "(\<And>w. P w \<Longrightarrow> triple (\<lambda>v. v = w) m Q E) \<Longrightarrow> triple P m Q E"
  unfolding triple_def by auto

lemma triple_getW:
  assumes "\<And>a. triple (\<lambda>w. P w \<and> f w = a) (k a) Q E"
  shows "triple P (bindM (getW f) k) Q E"
  using assms unfolding triple_def by simp

lemma triple_pre_imp: "triple P' m Q E \<Longrightarrow> (\<And>w. P w \<Longrightarrow> P' w) \<Longrightarrow> triple P m Q E"
  by (rule triple_conseq)

lemma triple_post: "triple P m Q' E \<Longrightarrow> (\<And>a w. Q' a w \<Longrightarrow> Q a w) \<Longrightarrow> triple P m Q E"
  by (rule triple_conseq)

lemma triple_err: "triple P m Q E' \<Longrightarrow> (\<And>w. E' w \<Longrightarrow> E w) \<Longrightarrow> triple P m Q E"
  by (rule triple_conseq)

lemma triple_foreachM:
  assumes "\<And>x. x \<in> set xs \<Longrightarrow> triple P (f x) (\<lambda>_. P) E"
  shows "triple P (foreachM f xs) (\<lambda>_. P) E"
  using assms by (induction xs) (auto intro!: triple_ret triple_bind)

end
