(* ===== verification/Storage_Model.thy ===== *)
theory Storage_Model
  imports Lcm_Prelude
begin

text \<open>
  The data of a project: the record types of \<open>src/store/conversation-store.ts\<close>,
  \<open>src/store/summary-store.ts\<close> and \<open>src/db/promoted.ts\<close>, the tables that
  \<open>src/db/migration.ts\<close> creates for them, and the world in which an operation runs.

  A table is the list of its rows in insertion order.  Timestamps are milliseconds since the
  epoch: the stored text and \<open>parseStoredTimestamp\<close> are the two directions of one conversion,
  and a column filled by \<open>datetime('now')\<close> holds whole seconds.  A JSON column holds the
  value that \<open>JSON.parse\<close> makes of its text.
\<close>

section \<open>Conversations and messages\<close>

datatype message_role = SystemRole | UserRole | AssistantRole | ToolRole

datatype message_part_type =
    TextPart | ReasoningPart | ToolPart | PatchPart | FilePart | SubtaskPart
  | CompactionPart | StepStartPart | StepFinishPart | SnapshotPart | AgentPart | RetryPart

text \<open>A JSON text either does not parse or denotes a JSON value.\<close>

datatype json = JNull | JBool bool | JNum js_number | JStr string
  | JArr "json list" | JObj "(string \<times> json) list"

datatype json_text = Malformed string | Json json

record conversation_record =
  conv_id :: nat
  conv_sessionId :: string
  conv_title :: "string option"
  conv_bootstrappedAt :: "int option"
  conv_createdAt :: int
  conv_updatedAt :: int
  conv_parentSessionId :: "string option"

record message_record =
  msg_id :: nat
  msg_conversationId :: nat
  msg_seq :: nat
  msg_role :: message_role
  msg_content :: string
  msg_tokenCount :: nat
  msg_createdAt :: int

record message_part_record =
  part_id :: string
  part_messageId :: nat
  part_sessionId :: string
  part_type :: message_part_type
  part_ordinal :: nat
  part_textContent :: "string option"
  part_toolCallId :: "string option"
  part_toolName :: "string option"
  part_toolInput :: "string option"
  part_toolOutput :: "string option"
  part_metadata :: "json_text option"

section \<open>Summaries, context items, large files\<close>

datatype summary_kind = Leaf | Condensed

datatype context_item_type = MessageItem | SummaryItem

record summary_record =
  sum_id :: string
  sum_conversationId :: nat
  sum_kind :: summary_kind
  sum_depth :: nat
  sum_content :: string
  sum_tokenCount :: nat
  sum_fileIds :: "string list"
  sum_earliestAt :: "int option"
  sum_latestAt :: "int option"
  sum_descendantCount :: nat
  sum_descendantTokenCount :: nat
  sum_sourceMessageTokenCount :: nat
  sum_createdAt :: int

record context_item_record =
  ctx_conversationId :: nat
  ctx_ordinal :: int
  ctx_itemType :: context_item_type
  ctx_messageId :: "nat option"
  ctx_summaryId :: "string option"
  ctx_createdAt :: int

record large_file_record =
  file_id :: string
  file_conversationId :: nat
  file_fileName :: "string option"
  file_mimeType :: "string option"
  file_byteSize :: "nat option"
  file_storageUri :: string
  file_explorationSummary :: "string option"
  file_createdAt :: int

section \<open>Promoted memory\<close>

record promoted_row =
  prom_rowid :: nat
  prom_id :: string
  prom_content :: string
  prom_tags :: "string list"
  prom_metadata :: json
  prom_sourceSummaryId :: "string option"
  prom_projectId :: string
  prom_sessionId :: "string option"
  prom_depth :: nat
  prom_confidence :: rat
  prom_createdAt :: int
  prom_archivedAt :: "int option"

record surfacing_row =
  surf_memoryId :: string
  surf_sessionId :: "string option"
  surf_surfacedAt :: int

section \<open>The database of a project\<close>

record database =
  conversations :: "conversation_record list"
  messages :: "message_record list"
  message_parts :: "message_part_record list"
  summaries :: "summary_record list"
  summary_messages :: "(string \<times> nat \<times> nat) list"
  summary_parents :: "(string \<times> string \<times> nat) list"
  context_items :: "context_item_record list"
  large_files :: "large_file_record list"
  promoted :: "promoted_row list"
  recall_surfacing :: "surfacing_row list"
  messages_fts :: "(nat \<times> string) list"
  summaries_fts :: "(string \<times> string) list"
  promoted_fts :: "(nat \<times> string \<times> string list) list"
  conversations_rowid :: nat
  messages_rowid :: nat
  promoted_rowid :: nat

definition empty_database :: database where
  "empty_database = \<lparr>conversations = [], messages = [], message_parts = [], summaries = [],
     summary_messages = [], summary_parents = [], context_items = [], large_files = [],
     promoted = [], recall_surfacing = [], messages_fts = [], summaries_fts = [],
     promoted_fts = [], conversations_rowid = 0, messages_rowid = 0, promoted_rowid = 0\<rparr>"

section \<open>The world of an operation\<close>

text \<open>
  Beside the database as its connection sees it, a running operation meets: the snapshots of the
  open transaction (innermost first, the last one taken by \<open>BEGIN\<close>), the fields of the
  \<open>SqliteExecutor\<close>, and the choices of the environment, each a function of how often it
  was consulted: which driver command fails, the clock, fresh UUIDs, from which check on an abort
  signal is seen as aborted, whether a commit admission is refused.  \<open>w_permits\<close> counts the
  commit permits held and \<open>w_log\<close> records that count at every transaction that was opened.
\<close>

record world =
  w_db :: database
  w_saved :: "(string \<times> database) list"
  w_poisoned :: bool
  w_ctx :: "(nat \<times> nat) option"
  w_atomic :: "nat option"
  w_activeTokens :: "nat list"
  w_failedTokens :: "nat list"
  w_tokens :: nat
  w_execFault :: "nat \<Rightarrow> bool"
  w_execs :: nat
  w_clock :: "nat \<Rightarrow> int"
  w_reads :: nat
  w_uuid :: "nat \<Rightarrow> string"
  w_uuids :: nat
  w_aborted :: "nat \<Rightarrow> nat option"
  w_checks :: nat
  w_refused :: "nat \<Rightarrow> nat \<Rightarrow> lcm_error option"
  w_acquires :: nat
  w_permits :: nat
  w_log :: "nat list"
  w_calls :: nat

definition fresh_world :: "database \<Rightarrow> world" where
  "fresh_world d = \<lparr>w_db = d, w_saved = [], w_poisoned = False, w_ctx = None, w_atomic = None,
     w_activeTokens = [], w_failedTokens = [], w_tokens = 0, w_execFault = (\<lambda>_. False),
     w_execs = 0, w_clock = (\<lambda>_. 0), w_reads = 0, w_uuid = show_nat, w_uuids = 0,
     w_aborted = (\<lambda>_. None), w_checks = 0, w_refused = (\<lambda>_ _. None), w_acquires = 0,
     w_permits = 0, w_log = [], w_calls = 0\<rparr>"

text \<open>\<open>Date.now()\<close>, \<open>datetime('now')\<close> (whole seconds) and \<open>randomUUID()\<close>.\<close>

definition dateNow :: "(world, int) op" where
  "dateNow = (\<lambda>w. (Inr (w_clock w (w_reads w)), w\<lparr>w_reads := Suc (w_reads w)\<rparr>))"

definition sqlNow :: "(world, int) op" where
  "sqlNow = (\<lambda>w. (Inr (w_clock w (w_reads w) div 1000 * 1000), w\<lparr>w_reads := Suc (w_reads w)\<rparr>))"

definition randomUUID :: "(world, string) op" where
  "randomUUID = (\<lambda>w. (Inr (w_uuid w (w_uuids w)), w\<lparr>w_uuids := Suc (w_uuids w)\<rparr>))"

definition setDb :: "(database \<Rightarrow> database) \<Rightarrow> (world, unit) op" where
  "setDb f = modifyW (\<lambda>w. w\<lparr>w_db := f (w_db w)\<rparr>)"

definition getDb :: "(database \<Rightarrow> 'a) \<Rightarrow> (world, 'a) op" where
  "getDb f = getW (\<lambda>w. f (w_db w))"

section \<open>Local operations: what a statement may change\<close>

text \<open>
  A store operation reads and writes the database, the clock and the UUIDs, and nothing else:
  \<open>local_op\<close>.  Its effect on the database is then all a proof about it needs.
\<close>

definition outside :: "world \<Rightarrow> world" where
  "outside w = w\<lparr>w_db := empty_database, w_reads := 0, w_uuids := 0\<rparr>"

definition local_op :: "(world, 'a) op \<Rightarrow> bool" where
  "local_op m \<longleftrightarrow> (\<forall>w. outside (snd (m w)) = outside w)"

named_theorems local_rules \<open>operations that are local\<close>

lemma local_ret [local_rules]: "local_op (ret a)"
  by (simp add: local_op_def op_apply)

lemma local_throw [local_rules]: "local_op (throw e)"
  by (simp add: local_op_def op_apply)

lemma local_liftE [local_rules]: "local_op (liftE r)"
  by (cases r) (simp_all add: local_ret local_throw)

lemma local_getDb [local_rules]: "local_op (getDb f)"
  by (simp add: local_op_def getDb_def)

lemma local_setDb [local_rules]: "local_op (setDb f)"
  by (simp add: local_op_def setDb_def outside_def)

lemma local_dateNow [local_rules]: "local_op dateNow"
  by (simp add: local_op_def dateNow_def outside_def)

lemma local_sqlNow [local_rules]: "local_op sqlNow"
  by (simp add: local_op_def sqlNow_def outside_def)

lemma local_randomUUID [local_rules]: "local_op randomUUID"
  by (simp add: local_op_def randomUUID_def outside_def)

lemma local_bind [local_rules]:
  assumes "local_op m" and "\<And>a. local_op (k a)"
  shows "local_op (bindM m k)"
  using assms unfolding local_op_def bindM_def
  by (auto split: prod.splits sum.splits) (metis snd_conv)+

lemma local_if [local_rules]: "local_op m \<Longrightarrow> local_op n \<Longrightarrow> local_op (if c then m else n)"
  by simp

lemma local_foreachM [local_rules]: "(\<And>x. local_op (f x)) \<Longrightarrow> local_op (foreachM f xs)"
  by (induction xs) (auto intro: local_rules)

lemma local_mapM [local_rules]: "(\<And>x. local_op (f x)) \<Longrightarrow> local_op (mapM f xs)"
  by (induction xs) (auto intro!: local_rules)

lemma local_opD: "local_op m \<Longrightarrow> m w = (r, w') \<Longrightarrow> outside w' = outside w"
  unfolding local_op_def by (metis snd_conv)

lemma outside_fields:
  assumes "outside w' = outside w"
  shows "w_saved w' = w_saved w" "w_poisoned w' = w_poisoned w" "w_ctx w' = w_ctx w"
    "w_atomic w' = w_atomic w" "w_activeTokens w' = w_activeTokens w"
    "w_failedTokens w' = w_failedTokens w" "w_permits w' = w_permits w" "w_log w' = w_log w"
  using arg_cong [OF assms, of w_saved] arg_cong [OF assms, of w_poisoned]
    arg_cong [OF assms, of w_ctx] arg_cong [OF assms, of w_atomic]
    arg_cong [OF assms, of w_activeTokens] arg_cong [OF assms, of w_failedTokens]
    arg_cong [OF assms, of w_permits] arg_cong [OF assms, of w_log]
  by (simp_all add: outside_def)

text \<open>A read returns a function of the database and changes nothing.\<close>

definition reads :: "(world, 'a) op \<Rightarrow> (database \<Rightarrow> 'a) \<Rightarrow> bool" where
  "reads m f \<longleftrightarrow> (\<forall>w. m w = (Inr (f (w_db w)), w))"

lemma reads_getDb [reads_rules]: "reads (getDb f) f"
  by (simp add: reads_def getDb_def)

lemma readsD: "reads m f \<Longrightarrow> m w = (Inr (f (w_db w)), w)"
  by (simp add: reads_def)

end
