(* ===== verification/Sqlite_Executor.thy ===== *)
theory Sqlite_Executor
  imports Storage_Model
begin

text \<open>
  The transaction discipline of \<open>src/storage/sqlite/executor.ts\<close>: root transactions with
  commit, rollback and poisoning, savepoints for atomic operations inside a transaction, and the
  scope checks.  Operations run one after another, as the promise queue of \<open>enqueue\<close> makes
  them; the publication lock that \<open>admitted\<close> may take around them is not modelled.
\<close>

section \<open>The driver\<close>

datatype sql_command =
    BeginImmediate | Commit | Rollback
  | Savepoint string | RollbackTo string | Release string

text \<open>
  The effect of a command on the database and the stack of snapshots; \<open>None\<close> where SQLite
  answers with an error.
\<close>

fun sql_apply :: "sql_command \<Rightarrow> database \<times> (string \<times> database) list
    \<Rightarrow> (database \<times> (string \<times> database) list) option" where
  "sql_apply BeginImmediate (d, ss) = (if ss = [] then Some (d, [('''', d)]) else None)"
| "sql_apply Commit (d, ss) = (if ss = [] then None else Some (d, []))"
| "sql_apply Rollback (d, ss) = (if ss = [] then None else Some (snd (last ss), []))"
| "sql_apply (Savepoint n) (d, ss) = Some (d, (n, d) # ss)"
| "sql_apply (RollbackTo n) (d, ss) =
     (case dropWhile (\<lambda>(m, _). m \<noteq> n) ss of [] \<Rightarrow> None
      | (m, d') # ss' \<Rightarrow> Some (d', (m, d') # ss'))"
| "sql_apply (Release n) (d, ss) =
     (case dropWhile (\<lambda>(m, _). m \<noteq> n) ss of [] \<Rightarrow> None | _ # ss' \<Rightarrow> Some (d, ss'))"

text \<open>\<open>db.exec\<close>: the environment may make any command fail without effect.\<close>

definition sql_exec :: "sql_command \<Rightarrow> (world, unit) op" where
  "sql_exec c = (\<lambda>w. let w' = w\<lparr>w_execs := Suc (w_execs w)\<rparr> in
     if w_execFault w (w_execs w) then (Inl DriverError, w')
     else case sql_apply c (w_db w, w_saved w) of
            None \<Rightarrow> (Inl DriverError, w')
          | Some (d, ss) \<Rightarrow> (Inr (), w'\<lparr>w_db := d, w_saved := ss\<rparr>))"

section \<open>The executor\<close>

definition normalizeStorageError :: "lcm_error \<Rightarrow> lcm_error" where
  "normalizeStorageError e = (case e of StorageError c \<Rightarrow> StorageError c
     | _ \<Rightarrow> StorageError ''STORAGE_OPERATION_FAILED'')"

definition normalized :: "(world, 'a) op \<Rightarrow> (world, 'a) op" where
  "normalized m = catchM m (\<lambda>e. throw (normalizeStorageError e))"

definition poison :: "(world, unit) op" where
  "poison = modifyW (\<lambda>w. w\<lparr>w_poisoned := True\<rparr>)"

definition assertUsable :: "(world, unit) op" where
  "assertUsable = bindM (getW w_poisoned) (\<lambda>p.
     if p then throw (StorageError ''STORAGE_OPERATION_FAILED'') else ret ())"

definition enqueue :: "bool \<Rightarrow> (world, 'a) op \<Rightarrow> (world, 'a) op" where
  "enqueue allowPoisoned callback =
     normalized (bindM (if allowPoisoned then ret () else assertUsable) (\<lambda>_. callback))"

definition scopeError :: lcm_error where
  "scopeError = StorageError ''STORAGE_TRANSACTION_SCOPE''"

text \<open>\<open>run\<close>: an operation outside any transaction.\<close>

definition run :: "(world, 'a) op \<Rightarrow> (world, 'a) op" where
  "run callback = bindM (getW w_ctx) (\<lambda>active.
     if active \<noteq> None then throw scopeError
     else bindM assertUsable (\<lambda>_. enqueue False callback))"

definition runCleanup :: "(world, 'a) op \<Rightarrow> (world, 'a) op" where
  "runCleanup callback = bindM (getW w_ctx) (\<lambda>active.
     if active \<noteq> None then throw scopeError else enqueue True callback)"

text \<open>The check of \<open>runScoped\<close> and \<open>runAtomicScoped\<close> that the token owns the scope.\<close>

definition scopedActive :: "nat \<Rightarrow> world \<Rightarrow> bool" where
  "scopedActive token w \<longleftrightarrow>
     (case w_ctx w of Some (t, _) \<Rightarrow> t = token | None \<Rightarrow> False) \<and> token \<in> set (w_activeTokens w)"

definition runScoped :: "nat \<Rightarrow> (world, 'a) op \<Rightarrow> (world, 'a) op" where
  "runScoped token callback = bindM (getW (scopedActive token)) (\<lambda>ok.
     if \<not> ok then throw scopeError
     else bindM assertUsable (\<lambda>_. normalized callback))"

text \<open>\<open>atomicRoot\<close> and \<open>runAtomic\<close>: one operation in a transaction of its own.\<close>

definition atomicRoot :: "(world, 'a) op \<Rightarrow> (world, 'a) op" where
  "atomicRoot callback = bindM (sql_exec BeginImmediate) (\<lambda>_.
     catchM (bindM callback (\<lambda>result. bindM (sql_exec Commit) (\<lambda>_. ret result)))
       (\<lambda>e. bindM (catchM (sql_exec Rollback) (\<lambda>_. poison)) (\<lambda>_. throw e)))"

definition runAtomic :: "(world, 'a) op \<Rightarrow> (world, 'a) op" where
  "runAtomic callback = bindM (getW w_ctx) (\<lambda>active.
     if active \<noteq> None then throw scopeError
     else bindM assertUsable (\<lambda>_. enqueue False (atomicRoot callback)))"

text \<open>\<open>atomicScoped\<close>: a savepoint inside the transaction that owns \<open>token\<close>.\<close>

definition maxSafeInteger :: nat where
  "maxSafeInteger = 2 ^ 53 - 1"

definition savepointName :: "nat \<Rightarrow> string" where
  "savepointName n = ''lcm_atomic_'' @ show_nat n"

definition takeSavepointOrdinal :: "(world, nat) op" where
  "takeSavepointOrdinal = (\<lambda>w. case w_ctx w of
     None \<Rightarrow> (Inl (StorageError ''STORAGE_OPERATION_FAILED''), w)
   | Some (t, n) \<Rightarrow> if n \<ge> maxSafeInteger
                   then (Inl (StorageError ''STORAGE_OPERATION_FAILED''), w)
                   else (Inr n, w\<lparr>w_ctx := Some (t, Suc n)\<rparr>))"

definition withScopedAtomic :: "nat \<Rightarrow> (world, 'a) op \<Rightarrow> (world, 'a) op" where
  "withScopedAtomic token callback = (\<lambda>w.
     finallyM callback (\<lambda>w'. w'\<lparr>w_atomic := w_atomic w\<rparr>) (w\<lparr>w_atomic := Some token\<rparr>))"

definition atomicScoped :: "nat \<Rightarrow> (world, 'a) op \<Rightarrow> (world, 'a) op" where
  "atomicScoped token callback = bindM takeSavepointOrdinal (\<lambda>n.
     bindM (normalized (sql_exec (Savepoint (savepointName n)))) (\<lambda>_.
     catchM
       (bindM (withScopedAtomic token callback) (\<lambda>result.
        bindM (sql_exec (Release (savepointName n))) (\<lambda>_. ret result)))
       (\<lambda>e. bindM
          (catchM
            (bindM (sql_exec (RollbackTo (savepointName n))) (\<lambda>_.
             catchM (sql_exec (Release (savepointName n))) (\<lambda>_. ret ())))
            (\<lambda>_. bindM (modifyW (\<lambda>w. w\<lparr>w_failedTokens := token # w_failedTokens w\<rparr>)) (\<lambda>_. poison)))
          (\<lambda>_. throw (normalizeStorageError e)))))"

definition runAtomicScoped :: "nat \<Rightarrow> (world, 'a) op \<Rightarrow> (world, 'a) op" where
  "runAtomicScoped token callback = bindM (getW (scopedActive token)) (\<lambda>ok.
     if \<not> ok then throw scopeError
     else bindM (getW w_atomic) (\<lambda>inner.
       if inner = Some token then throw scopeError
       else bindM assertUsable (\<lambda>_. atomicScoped token callback)))"

text \<open>
  \<open>transaction\<close>: the callback runs in the scope of a fresh token; a failure of the callback,
  of a savepoint below it or of \<open>COMMIT\<close> rolls back, and a failed \<open>ROLLBACK\<close> poisons
  the executor.
\<close>

definition openToken :: "(world, nat) op" where
  "openToken = (\<lambda>w. (Inr (w_tokens w), w\<lparr>w_tokens := Suc (w_tokens w)\<rparr>))"

definition withTransactionContext :: "nat \<Rightarrow> (world, 'a) op \<Rightarrow> (world, 'a) op" where
  "withTransactionContext token callback = (\<lambda>w.
     finallyM callback (\<lambda>w'. w'\<lparr>w_ctx := w_ctx w\<rparr>) (w\<lparr>w_ctx := Some (token, 0)\<rparr>))"

definition activateToken :: "nat \<Rightarrow> world \<Rightarrow> world" where
  "activateToken token w = w\<lparr>w_activeTokens := token # w_activeTokens w, w_log := w_permits w # w_log w\<rparr>"

definition closeToken :: "nat \<Rightarrow> world \<Rightarrow> world" where
  "closeToken token w = w\<lparr>w_activeTokens := removeAll token (w_activeTokens w),
     w_failedTokens := removeAll token (w_failedTokens w)\<rparr>"

definition transaction :: "(nat \<Rightarrow> (world, 'a) op) \<Rightarrow> (world, 'a) op" where
  "transaction callback = bindM (getW w_ctx) (\<lambda>active.
     if active \<noteq> None then throw (StorageError ''STORAGE_NESTED_TRANSACTION'')
     else bindM assertUsable (\<lambda>_. enqueue False (
       bindM openToken (\<lambda>token.
       bindM (sql_exec BeginImmediate) (\<lambda>_.
       bindM (modifyW (activateToken token)) (\<lambda>_.
       finallyM
         (catchM
           (bindM (withTransactionContext token (callback token)) (\<lambda>result.
            bindM (getW (\<lambda>w. token \<in> set (w_failedTokens w))) (\<lambda>failed.
            if failed then throw (StorageError ''STORAGE_OPERATION_FAILED'')
            else bindM (sql_exec Commit) (\<lambda>_. ret result))))
           (\<lambda>e. bindM (catchM (sql_exec Rollback) (\<lambda>_. poison)) (\<lambda>_. throw e)))
         (closeToken token)))))))"

section \<open>Settled worlds\<close>

text \<open>
  What a crash or a close of the connection would leave: the snapshot of the open transaction, or
  the database when none is open.
\<close>

definition durable :: "world \<Rightarrow> database" where
  "durable w = (if w_saved w = [] then w_db w else snd (last (w_saved w)))"

text \<open>
  Between two operations no transaction is open, unless a failed \<open>ROLLBACK\<close> has poisoned the
  executor, which then refuses every further operation.
\<close>

definition settled :: "database \<Rightarrow> world \<Rightarrow> bool" where
  "settled d w \<longleftrightarrow> durable w = d \<and> w_ctx w = None \<and> w_atomic w = None
     \<and> (w_saved w = [] \<or> w_poisoned w)"

definition in_transaction :: "database \<Rightarrow> nat \<Rightarrow> world \<Rightarrow> bool" where
  "in_transaction d t w \<longleftrightarrow> w_saved w = [('''', d)] \<and> (\<exists>n. w_ctx w = Some (t, n))
     \<and> w_atomic w = None \<and> t \<in> set (w_activeTokens w)"

text \<open>A scoped operation that fails may leave a savepoint behind, never touch the outer snapshot.\<close>

definition broken_transaction :: "database \<Rightarrow> world \<Rightarrow> bool" where
  "broken_transaction d w \<longleftrightarrow> (\<exists>ss. w_saved w = ss @ [('''', d)]) \<and> w_atomic w = None"

lemma in_transaction_broken: "in_transaction d t w \<Longrightarrow> broken_transaction d w"
  by (auto simp: in_transaction_def broken_transaction_def)

section \<open>Rules\<close>

text \<open>
  \<open>effect P m Q\<close>: the local operation \<open>m\<close>, when it returns, takes a database with
  \<open>P\<close> to one with \<open>Q\<close>.  Inside a transaction its failures need no description: they are
  rolled back.
\<close>

definition effect :: "(database \<Rightarrow> bool) \<Rightarrow> (world, 'a) op \<Rightarrow> ('a \<Rightarrow> database \<Rightarrow> bool) \<Rightarrow> bool" where
  "effect P m Q \<longleftrightarrow> local_op m \<and>
     (\<forall>w a w'. P (w_db w) \<longrightarrow> m w = (Inr a, w') \<longrightarrow> Q a (w_db w'))"

lemma effectI:
  "local_op m \<Longrightarrow> (\<And>w a w'. P (w_db w) \<Longrightarrow> m w = (Inr a, w') \<Longrightarrow> Q a (w_db w')) \<Longrightarrow> effect P m Q"
  by (simp add: effect_def)

lemma effectD: "effect P m Q \<Longrightarrow> P (w_db w) \<Longrightarrow> m w = (Inr a, w') \<Longrightarrow> Q a (w_db w')"
  by (auto simp: effect_def)

lemma effect_local: "effect P m Q \<Longrightarrow> local_op m"
  by (simp add: effect_def)

lemma effect_bind:
  assumes "effect P m R" and "\<And>a. effect (R a) (k a) Q"
  shows "effect P (bindM m k) Q"
proof (rule effectI)
  show "local_op (bindM m k)"
    using assms by (auto intro: local_bind effect_local)
next
  fix w a w' assume "P (w_db w)" and "bindM m k w = (Inr a, w')"
  then show "Q a (w_db w')"
    using assms by (auto elim!: bindM_cases dest: effectD)
qed

lemma effect_conseq:
  "effect P' m Q' \<Longrightarrow> (\<And>d. P d \<Longrightarrow> P' d) \<Longrightarrow> (\<And>a d. Q' a d \<Longrightarrow> Q a d) \<Longrightarrow> effect P m Q"
  by (rule effectI, erule effect_local, blast dest: effectD)

lemma effect_ret: "(\<And>d. P d \<Longrightarrow> Q a d) \<Longrightarrow> effect P (ret a) Q"
  by (rule effectI [OF local_ret]) (auto simp: op_apply)

lemma effect_throw: "effect P (throw e) Q"
  by (rule effectI [OF local_throw]) (auto simp: op_apply)

lemma effect_setDb: "(\<And>d. P d \<Longrightarrow> Q () (f d)) \<Longrightarrow> effect P (setDb f) Q"
  by (rule effectI [OF local_setDb]) (auto simp: setDb_def)

lemma effect_getDb: "(\<And>d. P d \<Longrightarrow> Q (f d) d) \<Longrightarrow> effect P (getDb f) Q"
  by (rule effectI [OF local_getDb]) (auto simp: getDb_def)

lemma effect_if: "(c \<Longrightarrow> effect P m Q) \<Longrightarrow> (\<not> c \<Longrightarrow> effect P n Q) \<Longrightarrow> effect P (if c then m else n) Q"
  by simp

lemma effect_sqlNow: "(\<And>t d. P d \<Longrightarrow> Q t d) \<Longrightarrow> effect P sqlNow Q"
  by (rule effectI [OF local_sqlNow]) (auto simp: sqlNow_def)

lemma effect_randomUUID: "(\<And>t d. P d \<Longrightarrow> Q t d) \<Longrightarrow> effect P randomUUID Q"
  by (rule effectI [OF local_randomUUID]) (auto simp: randomUUID_def)

lemma effect_foreachM:
  assumes "\<And>x. x \<in> set xs \<Longrightarrow> effect P (f x) (\<lambda>_. P)"
  shows "effect P (foreachM f xs) (\<lambda>_. P)"
  using assms
proof (induction xs)
  case Nil
  show ?case by (simp add: effect_ret)
next
  case (Cons x xs)
  have "effect P (f x) (\<lambda>_. P)" and "effect P (foreachM f xs) (\<lambda>_. P)"
    using Cons by auto
  then show ?case by (simp add: effect_bind)
qed

text \<open>Rolling back after a failure settles the database where the transaction began.\<close>

lemma triple_rollback:
  "triple (\<lambda>w. broken_transaction d w \<and> w_ctx w = None)
     (bindM (catchM (sql_exec Rollback) (\<lambda>_. poison)) (\<lambda>_. throw e)) Q (settled d)"
proof (rule triple_bind [where R = "\<lambda>_. settled d"])
  show "triple (\<lambda>w. broken_transaction d w \<and> w_ctx w = None)
     (catchM (sql_exec Rollback) (\<lambda>_. poison)) (\<lambda>_. settled d) (settled d)"
    by (rule tripleI)
      (auto simp: catchM_def sql_exec_def Let_def poison_def settled_def durable_def
        broken_transaction_def split: if_splits)
qed (auto intro: triple_throw)

lemma triple_normalized:
  "triple P m Q E \<Longrightarrow> triple P (normalized m) Q E"
  unfolding normalized_def by (rule triple_catch) (auto intro: triple_throw)

lemma triple_finally:
  assumes "triple P m (\<lambda>a w. Q a (f w)) (\<lambda>w. E (f w))"
  shows "triple P (finallyM m f) Q E"
  using assms unfolding triple_def finallyM_def by (auto split: prod.splits sum.splits)

lemma triple_assertUsable:
  "triple P assertUsable (\<lambda>_ w. P w \<and> \<not> w_poisoned w) P"
  unfolding assertUsable_def by (rule tripleI) (auto simp: op_apply split: if_splits)

lemma triple_usable:
  assumes "triple (\<lambda>w. P w \<and> \<not> w_poisoned w) m Q E" and "\<And>w. P w \<Longrightarrow> E w"
  shows "triple P (bindM assertUsable (\<lambda>_. m)) Q E"
  by (rule triple_bind [OF triple_err [OF triple_assertUsable]]) (use assms in auto)

lemma triple_enqueue:
  assumes "triple (\<lambda>w. P w \<and> \<not> w_poisoned w) m Q P"
  shows "triple P (enqueue False m) Q P"
  unfolding enqueue_def
  by (rule triple_normalized, rule triple_bind [where R = "\<lambda>_ w. P w \<and> \<not> w_poisoned w"])
    (auto intro: triple_assertUsable assms)

text \<open>The body of a transaction, once it has begun.\<close>

definition begun :: "database \<Rightarrow> world \<Rightarrow> bool" where
  "begun d w \<longleftrightarrow> w_saved w = [('''', d)] \<and> w_db w = d \<and> w_ctx w = None \<and> w_atomic w = None"

lemma triple_transaction_context:
  assumes "triple (\<lambda>w. in_transaction d t w \<and> w_db w = d) m
    (\<lambda>a w. in_transaction d t w \<and> Q a (w_db w)) (broken_transaction d)"
  shows "triple (\<lambda>w. begun d w \<and> t \<in> set (w_activeTokens w)) (withTransactionContext t m)
    (\<lambda>a w. w_saved w = [('''', d)] \<and> w_ctx w = None \<and> w_atomic w = None \<and> Q a (w_db w))
    (\<lambda>w. broken_transaction d w \<and> w_ctx w = None)"
proof (rule triple_pre)
  fix w assume w: "begun d w \<and> t \<in> set (w_activeTokens w)"
  let ?v = "w\<lparr>w_ctx := Some (t, 0)\<rparr>"
  have "triple (\<lambda>v. v = ?v) m (\<lambda>a w. in_transaction d t w \<and> Q a (w_db w)) (broken_transaction d)"
    using w by (intro triple_conseq [OF assms]) (auto simp: begun_def in_transaction_def)
  then show "triple (\<lambda>v. v = w) (withTransactionContext t m)
    (\<lambda>a w. w_saved w = [('''', d)] \<and> w_ctx w = None \<and> w_atomic w = None \<and> Q a (w_db w))
    (\<lambda>w. broken_transaction d w \<and> w_ctx w = None)"
    using w unfolding triple_def withTransactionContext_def finallyM_def
    by (auto simp: begun_def in_transaction_def broken_transaction_def split: prod.splits sum.splits)
qed

lemma triple_commit:
  "triple (\<lambda>w. w_saved w = [('''', d)] \<and> w_ctx w = None \<and> w_atomic w = None \<and> Q (w_db w))
     (sql_exec Commit) (\<lambda>_ w. settled (w_db w) w \<and> w_saved w = [] \<and> Q (w_db w))
     (\<lambda>w. broken_transaction d w \<and> w_ctx w = None)"
  by (rule tripleI)
    (auto simp: sql_exec_def Let_def settled_def durable_def broken_transaction_def split: if_splits)

lemma triple_begin:
  "triple (\<lambda>w. settled d w \<and> \<not> w_poisoned w) (sql_exec BeginImmediate) (\<lambda>_. begun d) (settled d)"
  by (rule tripleI)
    (auto simp: sql_exec_def Let_def settled_def durable_def begun_def split: if_splits)

lemma triple_transaction_run:
  assumes "triple (\<lambda>w. in_transaction d t w \<and> w_db w = d) m
    (\<lambda>a w. in_transaction d t w \<and> Q a (w_db w)) (broken_transaction d)"
  shows "triple (\<lambda>w. begun d w \<and> t \<in> set (w_activeTokens w))
     (bindM (withTransactionContext t m) (\<lambda>result.
        bindM (getW (\<lambda>w. t \<in> set (w_failedTokens w))) (\<lambda>failed.
        if failed then throw (StorageError ''STORAGE_OPERATION_FAILED'')
        else bindM (sql_exec Commit) (\<lambda>_. ret result))))
     (\<lambda>a w. settled (w_db w) w \<and> w_saved w = [] \<and> Q a (w_db w))
     (\<lambda>w. broken_transaction d w \<and> w_ctx w = None)"
proof (rule triple_bind [OF triple_transaction_context [OF assms]])
  fix a
  let ?R = "\<lambda>w. w_saved w = [('''', d)] \<and> w_ctx w = None \<and> w_atomic w = None \<and> Q a (w_db w)"
  show "triple ?R (bindM (getW (\<lambda>w. t \<in> set (w_failedTokens w))) (\<lambda>failed.
            if failed then throw (StorageError ''STORAGE_OPERATION_FAILED'')
            else bindM (sql_exec Commit) (\<lambda>_. ret a)))
     (\<lambda>a w. settled (w_db w) w \<and> w_saved w = [] \<and> Q a (w_db w))
     (\<lambda>w. broken_transaction d w \<and> w_ctx w = None)"
  proof (rule triple_bind [where R = "\<lambda>_. ?R"])
    fix failed
    show "triple ?R (if failed then throw (StorageError ''STORAGE_OPERATION_FAILED'')
            else bindM (sql_exec Commit) (\<lambda>_. ret a))
       (\<lambda>a w. settled (w_db w) w \<and> w_saved w = [] \<and> Q a (w_db w))
       (\<lambda>w. broken_transaction d w \<and> w_ctx w = None)"
      by (rule triple_if, rule triple_throw, simp add: broken_transaction_def,
          rule triple_bind [OF triple_commit], rule triple_ret, simp)
  qed (rule tripleI, simp_all)
qed

lemma settled_closeToken [simp]: "settled d (closeToken t w) = settled d w"
  by (simp add: settled_def durable_def closeToken_def)

lemma closeToken_fields [simp]: "w_db (closeToken t w) = w_db w" "w_saved (closeToken t w) = w_saved w"
  by (simp_all add: closeToken_def)

text \<open>
  The rule of a transaction: if the callback, begun on \<open>d\<close>, establishes \<open>Q\<close> and keeps
  the outer snapshot when it fails, then the transaction either commits a database with \<open>Q\<close>
  or leaves \<open>d\<close>.
\<close>

theorem triple_transaction:
  assumes "\<And>t. triple (\<lambda>w. in_transaction d t w \<and> w_db w = d) (callback t)
     (\<lambda>a w. in_transaction d t w \<and> Q a (w_db w)) (broken_transaction d)"
  shows "triple (settled d) (transaction callback)
     (\<lambda>a w. settled (w_db w) w \<and> w_saved w = [] \<and> Q a (w_db w)) (settled d)"
proof -
  let ?ok = "\<lambda>w. settled d w \<and> \<not> w_poisoned w"
  let ?done = "\<lambda>a w. settled (w_db w) w \<and> w_saved w = [] \<and> Q a (w_db w)"
  let ?run = "\<lambda>token. finallyM (catchM (bindM (withTransactionContext token (callback token))
       (\<lambda>result. bindM (getW (\<lambda>w. token \<in> set (w_failedTokens w))) (\<lambda>failed.
            if failed then throw (StorageError ''STORAGE_OPERATION_FAILED'')
            else bindM (sql_exec Commit) (\<lambda>_. ret result))))
         (\<lambda>e. bindM (catchM (sql_exec Rollback) (\<lambda>_. poison)) (\<lambda>_. throw e))) (closeToken token)"
  have run: "triple (\<lambda>w. begun d w \<and> t \<in> set (w_activeTokens w)) (?run t) ?done (settled d)" for t
    by (rule triple_finally, simp,
        rule triple_catch [OF triple_transaction_run [OF assms] triple_rollback])
  have act: "triple (begun d) (modifyW (activateToken t))
      (\<lambda>_ w. begun d w \<and> t \<in> set (w_activeTokens w)) (settled d)" for t
    by (rule tripleI) (auto simp: begun_def activateToken_def)
  have open_: "triple ?ok openToken (\<lambda>_. ?ok) (settled d)"
    by (rule tripleI) (auto simp: openToken_def settled_def durable_def)
  have body: "triple ?ok (bindM openToken (\<lambda>token. bindM (sql_exec BeginImmediate) (\<lambda>_.
      bindM (modifyW (activateToken token)) (\<lambda>_. ?run token)))) ?done (settled d)"
    by (rule triple_bind [OF open_], rule triple_bind [OF triple_begin], rule triple_bind [OF act],
        rule run)
  show ?thesis
    unfolding transaction_def
    by (rule triple_getW, rule triple_if, rule triple_throw, simp, rule triple_usable,
        rule triple_pre_imp [OF triple_enqueue [OF body]]) auto
qed

lemma triple_of_effect:
  assumes "effect P m Q" and "\<And>w w'. I w \<Longrightarrow> outside w' = outside w \<Longrightarrow> I w'" and "\<And>w. I w \<Longrightarrow> E w"
  shows "triple (\<lambda>w. I w \<and> P (w_db w)) m (\<lambda>a w. I w \<and> Q a (w_db w)) E"
proof (rule tripleI)
  fix w a w' assume "I w \<and> P (w_db w)" and m: "m w = (Inr a, w')"
  then show "I w' \<and> Q a (w_db w')"
    using assms(1,2) local_opD [OF effect_local [OF assms(1)] m] by (blast dest: effectD)
next
  fix w e w' assume "I w \<and> P (w_db w)" and m: "m w = (Inl e, w')"
  then show "E w'"
    using assms(2,3) local_opD [OF effect_local [OF assms(1)] m] by blast
qed

lemma in_transaction_outside:
  "in_transaction d t w \<Longrightarrow> outside w' = outside w \<Longrightarrow> in_transaction d t w'"
  by (auto simp: in_transaction_def dest: outside_fields)

lemma settled_outside_db:
  "w_saved w = [] \<Longrightarrow> settled (w_db w) w \<Longrightarrow> outside w' = outside w
    \<Longrightarrow> settled (w_db w') w' \<and> w_saved w' = []"
  by (auto simp: settled_def durable_def dest: outside_fields)

text \<open>A repository call inside a transaction, without and with a savepoint of its own.\<close>

theorem triple_runScoped:
  assumes "effect P m Q"
  shows "triple (\<lambda>w. in_transaction d t w \<and> P (w_db w)) (runScoped t m)
     (\<lambda>a w. in_transaction d t w \<and> Q a (w_db w)) (broken_transaction d)"
proof -
  let ?I = "\<lambda>w. in_transaction d t w \<and> P (w_db w)"
  have body: "triple ?I (normalized m) (\<lambda>a w. in_transaction d t w \<and> Q a (w_db w)) (broken_transaction d)"
    by (rule triple_normalized, rule triple_of_effect [OF assms])
      (auto intro: in_transaction_outside in_transaction_broken)
  show ?thesis
    unfolding runScoped_def
    by (rule triple_getW, rule triple_if, rule triple_throw, blast intro: in_transaction_broken,
        rule triple_usable, rule triple_pre_imp [OF body])
      (auto intro: in_transaction_broken)
qed

lemma dropWhile_savepoint: "dropWhile (\<lambda>(m, _). m \<noteq> n) ((n, d) # ss) = (n, d) # ss"
  by simp

definition in_savepoint :: "database \<Rightarrow> nat \<Rightarrow> string \<Rightarrow> database \<Rightarrow> world \<Rightarrow> bool" where
  "in_savepoint d t n d' w \<longleftrightarrow> w_saved w = [(n, d'), ('''', d)] \<and> (\<exists>k. w_ctx w = Some (t, k))
     \<and> t \<in> set (w_activeTokens w)"

lemma in_savepoint_outside:
  "in_savepoint d t n d' w \<Longrightarrow> outside w' = outside w \<Longrightarrow> in_savepoint d t n d' w'"
  by (auto simp: in_savepoint_def dest: outside_fields)

lemma triple_withScopedAtomic:
  assumes "effect P m Q"
  shows "triple (\<lambda>w. in_savepoint d t n d' w \<and> w_atomic w = None \<and> P (w_db w)) (withScopedAtomic t m)
     (\<lambda>a w. in_savepoint d t n d' w \<and> w_atomic w = None \<and> Q a (w_db w))
     (\<lambda>w. in_savepoint d t n d' w \<and> w_atomic w = None)"
proof (rule triple_pre)
  fix w assume w: "in_savepoint d t n d' w \<and> w_atomic w = None \<and> P (w_db w)"
  have m: "triple (\<lambda>w. in_savepoint d t n d' w \<and> P (w_db w)) m
      (\<lambda>a w. in_savepoint d t n d' w \<and> Q a (w_db w)) (in_savepoint d t n d')"
    by (rule triple_of_effect [OF assms]) (auto intro: in_savepoint_outside)
  have "triple (\<lambda>v. v = w\<lparr>w_atomic := Some t\<rparr>) m
      (\<lambda>a w. in_savepoint d t n d' w \<and> Q a (w_db w)) (in_savepoint d t n d')"
    by (rule triple_conseq [OF m]) (use w in \<open>auto simp: in_savepoint_def\<close>)
  then show "triple (\<lambda>v. v = w) (withScopedAtomic t m)
     (\<lambda>a w. in_savepoint d t n d' w \<and> w_atomic w = None \<and> Q a (w_db w))
     (\<lambda>w. in_savepoint d t n d' w \<and> w_atomic w = None)"
    using w unfolding triple_def withScopedAtomic_def finallyM_def
    by (auto simp: in_savepoint_def split: prod.splits sum.splits)
qed

text \<open>
  A failed operation inside a savepoint throws; unless the executor is poisoned by it, the
  database is again the one before the operation.
\<close>

definition rolled_back :: "database \<Rightarrow> database \<Rightarrow> world \<Rightarrow> bool" where
  "rolled_back d d' w \<longleftrightarrow> broken_transaction d w \<and> (w_poisoned w \<or> w_db w = d')"

theorem triple_atomicScoped:
  assumes "effect P m Q"
  shows "triple (\<lambda>w. in_transaction d t w \<and> w_db w = d' \<and> P d') (atomicScoped t m)
     (\<lambda>a w. in_transaction d t w \<and> Q a (w_db w)) (rolled_back d d')"
proof -
  let ?pre = "\<lambda>w. in_transaction d t w \<and> w_db w = d' \<and> P d'"
  let ?in = "\<lambda>n w. in_savepoint d t (savepointName n) d' w \<and> w_atomic w = None"
  have ordinal: "triple ?pre takeSavepointOrdinal (\<lambda>_. ?pre) (rolled_back d d')"
    by (rule tripleI) (auto simp: takeSavepointOrdinal_def in_transaction_def rolled_back_def
        broken_transaction_def split: option.splits prod.splits if_splits)
  have savepoint: "triple ?pre (normalized (sql_exec (Savepoint (savepointName n))))
      (\<lambda>_ w. in_savepoint d t (savepointName n) d' w \<and> w_atomic w = None \<and> P (w_db w)) (rolled_back d d')" for n
    by (rule triple_normalized, rule tripleI)
      (auto simp: sql_exec_def Let_def in_savepoint_def in_transaction_def rolled_back_def
        broken_transaction_def split: if_splits)
  have release: "triple (\<lambda>w. in_savepoint d t (savepointName n) d' w \<and> w_atomic w = None \<and> Q a (w_db w)) (sql_exec (Release (savepointName n)))
      (\<lambda>_ w. in_transaction d t w \<and> Q a (w_db w)) (?in n)" for n a
    by (rule tripleI)
      (auto simp: sql_exec_def Let_def in_savepoint_def in_transaction_def split: if_splits)
  have undo: "triple (?in n) (catchM
        (bindM (sql_exec (RollbackTo (savepointName n))) (\<lambda>_.
           catchM (sql_exec (Release (savepointName n))) (\<lambda>_. ret ())))
        (\<lambda>_. bindM (modifyW (\<lambda>w. w\<lparr>w_failedTokens := t # w_failedTokens w\<rparr>)) (\<lambda>_. poison)))
      (\<lambda>_. rolled_back d d') (rolled_back d d')" for n
    by (rule tripleI)
      (auto simp: sql_exec_def Let_def in_savepoint_def rolled_back_def broken_transaction_def
        catchM_def bindM_def poison_def op_apply split: if_splits)
  show ?thesis
    unfolding atomicScoped_def
    by (rule triple_bind [OF ordinal], rule triple_bind [OF savepoint], rule triple_catch,
        rule triple_bind [OF triple_withScopedAtomic [OF assms]],
        rule triple_bind [OF release], rule triple_ret, simp,
        rule triple_bind [OF undo], rule triple_throw)
qed

theorem triple_runAtomicScoped:
  assumes "effect P m Q"
  shows "triple (\<lambda>w. in_transaction d t w \<and> P (w_db w)) (runAtomicScoped t m)
     (\<lambda>a w. in_transaction d t w \<and> Q a (w_db w)) (broken_transaction d)"
proof (rule triple_pre)
  fix w assume w: "in_transaction d t w \<and> P (w_db w)"
  let ?I = "\<lambda>v. in_transaction d t v \<and> w_db v = w_db w \<and> P (w_db w)"
  have body: "triple ?I (atomicScoped t m) (\<lambda>a w. in_transaction d t w \<and> Q a (w_db w)) (broken_transaction d)"
    by (rule triple_conseq [OF triple_atomicScoped [OF assms]]) (auto simp: rolled_back_def)
  have "triple ?I (runAtomicScoped t m) (\<lambda>a w. in_transaction d t w \<and> Q a (w_db w)) (broken_transaction d)"
    unfolding runAtomicScoped_def
    by (rule triple_getW, rule triple_if, rule triple_throw, blast intro: in_transaction_broken,
        rule triple_getW, rule triple_if, rule triple_throw, blast intro: in_transaction_broken,
        rule triple_usable, rule triple_pre_imp [OF body])
      (auto intro: in_transaction_broken)
  then show "triple (\<lambda>v. v = w) (runAtomicScoped t m)
      (\<lambda>a w. in_transaction d t w \<and> Q a (w_db w)) (broken_transaction d)"
    using w by (auto elim: triple_conseq)
qed

text \<open>Operations outside a transaction: reads, and atomic operations with their own.\<close>

theorem triple_run_reads:
  assumes "reads m f"
  shows "triple (settled d) (run m) (\<lambda>a w. settled d w \<and> a = f d) (settled d)"
proof -
  let ?ok = "\<lambda>w. settled d w \<and> \<not> w_poisoned w"
  have m: "triple ?ok m (\<lambda>a w. settled d w \<and> a = f d) (settled d)"
    by (rule tripleI) (auto simp: readsD [OF assms] settled_def durable_def)
  show ?thesis
    unfolding run_def
    by (rule triple_getW, rule triple_if, rule triple_throw, simp, rule triple_usable,
        rule triple_pre_imp [OF triple_enqueue [OF m]]) auto
qed

theorem triple_runAtomic:
  assumes "effect P m Q"
  shows "triple (\<lambda>w. settled d w \<and> P d) (runAtomic m)
     (\<lambda>a w. settled (w_db w) w \<and> w_saved w = [] \<and> Q a (w_db w)) (settled d)"
proof (cases "P d")
  case True
  let ?ok = "\<lambda>w. settled d w \<and> \<not> w_poisoned w"
  let ?done = "\<lambda>a w. settled (w_db w) w \<and> w_saved w = [] \<and> Q a (w_db w)"
  let ?I = "\<lambda>w. w_saved w = [('''', d)] \<and> w_ctx w = None \<and> w_atomic w = None"
  have m: "triple (\<lambda>w. ?I w \<and> P (w_db w)) m (\<lambda>a w. ?I w \<and> Q a (w_db w)) ?I"
    by (rule triple_of_effect [OF assms]) (auto dest: outside_fields)
  have m': "triple (begun d) m (\<lambda>a w. ?I w \<and> Q a (w_db w)) (\<lambda>w. broken_transaction d w \<and> w_ctx w = None)"
    by (rule triple_conseq [OF m]) (auto simp: begun_def broken_transaction_def True)
  have c: "triple (\<lambda>w. ?I w \<and> Q a (w_db w)) (bindM (sql_exec Commit) (\<lambda>_. ret a)) ?done
      (\<lambda>w. broken_transaction d w \<and> w_ctx w = None)" for a
    by (rule triple_bind [OF triple_pre_imp [OF triple_commit [where Q = "Q a"]]])
      (auto intro: triple_ret)
  have body: "triple ?ok (atomicRoot m) ?done (settled d)"
    unfolding atomicRoot_def
    by (rule triple_bind [OF triple_begin],
        rule triple_catch [OF triple_bind [OF m' c] triple_rollback])
  have "triple (settled d) (runAtomic m) ?done (settled d)"
    unfolding runAtomic_def
    by (rule triple_getW, rule triple_if, rule triple_throw, simp, rule triple_usable,
        rule triple_pre_imp [OF triple_enqueue [OF body]]) auto
  then show ?thesis by (rule triple_conseq) auto
next
  case False
  then show ?thesis by (simp add: triple_def)
qed

end
