(* ===== verification/Summary_Store.thy ===== *)
theory Summary_Store
  imports Sqlite_Executor "HOL-Library.Multiset" "HOL-Library.List_Lexorder"
    "HOL-Library.Product_Lexorder" "HOL-Library.Char_ord"
begin

text \<open>
  \<open>src/store/summary-store.ts\<close>: summaries, the lineage links between them and to messages,
  the ordered context of a conversation, and large files.  A statement is its effect on the rows
  together with the constraints of \<open>src/db/migration.ts\<close> that it may violate.  The lexical
  searches of the store are not modelled.
\<close>

section \<open>Statements\<close>

text \<open>A writing statement: throw the violated constraint, or update the rows.\<close>

definition sqlWrite :: "(database \<Rightarrow> string option) \<Rightarrow> (database \<Rightarrow> database) \<Rightarrow> (world, unit) op" where
  "sqlWrite violation update = bindM (getDb violation) (\<lambda>v.
     case v of Some c \<Rightarrow> throw (ConstraintError c) | None \<Rightarrow> setDb update)"

text \<open>Whether full-text indexing is compiled in, and whether its statements succeed.\<close>

record store_options =
  fts5Available :: bool
  ftsStatementOk :: bool

definition hasConversation :: "database \<Rightarrow> nat \<Rightarrow> bool" where
  "hasConversation d c \<longleftrightarrow> c \<in> set (map conv_id (conversations d))"

definition hasMessage_row :: "database \<Rightarrow> nat \<Rightarrow> bool" where
  "hasMessage_row d m \<longleftrightarrow> m \<in> set (map msg_id (messages d))"

definition hasSummary :: "database \<Rightarrow> string \<Rightarrow> bool" where
  "hasSummary d s \<longleftrightarrow> s \<in> set (map sum_id (summaries d))"

section \<open>Summaries\<close>

record create_summary_input =
  in_summaryId :: string
  in_conversationId :: nat
  in_kind :: summary_kind
  in_depth :: "js_number option"
  in_content :: string
  in_tokenCount :: nat
  in_fileIds :: "string list option"
  in_earliestAt :: "int option"
  in_latestAt :: "int option"
  in_descendantCount :: "js_number option"
  in_descendantTokenCount :: "js_number option"
  in_sourceMessageTokenCount :: "js_number option"

text \<open>A count is kept only when it is finite and not negative, and is rounded down.\<close>

definition normalizeCount :: "js_number option \<Rightarrow> nat" where
  "normalizeCount x = (case x of None \<Rightarrow> 0
     | Some n \<Rightarrow> if js_isFinite n \<and> js_leq (Num 0) n then js_floor_nat n else 0)"

definition normalizeDepth :: "summary_kind \<Rightarrow> js_number option \<Rightarrow> nat" where
  "normalizeDepth kind x = (case x of
       Some n \<Rightarrow> if js_isFinite n \<and> js_leq (Num 0) n then js_floor_nat n
                else if kind = Leaf then 0 else 1
     | None \<Rightarrow> if kind = Leaf then 0 else 1)"

definition summaryRow :: "create_summary_input \<Rightarrow> int \<Rightarrow> summary_record" where
  "summaryRow input now = \<lparr>sum_id = in_summaryId input,
     sum_conversationId = in_conversationId input, sum_kind = in_kind input,
     sum_depth = normalizeDepth (in_kind input) (in_depth input),
     sum_content = in_content input, sum_tokenCount = in_tokenCount input,
     sum_fileIds = (case in_fileIds input of None \<Rightarrow> [] | Some fs \<Rightarrow> fs),
     sum_earliestAt = in_earliestAt input, sum_latestAt = in_latestAt input,
     sum_descendantCount = normalizeCount (in_descendantCount input),
     sum_descendantTokenCount = normalizeCount (in_descendantTokenCount input),
     sum_sourceMessageTokenCount = normalizeCount (in_sourceMessageTokenCount input),
     sum_createdAt = now\<rparr>"

definition insertSummary :: "store_options \<Rightarrow> create_summary_input \<Rightarrow> (world, summary_record) op" where
  "insertSummary opts input = bindM sqlNow (\<lambda>now.
     let row = summaryRow input now in
     bindM (sqlWrite
       (\<lambda>d. if hasSummary d (sum_id row) then Some ''summaries.summary_id''
            else if \<not> hasConversation d (sum_conversationId row) then Some ''summaries.conversation_id''
            else None)
       (\<lambda>d. d\<lparr>summaries := summaries d @ [row]\<rparr>)) (\<lambda>_.
     if \<not> fts5Available opts then ret row
     else bindM
       (if ftsStatementOk opts
        then setDb (\<lambda>d. d\<lparr>summaries_fts := summaries_fts d @ [(sum_id row, sum_content row)]\<rparr>)
        else ret ()) (\<lambda>_. ret row)))"

definition findSummary :: "database \<Rightarrow> string \<Rightarrow> summary_record option" where
  "findSummary d sid = List.find (\<lambda>s. sum_id s = sid) (summaries d)"

definition getSummary :: "string \<Rightarrow> (world, summary_record option) op" where
  "getSummary sid = getDb (\<lambda>d. findSummary d sid)"

definition getSummariesByConversation :: "nat \<Rightarrow> (world, summary_record list) op" where
  "getSummariesByConversation cid = getDb (\<lambda>d.
     sort_key sum_createdAt (filter (\<lambda>s. sum_conversationId s = cid) (summaries d)))"

text \<open>\<open>LIMIT ?\<close>: a negative limit is no limit.\<close>

definition sqlLimit :: "int \<Rightarrow> 'a list \<Rightarrow> 'a list" where
  "sqlLimit n xs = (if n < 0 then xs else take (nat n) xs)"

definition listRecentSummaries :: "int \<Rightarrow> (world, summary_record list) op" where
  "listRecentSummaries limit = getDb (\<lambda>d.
     sqlLimit limit (sort_key (\<lambda>s. - sum_createdAt s) (summaries d)))"

definition listRecentSummariesForSession :: "string \<Rightarrow> int \<Rightarrow> (world, summary_record list) op" where
  "listRecentSummariesForSession sessionId limit = getDb (\<lambda>d.
     sqlLimit limit (sort_key (\<lambda>s. (- int (sum_depth s), - sum_createdAt s))
       (concat (map (\<lambda>s. map (\<lambda>_. s)
          (filter (\<lambda>c. conv_id c = sum_conversationId s \<and> conv_sessionId c = sessionId)
             (conversations d))) (summaries d)))))"

section \<open>Lineage\<close>

text \<open>
  One insertion with \<open>ON CONFLICT DO NOTHING\<close>: an existing pair is left as it is, a foreign
  key that is missing is an error.
\<close>

definition linkMessage :: "string \<Rightarrow> nat \<Rightarrow> nat \<Rightarrow> (world, unit) op" where
  "linkMessage sid mid ordinal = sqlWrite
     (\<lambda>d. if (\<exists>(s, m, _) \<in> set (summary_messages d). s = sid \<and> m = mid) then None
          else if \<not> hasSummary d sid then Some ''summary_messages.summary_id''
          else if \<not> hasMessage_row d mid then Some ''summary_messages.message_id'' else None)
     (\<lambda>d. if (\<exists>(s, m, _) \<in> set (summary_messages d). s = sid \<and> m = mid) then d
          else d\<lparr>summary_messages := summary_messages d @ [(sid, mid, ordinal)]\<rparr>)"

fun linkMessagesFrom :: "string \<Rightarrow> nat \<Rightarrow> nat list \<Rightarrow> (world, unit) op" where
  "linkMessagesFrom sid idx [] = ret ()"
| "linkMessagesFrom sid idx (m # ms) =
     bindM (linkMessage sid m idx) (\<lambda>_. linkMessagesFrom sid (Suc idx) ms)"

definition linkSummaryToMessages :: "string \<Rightarrow> nat list \<Rightarrow> (world, unit) op" where
  "linkSummaryToMessages sid messageIds =
     (if messageIds = [] then ret () else linkMessagesFrom sid 0 messageIds)"

definition linkParent :: "string \<Rightarrow> string \<Rightarrow> nat \<Rightarrow> (world, unit) op" where
  "linkParent sid pid ordinal = sqlWrite
     (\<lambda>d. if (\<exists>(s, p, _) \<in> set (summary_parents d). s = sid \<and> p = pid) then None
          else if \<not> hasSummary d sid then Some ''summary_parents.summary_id''
          else if \<not> hasSummary d pid then Some ''summary_parents.parent_summary_id'' else None)
     (\<lambda>d. if (\<exists>(s, p, _) \<in> set (summary_parents d). s = sid \<and> p = pid) then d
          else d\<lparr>summary_parents := summary_parents d @ [(sid, pid, ordinal)]\<rparr>)"

fun linkParentsFrom :: "string \<Rightarrow> nat \<Rightarrow> string list \<Rightarrow> (world, unit) op" where
  "linkParentsFrom sid idx [] = ret ()"
| "linkParentsFrom sid idx (p # ps) =
     bindM (linkParent sid p idx) (\<lambda>_. linkParentsFrom sid (Suc idx) ps)"

definition linkSummaryToParents :: "string \<Rightarrow> string list \<Rightarrow> (world, unit) op" where
  "linkSummaryToParents sid parentSummaryIds =
     (if parentSummaryIds = [] then ret () else linkParentsFrom sid 0 parentSummaryIds)"

definition summaryMessageIds :: "database \<Rightarrow> string \<Rightarrow> nat list" where
  "summaryMessageIds d sid = map (\<lambda>(_, m, _). m)
     (sort_key (\<lambda>(_, _, ord). ord) (filter (\<lambda>(s, _, _). s = sid) (summary_messages d)))"

definition getSummaryMessages :: "string \<Rightarrow> (world, nat list) op" where
  "getSummaryMessages sid = getDb (\<lambda>d. summaryMessageIds d sid)"

definition summaryChildren :: "database \<Rightarrow> string \<Rightarrow> summary_record list" where
  "summaryChildren d parentId = concat (map
     (\<lambda>(s, _, _). filter (\<lambda>r. sum_id r = s) (summaries d))
     (sort_key (\<lambda>(_, _, ord). ord) (filter (\<lambda>(_, p, _). p = parentId) (summary_parents d))))"

definition getSummaryChildren :: "string \<Rightarrow> (world, summary_record list) op" where
  "getSummaryChildren parentId = getDb (\<lambda>d. summaryChildren d parentId)"

definition summaryParents :: "database \<Rightarrow> string \<Rightarrow> summary_record list" where
  "summaryParents d sid = concat (map
     (\<lambda>(_, p, _). filter (\<lambda>r. sum_id r = p) (summaries d))
     (sort_key (\<lambda>(_, _, ord). ord) (filter (\<lambda>(s, _, _). s = sid) (summary_parents d))))"

definition getSummaryParents :: "string \<Rightarrow> (world, summary_record list) op" where
  "getSummaryParents sid = getDb (\<lambda>d. summaryParents d sid)"

text \<open>
  The recursive query of \<open>getSummarySubtree\<close>: level by level, the links whose parent column
  names a row of the previous level.  The fuel bounds the number of levels; \<open>None\<close> means that
  more were needed, which on a cyclic link table is every amount.
\<close>

type_synonym subtree_row = "string \<times> string option \<times> nat \<times> string"

definition subtreePath :: "string \<Rightarrow> nat \<Rightarrow> string" where
  "subtreePath path ord = (let o4 = padStart 4 (CHR ''0'') (show_nat ord)
     in if path = '''' then o4 else path @ ''.'' @ o4)"

definition subtreeStep :: "(string \<times> string \<times> nat) list \<Rightarrow> subtree_row \<Rightarrow> subtree_row list" where
  "subtreeStep links row = (case row of (sid, _, depth, path) \<Rightarrow>
     map (\<lambda>(s, p, ord). (s, Some p, Suc depth, subtreePath path ord))
       (filter (\<lambda>(_, p, _). p = sid) links))"

fun subtreeLevels :: "nat \<Rightarrow> (string \<times> string \<times> nat) list \<Rightarrow> subtree_row list
    \<Rightarrow> subtree_row list option" where
  "subtreeLevels fuel links [] = Some []"
| "subtreeLevels 0 links (_ # _) = None"
| "subtreeLevels (Suc fuel) links (r # rs) =
     map_option (\<lambda>below. (r # rs) @ below)
       (subtreeLevels fuel links (concat (map (subtreeStep links) (r # rs))))"

record summary_subtree_node = summary_record +
  node_depthFromRoot :: nat
  node_parentSummaryId :: "string option"
  node_path :: string
  node_childCount :: nat

definition subtreeNode :: "database \<Rightarrow> subtree_row \<Rightarrow> summary_record \<Rightarrow> summary_subtree_node" where
  "subtreeNode d row s = (case row of (_, parent, depth, path) \<Rightarrow>
     summary_record.extend s \<lparr>node_depthFromRoot = depth, node_parentSummaryId = parent,
       node_path = path,
       node_childCount = length (filter (\<lambda>(_, p, _). p = sum_id s) (summary_parents d))\<rparr>)"

definition subtreeJoin :: "database \<Rightarrow> subtree_row list \<Rightarrow> summary_subtree_node list" where
  "subtreeJoin d rows = sort_key (\<lambda>n. (node_depthFromRoot n, node_path n, sum_createdAt n))
     (concat (map (\<lambda>row. map (subtreeNode d row)
        (filter (\<lambda>s. sum_id s = fst row) (summaries d))) rows))"

fun firstById :: "string set \<Rightarrow> summary_subtree_node list \<Rightarrow> summary_subtree_node list" where
  "firstById seen [] = []"
| "firstById seen (n # ns) =
     (if sum_id n \<in> seen then firstById seen ns else n # firstById (insert (sum_id n) seen) ns)"

definition subtreeFuel :: "database \<Rightarrow> nat" where
  "subtreeFuel d = Suc (Suc (length (summary_parents d)))"

definition summarySubtree :: "database \<Rightarrow> string \<Rightarrow> summary_subtree_node list option" where
  "summarySubtree d sid = map_option (\<lambda>rows. firstById {} (subtreeJoin d rows))
     (subtreeLevels (subtreeFuel d) (summary_parents d) [(sid, None, 0, '''')])"

definition getSummarySubtree :: "string \<Rightarrow> (world, summary_subtree_node list) op" where
  "getSummarySubtree sid = bindM (getDb (\<lambda>d. summarySubtree d sid)) (\<lambda>r.
     case r of None \<Rightarrow> throw OutOfFuel | Some ns \<Rightarrow> ret ns)"

section \<open>Context items\<close>

definition contextItems :: "database \<Rightarrow> nat \<Rightarrow> context_item_record list" where
  "contextItems d cid =
     sort_key ctx_ordinal (filter (\<lambda>i. ctx_conversationId i = cid) (context_items d))"

definition getContextItems :: "nat \<Rightarrow> (world, context_item_record list) op" where
  "getContextItems cid = getDb (\<lambda>d. contextItems d cid)"

definition distinctDepths :: "database \<Rightarrow> nat \<Rightarrow> js_number option \<Rightarrow> nat list" where
  "distinctDepths d cid maxOrdinalExclusive =
     (let inBound = (\<lambda>i. case maxOrdinalExclusive of
            Some (Num b) \<Rightarrow> ctx_ordinal i < \<lfloor>b\<rfloor> | _ \<Rightarrow> True)
      in remdups (sort (concat (map
           (\<lambda>i. map sum_depth (filter (\<lambda>s. ctx_summaryId i = Some (sum_id s)) (summaries d)))
           (filter (\<lambda>i. ctx_conversationId i = cid \<and> ctx_itemType i = SummaryItem \<and> inBound i)
              (context_items d))))))"

definition getDistinctDepthsInContext :: "nat \<Rightarrow> js_number option \<Rightarrow> (world, nat list) op" where
  "getDistinctDepthsInContext cid maxOrdinalExclusive =
     getDb (\<lambda>d. distinctDepths d cid maxOrdinalExclusive)"

definition maxOrdinal :: "database \<Rightarrow> nat \<Rightarrow> int" where
  "maxOrdinal d cid =
     (case map ctx_ordinal (filter (\<lambda>i. ctx_conversationId i = cid) (context_items d)) of
        [] \<Rightarrow> - 1 | o1 # os \<Rightarrow> foldr max os o1)"

text \<open>Inserting a context row: primary key and foreign keys.\<close>

definition contextViolation :: "context_item_record \<Rightarrow> database \<Rightarrow> string option" where
  "contextViolation row d =
     (if \<exists>i \<in> set (context_items d). ctx_conversationId i = ctx_conversationId row
           \<and> ctx_ordinal i = ctx_ordinal row then Some ''context_items.ordinal''
      else if \<not> hasConversation d (ctx_conversationId row) then Some ''context_items.conversation_id''
      else if (case ctx_messageId row of Some m \<Rightarrow> \<not> hasMessage_row d m | None \<Rightarrow> False)
        then Some ''context_items.message_id''
      else if (case ctx_summaryId row of Some s \<Rightarrow> \<not> hasSummary d s | None \<Rightarrow> False)
        then Some ''context_items.summary_id''
      else None)"

definition messageContextRow :: "nat \<Rightarrow> int \<Rightarrow> nat \<Rightarrow> int \<Rightarrow> context_item_record" where
  "messageContextRow cid ord mid now = \<lparr>ctx_conversationId = cid, ctx_ordinal = ord,
     ctx_itemType = MessageItem, ctx_messageId = Some mid, ctx_summaryId = None, ctx_createdAt = now\<rparr>"

definition summaryContextRow :: "nat \<Rightarrow> int \<Rightarrow> string \<Rightarrow> int \<Rightarrow> context_item_record" where
  "summaryContextRow cid ord sid now = \<lparr>ctx_conversationId = cid, ctx_ordinal = ord,
     ctx_itemType = SummaryItem, ctx_messageId = None, ctx_summaryId = Some sid, ctx_createdAt = now\<rparr>"

definition insertContextRow :: "context_item_record \<Rightarrow> (world, unit) op" where
  "insertContextRow row = sqlWrite (contextViolation row)
     (\<lambda>d. d\<lparr>context_items := context_items d @ [row]\<rparr>)"

definition appendContextMessage :: "nat \<Rightarrow> nat \<Rightarrow> (world, unit) op" where
  "appendContextMessage cid mid = bindM (getDb (\<lambda>d. maxOrdinal d cid)) (\<lambda>m.
     bindM sqlNow (\<lambda>now. insertContextRow (messageContextRow cid (m + 1) mid now)))"

fun appendContextMessagesFrom :: "nat \<Rightarrow> int \<Rightarrow> nat list \<Rightarrow> (world, unit) op" where
  "appendContextMessagesFrom cid ord [] = ret ()"
| "appendContextMessagesFrom cid ord (m # ms) = bindM sqlNow (\<lambda>now.
     bindM (insertContextRow (messageContextRow cid ord m now)) (\<lambda>_.
     appendContextMessagesFrom cid (ord + 1) ms))"

definition appendContextMessages :: "nat \<Rightarrow> nat list \<Rightarrow> (world, unit) op" where
  "appendContextMessages cid messageIds = (if messageIds = [] then ret ()
     else bindM (getDb (\<lambda>d. maxOrdinal d cid)) (\<lambda>m.
       appendContextMessagesFrom cid (m + 1) messageIds))"

definition appendContextSummary :: "nat \<Rightarrow> string \<Rightarrow> (world, unit) op" where
  "appendContextSummary cid sid = bindM (getDb (\<lambda>d. maxOrdinal d cid)) (\<lambda>m.
     bindM sqlNow (\<lambda>now. insertContextRow (summaryContextRow cid (m + 1) sid now)))"

text \<open>
  \<open>replaceContextRangeWithSummary\<close>: delete the range, insert the summary at its start, then
  renumber.  The renumbering moves every row to a temporary negative ordinal first, because an
  update that meets the primary key of another row fails.
\<close>

definition deleteContextRange :: "nat \<Rightarrow> int \<Rightarrow> int \<Rightarrow> (world, unit) op" where
  "deleteContextRange cid startOrdinal endOrdinal = setDb (\<lambda>d. d\<lparr>context_items :=
     filter (\<lambda>i. \<not> (ctx_conversationId i = cid \<and> startOrdinal \<le> ctx_ordinal i
       \<and> ctx_ordinal i \<le> endOrdinal)) (context_items d)\<rparr>)"

definition moveOrdinal :: "nat \<Rightarrow> int \<Rightarrow> int \<Rightarrow> context_item_record list \<Rightarrow> context_item_record list" where
  "moveOrdinal cid old new items = map (\<lambda>i. if ctx_conversationId i = cid \<and> ctx_ordinal i = old
     then i\<lparr>ctx_ordinal := new\<rparr> else i) items"

definition updateOrdinal :: "nat \<Rightarrow> int \<Rightarrow> int \<Rightarrow> (world, unit) op" where
  "updateOrdinal cid new old = sqlWrite
     (\<lambda>d. if new \<noteq> old
            \<and> (\<exists>i \<in> set (context_items d). ctx_conversationId i = cid \<and> ctx_ordinal i = old)
            \<and> (\<exists>i \<in> set (context_items d). ctx_conversationId i = cid \<and> ctx_ordinal i = new)
          then Some ''context_items.ordinal'' else None)
     (\<lambda>d. d\<lparr>context_items := moveOrdinal cid old new (context_items d)\<rparr>)"

fun moveOrdinals :: "nat \<Rightarrow> (int \<times> int) list \<Rightarrow> (world, unit) op" where
  "moveOrdinals cid [] = ret ()"
| "moveOrdinals cid ((old, new) # moves) =
     bindM (updateOrdinal cid new old) (\<lambda>_. moveOrdinals cid moves)"

definition temporaryOrdinal :: "nat \<Rightarrow> int" where
  "temporaryOrdinal i = - (int i + 1)"

definition resequence :: "nat \<Rightarrow> (world, unit) op" where
  "resequence cid = bindM (getDb (\<lambda>d. map ctx_ordinal (contextItems d cid))) (\<lambda>ordinals.
     let n = length ordinals in
     bindM (moveOrdinals cid (zip ordinals (map temporaryOrdinal [0..<n]))) (\<lambda>_.
     moveOrdinals cid (zip (map temporaryOrdinal [0..<n]) (map int [0..<n]))))"

text \<open>
  The bounds are \<open>Math.min\<close> and \<open>Math.max\<close> of the ordinals of a chunk.  For an empty chunk
  they are the infinities (\<open>None\<close>): nothing is deleted and the summary sorts behind every row.
\<close>

definition replaceContextRangeCore :: "nat \<Rightarrow> (int \<times> int) option \<Rightarrow> string \<Rightarrow> (world, unit) op" where
  "replaceContextRangeCore cid bounds sid =
     bindM (case bounds of None \<Rightarrow> ret () | Some (s, e) \<Rightarrow> deleteContextRange cid s e) (\<lambda>_.
     bindM (getDb (\<lambda>d. case bounds of None \<Rightarrow> maxOrdinal d cid + 1 | Some (s, e) \<Rightarrow> s)) (\<lambda>ord.
     bindM sqlNow (\<lambda>now.
     bindM (insertContextRow (summaryContextRow cid ord sid now)) (\<lambda>_.
     resequence cid))))"

definition replaceContextRangeWithSummary ::
  "nat \<Rightarrow> (int \<times> int) option \<Rightarrow> string \<Rightarrow> (world, unit) op" where
  "replaceContextRangeWithSummary cid bounds sid = bindM (getW (\<lambda>w. w_saved w = [])) (\<lambda>ownsTransaction.
     bindM (if ownsTransaction then sql_exec BeginImmediate else ret ()) (\<lambda>_.
     catchM
       (bindM (replaceContextRangeCore cid bounds sid) (\<lambda>_.
        if ownsTransaction then sql_exec Commit else ret ()))
       (\<lambda>e. bindM (if ownsTransaction then sql_exec Rollback else ret ()) (\<lambda>_. throw e))))"

definition contextTokenCount :: "database \<Rightarrow> nat \<Rightarrow> nat" where
  "contextTokenCount d cid =
     sum_list (concat (map (\<lambda>i.
       map msg_tokenCount (filter (\<lambda>m. ctx_messageId i = Some (msg_id m)) (messages d)))
       (filter (\<lambda>i. ctx_conversationId i = cid \<and> ctx_itemType i = MessageItem) (context_items d))))
   + sum_list (concat (map (\<lambda>i.
       map sum_tokenCount (filter (\<lambda>s. ctx_summaryId i = Some (sum_id s)) (summaries d)))
       (filter (\<lambda>i. ctx_conversationId i = cid \<and> ctx_itemType i = SummaryItem) (context_items d))))"

definition getContextTokenCount :: "nat \<Rightarrow> (world, nat) op" where
  "getContextTokenCount cid = getDb (\<lambda>d. contextTokenCount d cid)"

section \<open>Large files\<close>

definition insertLargeFile :: "large_file_record \<Rightarrow> (world, large_file_record) op" where
  "insertLargeFile input = bindM sqlNow (\<lambda>now.
     let row = input\<lparr>file_createdAt := now\<rparr> in
     bindM (sqlWrite
       (\<lambda>d. if file_id row \<in> set (map file_id (large_files d)) then Some ''large_files.file_id''
            else if \<not> hasConversation d (file_conversationId row) then Some ''large_files.conversation_id''
            else None)
       (\<lambda>d. d\<lparr>large_files := large_files d @ [row]\<rparr>)) (\<lambda>_. ret row))"

definition findLargeFile :: "database \<Rightarrow> string \<Rightarrow> large_file_record option" where
  "findLargeFile d fid = List.find (\<lambda>f. file_id f = fid) (large_files d)"

definition getLargeFile :: "string \<Rightarrow> (world, large_file_record option) op" where
  "getLargeFile fid = getDb (\<lambda>d. findLargeFile d fid)"

definition getLargeFilesByConversation :: "nat \<Rightarrow> (world, large_file_record list) op" where
  "getLargeFilesByConversation cid = getDb (\<lambda>d.
     sort_key file_createdAt (filter (\<lambda>f. file_conversationId f = cid) (large_files d)))"

end
