(* ===== verification/Context_Facts.thy ===== *)
theory Context_Facts
  imports Summary_Store
begin

text \<open>
  The ordered context of a conversation as a list, and what replacing a range of it does: the
  two-phase renumbering of \<open>replaceContextRangeWithSummary\<close> never meets its own primary key
  and leaves the ordinals 0, 1, 2, \<dots> in the old order.
\<close>

section \<open>The context as a list of references\<close>

datatype ctx_ref = MsgRef nat | SumRef string | BadRef

definition ref_of :: "context_item_record \<Rightarrow> ctx_ref" where
  "ref_of i = (case (ctx_itemType i, ctx_messageId i, ctx_summaryId i) of
       (MessageItem, Some m, None) \<Rightarrow> MsgRef m
     | (SummaryItem, None, Some s) \<Rightarrow> SumRef s
     | _ \<Rightarrow> BadRef)"

definition refs :: "database \<Rightarrow> nat \<Rightarrow> ctx_ref list" where
  "refs d cid = map ref_of (contextItems d cid)"

definition contiguous :: "database \<Rightarrow> nat \<Rightarrow> bool" where
  "contiguous d cid \<longleftrightarrow>
     map ctx_ordinal (contextItems d cid) = map int [0..<length (contextItems d cid)]"

definition renumber :: "context_item_record list \<Rightarrow> context_item_record list" where
  "renumber items = map (\<lambda>(i, k). i\<lparr>ctx_ordinal := int k\<rparr>) (zip items [0..<length items])"

lemma ref_of_ordinal [simp]: "ref_of (i\<lparr>ctx_ordinal := k\<rparr>) = ref_of i"
  by (simp add: ref_of_def)

lemma ref_of_rows [simp]:
  "ref_of (messageContextRow cid k m t) = MsgRef m" "ref_of (summaryContextRow cid k s t) = SumRef s"
  by (simp_all add: ref_of_def messageContextRow_def summaryContextRow_def)

lemma ref_of_Msg: "ref_of i = MsgRef m \<longleftrightarrow>
    ctx_itemType i = MessageItem \<and> ctx_messageId i = Some m \<and> ctx_summaryId i = None"
  by (auto simp: ref_of_def split: context_item_type.splits option.splits)

lemma ref_of_Sum: "ref_of i = SumRef s \<longleftrightarrow>
    ctx_itemType i = SummaryItem \<and> ctx_messageId i = None \<and> ctx_summaryId i = Some s"
  by (auto simp: ref_of_def split: context_item_type.splits option.splits)

lemma length_renumber [simp]: "length (renumber xs) = length xs"
  by (simp add: renumber_def)

lemma map_ref_renumber [simp]: "map ref_of (renumber xs) = map ref_of xs"
  by (rule nth_equalityI) (auto simp: renumber_def)

lemma map_ordinal_renumber [simp]: "map ctx_ordinal (renumber xs) = map int [0..<length xs]"
  by (rule nth_equalityI) (auto simp: renumber_def)

lemma map_conv_renumber [simp]:
  "map ctx_conversationId (renumber xs) = map ctx_conversationId xs"
  by (rule nth_equalityI) (auto simp: renumber_def)

lemma set_contextItems:
  "set (contextItems d cid) = {i \<in> set (context_items d). ctx_conversationId i = cid}"
  by (auto simp: contextItems_def)

lemma contextItems_sorted: "sorted (map ctx_ordinal (contextItems d cid))"
  by (simp add: contextItems_def)

text \<open>
  What the primary key and the append rule guarantee of the ordinals: they are distinct and not
  negative.  Deleting a message may leave a gap, so they need not be contiguous.
\<close>

definition ctx_ok :: "database \<Rightarrow> nat \<Rightarrow> bool" where
  "ctx_ok d cid \<longleftrightarrow> distinct (map ctx_ordinal (contextItems d cid))
     \<and> (\<forall>i \<in> set (contextItems d cid). 0 \<le> ctx_ordinal i)"

lemma contiguous_ok: "contiguous d cid \<Longrightarrow> ctx_ok d cid"
proof -
  assume c: "contiguous d cid"
  then have "ctx_ordinal ` set (contextItems d cid) = set (map int [0..<length (contextItems d cid)])"
    unfolding contiguous_def by (metis set_map)
  then have "\<forall>o1 \<in> ctx_ordinal ` set (contextItems d cid). 0 \<le> o1" by auto
  then have "\<forall>i \<in> set (contextItems d cid). 0 \<le> ctx_ordinal i" by blast
  then show ?thesis using c by (simp add: ctx_ok_def contiguous_def distinct_map)
qed

lemma ctx_ok_strict:
  assumes "ctx_ok d cid"
  shows "sorted_wrt (\<lambda>a b. ctx_ordinal a < ctx_ordinal b) (contextItems d cid)"
proof -
  have "sorted_wrt (<) (map ctx_ordinal (contextItems d cid))"
    unfolding strict_sorted_iff using assms contextItems_sorted by (simp add: ctx_ok_def)
  then show ?thesis by (simp add: sorted_wrt_map)
qed

lemma ctx_ok_nonneg: "ctx_ok d cid \<Longrightarrow> i \<in> set (contextItems d cid) \<Longrightarrow> 0 \<le> ctx_ordinal i"
  by (simp add: ctx_ok_def)

section \<open>Renumbering\<close>

definition ordinalsOf :: "nat \<Rightarrow> context_item_record list \<Rightarrow> int list" where
  "ordinalsOf cid items = map ctx_ordinal (filter (\<lambda>i. ctx_conversationId i = cid) items)"

definition relabel :: "nat \<Rightarrow> (int \<rightharpoonup> int) \<Rightarrow> context_item_record list \<Rightarrow> context_item_record list" where
  "relabel cid f items = map (\<lambda>i. if ctx_conversationId i = cid
     then i\<lparr>ctx_ordinal := (case f (ctx_ordinal i) of Some n \<Rightarrow> n | None \<Rightarrow> ctx_ordinal i)\<rparr> else i) items"

lemma sqlWrite_ok: "violation (w_db w) = None \<Longrightarrow>
    sqlWrite violation update w = (Inr (), w\<lparr>w_db := update (w_db w)\<rparr>)"
  by (simp add: sqlWrite_def getDb_def setDb_def)

lemma sqlWrite_cases:
  assumes "sqlWrite violation update w = (r, w')"
  obtains (ok) "violation (w_db w) = None" "r = Inr ()" "w' = w\<lparr>w_db := update (w_db w)\<rparr>"
  | (violated) c where "violation (w_db w) = Some c" "r = Inl (ConstraintError c)" "w' = w"
  using assms
  by (cases "violation (w_db w)") (auto simp: sqlWrite_def getDb_def setDb_def op_apply)

lemma local_sqlWrite [local_rules]: "local_op (sqlWrite violation update)"
  unfolding sqlWrite_def by (rule local_bind [OF local_getDb]) (auto split: option.split intro: local_rules)

lemma effect_sqlWrite:
  assumes "\<And>d. P d \<Longrightarrow> violation d = None \<Longrightarrow> Q () (update d)"
  shows "effect P (sqlWrite violation update) Q"
  by (rule effectI [OF local_sqlWrite]) (auto elim!: sqlWrite_cases intro: assms)

lemma moveOrdinal_relabel:
  assumes "f new = None"
  shows "relabel cid f (moveOrdinal cid old new items) = relabel cid (f(old \<mapsto> new)) items"
  using assms by (auto simp: relabel_def moveOrdinal_def split: option.split)

lemma ordinalsOf_moveOrdinal:
  "set (ordinalsOf cid (moveOrdinal cid old new items)) \<subseteq> insert new (set (ordinalsOf cid items))"
  by (induction items) (auto simp: ordinalsOf_def moveOrdinal_def)

lemma ordinalsOf_relabel: "ordinalsOf cid (relabel cid f items) =
    map (\<lambda>o1. case f o1 of Some n \<Rightarrow> n | None \<Rightarrow> o1) (ordinalsOf cid items)"
  by (induction items) (auto simp: ordinalsOf_def relabel_def)

lemma ordinalsOf_mem: "i \<in> set items \<Longrightarrow> ctx_conversationId i = cid \<Longrightarrow> ctx_ordinal i \<in> set (ordinalsOf cid items)"
  by (simp add: ordinalsOf_def)

text \<open>Moves whose targets are unused reach the relabelled rows, whatever their order.\<close>

lemma moveOrdinals_run:
  assumes "distinct (map fst moves)" and "distinct (map snd moves)"
    and "set (map snd moves) \<inter> set (map fst moves) = {}"
    and "set (map snd moves) \<inter> set (ordinalsOf cid (context_items (w_db w))) = {}"
  shows "moveOrdinals cid moves w = (Inr (), w\<lparr>w_db := (w_db w)\<lparr>context_items :=
     relabel cid (map_of moves) (context_items (w_db w))\<rparr>\<rparr>)"
  using assms
proof (induction moves arbitrary: w)
  case Nil
  have "relabel cid Map.empty items = items" for items
    by (rule nth_equalityI) (auto simp: relabel_def)
  then show ?case by (simp add: op_apply)
next
  case (Cons move moves)
  obtain old new where move: "move = (old, new)" by (cases move)
  let ?items = "context_items (w_db w)"
  let ?w = "w\<lparr>w_db := (w_db w)\<lparr>context_items := moveOrdinal cid old new ?items\<rparr>\<rparr>"
  have new: "new \<notin> set (ordinalsOf cid ?items)" using Cons.prems(4) move by auto
  have step: "updateOrdinal cid new old w = (Inr (), ?w)"
    unfolding updateOrdinal_def
    by (rule trans, rule sqlWrite_ok) (use new in \<open>auto dest: ordinalsOf_mem\<close>)
  have "moveOrdinals cid moves ?w = (Inr (), ?w\<lparr>w_db := (w_db ?w)\<lparr>context_items :=
     relabel cid (map_of moves) (context_items (w_db ?w))\<rparr>\<rparr>)"
  proof (rule Cons.IH)
    show "set (map snd moves) \<inter> set (ordinalsOf cid (context_items (w_db ?w))) = {}"
    proof (rule ccontr)
      assume "\<not> ?thesis"
      then obtain x where x: "x \<in> set (map snd moves)"
        and "x \<in> set (ordinalsOf cid (moveOrdinal cid old new ?items))" by auto
      then have "x = new \<or> x \<in> set (ordinalsOf cid ?items)"
        using ordinalsOf_moveOrdinal by blast
      with x Cons.prems(2,4) move show False by auto
    qed
  qed (use Cons.prems move in auto)
  moreover have "map_of moves new = None"
    using Cons.prems move by (auto simp: map_of_eq_None_iff)
  ultimately show ?case
    by (simp add: move bindM_def step moveOrdinal_relabel fun_upd_def)
qed

lemma relabel_relabel:
  assumes "\<And>o1 n. f o1 = Some n \<Longrightarrow> g n = Some (h o1)" and "\<And>o1. o1 \<in> set (ordinalsOf cid items) \<Longrightarrow> f o1 \<noteq> None"
  shows "relabel cid g (relabel cid f items) = relabel cid (\<lambda>o1. Some (h o1)) items"
proof -
  have "ctx_conversationId i = cid \<Longrightarrow> i \<in> set items \<Longrightarrow> \<exists>n. f (ctx_ordinal i) = Some n" for i
    using assms(2) [OF ordinalsOf_mem] by blast
  then have "\<exists>n. f (ctx_ordinal i) = Some n \<and> g n = Some (h (ctx_ordinal i))"
    if "i \<in> set items" and "ctx_conversationId i = cid" for i
    using that assms(1) by blast
  then show ?thesis
    unfolding relabel_def map_map by (intro map_cong refl) force
qed

lemma relabel_cong:
  assumes "\<And>o1. o1 \<in> set (ordinalsOf cid items) \<Longrightarrow> f o1 = g o1"
  shows "relabel cid f items = relabel cid g items"
  using assms [OF ordinalsOf_mem] by (auto simp: relabel_def)

definition rankIn :: "int list \<Rightarrow> int \<Rightarrow> int" where
  "rankIn ords o1 = int (length (takeWhile (\<lambda>x. x \<noteq> o1) ords))"

lemma rankIn_nth:
  assumes "distinct ords" and "k < length ords"
  shows "rankIn ords (ords ! k) = int k"
proof -
  have "takeWhile (\<lambda>x. x \<noteq> ords ! k) ords = take k ords"
    using assms by (intro takeWhile_eq_take_P_nth) (auto simp: nth_eq_iff_index_eq)
  then show ?thesis using assms by (simp add: rankIn_def)
qed

text \<open>The two phases of \<open>resequence\<close> move every row to its rank.\<close>

lemma resequence_run:
  fixes w :: world and cid :: nat
  defines "d \<equiv> w_db w"
  defines "ords \<equiv> map ctx_ordinal (contextItems d cid)"
  assumes "distinct ords" and "\<And>o1. o1 \<in> set ords \<Longrightarrow> 0 \<le> o1"
  shows "resequence cid w = (Inr (), w\<lparr>w_db := d\<lparr>context_items :=
     relabel cid (\<lambda>o1. Some (rankIn ords o1)) (context_items d)\<rparr>\<rparr>)"
proof -
  let ?n = "length ords" and ?items = "context_items d"
  let ?temps = "map temporaryOrdinal [0..<?n]" and ?ranks = "map int [0..<?n]"
  let ?f = "map_of (zip ords ?temps)" and ?g = "map_of (zip ?temps ?ranks)"
  have ords: "set (ordinalsOf cid ?items) = set ords"
    by (simp add: ords_def ordinalsOf_def contextItems_def)
  have inj: "inj temporaryOrdinal" by (auto simp: inj_def temporaryOrdinal_def)
  have temps: "distinct ?temps" "set ?temps \<inter> set ords = {}"
    using assms(4) inj by (force simp: distinct_map inj_on_def temporaryOrdinal_def)+
  have f: "?f (ords ! k) = Some (temporaryOrdinal k)" if "k < ?n" for k
    using that assms(3) map_of_zip_nth [of ords ?temps k] by simp
  have g: "?g (temporaryOrdinal k) = Some (int k)" if "k < ?n" for k
    using that temps(1) map_of_zip_nth [of ?temps ?ranks k] by simp
  let ?w = "w\<lparr>w_db := d\<lparr>context_items := relabel cid ?f ?items\<rparr>\<rparr>"
  have phase1: "moveOrdinals cid (zip ords ?temps) w = (Inr (), ?w)"
    using assms(3) temps ords
    by (subst moveOrdinals_run) (simp_all add: d_def)
  have "set (ordinalsOf cid (relabel cid ?f ?items)) \<subseteq> set ?temps"
  proof
    fix x assume "x \<in> set (ordinalsOf cid (relabel cid ?f ?items))"
    then obtain o1 where "o1 \<in> set ords" and x: "x = (case ?f o1 of Some n \<Rightarrow> n | None \<Rightarrow> o1)"
      using ords by (auto simp: ordinalsOf_relabel)
    then obtain k where "k < ?n" "o1 = ords ! k" by (auto simp: in_set_conv_nth)
    then show "x \<in> set ?temps" using x f by simp
  qed
  moreover have "set ?ranks \<inter> set ?temps = {}" by (auto simp: temporaryOrdinal_def)
  ultimately have ranks: "set ?ranks \<inter> set (ordinalsOf cid (context_items (w_db ?w))) = {}"
    by auto
  have "set ?ranks \<inter> set ?temps = {}" by (auto simp: temporaryOrdinal_def)
  then have phase2: "moveOrdinals cid (zip ?temps ?ranks) ?w = (Inr (), ?w\<lparr>w_db := (w_db ?w)\<lparr>
      context_items := relabel cid ?g (context_items (w_db ?w))\<rparr>\<rparr>)"
    using temps(1) ranks by (subst moveOrdinals_run) (simp_all add: distinct_map Int_commute)
  have "relabel cid ?g (relabel cid ?f ?items) = relabel cid (\<lambda>o1. Some (rankIn ords o1)) ?items"
  proof (rule relabel_relabel)
    fix o1 n assume "?f o1 = Some n"
    then have "o1 \<in> set ords" by (auto dest: map_of_SomeD set_zip_leftD)
    then obtain k where "k < ?n" "o1 = ords ! k" by (auto simp: in_set_conv_nth)
    then show "?g n = Some (rankIn ords o1)"
      using \<open>?f o1 = Some n\<close> f g rankIn_nth [OF assms(3)] by auto
  next
    fix o1 assume "o1 \<in> set (ordinalsOf cid ?items)"
    then show "?f o1 \<noteq> None" using ords by (simp add: map_of_zip_is_None)
  qed
  moreover have "resequence cid w = bindM (moveOrdinals cid (zip ords ?temps))
      (\<lambda>_. moveOrdinals cid (zip ?temps ?ranks)) w"
    by (simp only: resequence_def getDb_def bindM_getW Let_def d_def ords_def)
  ultimately show ?thesis using phase1 phase2 by (simp add: bindM_def)
qed

section \<open>The renumbered context\<close>

lemma contextItems_update [simp]:
  "contextItems (d\<lparr>context_items := items\<rparr>) cid =
     sort_key ctx_ordinal (filter (\<lambda>i. ctx_conversationId i = cid) items)"
  by (simp add: contextItems_def)

lemma sorted_map_int_upt [simp]: "sorted (map int [0..<n])"
  by (simp add: sorted_iff_nth_mono)

lemma sort_key_unique:
  assumes "mset xs = mset ys" and "distinct (map f ys)" and "sorted (map f ys)"
  shows "sort_key f xs = ys"
  using assms mset_eq_setD [OF assms(1)] by (intro sort_key_inj_key_eq) (auto simp: distinct_map)

lemma filter_relabel:
  "filter (\<lambda>i. ctx_conversationId i = c) (relabel cid f items) =
     relabel cid f (filter (\<lambda>i. ctx_conversationId i = c) items)"
  by (induction items) (auto simp: relabel_def)

lemma relabel_other: "c \<noteq> cid \<Longrightarrow>
    relabel cid f (filter (\<lambda>i. ctx_conversationId i = c) items) = filter (\<lambda>i. ctx_conversationId i = c) items"
  by (induction items) (auto simp: relabel_def)

lemma contextItems_relabel_other:
  assumes "c \<noteq> cid"
  shows "contextItems (d\<lparr>context_items := relabel cid f (context_items d)\<rparr>) c = contextItems d c"
  using assms by (simp add: filter_relabel relabel_other) (simp add: contextItems_def)

lemma mset_relabel: "mset xs = mset ys \<Longrightarrow> mset (relabel cid f xs) = mset (relabel cid f ys)"
  unfolding relabel_def mset_map by simp

lemma relabel_rank:
  assumes "distinct (map ctx_ordinal items)" and "\<forall>i \<in> set items. ctx_conversationId i = cid"
  shows "relabel cid (\<lambda>o1. Some (rankIn (map ctx_ordinal items) o1)) items = renumber items"
proof (rule nth_equalityI)
  fix k assume "k < length (relabel cid (\<lambda>o1. Some (rankIn (map ctx_ordinal items) o1)) items)"
  then have k: "k < length items" by (simp add: relabel_def)
  then have "rankIn (map ctx_ordinal items) (ctx_ordinal (items ! k)) = int k"
    using rankIn_nth [OF assms(1), of k] by simp
  then show "relabel cid (\<lambda>o1. Some (rankIn (map ctx_ordinal items) o1)) items ! k = renumber items ! k"
    using k assms(2) by (simp add: relabel_def renumber_def)
qed (simp add: relabel_def)

lemma contextItems_renumbered:
  assumes "distinct (map ctx_ordinal (contextItems d cid))"
  shows "contextItems (d\<lparr>context_items := relabel cid
     (\<lambda>o1. Some (rankIn (map ctx_ordinal (contextItems d cid)) o1)) (context_items d)\<rparr>) cid
     = renumber (contextItems d cid)"
proof -
  let ?L = "contextItems d cid"
  let ?f = "\<lambda>o1. Some (rankIn (map ctx_ordinal ?L) o1)"
  let ?rows = "filter (\<lambda>i. ctx_conversationId i = cid) (context_items d)"
  have "mset (relabel cid ?f ?rows) = mset (relabel cid ?f ?L)"
    by (rule mset_relabel) (simp add: contextItems_def)
  also have "relabel cid ?f ?L = renumber ?L"
    by (rule relabel_rank [OF assms]) (simp add: set_contextItems)
  finally have "mset (relabel cid ?f ?rows) = mset (renumber ?L)" .
  then have "sort_key ctx_ordinal (relabel cid ?f ?rows) = renumber ?L"
    by (rule sort_key_unique) (simp_all add: distinct_map)
  then show ?thesis by (simp add: filter_relabel)
qed

section \<open>Replacing a range\<close>

lemma sorted_wrt_insert_mid:
  assumes "sorted_wrt (\<lambda>a b. ctx_ordinal a < ctx_ordinal b) (pre @ mid @ suf)" and "mid \<noteq> []"
    and "ctx_ordinal row = ctx_ordinal (hd mid)"
  shows "sorted_wrt (\<lambda>a b. ctx_ordinal a < ctx_ordinal b) (pre @ row # suf)"
  using assms by (cases mid) (auto simp: sorted_wrt_append)

lemma strict_ordinals:
  "sorted_wrt (\<lambda>a b. ctx_ordinal a < ctx_ordinal b) xs \<Longrightarrow>
     sorted (map ctx_ordinal xs) \<and> distinct (map ctx_ordinal xs)"
  using strict_sorted_iff [of "map ctx_ordinal xs"] by (simp add: sorted_wrt_map)

lemma sorted_map_bounds:
  assumes "sorted (map ctx_ordinal mid)"
  shows "\<forall>i \<in> set mid. ctx_ordinal (hd mid) \<le> ctx_ordinal i \<and> ctx_ordinal i \<le> ctx_ordinal (last mid)"
  using assms
proof (induction mid)
  case (Cons a mid)
  then show ?case
  proof (cases mid)
    case (Cons b rest)
    then have "\<forall>i \<in> set mid. ctx_ordinal b \<le> ctx_ordinal i \<and> ctx_ordinal i \<le> ctx_ordinal (last mid)"
      and "ctx_ordinal a \<le> ctx_ordinal b" and "b \<in> set mid"
      using Cons.IH Cons.prems by auto
    then show ?thesis using Cons by fastforce
  qed simp
qed simp

text \<open>The rows of the range are exactly the chunk, when the ordinals are strictly increasing.\<close>

lemma filter_range:
  assumes sorted: "sorted_wrt (\<lambda>a b. ctx_ordinal a < ctx_ordinal b) (pre @ mid @ suf)" and "mid \<noteq> []"
    and s: "s = ctx_ordinal (hd mid)" and e: "e = ctx_ordinal (last mid)"
  shows "filter (\<lambda>i. \<not> (s \<le> ctx_ordinal i \<and> ctx_ordinal i \<le> e)) (pre @ mid @ suf) = pre @ suf"
proof -
  have hd: "hd mid \<in> set mid" and last: "last mid \<in> set mid" using \<open>mid \<noteq> []\<close> by auto
  have pre: "\<forall>i \<in> set pre. ctx_ordinal i < s" and suf: "\<forall>i \<in> set suf. e < ctx_ordinal i"
    using sorted hd last by (auto simp: sorted_wrt_append s e)
  have "sorted (map ctx_ordinal mid)"
    using sorted strict_ordinals by (auto simp: sorted_wrt_append)
  then have mid: "\<forall>i \<in> set mid. s \<le> ctx_ordinal i \<and> ctx_ordinal i \<le> e"
    unfolding s e by (rule sorted_map_bounds)
  show ?thesis using pre mid suf by (auto simp: filter_id_conv filter_empty_conv not_le)
qed

text \<open>Inserting the summary where the range was leaves the order of the rest alone.\<close>

lemma contextItems_after_insert:
  assumes items: "contextItems d cid = pre @ mid @ suf" and "mid \<noteq> []" and "ctx_ok d cid"
    and row: "ctx_conversationId row = cid" "ctx_ordinal row = ctx_ordinal (hd mid)"
    and d': "d' = d\<lparr>context_items := filter (\<lambda>i. \<not> (ctx_conversationId i = cid
        \<and> ctx_ordinal (hd mid) \<le> ctx_ordinal i \<and> ctx_ordinal i \<le> ctx_ordinal (last mid)))
        (context_items d) @ [row]\<rparr>"
  shows "contextItems d' cid = pre @ row # suf"
proof -
  let ?P = "\<lambda>i. \<not> (ctx_ordinal (hd mid) \<le> ctx_ordinal i \<and> ctx_ordinal i \<le> ctx_ordinal (last mid))"
  let ?rows = "filter (\<lambda>i. ctx_conversationId i = cid) (context_items d)"
  have strict: "sorted_wrt (\<lambda>a b. ctx_ordinal a < ctx_ordinal b) (pre @ mid @ suf)"
    using ctx_ok_strict [OF assms(3)] items by simp
  have "filter ?P (contextItems d cid) = pre @ suf"
    unfolding items by (rule filter_range [OF strict assms(2) refl refl])
  then have "mset (filter ?P ?rows) = mset (pre @ suf)"
    by (metis contextItems_def mset_filter mset_sort)
  moreover have "filter (\<lambda>i. ctx_conversationId i = cid) (context_items d') = filter ?P ?rows @ [row]"
    unfolding d' using row(1) by (simp add: conj_commute) (rule filter_cong, auto)
  ultimately have "mset (filter (\<lambda>i. ctx_conversationId i = cid) (context_items d')) = mset (pre @ row # suf)"
    by simp
  then show ?thesis
    unfolding contextItems_def
    using strict_ordinals [OF sorted_wrt_insert_mid [OF strict assms(2) row(2)]]
    by (intro sort_key_unique) auto
qed

lemma contextItems_delete_other:
  assumes "c \<noteq> cid" and "ctx_conversationId row = cid"
    and "d' = d\<lparr>context_items := filter (\<lambda>i. \<not> (ctx_conversationId i = cid \<and> P i)) (context_items d) @ [row]\<rparr>"
  shows "contextItems d' c = contextItems d c"
proof -
  have "filter (\<lambda>i. ctx_conversationId i = c) (filter (\<lambda>i. \<not> (ctx_conversationId i = cid \<and> P i)) (context_items d))
      = filter (\<lambda>i. ctx_conversationId i = c) (context_items d)"
    using assms(1) by (simp add: conj_commute) (rule filter_cong, auto)
  then show ?thesis using assms by (simp add: contextItems_def)
qed

definition spliced :: "database \<Rightarrow> nat \<Rightarrow> context_item_record list \<Rightarrow> context_item_record
    \<Rightarrow> context_item_record list \<Rightarrow> database \<Rightarrow> bool" where
  "spliced d cid pre row suf d' \<longleftrightarrow> (\<exists>items. d' = d\<lparr>context_items := items\<rparr>)
     \<and> contextItems d' cid = renumber (pre @ row # suf)
     \<and> (\<forall>c. c \<noteq> cid \<longrightarrow> contextItems d' c = contextItems d c)"

lemma resequence_spliced:
  assumes "contextItems (w_db w) cid = items" and "distinct (map ctx_ordinal items)"
    and "\<forall>i \<in> set items. 0 \<le> ctx_ordinal i"
  obtains d' where "resequence cid w = (Inr (), w\<lparr>w_db := d'\<rparr>)"
    and "\<exists>rows. d' = (w_db w)\<lparr>context_items := rows\<rparr>" and "contextItems d' cid = renumber items"
    and "\<forall>c. c \<noteq> cid \<longrightarrow> contextItems d' c = contextItems (w_db w) c"
proof
  let ?d = "w_db w" and ?ords = "map ctx_ordinal (contextItems (w_db w) cid)"
  let ?d' = "?d\<lparr>context_items := relabel cid (\<lambda>o1. Some (rankIn ?ords o1)) (context_items ?d)\<rparr>"
  show "resequence cid w = (Inr (), w\<lparr>w_db := ?d'\<rparr>)"
    by (rule resequence_run) (use assms in auto)
  show "contextItems ?d' cid = renumber items"
    using contextItems_renumbered [of ?d cid] assms(1,2) by simp
  show "\<forall>c. c \<noteq> cid \<longrightarrow> contextItems ?d' c = contextItems ?d c"
    by (blast intro: contextItems_relabel_other)
qed blast

text \<open>
  The replacement of a chunk of the context succeeds and leaves the context with the
  chunk replaced by the summary, renumbered from 0.
\<close>

lemma replaceContextRangeCore_run:
  assumes items: "contextItems (w_db w) cid = pre @ mid @ suf" and "mid \<noteq> []"
    and con: "ctx_ok (w_db w) cid" and fk: "hasConversation (w_db w) cid" "hasSummary (w_db w) sid"
  obtains d' now where
    "replaceContextRangeCore cid (Some (ctx_ordinal (hd mid), ctx_ordinal (last mid))) sid w =
       (Inr (), w\<lparr>w_db := d', w_reads := Suc (w_reads w)\<rparr>)"
    and "spliced (w_db w) cid pre (summaryContextRow cid (ctx_ordinal (hd mid)) sid now) suf d'"
proof -
  let ?d = "w_db w" and ?s = "ctx_ordinal (hd mid)" and ?e = "ctx_ordinal (last mid)"
  let ?now = "w_clock w (w_reads w) div 1000 * 1000"
  let ?row = "summaryContextRow cid ?s sid ?now"
  let ?del = "\<lambda>i. \<not> (ctx_conversationId i = cid \<and> ?s \<le> ctx_ordinal i \<and> ctx_ordinal i \<le> ?e)"
  define rows where "rows = filter ?del (context_items ?d)"
  let ?d1 = "?d\<lparr>context_items := rows\<rparr>" and ?d2 = "?d\<lparr>context_items := rows @ [?row]\<rparr>"
  let ?w1 = "w\<lparr>w_db := ?d1, w_reads := Suc (w_reads w)\<rparr>"
  let ?w2 = "w\<lparr>w_db := ?d2, w_reads := Suc (w_reads w)\<rparr>"
  have strict: "sorted_wrt (\<lambda>a b. ctx_ordinal a < ctx_ordinal b) (pre @ mid @ suf)"
    using ctx_ok_strict [OF con] items by simp
  have row: "ctx_conversationId ?row = cid" "ctx_ordinal ?row = ?s"
    by (simp_all add: summaryContextRow_def)
  have items2: "contextItems ?d2 cid = pre @ ?row # suf"
    by (rule contextItems_after_insert [OF items assms(2) con row]) (simp add: rows_def)
  have "sorted (map ctx_ordinal mid)"
    using strict_ordinals [OF strict] by (simp add: sorted_append)
  then have se: "?s \<le> ?e" using sorted_map_bounds assms(2) last_in_set by blast
  have key: "\<not> (\<exists>i \<in> set (context_items ?d1). ctx_conversationId i = cid \<and> ctx_ordinal i = ?s)"
    using se by (simp add: rows_def, metis order_refl)
  have fk': "hasConversation ?d1 cid" "hasSummary ?d1 sid"
    using fk by (simp_all add: hasConversation_def hasSummary_def)
  have viol: "contextViolation ?row ?d1 = None"
    unfolding contextViolation_def using key fk' by (simp add: summaryContextRow_def)
  have insert: "insertContextRow ?row ?w1 = (Inr (), ?w2)"
    unfolding insertContextRow_def by (rule trans, rule sqlWrite_ok) (use viol in simp_all)
  have delete: "deleteContextRange cid ?s ?e w = (Inr (), w\<lparr>w_db := ?d1\<rparr>)"
    by (simp add: deleteContextRange_def setDb_def rows_def)
  have "replaceContextRangeCore cid (Some (?s, ?e)) sid w = resequence cid ?w2"
    using insert by (simp add: replaceContextRangeCore_def delete getDb_def sqlNow_def bindM_def)
  moreover have "distinct (map ctx_ordinal (pre @ ?row # suf))"
    using strict_ordinals [OF sorted_wrt_insert_mid [OF strict assms(2) row(2)]] by blast
  moreover have "\<forall>i \<in> set (pre @ ?row # suf). 0 \<le> ctx_ordinal i"
    using ctx_ok_nonneg [OF con] assms(2) row(2) unfolding items by auto
  moreover have "contextItems ?d2 c = contextItems ?d c" if "c \<noteq> cid" for c
    by (rule contextItems_delete_other [OF that row(1),
        where P = "\<lambda>i. ?s \<le> ctx_ordinal i \<and> ctx_ordinal i \<le> ?e"]) (simp only: rows_def)
  moreover obtain d' where "resequence cid ?w2 = (Inr (), ?w2\<lparr>w_db := d'\<rparr>)"
    and rows: "\<exists>rows. d' = (w_db ?w2)\<lparr>context_items := rows\<rparr>"
    and "contextItems d' cid = renumber (pre @ ?row # suf)"
    and "\<forall>c. c \<noteq> cid \<longrightarrow> contextItems d' c = contextItems (w_db ?w2) c"
    by (rule resequence_spliced [of ?w2 cid "pre @ ?row # suf"]) (use items2 calculation in simp_all)
  moreover have "\<exists>rows. d' = ?d\<lparr>context_items := rows\<rparr>"
    using rows by auto
  ultimately show ?thesis
    by (intro that [of d' ?now]) (simp_all add: spliced_def)
qed

lemma spliced_refs:
  assumes "spliced d cid pre (summaryContextRow cid k sid now) suf d'"
  shows "refs d' cid = map ref_of pre @ SumRef sid # map ref_of suf"
    and "contiguous d' cid" and "c \<noteq> cid \<Longrightarrow> refs d' c = refs d c"
    and "c \<noteq> cid \<Longrightarrow> ctx_ok d' c = ctx_ok d c"
  using assms by (auto simp: spliced_def refs_def contiguous_def ctx_ok_def)

section \<open>Appending\<close>

lemma maxOrdinal_bound:
  assumes "i \<in> set (contextItems d cid)"
  shows "ctx_ordinal i \<le> maxOrdinal d cid"
proof -
  have fold: "x \<le> foldr max os o1" if "x \<in> insert o1 (set os)" for x o1 :: int and os
    using that by (induction os) auto
  have "ctx_ordinal i \<in> set (map ctx_ordinal (filter (\<lambda>i. ctx_conversationId i = cid) (context_items d)))"
    using assms by (simp add: contextItems_def)
  then show ?thesis
    unfolding maxOrdinal_def by (auto split: list.split intro: fold simp del: set_map)
qed

lemma maxOrdinal_lower:
  assumes "ctx_ok d cid"
  shows "- 1 \<le> maxOrdinal d cid"
proof (cases "contextItems d cid")
  case Nil
  then have "filter (\<lambda>i. ctx_conversationId i = cid) (context_items d) = []"
    by (metis contextItems_def length_0_conv length_sort)
  then show ?thesis by (simp add: maxOrdinal_def)
next
  case (Cons i rest)
  then have "0 \<le> ctx_ordinal i" and "ctx_ordinal i \<le> maxOrdinal d cid"
    using assms maxOrdinal_bound [of i] by (simp_all add: ctx_ok_def)
  then show ?thesis by simp
qed

text \<open>A row behind every other row of its conversation.\<close>

definition behind :: "database \<Rightarrow> nat \<Rightarrow> int \<Rightarrow> bool" where
  "behind d cid k \<longleftrightarrow> 0 \<le> k \<and> (\<forall>i \<in> set (contextItems d cid). ctx_ordinal i < k)"

lemma behind_max: "ctx_ok d cid \<Longrightarrow> behind d cid (maxOrdinal d cid + 1)"
  using maxOrdinal_lower by (force simp: behind_def dest: maxOrdinal_bound)

lemma contextItems_append:
  assumes "ctx_ok d cid" and "ctx_conversationId row = cid" and "behind d cid (ctx_ordinal row)"
  shows "contextItems (d\<lparr>context_items := context_items d @ [row]\<rparr>) cid = contextItems d cid @ [row]"
    and "ctx_ok (d\<lparr>context_items := context_items d @ [row]\<rparr>) cid"
proof -
  let ?d = "d\<lparr>context_items := context_items d @ [row]\<rparr>"
  have "mset (filter (\<lambda>i. ctx_conversationId i = cid) (context_items ?d)) = mset (contextItems d cid @ [row])"
    using assms(2) by (simp add: contextItems_def)
  moreover have "sorted_wrt (\<lambda>a b. ctx_ordinal a < ctx_ordinal b) (contextItems d cid @ [row])"
    using ctx_ok_strict [OF assms(1)] assms(3) by (simp add: sorted_wrt_append behind_def)
  ultimately show items: "contextItems ?d cid = contextItems d cid @ [row]"
    unfolding contextItems_def [of ?d] using strict_ordinals by (intro sort_key_unique) blast+
  show "ctx_ok ?d cid"
    using assms(1,3) unfolding ctx_ok_def items by (force simp: behind_def)
qed

lemma contextItems_append_other:
  "ctx_conversationId row \<noteq> c \<Longrightarrow>
     contextItems (d\<lparr>context_items := context_items d @ [row]\<rparr>) c = contextItems d c"
  by (simp add: contextItems_def)

text \<open>
  \<open>grown d cid rs d'\<close>: only the context changed, that of \<open>cid\<close> by appending \<open>rs\<close>.
\<close>

definition grown :: "database \<Rightarrow> nat \<Rightarrow> ctx_ref list \<Rightarrow> database \<Rightarrow> bool" where
  "grown d cid rs d' \<longleftrightarrow> (\<exists>items. d' = d\<lparr>context_items := items\<rparr>)
     \<and> refs d' cid = refs d cid @ rs \<and> ctx_ok d' cid
     \<and> (\<forall>c. c \<noteq> cid \<longrightarrow> contextItems d' c = contextItems d c)"

lemma grown_row:
  assumes "ctx_ok d cid" and "ctx_conversationId row = cid" and "behind d cid (ctx_ordinal row)"
  shows "grown d cid [ref_of row] (d\<lparr>context_items := context_items d @ [row]\<rparr>)"
  using contextItems_append [OF assms] contextItems_append_other [of row _ d] assms(2)
  by (auto simp: grown_def refs_def)

lemma grown_refl: "ctx_ok d cid \<Longrightarrow> grown d cid [] d"
  by (auto simp: grown_def intro: exI [of _ "context_items d"])

lemma grown_trans: "grown d cid rs d' \<Longrightarrow> grown d' cid rs' d'' \<Longrightarrow> grown d cid (rs @ rs') d''"
  by (auto simp: grown_def)

lemma insertContextRow_fresh:
  assumes "ctx_conversationId row = cid" and "behind (w_db w) cid (ctx_ordinal row)"
    and "hasConversation (w_db w) cid"
    and "case ctx_messageId row of Some m \<Rightarrow> hasMessage_row (w_db w) m | None \<Rightarrow> True"
    and "case ctx_summaryId row of Some s \<Rightarrow> hasSummary (w_db w) s | None \<Rightarrow> True"
  shows "insertContextRow row w =
    (Inr (), w\<lparr>w_db := (w_db w)\<lparr>context_items := context_items (w_db w) @ [row]\<rparr>\<rparr>)"
proof -
  have "ctx_ordinal i \<noteq> ctx_ordinal row" if "i \<in> set (context_items (w_db w))" and "ctx_conversationId i = cid" for i
    using assms(2) that by (auto simp: behind_def set_contextItems)
  then have "\<not> (\<exists>i \<in> set (context_items (w_db w)). ctx_conversationId i = ctx_conversationId row
      \<and> ctx_ordinal i = ctx_ordinal row)"
    using assms(1) by blast
  moreover have "\<not> (case ctx_messageId row of Some m \<Rightarrow> \<not> hasMessage_row (w_db w) m | None \<Rightarrow> False)"
    using assms(4) by (simp split: option.splits)
  moreover have "\<not> (case ctx_summaryId row of Some s \<Rightarrow> \<not> hasSummary (w_db w) s | None \<Rightarrow> False)"
    using assms(5) by (simp split: option.splits)
  ultimately have "contextViolation row (w_db w) = None"
    using assms(1,3) by (simp add: contextViolation_def)
  then show ?thesis by (simp add: insertContextRow_def sqlWrite_ok)
qed

lemma appendContextMessagesFrom_run:
  assumes "ctx_ok (w_db w) cid" and "hasConversation (w_db w) cid"
    and "\<forall>m \<in> set ms. hasMessage_row (w_db w) m" and "behind (w_db w) cid ord"
  shows "\<exists>d' n. appendContextMessagesFrom cid ord ms w = (Inr (), w\<lparr>w_db := d', w_reads := n\<rparr>)
     \<and> grown (w_db w) cid (map MsgRef ms) d'"
  using assms
proof (induction ms arbitrary: w ord)
  case Nil
  have "w = w\<lparr>w_db := w_db w, w_reads := w_reads w\<rparr>" by simp
  then show ?case using grown_refl [OF Nil(1)] by (metis appendContextMessagesFrom.simps(1) list.map(1) ret_apply)
next
  case (Cons m ms)
  let ?now = "w_clock w (w_reads w) div 1000 * 1000" and ?v = "w\<lparr>w_reads := Suc (w_reads w)\<rparr>"
  let ?row = "messageContextRow cid ord m ?now"
  let ?d1 = "(w_db w)\<lparr>context_items := context_items (w_db w) @ [?row]\<rparr>"
  let ?w1 = "?v\<lparr>w_db := ?d1\<rparr>"
  have row: "ctx_conversationId ?row = cid" "behind (w_db w) cid (ctx_ordinal ?row)"
    using Cons.prems(4) by (simp_all add: messageContextRow_def)
  have ins: "insertContextRow ?row ?v = (Inr (), ?w1)"
    using insertContextRow_fresh [of ?row cid ?v] row Cons.prems by (simp add: messageContextRow_def)
  have g: "grown (w_db w) cid [MsgRef m] ?d1"
    using grown_row [OF Cons.prems(1) row] by simp
  have "\<exists>d' n. appendContextMessagesFrom cid (ord + 1) ms ?w1 = (Inr (), ?w1\<lparr>w_db := d', w_reads := n\<rparr>)
     \<and> grown (w_db ?w1) cid (map MsgRef ms) d'"
  proof (rule Cons.IH)
    show "ctx_ok (w_db ?w1) cid" using g by (simp add: grown_def)
    show "hasConversation (w_db ?w1) cid" using Cons.prems(2) by (simp add: hasConversation_def)
    show "\<forall>m \<in> set ms. hasMessage_row (w_db ?w1) m" using Cons.prems(3) by (simp add: hasMessage_row_def)
    show "behind (w_db ?w1) cid (ord + 1)"
      using contextItems_append(1) [OF Cons.prems(1) row] Cons.prems(4)
      by (auto simp: behind_def messageContextRow_def simp del: contextItems_update)
  qed
  then obtain d' n where
    rest: "appendContextMessagesFrom cid (ord + 1) ms ?w1 = (Inr (), ?w1\<lparr>w_db := d', w_reads := n\<rparr>)"
    and "grown ?d1 cid (map MsgRef ms) d'" by auto
  moreover have "sqlNow w = (Inr ?now, ?v)" by (simp add: sqlNow_def)
  ultimately show ?case
    using ins grown_trans [OF g] by (intro exI [of _ d'] exI [of _ n]) (simp add: bindM_def)
qed

lemma appendContextMessages_run:
  assumes "ctx_ok (w_db w) cid" and "hasConversation (w_db w) cid"
    and "\<forall>m \<in> set ms. hasMessage_row (w_db w) m"
  shows "\<exists>d' n. appendContextMessages cid ms w = (Inr (), w\<lparr>w_db := d', w_reads := n\<rparr>)
     \<and> grown (w_db w) cid (map MsgRef ms) d'"
proof (cases "ms = []")
  case True
  then show ?thesis
    using appendContextMessagesFrom_run [OF assms behind_max [OF assms(1)]]
    by (simp add: appendContextMessages_def)
next
  case False
  then show ?thesis
    using appendContextMessagesFrom_run [OF assms behind_max [OF assms(1)]]
    by (simp add: appendContextMessages_def getDb_def)
qed

end
