(* ===== verification/Conversation_Store.thy ===== *)
theory Conversation_Store
  imports Context_Facts
begin

text \<open>
  \<open>src/store/conversation-store.ts\<close> and the transcript slot markers of
  \<open>src/storage/contracts.ts\<close>: conversations, messages and their parts, with the validation of
  their inputs.  The operations run under the storage executor, so the store's own direct
  transactions (\<open>withTransaction\<close>, \<open>withAtomicOperation\<close>) and its searches are not modelled.
\<close>

section \<open>Validation\<close>

definition isSafeInteger :: "js_number \<Rightarrow> bool" where
  "isSafeInteger x = (case x of Num a \<Rightarrow> a = of_int \<lfloor>a\<rfloor> \<and> \<bar>a\<bar> \<le> of_nat maxSafeInteger | _ \<Rightarrow> False)"

definition validateConversationText :: "string option \<Rightarrow> string \<Rightarrow> lcm_error + unit" where
  "validateConversationText v field =
     (case v of Some s \<Rightarrow> if CHR 0x00 \<in> set s then Inl (InputError field) else Inr () | None \<Rightarrow> Inr ())"

definition validateNonNegativeSafeInteger :: "js_number \<Rightarrow> string \<Rightarrow> lcm_error + unit" where
  "validateNonNegativeSafeInteger v field =
     (if \<not> isSafeInteger v \<or> js_less v (Num 0) then Inl (RangeError field) else Inr ())"

text \<open>Validations one after the other: the first error wins.\<close>

fun firstError :: "(lcm_error + unit) list \<Rightarrow> lcm_error + unit" where
  "firstError [] = Inr ()"
| "firstError (Inl e # _) = Inl e"
| "firstError (Inr _ # vs) = firstError vs"

record create_message_input =
  cm_conversationId :: nat
  cm_seq :: js_number
  cm_role :: message_role
  cm_content :: string
  cm_tokenCount :: js_number

record append_message_input =
  am_role :: message_role
  am_content :: string
  am_tokenCount :: js_number

record create_message_part_input =
  cp_sessionId :: string
  cp_partType :: message_part_type
  cp_ordinal :: js_number
  cp_textContent :: "string option"
  cp_toolCallId :: "string option"
  cp_toolName :: "string option"
  cp_toolInput :: "string option"
  cp_toolOutput :: "string option"
  cp_metadata :: "json_text option"

definition validateMessageInputs :: "create_message_input list \<Rightarrow> lcm_error + unit" where
  "validateMessageInputs inputs = firstError (concat (map (\<lambda>i.
     [validateNonNegativeSafeInteger (cm_seq i) ''message seq'',
      validateNonNegativeSafeInteger (cm_tokenCount i) ''message tokenCount'',
      validateConversationText (Some (cm_content i)) ''content'']) inputs))"

definition validateAppendTokenCounts :: "append_message_input list \<Rightarrow> lcm_error + unit" where
  "validateAppendTokenCounts inputs = firstError (concat (map (\<lambda>i.
     [validateNonNegativeSafeInteger (am_tokenCount i) ''message tokenCount'',
      validateConversationText (Some (am_content i)) ''content'']) inputs))"

text \<open>A text that \<open>JSON.parse\<close> accepts contains no NUL; a malformed one may.\<close>

definition metadataText :: "json_text option \<Rightarrow> string option" where
  "metadataText m = (case m of Some (Malformed s) \<Rightarrow> Some s | _ \<Rightarrow> None)"

definition validateMessageParts :: "create_message_part_input list \<Rightarrow> lcm_error + unit" where
  "validateMessageParts parts = firstError (concat (map (\<lambda>p.
     [validateNonNegativeSafeInteger (cp_ordinal p) ''message part ordinal'',
      validateConversationText (Some (cp_sessionId p)) ''session_id'',
      validateConversationText (cp_textContent p) ''text_content'',
      validateConversationText (cp_toolCallId p) ''tool_call_id'',
      validateConversationText (cp_toolName p) ''tool_name'',
      validateConversationText (cp_toolInput p) ''tool_input'',
      validateConversationText (cp_toolOutput p) ''tool_output'',
      validateConversationText (metadataText (cp_metadata p)) ''metadata'']) parts))"

definition validateConversationInput :: "string \<Rightarrow> string option \<Rightarrow> lcm_error + unit" where
  "validateConversationInput sessionId title = firstError
     [validateConversationText (Some sessionId) ''session_id'', validateConversationText title ''title'']"

section \<open>Conversations\<close>

definition createConversation :: "string \<Rightarrow> string option \<Rightarrow> (world, conversation_record) op" where
  "createConversation sessionId title = bindM (liftE (validateConversationInput sessionId title)) (\<lambda>_.
     bindM sqlNow (\<lambda>now.
     bindM (getDb (\<lambda>d. Suc (conversations_rowid d))) (\<lambda>cid.
     let row = \<lparr>conv_id = cid, conv_sessionId = sessionId, conv_title = title, conv_bootstrappedAt = None,
                conv_createdAt = now, conv_updatedAt = now, conv_parentSessionId = None\<rparr> in
     bindM (setDb (\<lambda>d. d\<lparr>conversations := conversations d @ [row], conversations_rowid := cid\<rparr>)) (\<lambda>_.
     ret row))))"

definition findConversation :: "database \<Rightarrow> nat \<Rightarrow> conversation_record option" where
  "findConversation d cid = List.find (\<lambda>c. conv_id c = cid) (conversations d)"

definition getConversation :: "nat \<Rightarrow> (world, conversation_record option) op" where
  "getConversation cid = getDb (\<lambda>d. findConversation d cid)"

definition findBySession :: "database \<Rightarrow> string \<Rightarrow> conversation_record option" where
  "findBySession d sessionId =
     (case sort_key (\<lambda>c. (- conv_createdAt c, - int (conv_id c)))
        (filter (\<lambda>c. conv_sessionId c = sessionId) (conversations d)) of
        [] \<Rightarrow> None | c # _ \<Rightarrow> Some c)"

definition getConversationBySessionId :: "string \<Rightarrow> (world, conversation_record option) op" where
  "getConversationBySessionId sessionId =
     bindM (liftE (validateConversationText (Some sessionId) ''session_id'')) (\<lambda>_.
     getDb (\<lambda>d. findBySession d sessionId))"

definition getOrCreateConversation :: "string \<Rightarrow> string option \<Rightarrow> (world, conversation_record) op" where
  "getOrCreateConversation sessionId title =
     bindM (liftE (validateConversationInput sessionId title)) (\<lambda>_.
     bindM (getConversationBySessionId sessionId) (\<lambda>existing.
     case existing of Some c \<Rightarrow> ret c | None \<Rightarrow> createConversation sessionId title))"

definition markConversationBootstrapped :: "nat \<Rightarrow> (world, unit) op" where
  "markConversationBootstrapped cid = bindM sqlNow (\<lambda>now. setDb (\<lambda>d. d\<lparr>conversations :=
     map (\<lambda>c. if conv_id c = cid
          then c\<lparr>conv_bootstrappedAt := (case conv_bootstrappedAt c of Some t \<Rightarrow> Some t | None \<Rightarrow> Some now),
                 conv_updatedAt := now\<rparr> else c) (conversations d)\<rparr>))"

definition setParentSessionIdIfNull :: "nat \<Rightarrow> string \<Rightarrow> (world, unit) op" where
  "setParentSessionIdIfNull cid parentSessionId =
     bindM (liftE (validateConversationText (Some parentSessionId) ''parent_session_id'')) (\<lambda>_.
     setDb (\<lambda>d. d\<lparr>conversations :=
       map (\<lambda>c. if conv_id c = cid \<and> conv_parentSessionId c = None
            then c\<lparr>conv_parentSessionId := Some parentSessionId\<rparr> else c) (conversations d)\<rparr>))"

definition listConversations :: "(world, conversation_record list) op" where
  "listConversations = getDb (\<lambda>d. sort_key (\<lambda>c. (conv_createdAt c, conv_id c)) (conversations d))"

section \<open>Messages\<close>

definition indexMessageForFullText :: "store_options \<Rightarrow> nat \<Rightarrow> string \<Rightarrow> (world, unit) op" where
  "indexMessageForFullText opts mid content =
     (if \<not> fts5Available opts then ret ()
      else if ftsStatementOk opts
        then setDb (\<lambda>d. d\<lparr>messages_fts := messages_fts d @ [(mid, content)]\<rparr>)
        else ret ())"

definition deleteMessageFromFullText :: "store_options \<Rightarrow> nat \<Rightarrow> (world, unit) op" where
  "deleteMessageFromFullText opts mid =
     (if \<not> fts5Available opts then ret ()
      else if ftsStatementOk opts
        then setDb (\<lambda>d. d\<lparr>messages_fts := filter (\<lambda>(r, _). r \<noteq> mid) (messages_fts d)\<rparr>)
        else ret ())"

definition messageRow :: "nat \<Rightarrow> create_message_input \<Rightarrow> int \<Rightarrow> message_record" where
  "messageRow mid i now = \<lparr>msg_id = mid, msg_conversationId = cm_conversationId i,
     msg_seq = js_floor_nat (cm_seq i), msg_role = cm_role i, msg_content = cm_content i,
     msg_tokenCount = js_floor_nat (cm_tokenCount i), msg_createdAt = now\<rparr>"

definition messageViolation :: "message_record \<Rightarrow> database \<Rightarrow> string option" where
  "messageViolation row d =
     (if \<exists>m \<in> set (messages d). msg_conversationId m = msg_conversationId row \<and> msg_seq m = msg_seq row
      then Some ''messages.seq''
      else if \<not> hasConversation d (msg_conversationId row) then Some ''messages.conversation_id''
      else None)"

text \<open>One \<open>INSERT INTO messages\<close> with its full-text row; the key is the next \<open>AUTOINCREMENT\<close> value.\<close>

definition insertMessage :: "store_options \<Rightarrow> create_message_input \<Rightarrow> (world, message_record) op" where
  "insertMessage opts i = bindM sqlNow (\<lambda>now.
     bindM (getDb (\<lambda>d. messageRow (Suc (messages_rowid d)) i now)) (\<lambda>row.
     bindM (sqlWrite (messageViolation row)
       (\<lambda>d. d\<lparr>messages := messages d @ [row], messages_rowid := msg_id row\<rparr>)) (\<lambda>_.
     bindM (indexMessageForFullText opts (msg_id row) (cm_content i)) (\<lambda>_. ret row))))"

definition createMessage :: "store_options \<Rightarrow> create_message_input \<Rightarrow> (world, message_record) op" where
  "createMessage opts i = bindM (liftE (validateMessageInputs [i])) (\<lambda>_. insertMessage opts i)"

definition createMessagesBulkCore ::
  "store_options \<Rightarrow> create_message_input list \<Rightarrow> (world, message_record list) op" where
  "createMessagesBulkCore opts inputs = (if inputs = [] then ret []
     else bindM (liftE (validateMessageInputs inputs)) (\<lambda>_. mapM (insertMessage opts) inputs))"

definition nextSeq :: "database \<Rightarrow> nat \<Rightarrow> nat" where
  "nextSeq d cid = (case map msg_seq (filter (\<lambda>m. msg_conversationId m = cid) (messages d)) of
     [] \<Rightarrow> 0 | s # ss \<Rightarrow> Suc (foldr max ss s))"

definition appendInput :: "nat \<Rightarrow> nat \<Rightarrow> append_message_input \<Rightarrow> create_message_input" where
  "appendInput cid s i = \<lparr>cm_conversationId = cid, cm_seq = js_nat s, cm_role = am_role i,
     cm_content = am_content i, cm_tokenCount = am_tokenCount i\<rparr>"

definition appendMessagesCore ::
  "store_options \<Rightarrow> nat \<Rightarrow> append_message_input list \<Rightarrow> (world, message_record list) op" where
  "appendMessagesCore opts cid inputs = (if inputs = [] then ret []
     else bindM (liftE (validateAppendTokenCounts inputs)) (\<lambda>_.
       bindM (getDb (\<lambda>d. nextSeq d cid)) (\<lambda>s.
       createMessagesBulkCore opts
         (map (\<lambda>(offset, i). appendInput cid (s + offset) i) (zip [0..<length inputs] inputs)))))"

text \<open>
  The repository validates a batch before it enters the executor; such an error is normalized
  like one of the operation itself.
\<close>

definition prevalidated :: "lcm_error + unit \<Rightarrow> (world, 'a) op \<Rightarrow> (world, 'a) op" where
  "prevalidated v invoke = (case v of Inl e \<Rightarrow> throw (normalizeStorageError e) | Inr _ \<Rightarrow> invoke)"

definition conversationMessages :: "database \<Rightarrow> nat \<Rightarrow> message_record list" where
  "conversationMessages d cid = sort_key msg_seq (filter (\<lambda>m. msg_conversationId m = cid) (messages d))"

definition getMessages :: "nat \<Rightarrow> int option \<Rightarrow> int option \<Rightarrow> (world, message_record list) op" where
  "getMessages cid afterSeq limit = getDb (\<lambda>d.
     let after = (case afterSeq of Some a \<Rightarrow> a | None \<Rightarrow> - 1);
         rows = filter (\<lambda>m. after < int (msg_seq m)) (conversationMessages d cid)
     in case limit of Some n \<Rightarrow> sqlLimit n rows | None \<Rightarrow> rows)"

definition getLastMessage :: "nat \<Rightarrow> (world, message_record option) op" where
  "getLastMessage cid = getDb (\<lambda>d. case conversationMessages d cid of [] \<Rightarrow> None | ms \<Rightarrow> Some (last ms))"

definition messageIdentity :: "nat \<Rightarrow> message_role \<Rightarrow> string \<Rightarrow> message_record \<Rightarrow> bool" where
  "messageIdentity cid role content m \<longleftrightarrow>
     msg_conversationId m = cid \<and> msg_role m = role \<and> msg_content m = content"

definition hasMessage :: "nat \<Rightarrow> message_role \<Rightarrow> string \<Rightarrow> (world, bool) op" where
  "hasMessage cid role content = bindM (liftE (validateConversationText (Some content) ''content'')) (\<lambda>_.
     getDb (\<lambda>d. list_ex (messageIdentity cid role content) (messages d)))"

definition countMessagesByIdentity :: "nat \<Rightarrow> message_role \<Rightarrow> string \<Rightarrow> (world, nat) op" where
  "countMessagesByIdentity cid role content =
     bindM (liftE (validateConversationText (Some content) ''content'')) (\<lambda>_.
     getDb (\<lambda>d. length (filter (messageIdentity cid role content) (messages d))))"

definition findMessage :: "database \<Rightarrow> nat \<Rightarrow> message_record option" where
  "findMessage d mid = List.find (\<lambda>m. msg_id m = mid) (messages d)"

definition getMessageById :: "nat \<Rightarrow> (world, message_record option) op" where
  "getMessageById mid = getDb (\<lambda>d. findMessage d mid)"

definition getMessageCount :: "nat \<Rightarrow> (world, nat) op" where
  "getMessageCount cid = getDb (\<lambda>d. length (filter (\<lambda>m. msg_conversationId m = cid) (messages d)))"

definition sessionMessages :: "database \<Rightarrow> string \<Rightarrow> (conversation_record \<times> message_record) list" where
  "sessionMessages d sessionId = concat (map (\<lambda>c. map (\<lambda>m. (c, m))
       (filter (\<lambda>m. msg_conversationId m = conv_id c) (messages d)))
     (filter (\<lambda>c. conv_sessionId c = sessionId) (conversations d)))"

definition getMessageCountBySessionId :: "string \<Rightarrow> (world, nat) op" where
  "getMessageCountBySessionId sessionId =
     bindM (liftE (validateConversationText (Some sessionId) ''session_id'')) (\<lambda>_.
     getDb (\<lambda>d. length (sessionMessages d sessionId)))"

definition getMaxSeq :: "nat \<Rightarrow> (world, nat) op" where
  "getMaxSeq cid = getDb (\<lambda>d.
     case map msg_seq (filter (\<lambda>m. msg_conversationId m = cid) (messages d)) of
       [] \<Rightarrow> 0 | s # ss \<Rightarrow> foldr max ss s)"

section \<open>Message parts\<close>

definition partRow :: "string \<Rightarrow> nat \<Rightarrow> create_message_part_input \<Rightarrow> message_part_record" where
  "partRow pid mid p = \<lparr>part_id = pid, part_messageId = mid, part_sessionId = cp_sessionId p,
     part_type = cp_partType p, part_ordinal = js_floor_nat (cp_ordinal p),
     part_textContent = cp_textContent p, part_toolCallId = cp_toolCallId p,
     part_toolName = cp_toolName p, part_toolInput = cp_toolInput p,
     part_toolOutput = cp_toolOutput p, part_metadata = cp_metadata p\<rparr>"

definition partViolation :: "message_part_record \<Rightarrow> database \<Rightarrow> string option" where
  "partViolation row d =
     (if part_id row \<in> set (map part_id (message_parts d)) then Some ''message_parts.part_id''
      else if \<not> hasMessage_row d (part_messageId row) then Some ''message_parts.message_id''
      else if \<exists>p \<in> set (message_parts d). part_messageId p = part_messageId row
                \<and> part_ordinal p = part_ordinal row then Some ''message_parts.ordinal''
      else None)"

definition insertPart :: "nat \<Rightarrow> create_message_part_input \<Rightarrow> (world, unit) op" where
  "insertPart mid p = bindM randomUUID (\<lambda>pid. let row = partRow pid mid p in
     sqlWrite (partViolation row) (\<lambda>d. d\<lparr>message_parts := message_parts d @ [row]\<rparr>))"

definition createMessagePartsCore :: "nat \<Rightarrow> create_message_part_input list \<Rightarrow> (world, unit) op" where
  "createMessagePartsCore mid parts = (if parts = [] then ret ()
     else bindM (liftE (validateMessageParts parts)) (\<lambda>_. foreachM (insertPart mid) parts))"

definition messageParts :: "database \<Rightarrow> nat \<Rightarrow> message_part_record list" where
  "messageParts d mid = sort_key part_ordinal (filter (\<lambda>p. part_messageId p = mid) (message_parts d))"

definition getMessageParts :: "nat \<Rightarrow> (world, message_part_record list) op" where
  "getMessageParts mid = getDb (\<lambda>d. messageParts d mid)"

section \<open>Transcript slots\<close>

definition TRANSCRIPT_SLOT_METADATA_KEY :: string where
  "TRANSCRIPT_SLOT_METADATA_KEY = ''lcmTranscriptSlot''"

definition encodeTranscriptSlotMarker :: "bool \<Rightarrow> json_text" where
  "encodeTranscriptSlotMarker consumed = Json (JObj [(TRANSCRIPT_SLOT_METADATA_KEY,
     JObj [(''version'', JNum (Num 1)), (''consumed'', JBool consumed)])])"

text \<open>Property access on a parsed object: of a repeated key the last value counts.\<close>

definition jsonField :: "(string \<times> json) list \<Rightarrow> string \<Rightarrow> json option" where
  "jsonField kvs k = map_of (rev kvs) k"

definition parseTranscriptSlotMarker :: "json_text option \<Rightarrow> bool option" where
  "parseTranscriptSlotMarker metadata = (case metadata of
       Some (Json (JObj kvs)) \<Rightarrow>
         (case jsonField kvs TRANSCRIPT_SLOT_METADATA_KEY of
            Some (JObj marker) \<Rightarrow>
              (case (jsonField marker ''version'', jsonField marker ''consumed'') of
                 (Some (JNum v), Some (JBool consumed)) \<Rightarrow> if v = Num 1 then Some consumed else None
               | _ \<Rightarrow> None)
          | _ \<Rightarrow> None)
     | _ \<Rightarrow> None)"

record transcript_slot_event =
  slot_messageId :: nat
  slot_followedByTranscript :: bool
  slot_nextOrdinal :: nat
  slot_slotMarkers :: "bool list"

record transcript_slot_snapshot =
  slot_transcriptCount :: nat
  slot_events :: "transcript_slot_event list"

definition hasCompactionPart :: "database \<Rightarrow> message_record \<Rightarrow> bool" where
  "hasCompactionPart d m \<longleftrightarrow>
     list_ex (\<lambda>p. part_messageId p = msg_id m \<and> part_type p = CompactionPart) (message_parts d)"

definition sessionOrder :: "conversation_record \<times> message_record \<Rightarrow> int \<times> nat \<times> nat \<times> nat" where
  "sessionOrder cm = (case cm of (c, m) \<Rightarrow> (conv_createdAt c, conv_id c, msg_seq m, msg_id m))"

definition slotEvent :: "database \<Rightarrow> string \<Rightarrow> conversation_record \<times> message_record \<Rightarrow> transcript_slot_event" where
  "slotEvent d sessionId cm = (case cm of (c, m) \<Rightarrow>
     \<lparr>slot_messageId = msg_id m,
      slot_followedByTranscript = list_ex
        (\<lambda>lm. \<not> hasCompactionPart d (snd lm) \<and> sessionOrder cm < sessionOrder lm) (sessionMessages d sessionId),
      slot_nextOrdinal = (case map part_ordinal (messageParts d (msg_id m)) of
         [] \<Rightarrow> 0 | o1 # os \<Rightarrow> Suc (foldr max os o1)),
      slot_slotMarkers = concat (map
        (\<lambda>p. case parseTranscriptSlotMarker (part_metadata p) of None \<Rightarrow> [] | Some b \<Rightarrow> [b])
        (filter (\<lambda>p. part_type p = SnapshotPart) (messageParts d (msg_id m))))\<rparr>)"

definition transcriptSlotSnapshot :: "database \<Rightarrow> string \<Rightarrow> transcript_slot_snapshot" where
  "transcriptSlotSnapshot d sessionId =
     (let rows = sessionMessages d sessionId in
      \<lparr>slot_transcriptCount = length (filter (\<lambda>cm. \<not> hasCompactionPart d (snd cm)) rows),
       slot_events = map (slotEvent d sessionId)
         (sort_key sessionOrder (filter (\<lambda>cm. hasCompactionPart d (snd cm)) rows))\<rparr>)"

definition getTranscriptSlotSnapshot :: "string \<Rightarrow> (world, transcript_slot_snapshot) op" where
  "getTranscriptSlotSnapshot sessionId =
     bindM (liftE (validateConversationText (Some sessionId) ''session_id'')) (\<lambda>_.
     getDb (\<lambda>d. transcriptSlotSnapshot d sessionId))"

section \<open>Deletion\<close>

text \<open>
  One iteration of the loop: a message that a summary refers to is skipped; otherwise its context
  rows, its full-text row, the message and its parts go.  The result says whether it was counted.
\<close>

definition referencedBySummary :: "database \<Rightarrow> nat \<Rightarrow> bool" where
  "referencedBySummary d mid \<longleftrightarrow> list_ex (\<lambda>(_, m, _). m = mid) (summary_messages d)"

definition deleteMessage :: "store_options \<Rightarrow> nat \<Rightarrow> (world, bool) op" where
  "deleteMessage opts mid = bindM (getDb (\<lambda>d. referencedBySummary d mid)) (\<lambda>found.
     if found then ret False
     else bindM (setDb (\<lambda>d. d\<lparr>context_items :=
            filter (\<lambda>i. \<not> (ctx_itemType i = MessageItem \<and> ctx_messageId i = Some mid)) (context_items d)\<rparr>)) (\<lambda>_.
       bindM (deleteMessageFromFullText opts mid) (\<lambda>_.
       bindM (sqlWrite
         (\<lambda>d. if hasMessage_row d mid \<and> list_ex (\<lambda>i. ctx_messageId i = Some mid) (context_items d)
              then Some ''context_items.message_id'' else None)
         (\<lambda>d. d\<lparr>messages := filter (\<lambda>m. msg_id m \<noteq> mid) (messages d),
                message_parts := filter (\<lambda>p. part_messageId p \<noteq> mid) (message_parts d)\<rparr>)) (\<lambda>_.
       ret True))))"

definition deleteMessagesCore :: "store_options \<Rightarrow> nat list \<Rightarrow> (world, nat) op" where
  "deleteMessagesCore opts messageIds = (if messageIds = [] then ret 0
     else bindM (mapM (deleteMessage opts) messageIds) (\<lambda>flags. ret (length (filter id flags))))"

end
