(* ===== verification/Store_Facts.thy ===== *)
theory Store_Facts
  imports Conversation_Store
begin

text \<open>
  The integrity of a project database, which is what the constraints of \<open>src/db/migration.ts\<close>
  and the append discipline of the stores add up to, and the fact that the operations of the two
  stores keep it.
\<close>

section \<open>Integrity\<close>

definition wf_conversations :: "database \<Rightarrow> bool" where
  "wf_conversations d \<longleftrightarrow> distinct (map conv_id (conversations d))
     \<and> (\<forall>c \<in> set (conversations d). conv_id c \<le> conversations_rowid d)"

definition wf_messages :: "database \<Rightarrow> bool" where
  "wf_messages d \<longleftrightarrow> distinct (map msg_id (messages d))
     \<and> distinct (map (\<lambda>m. (msg_conversationId m, msg_seq m)) (messages d))
     \<and> (\<forall>m \<in> set (messages d). hasConversation d (msg_conversationId m) \<and> msg_id m \<le> messages_rowid d)"

definition wf_parts :: "database \<Rightarrow> bool" where
  "wf_parts d \<longleftrightarrow> distinct (map part_id (message_parts d))
     \<and> distinct (map (\<lambda>p. (part_messageId p, part_ordinal p)) (message_parts d))
     \<and> (\<forall>p \<in> set (message_parts d). hasMessage_row d (part_messageId p))"

definition wf_summaries :: "database \<Rightarrow> bool" where
  "wf_summaries d \<longleftrightarrow> distinct (map sum_id (summaries d))
     \<and> (\<forall>s \<in> set (summaries d). hasConversation d (sum_conversationId s))"

definition wf_links :: "database \<Rightarrow> bool" where
  "wf_links d \<longleftrightarrow> distinct (map (\<lambda>(s, m, _). (s, m)) (summary_messages d))
     \<and> distinct (map (\<lambda>(s, p, _). (s, p)) (summary_parents d))
     \<and> (\<forall>(s, m, _) \<in> set (summary_messages d). hasSummary d s \<and> hasMessage_row d m)
     \<and> (\<forall>(s, p, _) \<in> set (summary_parents d). hasSummary d s \<and> hasSummary d p)"

fun valid_ref :: "database \<Rightarrow> ctx_ref \<Rightarrow> bool" where
  "valid_ref d (MsgRef m) = hasMessage_row d m"
| "valid_ref d (SumRef s) = hasSummary d s"
| "valid_ref d BadRef = False"

definition wf_context :: "database \<Rightarrow> bool" where
  "wf_context d \<longleftrightarrow> (\<forall>i \<in> set (context_items d). hasConversation d (ctx_conversationId i) \<and> valid_ref d (ref_of i))
     \<and> (\<forall>c \<in> set (conversations d). ctx_ok d (conv_id c))"

definition wf_db :: "database \<Rightarrow> bool" where
  "wf_db d \<longleftrightarrow> wf_conversations d \<and> wf_messages d \<and> wf_parts d \<and> wf_summaries d \<and> wf_links d \<and> wf_context d"

lemmas wf_parts_of_db = wf_conversations_def wf_messages_def wf_parts_def wf_summaries_def wf_links_def wf_context_def

lemma wf_empty: "wf_db empty_database"
  by (simp add: wf_db_def wf_parts_of_db empty_database_def)

text \<open>A row of an unknown conversation is a constraint violation, so its context is empty.\<close>

lemma wf_context_ok:
  assumes "wf_db d"
  shows "ctx_ok d cid"
proof (cases "hasConversation d cid")
  case True
  then show ?thesis using assms by (auto simp: wf_db_def wf_context_def hasConversation_def)
next
  case False
  then have "filter (\<lambda>i. ctx_conversationId i = cid) (context_items d) = []"
    using assms by (auto simp: wf_db_def wf_context_def filter_empty_conv)
  then have "contextItems d cid = []"
    by (metis contextItems_def length_0_conv length_sort)
  then show ?thesis by (simp add: ctx_ok_def)
qed

lemma wf_context_valid:
  assumes "wf_db d" and "r \<in> set (refs d cid)"
  shows "valid_ref d r"
  using assms by (auto simp: wf_db_def wf_context_def refs_def set_contextItems)

text \<open>The parts of the database an operation leaves alone keep their part of the integrity.\<close>

lemma has_update [simp]:
  "hasConversation (d\<lparr>context_items := x1\<rparr>) = hasConversation d"
  "hasConversation (d\<lparr>messages := x2\<rparr>) = hasConversation d"
  "hasConversation (d\<lparr>messages_rowid := n\<rparr>) = hasConversation d"
  "hasConversation (d\<lparr>message_parts := x3\<rparr>) = hasConversation d"
  "hasConversation (d\<lparr>summaries := x4\<rparr>) = hasConversation d"
  "hasConversation (d\<lparr>summary_messages := x5\<rparr>) = hasConversation d"
  "hasConversation (d\<lparr>summary_parents := x6\<rparr>) = hasConversation d"
  "hasConversation (d\<lparr>messages_fts := x7\<rparr>) = hasConversation d"
  "hasConversation (d\<lparr>summaries_fts := x8\<rparr>) = hasConversation d"
  "hasConversation (d\<lparr>conversations_rowid := n\<rparr>) = hasConversation d"
  "hasMessage_row (d\<lparr>context_items := x1\<rparr>) = hasMessage_row d"
  "hasMessage_row (d\<lparr>conversations := x9\<rparr>) = hasMessage_row d"
  "hasMessage_row (d\<lparr>conversations_rowid := n\<rparr>) = hasMessage_row d"
  "hasMessage_row (d\<lparr>messages_rowid := n\<rparr>) = hasMessage_row d"
  "hasMessage_row (d\<lparr>message_parts := x3\<rparr>) = hasMessage_row d"
  "hasMessage_row (d\<lparr>summaries := x4\<rparr>) = hasMessage_row d"
  "hasMessage_row (d\<lparr>summary_messages := x5\<rparr>) = hasMessage_row d"
  "hasMessage_row (d\<lparr>summary_parents := x6\<rparr>) = hasMessage_row d"
  "hasMessage_row (d\<lparr>messages_fts := x7\<rparr>) = hasMessage_row d"
  "hasMessage_row (d\<lparr>summaries_fts := x8\<rparr>) = hasMessage_row d"
  "hasSummary (d\<lparr>context_items := x1\<rparr>) = hasSummary d"
  "hasSummary (d\<lparr>conversations := x9\<rparr>) = hasSummary d"
  "hasSummary (d\<lparr>conversations_rowid := n\<rparr>) = hasSummary d"
  "hasSummary (d\<lparr>messages := x2\<rparr>) = hasSummary d"
  "hasSummary (d\<lparr>messages_rowid := n\<rparr>) = hasSummary d"
  "hasSummary (d\<lparr>message_parts := x3\<rparr>) = hasSummary d"
  "hasSummary (d\<lparr>summary_messages := x5\<rparr>) = hasSummary d"
  "hasSummary (d\<lparr>summary_parents := x6\<rparr>) = hasSummary d"
  "hasSummary (d\<lparr>messages_fts := x7\<rparr>) = hasSummary d"
  "hasSummary (d\<lparr>summaries_fts := x8\<rparr>) = hasSummary d"
  by (auto simp: fun_eq_iff hasConversation_def hasMessage_row_def hasSummary_def)

lemma contextItems_same:
  "context_items d' = context_items d \<Longrightarrow> contextItems d' cid = contextItems d cid"
  by (simp add: contextItems_def)

lemma ctx_ok_same: "context_items d' = context_items d \<Longrightarrow> ctx_ok d' cid = ctx_ok d cid"
  by (simp add: ctx_ok_def contextItems_same [of d' d])

lemma refs_same: "context_items d' = context_items d \<Longrightarrow> refs d' cid = refs d cid"
  by (simp add: refs_def contextItems_same [of d' d])

lemma valid_ref_mono:
  assumes "\<And>m. hasMessage_row d m \<Longrightarrow> hasMessage_row d' m" and "\<And>s. hasSummary d s \<Longrightarrow> hasSummary d' s"
    and "valid_ref d r"
  shows "valid_ref d' r"
  using assms by (cases r) auto

lemma wf_context_mono:
  assumes "wf_context d" and "context_items d' = context_items d"
    and "\<And>c. c \<in> set (map conv_id (conversations d')) \<Longrightarrow> c \<in> set (map conv_id (conversations d)) \<or> (\<forall>i \<in> set (context_items d). ctx_conversationId i \<noteq> c)"
    and "\<And>c. hasConversation d c \<Longrightarrow> hasConversation d' c"
    and "\<And>m. hasMessage_row d m \<Longrightarrow> hasMessage_row d' m" and "\<And>s. hasSummary d s \<Longrightarrow> hasSummary d' s"
  shows "wf_context d'"
proof -
  have "valid_ref d' r" if "valid_ref d r" for r using assms(5,6) that by (rule valid_ref_mono)
  moreover have "ctx_ok d' (conv_id c)" if "c \<in> set (conversations d')" for c
  proof -
    have "conv_id c \<in> set (map conv_id (conversations d)) \<or> (\<forall>i \<in> set (context_items d). ctx_conversationId i \<noteq> conv_id c)"
      using that assms(3) by simp
    then have "ctx_ok d (conv_id c)"
    proof
      assume "\<forall>i \<in> set (context_items d). ctx_conversationId i \<noteq> conv_id c"
      then have "filter (\<lambda>i. ctx_conversationId i = conv_id c) (context_items d) = []"
        by (simp add: filter_empty_conv)
      then have "contextItems d (conv_id c) = []" by (simp add: contextItems_def)
      then show ?thesis by (simp add: ctx_ok_def)
    next
      assume "conv_id c \<in> set (map conv_id (conversations d))"
      then show ?thesis using assms(1) by (auto simp: wf_context_def)
    qed
    then show ?thesis using ctx_ok_same [OF assms(2)] by blast
  qed
  ultimately show ?thesis using assms(1,2,4) by (auto simp: wf_context_def)
qed

section \<open>The rows that the operations add\<close>

lemma has_append [simp]:
  "hasConversation (d\<lparr>conversations := conversations d @ [c]\<rparr>) k \<longleftrightarrow> hasConversation d k \<or> k = conv_id c"
  "hasMessage_row (d\<lparr>messages := messages d @ [m]\<rparr>) k \<longleftrightarrow> hasMessage_row d k \<or> k = msg_id m"
  "hasSummary (d\<lparr>summaries := summaries d @ [s]\<rparr>) sid \<longleftrightarrow> hasSummary d sid \<or> sid = sum_id s"
  by (auto simp: hasConversation_def hasMessage_row_def hasSummary_def)

lemma wf_fts [simp]:
  "wf_db (d\<lparr>messages_fts := x\<rparr>) = wf_db d" "wf_db (d\<lparr>summaries_fts := y\<rparr>) = wf_db d"
proof -
  have "ctx_ok (d\<lparr>messages_fts := x\<rparr>) = ctx_ok d" "ctx_ok (d\<lparr>summaries_fts := y\<rparr>) = ctx_ok d"
    by (rule ext, rule ctx_ok_same, simp)+
  moreover have "valid_ref (d\<lparr>messages_fts := x\<rparr>) r = valid_ref d r"
    "valid_ref (d\<lparr>summaries_fts := y\<rparr>) r = valid_ref d r" for r
    by (cases r; simp)+
  ultimately show "wf_db (d\<lparr>messages_fts := x\<rparr>) = wf_db d" "wf_db (d\<lparr>summaries_fts := y\<rparr>) = wf_db d"
    by (simp_all add: wf_db_def wf_parts_of_db)
qed

lemma wf_add_conversation:
  assumes "wf_db d" and "conv_id row = Suc (conversations_rowid d)"
  shows "wf_db (d\<lparr>conversations := conversations d @ [row], conversations_rowid := conv_id row\<rparr>)"
proof -
  let ?d = "d\<lparr>conversations := conversations d @ [row], conversations_rowid := conv_id row\<rparr>"
  have le: "\<forall>c \<in> set (conversations d). conv_id c \<le> conversations_rowid d"
    using assms(1) by (simp add: wf_db_def wf_conversations_def)
  have new: "\<not> hasConversation d (conv_id row)"
    using le assms(2) by (auto simp: hasConversation_def)
  have mono: "hasConversation d c \<Longrightarrow> hasConversation ?d c" for c
    by (simp add: hasConversation_def)
  have has: "hasMessage_row ?d = hasMessage_row d" "hasSummary ?d = hasSummary d"
    by (simp_all add: fun_eq_iff hasMessage_row_def hasSummary_def)
  have "\<forall>i \<in> set (context_items d). ctx_conversationId i \<noteq> conv_id row"
    using assms(1) new by (auto simp: wf_db_def wf_context_def)
  then have "wf_context ?d"
    using assms(1) by - (rule wf_context_mono [of d], auto simp: wf_db_def has)
  moreover have "wf_conversations ?d"
    using assms(1) new le assms(2) by (auto simp: wf_db_def wf_conversations_def hasConversation_def intro: le_SucI)
  ultimately show ?thesis
    using assms(1) mono by (simp add: wf_db_def wf_messages_def wf_parts_def wf_summaries_def wf_links_def has)
qed

lemma wf_add_message:
  assumes "wf_db d" and "messageViolation row d = None" and "msg_id row = Suc (messages_rowid d)"
  shows "wf_db (d\<lparr>messages := messages d @ [row], messages_rowid := msg_id row\<rparr>)"
proof -
  let ?d = "d\<lparr>messages := messages d @ [row], messages_rowid := msg_id row\<rparr>"
  have le: "\<forall>m \<in> set (messages d). msg_id m \<le> messages_rowid d"
    using assms(1) by (simp add: wf_db_def wf_messages_def)
  have key: "\<not> (\<exists>m \<in> set (messages d). msg_conversationId m = msg_conversationId row \<and> msg_seq m = msg_seq row)"
    and fk: "hasConversation d (msg_conversationId row)"
    using assms(2) by (auto simp: messageViolation_def split: if_splits)
  have mono: "hasMessage_row d m \<Longrightarrow> hasMessage_row ?d m" for m
    by (simp add: hasMessage_row_def)
  have ids: "msg_id row \<notin> set (map msg_id (messages d))" using le assms(3) by auto
  have keys: "(msg_conversationId row, msg_seq row) \<notin> set (map (\<lambda>m. (msg_conversationId m, msg_seq m)) (messages d))"
    using key by auto
  have "\<forall>m \<in> set (messages d). msg_id m \<le> msg_id row" using le assms(3) by auto
  then have "wf_messages ?d"
    using assms(1) ids keys fk by (simp add: wf_db_def wf_messages_def)
  moreover have "wf_context ?d"
    using assms(1) by - (rule wf_context_mono [of d], auto simp: wf_db_def)
  moreover have "wf_parts ?d"
    using assms(1) mono by (simp add: wf_db_def wf_parts_def)
  moreover have "wf_links ?d"
    using assms(1) mono by (fastforce simp: wf_db_def wf_links_def)
  ultimately show ?thesis
    using assms(1) by (simp add: wf_db_def wf_conversations_def wf_summaries_def)
qed

lemma wf_add_part:
  assumes "wf_db d" and "partViolation row d = None"
  shows "wf_db (d\<lparr>message_parts := message_parts d @ [row]\<rparr>)"
proof -
  let ?d = "d\<lparr>message_parts := message_parts d @ [row]\<rparr>"
  have "wf_parts ?d"
    using assms by (force simp: wf_db_def wf_parts_def partViolation_def split: if_splits)
  moreover have "wf_context ?d"
    using assms(1) by - (rule wf_context_mono [of d], auto simp: wf_db_def)
  ultimately show ?thesis
    using assms(1) by (simp add: wf_db_def wf_conversations_def wf_summaries_def wf_messages_def wf_links_def)
qed

lemma wf_add_summary:
  assumes "wf_db d" and "\<not> hasSummary d (sum_id row)" and "hasConversation d (sum_conversationId row)"
  shows "wf_db (d\<lparr>summaries := summaries d @ [row]\<rparr>)"
proof -
  let ?d = "d\<lparr>summaries := summaries d @ [row]\<rparr>"
  have mono: "hasSummary d s \<Longrightarrow> hasSummary ?d s" for s by (simp add: hasSummary_def)
  have "wf_context ?d"
    using assms(1) by - (rule wf_context_mono [of d], auto simp: wf_db_def)
  moreover have "wf_links ?d"
    using assms(1) mono by (fastforce simp: wf_db_def wf_links_def)
  moreover have "wf_summaries ?d"
    using assms by (auto simp: wf_db_def wf_summaries_def hasSummary_def)
  ultimately show ?thesis
    using assms(1) by (simp add: wf_db_def wf_conversations_def wf_messages_def wf_parts_def)
qed

lemma wf_set_links:
  assumes "wf_db d" and "wf_links (d\<lparr>summary_messages := xs, summary_parents := ys\<rparr>)"
  shows "wf_db (d\<lparr>summary_messages := xs, summary_parents := ys\<rparr>)"
proof -
  let ?d = "d\<lparr>summary_messages := xs, summary_parents := ys\<rparr>"
  have "wf_context ?d"
    using assms(1) by - (rule wf_context_mono [of d], auto simp: wf_db_def)
  then show ?thesis
    using assms by (simp add: wf_db_def wf_conversations_def wf_messages_def wf_parts_def wf_summaries_def)
qed

lemma wf_link_message:
  assumes "wf_db d" and "hasSummary d sid" and "hasMessage_row d mid"
    and "\<not> (\<exists>(s, m, _) \<in> set (summary_messages d). s = sid \<and> m = mid)"
  shows "wf_db (d\<lparr>summary_messages := summary_messages d @ [(sid, mid, ordinal)]\<rparr>)"
proof -
  have "wf_links (d\<lparr>summary_messages := summary_messages d @ [(sid, mid, ordinal)]\<rparr>)"
    using assms by (force simp: wf_db_def wf_links_def)
  then show ?thesis using wf_set_links [OF assms(1), where xs = "summary_messages d @ [(sid, mid, ordinal)]" and ys = "summary_parents d"] by simp
qed

lemma wf_link_parent:
  assumes "wf_db d" and "hasSummary d sid" and "hasSummary d pid"
    and "\<not> (\<exists>(s, p, _) \<in> set (summary_parents d). s = sid \<and> p = pid)"
  shows "wf_db (d\<lparr>summary_parents := summary_parents d @ [(sid, pid, ordinal)]\<rparr>)"
proof -
  have "wf_links (d\<lparr>summary_parents := summary_parents d @ [(sid, pid, ordinal)]\<rparr>)"
    using assms by (force simp: wf_db_def wf_links_def)
  then show ?thesis using wf_set_links [OF assms(1), where xs = "summary_messages d" and ys = "summary_parents d @ [(sid, pid, ordinal)]"] by simp
qed

text \<open>New context rows, whatever the operation that puts them there.\<close>

lemma wf_set_context:
  assumes "wf_db d" and "\<And>c. hasConversation d c \<Longrightarrow> ctx_ok (d\<lparr>context_items := items\<rparr>) c"
    and "\<And>i. i \<in> set items \<Longrightarrow> hasConversation d (ctx_conversationId i) \<and> valid_ref d (ref_of i)"
  shows "wf_db (d\<lparr>context_items := items\<rparr>)"
proof -
  let ?d = "d\<lparr>context_items := items\<rparr>"
  have "valid_ref ?d r" if "valid_ref d r" for r by (rule valid_ref_mono [OF _ _ that]) simp_all
  moreover have "conv_id c \<in> set (map conv_id (conversations d))" if "c \<in> set (conversations d)" for c
    using that by simp
  ultimately have "wf_context ?d"
    using assms(2,3) by (auto simp: wf_context_def hasConversation_def)
  then show ?thesis
    using assms(1) by (simp add: wf_db_def wf_conversations_def wf_messages_def wf_parts_def wf_summaries_def wf_links_def)
qed

lemma ctx_ok_rows: "ctx_ok d cid \<longleftrightarrow>
    distinct (map ctx_ordinal (filter (\<lambda>i. ctx_conversationId i = cid) (context_items d)))
    \<and> (\<forall>i \<in> set (context_items d). ctx_conversationId i = cid \<longrightarrow> 0 \<le> ctx_ordinal i)"
proof -
  have "mset (map ctx_ordinal (contextItems d cid)) =
      mset (map ctx_ordinal (filter (\<lambda>i. ctx_conversationId i = cid) (context_items d)))"
    by (simp add: contextItems_def)
  then have "distinct (map ctx_ordinal (contextItems d cid)) =
      distinct (map ctx_ordinal (filter (\<lambda>i. ctx_conversationId i = cid) (context_items d)))"
    by (rule mset_eq_imp_distinct_iff)
  then show ?thesis by (auto simp: ctx_ok_def set_contextItems)
qed

lemma contextViolation_None:
  assumes "contextViolation row d = None" and "ref_of row \<noteq> BadRef"
  shows "hasConversation d (ctx_conversationId row)" and "valid_ref d (ref_of row)"
    and "\<not> (\<exists>i \<in> set (context_items d). ctx_conversationId i = ctx_conversationId row \<and> ctx_ordinal i = ctx_ordinal row)"
proof -
  have v: "hasConversation d (ctx_conversationId row)"
    "\<not> (case ctx_messageId row of Some m \<Rightarrow> \<not> hasMessage_row d m | None \<Rightarrow> False)"
    "\<not> (case ctx_summaryId row of Some s \<Rightarrow> \<not> hasSummary d s | None \<Rightarrow> False)"
    "\<not> (\<exists>i \<in> set (context_items d). ctx_conversationId i = ctx_conversationId row \<and> ctx_ordinal i = ctx_ordinal row)"
    using assms(1) unfolding contextViolation_def by (simp_all split: if_splits)
  then show "hasConversation d (ctx_conversationId row)"
    "\<not> (\<exists>i \<in> set (context_items d). ctx_conversationId i = ctx_conversationId row \<and> ctx_ordinal i = ctx_ordinal row)"
    by simp_all
  show "valid_ref d (ref_of row)"
  proof (cases "ref_of row")
    case (MsgRef m)
    then have "ctx_messageId row = Some m" by (simp add: ref_of_Msg)
    then show ?thesis using v(2) MsgRef by simp
  next
    case (SumRef s)
    then have "ctx_summaryId row = Some s" by (simp add: ref_of_Sum)
    then show ?thesis using v(3) SumRef by simp
  qed (use assms(2) in simp)
qed

lemma ctx_ok_insert:
  assumes "ctx_ok d c" and "ctx_conversationId row = c \<Longrightarrow> 0 \<le> ctx_ordinal row"
    and "\<not> (\<exists>i \<in> set (context_items d). ctx_conversationId i = ctx_conversationId row \<and> ctx_ordinal i = ctx_ordinal row)"
  shows "ctx_ok (d\<lparr>context_items := context_items d @ [row]\<rparr>) c"
  using assms by (force simp: ctx_ok_rows)

lemma wf_add_context:
  assumes "wf_db d" and "contextViolation row d = None" and "ref_of row \<noteq> BadRef" and "0 \<le> ctx_ordinal row"
  shows "wf_db (d\<lparr>context_items := context_items d @ [row]\<rparr>)"
proof (rule wf_set_context [OF assms(1)])
  fix c
  show "ctx_ok (d\<lparr>context_items := context_items d @ [row]\<rparr>) c"
    using contextViolation_None(3) [OF assms(2,3)] assms(4) wf_context_ok [OF assms(1)]
    by (intro ctx_ok_insert) auto
next
  fix i assume "i \<in> set (context_items d @ [row])"
  then show "hasConversation d (ctx_conversationId i) \<and> valid_ref d (ref_of i)"
    using contextViolation_None(1,2) [OF assms(2,3)] assms(1) by (auto simp: wf_db_def wf_context_def)
qed

lemma wf_filter_context:
  assumes "wf_db d"
  shows "wf_db (d\<lparr>context_items := filter P (context_items d)\<rparr>)"
proof (rule wf_set_context [OF assms])
  fix c
  have "distinct (map ctx_ordinal (filter (\<lambda>i. ctx_conversationId i = c) (filter P (context_items d))))"
    if "distinct (map ctx_ordinal (filter (\<lambda>i. ctx_conversationId i = c) (context_items d)))"
    using distinct_map_filter [OF that, of P] by (simp add: filter_filter conj_commute)
  then show "ctx_ok (d\<lparr>context_items := filter P (context_items d)\<rparr>) c"
    using wf_context_ok [OF assms, of c] by (simp add: ctx_ok_rows)
qed (use assms in \<open>auto simp: wf_db_def wf_context_def\<close>)

lemma wf_resequence:
  assumes "wf_db d"
  shows "wf_db (d\<lparr>context_items := relabel cid
    (\<lambda>o1. Some (rankIn (map ctx_ordinal (contextItems d cid)) o1)) (context_items d)\<rparr>)"
proof (rule wf_set_context [OF assms])
  let ?f = "\<lambda>o1. Some (rankIn (map ctx_ordinal (contextItems d cid)) o1)"
  let ?d = "d\<lparr>context_items := relabel cid ?f (context_items d)\<rparr>"
  fix c
  show "ctx_ok ?d c"
  proof (cases "c = cid")
    case True
    have "contextItems ?d cid = renumber (contextItems d cid)"
      using wf_context_ok [OF assms, of cid] by (intro contextItems_renumbered) (simp add: ctx_ok_def)
    then have "contiguous ?d cid" by (simp add: contiguous_def)
    then show ?thesis using True contiguous_ok by blast
  next
    case False
    then show ?thesis
      using contextItems_relabel_other [OF False, of ?f d] wf_context_ok [OF assms, of c] by (simp add: ctx_ok_def)
  qed
next
  fix i assume "i \<in> set (relabel cid (\<lambda>o1. Some (rankIn (map ctx_ordinal (contextItems d cid)) o1)) (context_items d))"
  then obtain j where "j \<in> set (context_items d)"
    and "ctx_conversationId i = ctx_conversationId j" and "ref_of i = ref_of j"
    by (auto simp: relabel_def)
  then show "hasConversation d (ctx_conversationId i) \<and> valid_ref d (ref_of i)"
    using assms by (auto simp: wf_db_def wf_context_def)
qed

section \<open>Every operation keeps the integrity\<close>

abbreviation keeps_wf :: "(world, 'a) op \<Rightarrow> bool" where
  "keeps_wf m \<equiv> effect wf_db m (\<lambda>_. wf_db)"

named_theorems keeps \<open>operations that keep the integrity of the database\<close>

lemma keeps_ret [keeps]: "keeps_wf (ret a)"
  by (simp add: effect_ret)

lemma keeps_throw [keeps]: "keeps_wf (throw e)"
  by (rule effect_throw)

lemma keeps_liftE [keeps]: "keeps_wf (liftE r)"
  by (cases r) (simp_all add: keeps)

lemma keeps_getDb [keeps]: "keeps_wf (getDb f)"
  by (simp add: effect_getDb)

lemma keeps_sqlNow [keeps]: "keeps_wf sqlNow"
  by (simp add: effect_sqlNow)

lemma keeps_bind [keeps]: "keeps_wf m \<Longrightarrow> (\<And>a. keeps_wf (k a)) \<Longrightarrow> keeps_wf (bindM m k)"
  by (rule effect_bind)

lemma keeps_if [keeps]: "keeps_wf m \<Longrightarrow> keeps_wf n \<Longrightarrow> keeps_wf (if c then m else n)"
  by simp

lemma keeps_setDb: "(\<And>d. wf_db d \<Longrightarrow> wf_db (f d)) \<Longrightarrow> keeps_wf (setDb f)"
  by (rule effect_setDb)

lemma keeps_sqlWrite: "(\<And>d. wf_db d \<Longrightarrow> violation d = None \<Longrightarrow> wf_db (f d)) \<Longrightarrow> keeps_wf (sqlWrite violation f)"
  by (rule effect_sqlWrite)

lemma keeps_foreachM [keeps]: "(\<And>x. keeps_wf (f x)) \<Longrightarrow> keeps_wf (foreachM f xs)"
  by (rule effect_foreachM)

lemma keeps_mapM [keeps]: "(\<And>x. keeps_wf (f x)) \<Longrightarrow> keeps_wf (mapM f xs)"
  by (induction xs) (auto intro!: keeps)

lemma keeps_index [keeps]: "keeps_wf (indexMessageForFullText opts mid content)"
  unfolding indexMessageForFullText_def by (intro keeps keeps_setDb) simp_all

lemma effect_getDb_then:
  assumes "\<And>a. effect (\<lambda>d. P d \<and> f d = a) (k a) Q"
  shows "effect P (bindM (getDb f) k) Q"
  by (rule effect_bind [OF effect_getDb [where Q = "\<lambda>a d. P d \<and> f d = a"] assms]) simp

lemma keeps_createConversation [keeps]: "keeps_wf (createConversation sessionId title)"
  unfolding createConversation_def
proof (rule keeps_bind [OF keeps_liftE], rule keeps_bind [OF keeps_sqlNow], unfold Let_def,
    rule effect_getDb_then, rule effect_bind [where R = "\<lambda>_. wf_db"], rule effect_setDb)
  fix now cid d assume d: "wf_db d \<and> Suc (conversations_rowid d) = cid"
  let ?row = "\<lparr>conv_id = cid, conv_sessionId = sessionId, conv_title = title, conv_bootstrappedAt = None,
              conv_createdAt = now, conv_updatedAt = now, conv_parentSessionId = None\<rparr>"
  show "wf_db (d\<lparr>conversations := conversations d @ [?row], conversations_rowid := cid\<rparr>)"
    using wf_add_conversation [of d ?row] d by simp
qed (rule keeps_ret)

lemma keeps_getConversationBySessionId [keeps]: "keeps_wf (getConversationBySessionId sessionId)"
  unfolding getConversationBySessionId_def by (intro keeps)

lemma keeps_getOrCreateConversation [keeps]: "keeps_wf (getOrCreateConversation sessionId title)"
  unfolding getOrCreateConversation_def by (intro keeps) (auto split: option.split intro: keeps)

lemma keeps_update_conversations:
  assumes "\<And>c. conv_id (g c) = conv_id c"
  shows "keeps_wf (setDb (\<lambda>d. d\<lparr>conversations := map g (conversations d)\<rparr>))"
proof (rule keeps_setDb)
  fix d assume d: "wf_db d"
  let ?d = "d\<lparr>conversations := map g (conversations d)\<rparr>"
  have has: "hasConversation ?d = hasConversation d"
    using assms by (auto simp: fun_eq_iff hasConversation_def image_image)
  have "wf_context ?d"
    using d by - (rule wf_context_mono [of d], auto simp: wf_db_def has assms image_image)
  moreover have "wf_conversations ?d"
    using d assms by (simp add: wf_db_def wf_conversations_def comp_def)
  ultimately show "wf_db ?d"
    using d by (simp add: wf_db_def wf_messages_def wf_parts_def wf_summaries_def wf_links_def has)
qed

lemma keeps_markConversationBootstrapped [keeps]: "keeps_wf (markConversationBootstrapped cid)"
  unfolding markConversationBootstrapped_def by (intro keeps keeps_update_conversations) simp

lemma keeps_setParentSessionIdIfNull [keeps]: "keeps_wf (setParentSessionIdIfNull cid parentSessionId)"
  unfolding setParentSessionIdIfNull_def by (intro keeps keeps_update_conversations) simp

lemma keeps_insertMessage [keeps]: "keeps_wf (insertMessage opts i)"
  unfolding insertMessage_def
proof (rule keeps_bind [OF keeps_sqlNow], rule effect_getDb_then, rule effect_bind [where R = "\<lambda>_. wf_db"])
  fix now row
  show "effect (\<lambda>d. wf_db d \<and> messageRow (Suc (messages_rowid d)) i now = row)
      (sqlWrite (messageViolation row) (\<lambda>d. d\<lparr>messages := messages d @ [row], messages_rowid := msg_id row\<rparr>)) (\<lambda>_. wf_db)"
    by (rule effect_sqlWrite) (auto intro!: wf_add_message simp: messageRow_def)
qed (intro keeps)

lemma keeps_createMessage [keeps]: "keeps_wf (createMessage opts i)"
  unfolding createMessage_def by (intro keeps)

lemma keeps_createMessagesBulkCore [keeps]: "keeps_wf (createMessagesBulkCore opts inputs)"
  unfolding createMessagesBulkCore_def by (intro keeps)

lemma keeps_appendMessagesCore [keeps]: "keeps_wf (appendMessagesCore opts cid inputs)"
  unfolding appendMessagesCore_def by (intro keeps)

lemma keeps_insertPart [keeps]: "keeps_wf (insertPart mid p)"
  unfolding insertPart_def Let_def
  by (rule effect_bind [OF effect_randomUUID [where Q = "\<lambda>_. wf_db"]]) (auto intro: keeps_sqlWrite wf_add_part)

lemma keeps_createMessagePartsCore [keeps]: "keeps_wf (createMessagePartsCore mid parts)"
  unfolding createMessagePartsCore_def by (intro keeps)

lemma keeps_insertSummary [keeps]: "keeps_wf (insertSummary opts input)"
  unfolding insertSummary_def Let_def
  by (intro keeps keeps_sqlWrite keeps_setDb) (auto intro!: wf_add_summary split: if_splits)

lemma keeps_linkMessage [keeps]: "keeps_wf (linkMessage sid mid ordinal)"
  unfolding linkMessage_def by (rule keeps_sqlWrite) (auto intro!: wf_link_message split: if_splits)

lemma keeps_linkMessagesFrom [keeps]: "keeps_wf (linkMessagesFrom sid idx ms)"
  by (induction ms arbitrary: idx) (auto intro!: keeps)

lemma keeps_linkSummaryToMessages [keeps]: "keeps_wf (linkSummaryToMessages sid ms)"
  unfolding linkSummaryToMessages_def by (intro keeps)

lemma keeps_linkParent [keeps]: "keeps_wf (linkParent sid pid ordinal)"
  unfolding linkParent_def by (rule keeps_sqlWrite) (auto intro!: wf_link_parent split: if_splits)

lemma keeps_linkParentsFrom [keeps]: "keeps_wf (linkParentsFrom sid idx ps)"
  by (induction ps arbitrary: idx) (auto intro!: keeps)

lemma keeps_linkSummaryToParents [keeps]: "keeps_wf (linkSummaryToParents sid ps)"
  unfolding linkSummaryToParents_def by (intro keeps)

lemma keeps_insertContextRow:
  assumes "ref_of row \<noteq> BadRef" and "0 \<le> ctx_ordinal row"
  shows "keeps_wf (insertContextRow row)"
  unfolding insertContextRow_def using assms by (intro keeps_sqlWrite wf_add_context)

lemma maxOrdinal_wf: "wf_db d \<Longrightarrow> 0 \<le> maxOrdinal d cid + 1"
  using maxOrdinal_lower [OF wf_context_ok, of d cid] by simp

lemma keeps_appendContextMessagesFrom: "0 \<le> ord \<Longrightarrow> keeps_wf (appendContextMessagesFrom cid ord ms)"
proof (induction ms arbitrary: ord)
  case (Cons m ms)
  then show ?case
    by (auto intro!: keeps keeps_insertContextRow simp: messageContextRow_def ref_of_def)
qed (simp add: keeps)

lemma local_insertContextRow [local_rules]: "local_op (insertContextRow row)"
  unfolding insertContextRow_def by (rule local_sqlWrite)

lemma local_appendContextMessagesFrom [local_rules]: "local_op (appendContextMessagesFrom cid ord ms)"
  by (induction ms arbitrary: ord) (auto intro!: local_rules)

lemma effect_maxOrdinal:
  assumes "\<And>m. local_op (k m)" and "\<And>m. 0 \<le> m + 1 \<Longrightarrow> keeps_wf (k m)"
  shows "keeps_wf (bindM (getDb (\<lambda>d. maxOrdinal d cid)) k)"
proof (rule effect_getDb_then)
  fix m
  show "effect (\<lambda>d. wf_db d \<and> maxOrdinal d cid = m) (k m) (\<lambda>_. wf_db)"
  proof (cases "0 \<le> m + 1")
    case True
    show ?thesis by (rule effect_conseq [OF assms(2) [OF True]]) simp_all
  next
    case False
    then show ?thesis using maxOrdinal_wf by (intro effectI assms(1)) blast
  qed
qed

lemma keeps_appendContextMessages [keeps]: "keeps_wf (appendContextMessages cid ms)"
  unfolding appendContextMessages_def
  by (intro keeps effect_maxOrdinal local_rules keeps_appendContextMessagesFrom)

lemma keeps_appendContextMessage [keeps]: "keeps_wf (appendContextMessage cid mid)"
  unfolding appendContextMessage_def
  by (intro effect_maxOrdinal local_rules keeps keeps_insertContextRow)
    (simp_all add: messageContextRow_def ref_of_def)

lemma keeps_appendContextSummary [keeps]: "keeps_wf (appendContextSummary cid sid)"
  unfolding appendContextSummary_def
  by (intro effect_maxOrdinal local_rules keeps keeps_insertContextRow)
    (simp_all add: summaryContextRow_def ref_of_def)

lemma local_moveOrdinals [local_rules]: "local_op (moveOrdinals cid moves)"
  by (induction cid moves rule: moveOrdinals.induct) (auto intro!: local_rules simp: updateOrdinal_def)

lemma keeps_resequence [keeps]: "keeps_wf (resequence cid)"
proof (rule effectI)
  show "local_op (resequence cid)"
    unfolding resequence_def Let_def by (intro local_rules)
next
  fix w a w' assume wf: "wf_db (w_db w)" and run: "resequence cid w = (Inr a, w')"
  have "ctx_ok (w_db w) cid" by (rule wf_context_ok [OF wf])
  then have "resequence cid w = (Inr (), w\<lparr>w_db := (w_db w)\<lparr>context_items := relabel cid
      (\<lambda>o1. Some (rankIn (map ctx_ordinal (contextItems (w_db w) cid)) o1)) (context_items (w_db w))\<rparr>\<rparr>)"
    by (intro resequence_run) (auto simp: ctx_ok_def)
  then show "wf_db (w_db w')" using run wf_resequence [OF wf, of cid] by simp
qed

text \<open>The start of a replaced range is an ordinal of the context, so it is not negative.\<close>

definition valid_bounds :: "(int \<times> int) option \<Rightarrow> bool" where
  "valid_bounds bounds = (case bounds of None \<Rightarrow> True | Some (s, _) \<Rightarrow> 0 \<le> s)"

lemma keeps_replaceContextRangeCore:
  assumes "valid_bounds bounds"
  shows "keeps_wf (replaceContextRangeCore cid bounds sid)"
proof -
  have row: "keeps_wf (bindM sqlNow (\<lambda>now. bindM (insertContextRow (summaryContextRow cid ord sid now)) (\<lambda>_. resequence cid)))"
    if "0 \<le> ord" for ord
    using that by (intro keeps keeps_insertContextRow) (simp_all add: summaryContextRow_def ref_of_def)
  show ?thesis
  proof (cases bounds)
    case None
    have "keeps_wf (bindM (getDb (\<lambda>d. maxOrdinal d cid)) (\<lambda>m. bindM sqlNow (\<lambda>now.
        bindM (insertContextRow (summaryContextRow cid (m + 1) sid now)) (\<lambda>_. resequence cid))))"
      by (rule effect_maxOrdinal) (intro local_rules effect_local [OF keeps_resequence] row)+
    moreover have "replaceContextRangeCore cid None sid = bindM (getDb (\<lambda>d. maxOrdinal d cid)) (\<lambda>m. bindM sqlNow (\<lambda>now.
        bindM (insertContextRow (summaryContextRow cid (m + 1) sid now)) (\<lambda>_. resequence cid)))"
      by (rule ext) (simp add: replaceContextRangeCore_def getDb_def)
    ultimately show ?thesis using None by simp
  next
    case (Some b)
    obtain s e where b: "b = (s, e)" by (cases b)
    have del: "keeps_wf (deleteContextRange cid s e)"
      unfolding deleteContextRange_def by (intro keeps_setDb wf_filter_context)
    have "keeps_wf (bindM (getDb (\<lambda>d. s)) (\<lambda>ord. bindM sqlNow (\<lambda>now.
        bindM (insertContextRow (summaryContextRow cid ord sid now)) (\<lambda>_. resequence cid))))"
    proof (rule effect_getDb_then)
      fix ord
      have "local_op (bindM sqlNow (\<lambda>now.
        bindM (insertContextRow (summaryContextRow cid ord sid now)) (\<lambda>_. resequence cid)))"
        by (intro local_rules effect_local [OF keeps_resequence])
      then show "effect (\<lambda>d. wf_db d \<and> s = ord) (bindM sqlNow (\<lambda>now.
        bindM (insertContextRow (summaryContextRow cid ord sid now)) (\<lambda>_. resequence cid))) (\<lambda>_. wf_db)"
        using row [of ord] assms Some b
        by (cases "s = ord") (auto simp: valid_bounds_def elim: effect_conseq intro: effectI)
    qed
    then show ?thesis
      unfolding replaceContextRangeCore_def using Some b del by (simp add: keeps_bind)
  qed
qed

section \<open>Deleting messages\<close>

lemma wf_delete_message:
  assumes "wf_db d" and "\<not> referencedBySummary d mid"
    and "\<not> (hasMessage_row d mid \<and> list_ex (\<lambda>i. ctx_messageId i = Some mid) (context_items d))"
  shows "wf_db (d\<lparr>messages := filter (\<lambda>m. msg_id m \<noteq> mid) (messages d),
    message_parts := filter (\<lambda>p. part_messageId p \<noteq> mid) (message_parts d)\<rparr>)"
proof -
  let ?d = "d\<lparr>messages := filter (\<lambda>m. msg_id m \<noteq> mid) (messages d),
    message_parts := filter (\<lambda>p. part_messageId p \<noteq> mid) (message_parts d)\<rparr>"
  have has: "hasMessage_row (d\<lparr>messages := filter (\<lambda>m. msg_id m \<noteq> mid) (messages d)\<rparr>) m
      \<longleftrightarrow> hasMessage_row d m \<and> m \<noteq> mid" for m
    by (auto simp: hasMessage_row_def)
  have other: "hasConversation ?d = hasConversation d" "hasSummary ?d = hasSummary d"
    by (simp_all add: fun_eq_iff hasConversation_def hasSummary_def)
  have "wf_messages ?d"
    using assms(1) by (auto simp: wf_db_def wf_messages_def other distinct_map_filter)
  moreover have "wf_parts ?d"
    using assms(1) by (auto simp: wf_db_def wf_parts_def has distinct_map_filter)
  moreover have "wf_links ?d"
    using assms(1,2) by (fastforce simp: wf_db_def wf_links_def has other referencedBySummary_def list_ex_iff)
  moreover have "wf_context ?d"
  proof -
    have "valid_ref ?d (ref_of i)" if "i \<in> set (context_items d)" for i
    proof -
      have v: "valid_ref d (ref_of i)" using assms(1) that by (simp add: wf_db_def wf_context_def)
      show ?thesis
      proof (cases "ref_of i")
        case (MsgRef m)
        then have "ctx_messageId i = Some m" by (simp add: ref_of_Msg)
        then have "m \<noteq> mid" using assms(3) that v MsgRef by (auto simp: list_ex_iff)
        then show ?thesis using v MsgRef has by simp
      qed (use v other in auto)
    qed
    then show ?thesis
      using assms(1) by (simp add: wf_db_def wf_context_def other ctx_ok_rows)
  qed
  ultimately show ?thesis
    using assms(1) by (simp add: wf_db_def wf_conversations_def wf_summaries_def other)
qed

lemma keeps_deleteMessage [keeps]: "keeps_wf (deleteMessage opts mid)"
  unfolding deleteMessage_def
proof (rule effect_getDb_then)
  fix found
  let ?P = "\<lambda>d. wf_db d \<and> \<not> referencedBySummary d mid"
  have ref: "referencedBySummary (d\<lparr>context_items := x\<rparr>) mid = referencedBySummary d mid"
    "referencedBySummary (d\<lparr>messages_fts := y\<rparr>) mid = referencedBySummary d mid" for d x y
    by (simp_all add: referencedBySummary_def)
  have ctx: "effect ?P (setDb (\<lambda>d. d\<lparr>context_items := filter (\<lambda>i. \<not> (ctx_itemType i = MessageItem
      \<and> ctx_messageId i = Some mid)) (context_items d)\<rparr>)) (\<lambda>_. ?P)"
    by (rule effect_setDb) (use wf_filter_context ref in blast)
  have fts: "effect ?P (deleteMessageFromFullText opts mid) (\<lambda>_. ?P)"
    unfolding deleteMessageFromFullText_def
    by (intro effect_if effect_ret effect_setDb) (simp_all add: ref)
  have msg: "effect ?P (sqlWrite
         (\<lambda>d. if hasMessage_row d mid \<and> list_ex (\<lambda>i. ctx_messageId i = Some mid) (context_items d)
              then Some ''context_items.message_id'' else None)
         (\<lambda>d. d\<lparr>messages := filter (\<lambda>m. msg_id m \<noteq> mid) (messages d),
                message_parts := filter (\<lambda>p. part_messageId p \<noteq> mid) (message_parts d)\<rparr>)) (\<lambda>_. wf_db)"
    by (rule effect_sqlWrite, rule wf_delete_message) (auto split: if_splits)
  have "effect ?P (bindM (setDb (\<lambda>d. d\<lparr>context_items := filter (\<lambda>i. \<not> (ctx_itemType i = MessageItem
      \<and> ctx_messageId i = Some mid)) (context_items d)\<rparr>)) (\<lambda>_.
       bindM (deleteMessageFromFullText opts mid) (\<lambda>_.
       bindM (sqlWrite
         (\<lambda>d. if hasMessage_row d mid \<and> list_ex (\<lambda>i. ctx_messageId i = Some mid) (context_items d)
              then Some ''context_items.message_id'' else None)
         (\<lambda>d. d\<lparr>messages := filter (\<lambda>m. msg_id m \<noteq> mid) (messages d),
                message_parts := filter (\<lambda>p. part_messageId p \<noteq> mid) (message_parts d)\<rparr>)) (\<lambda>_.
       ret True)))) (\<lambda>_. wf_db)"
    by (rule effect_bind [OF ctx], rule effect_bind [OF fts], rule effect_bind [OF msg], rule keeps_ret)
  then show "effect (\<lambda>d. wf_db d \<and> referencedBySummary d mid = found)
    (if found then ret False
     else bindM (setDb (\<lambda>d. d\<lparr>context_items :=
            filter (\<lambda>i. \<not> (ctx_itemType i = MessageItem \<and> ctx_messageId i = Some mid)) (context_items d)\<rparr>)) (\<lambda>_.
       bindM (deleteMessageFromFullText opts mid) (\<lambda>_.
       bindM (sqlWrite
         (\<lambda>d. if hasMessage_row d mid \<and> list_ex (\<lambda>i. ctx_messageId i = Some mid) (context_items d)
              then Some ''context_items.message_id'' else None)
         (\<lambda>d. d\<lparr>messages := filter (\<lambda>m. msg_id m \<noteq> mid) (messages d),
                message_parts := filter (\<lambda>p. part_messageId p \<noteq> mid) (message_parts d)\<rparr>)) (\<lambda>_.
       ret True)))) (\<lambda>_. wf_db)"
    by (cases found) (auto elim: effect_conseq intro: effect_ret)
qed

lemma keeps_deleteMessagesCore [keeps]: "keeps_wf (deleteMessagesCore opts ids)"
  unfolding deleteMessagesCore_def by (intro keeps)

end
