(* ===== verification/Lineage.thy ===== *)
theory Lineage
  imports Store_Facts
begin

text \<open>
  What a context stands for.  A summary expands, through its links, to the messages it was made
  from; the transcript of a conversation is the expansion of its context, item by item.  The
  locale \<open>lineage_store\<close> states what a step of compaction must promise for the transcript to
  stay what it was; the step relation of the compaction engine is shown to keep the promise.
\<close>

section \<open>Expansion\<close>

definition summaryParentIds :: "database \<Rightarrow> string \<Rightarrow> string list" where
  "summaryParentIds d sid = map (\<lambda>(_, p, _). p)
     (sort_key (\<lambda>(_, _, ord). ord) (filter (\<lambda>(s, _, _). s = sid) (summary_parents d)))"

inductive expands :: "database \<Rightarrow> string \<Rightarrow> nat list \<Rightarrow> bool" for d where
  expand: "list_all2 (expands d) (summaryParentIds d sid) mss
    \<Longrightarrow> expands d sid (summaryMessageIds d sid @ concat mss)"

fun ref_expands :: "(string \<Rightarrow> nat list \<Rightarrow> bool) \<Rightarrow> ctx_ref \<Rightarrow> nat list \<Rightarrow> bool" where
  "ref_expands ex (MsgRef m) ms = (ms = [m])"
| "ref_expands ex (SumRef s) ms = ex s ms"
| "ref_expands ex BadRef ms = False"

definition expands_to :: "(string \<Rightarrow> nat list \<Rightarrow> bool) \<Rightarrow> ctx_ref list \<Rightarrow> nat list \<Rightarrow> bool" where
  "expands_to ex rs ms \<longleftrightarrow> (\<exists>mss. list_all2 (ref_expands ex) rs mss \<and> ms = concat mss)"

lemma expands_to_Nil [simp]: "expands_to ex [] ms \<longleftrightarrow> ms = []"
  by (auto simp: expands_to_def)

lemma expands_to_append:
  "expands_to ex (rs @ rs') ms \<longleftrightarrow> (\<exists>a b. ms = a @ b \<and> expands_to ex rs a \<and> expands_to ex rs' b)"
proof
  assume "expands_to ex (rs @ rs') ms"
  then obtain mss where "list_all2 (ref_expands ex) (rs @ rs') mss" and "ms = concat mss"
    by (auto simp: expands_to_def)
  then obtain x y where "mss = x @ y" "list_all2 (ref_expands ex) rs x" "list_all2 (ref_expands ex) rs' y"
    by (auto simp: list_all2_append1)
  then show "\<exists>a b. ms = a @ b \<and> expands_to ex rs a \<and> expands_to ex rs' b"
    using \<open>ms = concat mss\<close> by (intro exI [of _ "concat x"] exI [of _ "concat y"]) (auto simp: expands_to_def)
next
  assume "\<exists>a b. ms = a @ b \<and> expands_to ex rs a \<and> expands_to ex rs' b"
  then obtain x y where "ms = concat x @ concat y" "list_all2 (ref_expands ex) rs x" "list_all2 (ref_expands ex) rs' y"
    by (auto simp: expands_to_def)
  then show "expands_to ex (rs @ rs') ms"
    unfolding expands_to_def by (intro exI [of _ "x @ y"]) (simp add: list_all2_appendI)
qed

lemma expands_to_Cons: "expands_to ex (r # rs) ms \<longleftrightarrow>
    (\<exists>a b. ms = a @ b \<and> ref_expands ex r a \<and> expands_to ex rs b)"
proof -
  have "expands_to ex [r] a \<longleftrightarrow> ref_expands ex r a" for a
    by (force simp: expands_to_def list_all2_Cons1)
  then show ?thesis using expands_to_append [of ex "[r]" rs ms] by simp
qed

lemma expands_to_msgs: "expands_to ex (map MsgRef ms) xs \<longleftrightarrow> xs = ms"
  by (induction ms arbitrary: xs) (auto simp: expands_to_Cons)

lemma expands_to_sums: "expands_to ex (map SumRef sids) ms \<longleftrightarrow> (\<exists>mss. list_all2 ex sids mss \<and> ms = concat mss)"
  by (simp add: expands_to_def list_all2_map1)

lemma expands_to_mono:
  assumes "expands_to ex rs ms" and "\<And>s ms. SumRef s \<in> set rs \<Longrightarrow> ex s ms \<Longrightarrow> ex' s ms"
  shows "expands_to ex' rs ms"
proof -
  obtain mss where all: "list_all2 (ref_expands ex) rs mss" and ms: "ms = concat mss"
    using assms(1) by (auto simp: expands_to_def)
  from all have "list_all2 (ref_expands ex') rs mss"
  proof (rule list.rel_mono_strong)
    fix r l assume "r \<in> set rs" and "ref_expands ex r l"
    then show "ref_expands ex' r l" by - (cases r, simp_all add: assms(2))
  qed
  then show ?thesis using ms by (auto simp: expands_to_def)
qed

section \<open>The contract of a step\<close>

text \<open>
  A step that keeps the transcript: it never takes an expansion away from a summary that was
  there, it touches the context of one conversation only, and there it either appends nothing and
  removes nothing or puts one new summary, with the same expansion, in the place of a range.
\<close>

locale lineage_store =
  fixes refs_of :: "'d \<Rightarrow> nat \<Rightarrow> ctx_ref list"
    and expand :: "'d \<Rightarrow> string \<Rightarrow> nat list \<Rightarrow> bool"
    and known :: "'d \<Rightarrow> string \<Rightarrow> bool"
    and step :: "nat \<Rightarrow> 'd \<Rightarrow> 'd \<Rightarrow> bool"
  assumes stable: "step cid d d' \<Longrightarrow> known d s \<Longrightarrow> expand d s ms \<Longrightarrow> expand d' s ms"
    and known_stable: "step cid d d' \<Longrightarrow> known d s \<Longrightarrow> known d' s"
    and elsewhere: "step cid d d' \<Longrightarrow> c \<noteq> cid \<Longrightarrow> refs_of d' c = refs_of d c"
    and splice: "step cid d d' \<Longrightarrow> refs_of d' cid = refs_of d cid \<or>
      (\<exists>pre mid suf s. refs_of d cid = pre @ mid @ suf \<and> refs_of d' cid = pre @ SumRef s # suf
         \<and> \<not> known d s \<and> known d' s
         \<and> (\<forall>ms. distinct mid \<longrightarrow> expands_to (expand d) mid ms \<longrightarrow> expand d' s ms))"
begin

definition transcript :: "'d \<Rightarrow> nat \<Rightarrow> nat list \<Rightarrow> bool" where
  "transcript d c ms \<longleftrightarrow> distinct (refs_of d c) \<and> (\<forall>s. SumRef s \<in> set (refs_of d c) \<longrightarrow> known d s)
     \<and> expands_to (expand d) (refs_of d c) ms"

lemma expands_stable:
  assumes "step cid d d'" and "\<forall>s. SumRef s \<in> set rs \<longrightarrow> known d s" and "expands_to (expand d) rs ms"
  shows "expands_to (expand d') rs ms"
  using assms by (blast intro: expands_to_mono stable)

lemma transcript_step:
  assumes "step cid d d'" and "transcript d c ms"
  shows "transcript d' c ms"
proof (cases "refs_of d' c = refs_of d c")
  case True
  then show ?thesis
    using assms known_stable [OF assms(1)] expands_stable [OF assms(1)] by (auto simp: transcript_def)
next
  case False
  then have c: "c = cid" using elsewhere [OF assms(1)] by blast
  then obtain pre mid suf s where refs: "refs_of d c = pre @ mid @ suf" "refs_of d' c = pre @ SumRef s # suf"
    and new: "\<not> known d s" "known d' s"
    and exp: "\<And>ms. distinct mid \<Longrightarrow> expands_to (expand d) mid ms \<Longrightarrow> expand d' s ms"
    using splice [OF assms(1)] False by auto
  have known: "\<forall>s. SumRef s \<in> set (pre @ mid @ suf) \<longrightarrow> known d s" and dist: "distinct (pre @ mid @ suf)"
    using assms(2) refs by (simp_all add: transcript_def)
  obtain x y z where ms: "ms = x @ y @ z" and "expands_to (expand d) pre x"
    and y: "expands_to (expand d) mid y" and "expands_to (expand d) suf z"
    using assms(2) refs(1) by (auto simp: transcript_def expands_to_append)
  then have x: "expands_to (expand d') pre x" and z: "expands_to (expand d') suf z"
    using expands_stable [OF assms(1), of pre x] expands_stable [OF assms(1), of suf z] known by auto
  have "expand d' s y" using exp [OF _ y] dist by simp
  then have "expands_to (expand d') (pre @ SumRef s # suf) ms"
    unfolding ms expands_to_append expands_to_Cons using x z by auto
  moreover have "SumRef s \<notin> set (pre @ suf)" using known new(1) by auto
  ultimately show ?thesis
    using dist known new(2) known_stable [OF assms(1)] refs(2) by (auto simp: transcript_def)
qed

lemma transcript_steps: "(step cid)\<^sup>*\<^sup>* d d' \<Longrightarrow> transcript d c ms \<Longrightarrow> transcript d' c ms"
  by (induction rule: rtranclp_induct) (auto intro: transcript_step)

end

section \<open>What the linking statements insert\<close>

fun linkRows :: "string \<Rightarrow> 'a set \<Rightarrow> nat \<Rightarrow> 'a list \<Rightarrow> (string \<times> 'a \<times> nat) list" where
  "linkRows sid seen idx [] = []"
| "linkRows sid seen idx (x # xs) = (if x \<in> seen then linkRows sid seen (Suc idx) xs
     else (sid, x, idx) # linkRows sid (insert x seen) (Suc idx) xs)"

lemma linkRows_fst: "t \<in> set (linkRows sid seen idx xs) \<Longrightarrow> fst t = sid"
  by (induction sid seen idx xs rule: linkRows.induct) (auto split: if_splits)

lemma linkRows_ordinals: "sorted (map (\<lambda>(_, _, ord). ord) (linkRows sid seen idx xs))
    \<and> (\<forall>t \<in> set (linkRows sid seen idx xs). idx \<le> snd (snd t))"
  by (induction sid seen idx xs rule: linkRows.induct) force+

lemma linkRows_mids: "map (\<lambda>(_, x, _). x) (linkRows sid seen idx xs) = dedupe_from seen xs"
  by (induction sid seen idx xs rule: linkRows.induct) auto

lemma filter_linkRows:
  "filter (\<lambda>(s, _, _). s = sid) (linkRows sid seen idx xs) = linkRows sid seen idx xs"
  by (induction sid seen idx xs rule: linkRows.induct) auto

lemma filter_linkRows_other:
  "s \<noteq> sid \<Longrightarrow> filter (\<lambda>(t, _, _). t = s) (linkRows sid seen idx xs) = []"
  by (induction sid seen idx xs rule: linkRows.induct) auto

text \<open>Reading back the links of a fresh summary gives the linked keys, each once, in order.\<close>

lemma link_roundtrip:
  assumes "\<forall>t \<in> set links. fst t \<noteq> sid"
  shows "map (\<lambda>(_, x, _). x) (sort_key (\<lambda>(_, _, ord). ord)
      (filter (\<lambda>(s, _, _). s = sid) (links @ linkRows sid {} 0 xs))) = dedupe_from {} xs"
proof -
  have none: "filter (\<lambda>(s, _, _). s = sid) links = []"
    using assms by (auto simp: filter_empty_conv)
  have "sort_key (\<lambda>(_, _, ord). ord) (linkRows sid {} 0 xs) = linkRows sid {} 0 xs"
    by (rule sort_key_id_if_sorted [OF conjunct1 [OF linkRows_ordinals]])
  then show ?thesis
    by (simp only: filter_append none filter_linkRows append_Nil linkRows_mids)
qed

lemma link_other:
  assumes "s \<noteq> sid"
  shows "filter (\<lambda>(t, _, _). t = s) (links @ linkRows sid seen idx xs) = filter (\<lambda>(t, _, _). t = s) links"
  using filter_linkRows_other [OF assms] by simp

definition linkedBefore :: "(string \<times> 'a \<times> nat) list \<Rightarrow> string \<Rightarrow> 'a set" where
  "linkedBefore links sid = {x. \<exists>ord. (sid, x, ord) \<in> set links}"

lemma effect_linkMessagesFrom:
  "effect (\<lambda>d. d = d0) (linkMessagesFrom sid idx ms) (\<lambda>_ d. d = d0\<lparr>summary_messages :=
     summary_messages d0 @ linkRows sid (linkedBefore (summary_messages d0) sid) idx ms\<rparr>)"
proof (induction ms arbitrary: idx d0)
  case Nil
  show ?case by (simp add: effect_ret)
next
  case (Cons m ms)
  let ?old = "m \<in> linkedBefore (summary_messages d0) sid"
  let ?d1 = "if ?old then d0 else d0\<lparr>summary_messages := summary_messages d0 @ [(sid, m, idx)]\<rparr>"
  have old: "(\<exists>(s, x, _) \<in> set (summary_messages d0). s = sid \<and> x = m) \<longleftrightarrow> ?old"
    by (auto simp: linkedBefore_def)
  have step: "effect (\<lambda>d. d = d0) (linkMessage sid m idx) (\<lambda>_ d. d = ?d1)"
    unfolding linkMessage_def by (rule effect_sqlWrite) (use old in simp)
  have "linkedBefore (summary_messages ?d1) sid = insert m (linkedBefore (summary_messages d0) sid)"
    by (auto simp: linkedBefore_def)
  then have eq: "?d1\<lparr>summary_messages := summary_messages ?d1 @
        linkRows sid (linkedBefore (summary_messages ?d1) sid) (Suc idx) ms\<rparr> = d0\<lparr>summary_messages :=
      summary_messages d0 @ linkRows sid (linkedBefore (summary_messages d0) sid) idx (m # ms)\<rparr>"
    by (auto simp: insert_absorb)
  have "effect (\<lambda>d. d = d0) (bindM (linkMessage sid m idx) (\<lambda>_. linkMessagesFrom sid (Suc idx) ms))
    (\<lambda>_ d. d = ?d1\<lparr>summary_messages := summary_messages ?d1 @
        linkRows sid (linkedBefore (summary_messages ?d1) sid) (Suc idx) ms\<rparr>)"
    by (rule effect_bind [OF step Cons.IH])
  then show ?case unfolding eq by simp
qed

lemma effect_linkParentsFrom:
  "effect (\<lambda>d. d = d0) (linkParentsFrom sid idx ps) (\<lambda>_ d. d = d0\<lparr>summary_parents :=
     summary_parents d0 @ linkRows sid (linkedBefore (summary_parents d0) sid) idx ps\<rparr>)"
proof (induction ps arbitrary: idx d0)
  case Nil
  show ?case by (simp add: effect_ret)
next
  case (Cons p ps)
  let ?old = "p \<in> linkedBefore (summary_parents d0) sid"
  let ?d1 = "if ?old then d0 else d0\<lparr>summary_parents := summary_parents d0 @ [(sid, p, idx)]\<rparr>"
  have old: "(\<exists>(s, x, _) \<in> set (summary_parents d0). s = sid \<and> x = p) \<longleftrightarrow> ?old"
    by (auto simp: linkedBefore_def)
  have step: "effect (\<lambda>d. d = d0) (linkParent sid p idx) (\<lambda>_ d. d = ?d1)"
    unfolding linkParent_def by (rule effect_sqlWrite) (use old in simp)
  have "linkedBefore (summary_parents ?d1) sid = insert p (linkedBefore (summary_parents d0) sid)"
    by (auto simp: linkedBefore_def)
  then have eq: "?d1\<lparr>summary_parents := summary_parents ?d1 @
        linkRows sid (linkedBefore (summary_parents ?d1) sid) (Suc idx) ps\<rparr> = d0\<lparr>summary_parents :=
      summary_parents d0 @ linkRows sid (linkedBefore (summary_parents d0) sid) idx (p # ps)\<rparr>"
    by (auto simp: insert_absorb)
  have "effect (\<lambda>d. d = d0) (bindM (linkParent sid p idx) (\<lambda>_. linkParentsFrom sid (Suc idx) ps))
    (\<lambda>_ d. d = ?d1\<lparr>summary_parents := summary_parents ?d1 @
        linkRows sid (linkedBefore (summary_parents ?d1) sid) (Suc idx) ps\<rparr>)"
    by (rule effect_bind [OF step Cons.IH])
  then show ?case unfolding eq by simp
qed

lemma linkedBefore_fresh:
  assumes "wf_db d" and "\<not> hasSummary d sid"
  shows "linkedBefore (summary_messages d) sid = {}" and "linkedBefore (summary_parents d) sid = {}"
  using assms by (auto simp: linkedBefore_def wf_db_def wf_links_def)

lemma effect_insertSummary:
  "effect (\<lambda>d. d = d0) (insertSummary opts input) (\<lambda>row d. \<exists>now fts. row = summaryRow input now
     \<and> d = d0\<lparr>summaries := summaries d0 @ [row], summaries_fts := fts\<rparr>
     \<and> \<not> hasSummary d0 (in_summaryId input) \<and> hasConversation d0 (in_conversationId input))"
proof -
  let ?Q = "\<lambda>row d. \<exists>now fts. row = summaryRow input now
     \<and> d = d0\<lparr>summaries := summaries d0 @ [row], summaries_fts := fts\<rparr>
     \<and> \<not> hasSummary d0 (in_summaryId input) \<and> hasConversation d0 (in_conversationId input)"
  have fields: "sum_id (summaryRow input now) = in_summaryId input"
    "sum_conversationId (summaryRow input now) = in_conversationId input" for now
    by (simp_all add: summaryRow_def)
  have insert: "effect (\<lambda>d. d = d0) (sqlWrite
       (\<lambda>d. if hasSummary d (sum_id (summaryRow input now)) then Some ''summaries.summary_id''
            else if \<not> hasConversation d (sum_conversationId (summaryRow input now)) then Some ''summaries.conversation_id''
            else None)
       (\<lambda>d. d\<lparr>summaries := summaries d @ [summaryRow input now]\<rparr>)) (\<lambda>_. ?Q (summaryRow input now))" for now
  proof (rule effect_sqlWrite)
    fix d assume "d = d0" and "(if hasSummary d (sum_id (summaryRow input now)) then Some ''summaries.summary_id''
            else if \<not> hasConversation d (sum_conversationId (summaryRow input now)) then Some ''summaries.conversation_id''
            else None) = None"
    moreover have "d0\<lparr>summaries := x\<rparr> = d0\<lparr>summaries := x, summaries_fts := summaries_fts d0\<rparr>" for x by simp
    ultimately show "?Q (summaryRow input now) (d\<lparr>summaries := summaries d @ [summaryRow input now]\<rparr>)"
      unfolding fields by (intro exI [of _ now] exI [of _ "summaries_fts d0"]) (simp split: if_splits)
  qed
  have fts: "effect (?Q row) (if ftsStatementOk opts
        then setDb (\<lambda>d. d\<lparr>summaries_fts := summaries_fts d @ [(sum_id row, sum_content row)]\<rparr>)
        else ret ()) (\<lambda>_. ?Q row)" for row
    by (intro effect_if effect_setDb effect_ret) auto
  show ?thesis
    unfolding insertSummary_def Let_def
    by (rule effect_bind [OF effect_sqlNow [where Q = "\<lambda>_ d. d = d0"]], simp,
        rule effect_bind [OF insert], rule effect_if, rule effect_ret, simp,
        rule effect_bind [OF fts], rule effect_ret, simp)
qed

end
