(* ===== verification/Compaction_Steps.thy ===== *)
theory Compaction_Steps
  imports Lineage "HOL-Library.Sublist"
begin

text \<open>
  The abstract specification of compaction: a relation between databases with one rule for each
  durable thing the engine does, and the invariants of its reachable states.
\<close>

section \<open>The step relation\<close>

definition isRawMessage :: "context_item_record \<Rightarrow> bool" where
  "isRawMessage i \<longleftrightarrow> ctx_itemType i = MessageItem \<and> ctx_messageId i \<noteq> None"

text \<open>
  A leaf step replaces a chunk of messages, older than the \<open>n\<close> newest ones, by a summary that
  is linked to them; a condensed step replaces a chunk of summaries of one depth by a summary one
  deeper; an event step records what happened as a system message with its parts, outside of the
  context.
\<close>

inductive compaction_step :: "nat \<Rightarrow> nat \<Rightarrow> database \<Rightarrow> database \<Rightarrow> bool" for n cid where
  leaf_step: "\<lbrakk>contextItems d cid = pre @ mid @ suf; mid \<noteq> []; map ref_of mid = map MsgRef ms;
     n \<le> length (filter isRawMessage suf);
     sum_conversationId row = cid; sum_kind row = Leaf; sum_depth row = 0; \<not> hasSummary d (sum_id row);
     hasConversation d cid;
     d1 = d\<lparr>summaries := summaries d @ [row], summaries_fts := fts,
       summary_messages := summary_messages d @ linkRows (sum_id row) {} 0 ms\<rparr>;
     spliced d1 cid pre (summaryContextRow cid k (sum_id row) now) suf d'\<rbrakk>
   \<Longrightarrow> compaction_step n cid d d'"
| condensed_step: "\<lbrakk>contextItems d cid = pre @ mid @ suf; map ref_of mid = map SumRef sids;
     \<forall>s \<in> set sids. \<exists>r \<in> set (summaries d). sum_id r = s \<and> sum_depth r = k;
     sum_conversationId row = cid; sum_kind row = Condensed; sum_depth row = Suc k;
     \<not> hasSummary d (sum_id row); hasConversation d cid;
     d1 = d\<lparr>summaries := summaries d @ [row], summaries_fts := fts,
       summary_parents := summary_parents d @ linkRows (sum_id row) {} 0 sids\<rparr>;
     spliced d1 cid pre (summaryContextRow cid ord (sum_id row) now) suf d'\<rbrakk>
   \<Longrightarrow> compaction_step n cid d d'"
| event_step: "\<lbrakk>msg_conversationId m = cid; msg_role m = SystemRole; msg_id m = Suc (messages_rowid d);
     messageViolation m d = None;
     \<forall>p \<in> set ps. part_messageId p = msg_id m;
     distinct (map part_id (message_parts d @ ps)); distinct (map part_ordinal ps);
     d' = d\<lparr>messages := messages d @ [m], messages_rowid := msg_id m, messages_fts := fts,
       message_parts := message_parts d @ ps\<rparr>;
     \<exists>p \<in> set ps. part_type p = CompactionPart\<rbrakk>
   \<Longrightarrow> compaction_step n cid d d'"

inductive_cases compaction_stepE: "compaction_step n cid d d'"

section \<open>Steps keep the integrity\<close>

lemma wf_linkMessages:
  assumes "wf_db d" and "hasSummary d sid" and "\<forall>m \<in> set ms. hasMessage_row d m"
    and "linkedBefore (summary_messages d) sid = seen"
  shows "wf_db (d\<lparr>summary_messages := summary_messages d @ linkRows sid seen idx ms\<rparr>)"
  using assms
proof (induction ms arbitrary: d seen idx)
  case (Cons m ms)
  show ?case
  proof (cases "m \<in> seen")
    case True
    then show ?thesis using Cons by simp
  next
    case False
    let ?d = "d\<lparr>summary_messages := summary_messages d @ [(sid, m, idx)]\<rparr>"
    have "\<not> (\<exists>(s, x, _) \<in> set (summary_messages d). s = sid \<and> x = m)"
      using False Cons.prems(4) by (auto simp: linkedBefore_def)
    then have "wf_db ?d" using Cons.prems by (intro wf_link_message) auto
    moreover have "linkedBefore (summary_messages ?d) sid = insert m seen"
      using Cons.prems(4) by (auto simp: linkedBefore_def)
    ultimately have "wf_db (?d\<lparr>summary_messages := summary_messages ?d @ linkRows sid (insert m seen) (Suc idx) ms\<rparr>)"
      using Cons.prems by (intro Cons.IH) auto
    then show ?thesis using False by simp
  qed
qed simp

lemma wf_linkParents:
  assumes "wf_db d" and "hasSummary d sid" and "\<forall>p \<in> set ps. hasSummary d p"
    and "linkedBefore (summary_parents d) sid = seen"
  shows "wf_db (d\<lparr>summary_parents := summary_parents d @ linkRows sid seen idx ps\<rparr>)"
  using assms
proof (induction ps arbitrary: d seen idx)
  case (Cons p ps)
  show ?case
  proof (cases "p \<in> seen")
    case True
    then show ?thesis using Cons by simp
  next
    case False
    let ?d = "d\<lparr>summary_parents := summary_parents d @ [(sid, p, idx)]\<rparr>"
    have "\<not> (\<exists>(s, x, _) \<in> set (summary_parents d). s = sid \<and> x = p)"
      using False Cons.prems(4) by (auto simp: linkedBefore_def)
    then have "wf_db ?d" using Cons.prems by (intro wf_link_parent) auto
    moreover have "linkedBefore (summary_parents ?d) sid = insert p seen"
      using Cons.prems(4) by (auto simp: linkedBefore_def)
    ultimately have "wf_db (?d\<lparr>summary_parents := summary_parents ?d @ linkRows sid (insert p seen) (Suc idx) ps\<rparr>)"
      using Cons.prems by (intro Cons.IH) auto
    then show ?thesis using False by simp
  qed
qed simp

lemma wf_spliced:
  assumes "wf_db d" and "hasConversation d cid" and "hasSummary d sid"
    and "contextItems d cid = pre @ mid @ suf"
    and "spliced d cid pre (summaryContextRow cid k sid now) suf d'"
  shows "wf_db d'"
proof -
  obtain items where d': "d' = d\<lparr>context_items := items\<rparr>" using assms(5) by (auto simp: spliced_def)
  have refs: "refs d' cid = map ref_of pre @ SumRef sid # map ref_of suf"
    and other: "\<And>c. c \<noteq> cid \<Longrightarrow> refs d' c = refs d c"
    using spliced_refs [OF assms(5)] by auto
  have same: "\<And>c. c \<noteq> cid \<Longrightarrow> contextItems d' c = contextItems d c"
    using assms(5) by (simp add: spliced_def)
  have valid: "valid_ref d r" if "r \<in> set (refs d' c)" for r c
  proof (cases "c = cid")
    case True
    then have "r \<in> set (map ref_of pre) \<union> set (map ref_of suf) \<union> {SumRef sid}"
      using that refs by auto
    then show ?thesis using wf_context_valid [OF assms(1), of _ cid] assms(3,4) by (auto simp: refs_def)
  next
    case False
    then show ?thesis using that other wf_context_valid [OF assms(1)] by metis
  qed
  show ?thesis
    unfolding d'
  proof (rule wf_set_context [OF assms(1)], unfold d' [symmetric])
    fix c
    show "ctx_ok d' c"
      using spliced_refs(2) [OF assms(5)] contiguous_ok spliced_refs(4) [OF assms(5)] wf_context_ok [OF assms(1)]
      by metis
  next
    fix i assume i: "i \<in> set items"
    let ?c = "ctx_conversationId i"
    have mem: "i \<in> set (contextItems d' ?c)" using i by (simp add: set_contextItems d')
    then have "valid_ref d (ref_of i)" using valid [of "ref_of i" ?c] by (simp add: refs_def)
    moreover have "hasConversation d ?c"
    proof (cases "?c = cid")
      case False
      then have "i \<in> set (context_items d)" using mem same by (simp add: set_contextItems)
      then show ?thesis using assms(1) by (simp add: wf_db_def wf_context_def)
    qed (use assms(2) in simp)
    ultimately show "hasConversation d ?c \<and> valid_ref d (ref_of i)" by simp
  qed
qed

lemma wf_add_parts:
  assumes "wf_db d" and "\<forall>p \<in> set ps. part_messageId p = mid" and "hasMessage_row d mid"
    and "distinct (map part_id (message_parts d @ ps))" and "distinct (map part_ordinal ps)"
    and "\<forall>p \<in> set (message_parts d). part_messageId p \<noteq> mid"
  shows "wf_db (d\<lparr>message_parts := message_parts d @ ps\<rparr>)"
proof -
  let ?d = "d\<lparr>message_parts := message_parts d @ ps\<rparr>"
  let ?key = "\<lambda>p. (part_messageId p, part_ordinal p)"
  have "map ?key ps = map (Pair mid) (map part_ordinal ps)" using assms(2) by simp
  then have "distinct (map ?key ps)" using assms(5) by (simp add: distinct_map inj_on_def)
  moreover have "set (map ?key (message_parts d)) \<inter> set (map ?key ps) = {}" using assms(2,6) by auto
  ultimately have "distinct (map ?key (message_parts d @ ps))"
    using assms(1) by (simp add: wf_db_def wf_parts_def)
  then have "wf_parts ?d"
    using assms(1-4) by (auto simp: wf_db_def wf_parts_def)
  moreover have "wf_context ?d"
    using assms(1) by - (rule wf_context_mono [of d], auto simp: wf_db_def)
  ultimately show ?thesis
    using assms(1) by (simp add: wf_db_def wf_conversations_def wf_summaries_def wf_messages_def wf_links_def)
qed

lemma wf_event:
  assumes "wf_db d" and "messageViolation m d = None" and "msg_id m = Suc (messages_rowid d)"
    and "\<forall>p \<in> set ps. part_messageId p = msg_id m"
    and "distinct (map part_id (message_parts d @ ps))" and "distinct (map part_ordinal ps)"
  shows "wf_db (d\<lparr>messages := messages d @ [m], messages_rowid := msg_id m, messages_fts := fts,
    message_parts := message_parts d @ ps\<rparr>)"
proof -
  let ?d = "d\<lparr>messages := messages d @ [m], messages_rowid := msg_id m, messages_fts := fts\<rparr>"
  have "wf_db (d\<lparr>messages := messages d @ [m], messages_rowid := msg_id m\<rparr>)"
    by (rule wf_add_message [OF assms(1-3)])
  then have wf: "wf_db ?d"
    using wf_fts(1) [where d = "d\<lparr>messages := messages d @ [m], messages_rowid := msg_id m\<rparr>" and x = fts] by simp
  have "part_messageId p \<noteq> msg_id m" if "p \<in> set (message_parts d)" for p
  proof -
    have "hasMessage_row d (part_messageId p)" using assms(1) that by (simp add: wf_db_def wf_parts_def)
    then have "part_messageId p \<le> messages_rowid d"
      using assms(1) by (auto simp: hasMessage_row_def wf_db_def wf_messages_def)
    then show ?thesis using assms(3) by simp
  qed
  then have "wf_db (?d\<lparr>message_parts := message_parts ?d @ ps\<rparr>)"
    using assms(4-6) by (intro wf_add_parts [OF wf]) auto
  then show ?thesis by simp
qed

lemma step_wf:
  assumes "compaction_step n cid d d'" and "wf_db d"
  shows "wf_db d'"
  using assms(1)
proof cases
  case (leaf_step pre mid suf ms row d1 fts k now)
  let ?a = "d\<lparr>summaries := summaries d @ [row]\<rparr>"
  let ?b = "?a\<lparr>summaries_fts := fts\<rparr>"
  have wfb: "wf_db ?b" using wf_add_summary [OF assms(2)] leaf_step by simp
  have "\<forall>m \<in> set ms. hasMessage_row d m"
  proof
    fix m assume "m \<in> set ms"
    then have "MsgRef m \<in> set (map ref_of mid)" using leaf_step(3) by simp
    then have "MsgRef m \<in> set (refs d cid)" using leaf_step(1) by (simp add: refs_def)
    then show "hasMessage_row d m" using wf_context_valid [OF assms(2)] by force
  qed
  moreover have "linkedBefore (summary_messages ?b) (sum_id row) = {}"
    using linkedBefore_fresh(1) [OF assms(2) leaf_step(8)] by simp
  ultimately have "wf_db d1"
    using wf_linkMessages [OF wfb, of "sum_id row" ms "{}" 0] leaf_step(10) by simp
  moreover have "contextItems d1 cid = pre @ mid @ suf"
    using leaf_step(1,10) contextItems_same [of d1 d] by simp
  moreover have "hasConversation d1 cid" "hasSummary d1 (sum_id row)"
    using leaf_step(9,10) by simp_all
  ultimately show ?thesis
    using wf_spliced leaf_step(11) by blast
next
  case (condensed_step pre mid suf sids k row d1 fts ord now)
  let ?a = "d\<lparr>summaries := summaries d @ [row]\<rparr>"
  let ?b = "?a\<lparr>summaries_fts := fts\<rparr>"
  have wfb: "wf_db ?b" using wf_add_summary [OF assms(2)] condensed_step by simp
  have "\<forall>s \<in> set sids. hasSummary d s" using condensed_step(3) by (force simp: hasSummary_def)
  moreover have "linkedBefore (summary_parents ?b) (sum_id row) = {}"
    using linkedBefore_fresh(2) [OF assms(2) condensed_step(7)] by simp
  ultimately have "wf_db d1"
    using wf_linkParents [OF wfb, of "sum_id row" sids "{}" 0] condensed_step(9) by simp
  moreover have "contextItems d1 cid = pre @ mid @ suf"
    using condensed_step(1,9) contextItems_same [of d1 d] by simp
  moreover have "hasConversation d1 cid" "hasSummary d1 (sum_id row)"
    using condensed_step(8,9) by simp_all
  ultimately show ?thesis
    using wf_spliced condensed_step(10) by blast
next
  case (event_step m ps fts)
  then show ?thesis using wf_event [OF assms(2)] by simp
qed

lemma steps_wf: "(compaction_step n cid)\<^sup>*\<^sup>* d d' \<Longrightarrow> wf_db d \<Longrightarrow> wf_db d'"
  by (induction rule: rtranclp_induct) (auto intro: step_wf)

section \<open>Steps keep the transcript\<close>

definition lcm_step :: "nat \<Rightarrow> database \<Rightarrow> database \<Rightarrow> bool" where
  "lcm_step cid d d' \<longleftrightarrow> wf_db d \<and> (\<exists>n. compaction_step n cid d d')"

lemma steps_lcm: "(compaction_step n cid)\<^sup>*\<^sup>* d d' \<Longrightarrow> wf_db d \<Longrightarrow> (lcm_step cid)\<^sup>*\<^sup>* d d'"
proof (induction rule: rtranclp_induct)
  case (step y z)
  then have "lcm_step cid y z" using steps_wf by (auto simp: lcm_step_def)
  then show ?case using step by (meson rtranclp.rtrancl_into_rtrancl)
qed simp

lemma summaryIds_new:
  assumes "wf_db d" and "\<not> hasSummary d sid"
  shows "\<forall>t \<in> set (summary_messages d). fst t \<noteq> sid" and "\<forall>t \<in> set (summary_parents d). fst t \<noteq> sid"
  using assms by (force simp: wf_db_def wf_links_def)+

text \<open>The links of an old summary are the same after a step.\<close>

lemma step_old_links:
  assumes "lcm_step cid d d'" and "hasSummary d s"
  shows "summaryMessageIds d' s = summaryMessageIds d s" and "summaryParentIds d' s = summaryParentIds d s"
    and "hasSummary d' s"
proof -
  obtain n where "compaction_step n cid d d'" using assms(1) by (auto simp: lcm_step_def)
  then have "summaryMessageIds d' s = summaryMessageIds d s \<and> summaryParentIds d' s = summaryParentIds d s \<and> hasSummary d' s"
  proof cases
    case (leaf_step pre mid suf ms row d1 fts k now)
    then have "s \<noteq> sum_id row" using assms(2) by auto
    then show ?thesis
      using leaf_step(10,11) link_other [of s "sum_id row" "summary_messages d" "{}" 0 ms] assms(2)
      by (auto simp: spliced_def summaryMessageIds_def summaryParentIds_def)
  next
    case (condensed_step pre mid suf sids k row d1 fts ord now)
    then have "s \<noteq> sum_id row" using assms(2) by auto
    then show ?thesis
      using condensed_step(9,10) link_other [of s "sum_id row" "summary_parents d" "{}" 0 sids] assms(2)
      by (auto simp: spliced_def summaryMessageIds_def summaryParentIds_def)
  next
    case (event_step m ps fts)
    then show ?thesis using assms(2) by (simp add: summaryMessageIds_def summaryParentIds_def)
  qed
  then show "summaryMessageIds d' s = summaryMessageIds d s" "summaryParentIds d' s = summaryParentIds d s"
    "hasSummary d' s" by simp_all
qed

lemma summaryParentIds_known:
  assumes "wf_db d" and "p \<in> set (summaryParentIds d s)"
  shows "hasSummary d p"
  using assms by (force simp: summaryParentIds_def wf_db_def wf_links_def)

lemma expands_step:
  assumes "expands d s ms" and "lcm_step cid d d'" and "hasSummary d s"
  shows "expands d' s ms"
  using assms(1,3)
proof induction
  case (expand sid mss)
  have wf: "wf_db d" using assms(2) by (simp add: lcm_step_def)
  have "list_all2 (expands d') (summaryParentIds d sid) mss"
    using expand(1) by (rule list.rel_mono_strong) (use summaryParentIds_known [OF wf] in blast)
  then have "expands d' sid (summaryMessageIds d' sid @ concat mss)"
    using step_old_links(2) [OF assms(2) expand.prems] by (intro expands.expand) simp
  then show ?case using step_old_links(1) [OF assms(2) expand.prems] by simp
qed

lemma distinct_refs_map: "distinct (map MsgRef ms) = distinct ms" "distinct (map SumRef ss) = distinct ss"
  by (simp_all add: distinct_map inj_on_def)

lemma step_refs:
  assumes "lcm_step cid d d'"
  shows "c \<noteq> cid \<Longrightarrow> refs d' c = refs d c"
    and "refs d' cid = refs d cid \<or> (\<exists>pre mid suf s. refs d cid = pre @ mid @ suf
      \<and> refs d' cid = pre @ SumRef s # suf \<and> \<not> hasSummary d s \<and> hasSummary d' s
      \<and> (\<forall>ms. distinct mid \<longrightarrow> expands_to (expands d) mid ms \<longrightarrow> expands d' s ms))"
proof -
  obtain n where wf: "wf_db d" and st: "compaction_step n cid d d'" using assms by (auto simp: lcm_step_def)
  have "(c \<noteq> cid \<longrightarrow> refs d' c = refs d c) \<and> (refs d' cid = refs d cid \<or> (\<exists>pre mid suf s. refs d cid = pre @ mid @ suf
      \<and> refs d' cid = pre @ SumRef s # suf \<and> \<not> hasSummary d s \<and> hasSummary d' s
      \<and> (\<forall>ms. distinct mid \<longrightarrow> expands_to (expands d) mid ms \<longrightarrow> expands d' s ms)))"
    using st
  proof cases
    case (leaf_step pre mid suf ms row d1 fts k now)
    let ?s = "sum_id row"
    obtain items where d': "d' = d1\<lparr>context_items := items\<rparr>" using leaf_step(11) by (auto simp: spliced_def)
    have links: "summaryMessageIds d' ?s = dedupe_from {} ms" "summaryParentIds d' ?s = []"
      using link_roundtrip [OF summaryIds_new(1) [OF wf leaf_step(8)]] summaryIds_new(2) [OF wf leaf_step(8)]
      by (simp_all add: d' leaf_step(10) summaryMessageIds_def summaryParentIds_def filter_empty_conv split_beta)
    have exp: "expands d' ?s xs" if "distinct (map ref_of mid)" "expands_to (expands d) (map ref_of mid) xs" for xs
    proof -
      have "distinct ms" and "xs = ms"
        using that leaf_step(3) by (simp_all add: distinct_refs_map expands_to_msgs)
      then show ?thesis
        using expands.expand [of d' ?s "[]"] links by (simp add: dedupe_from_disjoint)
    qed
    have "refs d cid = map ref_of pre @ map ref_of mid @ map ref_of suf" using leaf_step(1) by (simp add: refs_def)
    moreover have "refs d' cid = map ref_of pre @ SumRef ?s # map ref_of suf"
      by (rule spliced_refs(1) [OF leaf_step(11)])
    moreover have "hasSummary d' ?s" by (simp add: d' leaf_step(10))
    moreover have "refs d1 c = refs d c" by (rule refs_same) (simp add: leaf_step(10))
    then have "c \<noteq> cid \<Longrightarrow> refs d' c = refs d c" using spliced_refs(3) [OF leaf_step(11)] by simp
    ultimately show ?thesis using exp leaf_step(8) by blast
  next
    case (condensed_step pre mid suf sids k row d1 fts ord now)
    let ?s = "sum_id row"
    obtain items where d': "d' = d1\<lparr>context_items := items\<rparr>" using condensed_step(10) by (auto simp: spliced_def)
    have links: "summaryParentIds d' ?s = dedupe_from {} sids" "summaryMessageIds d' ?s = []"
      using link_roundtrip [OF summaryIds_new(2) [OF wf condensed_step(7)]] summaryIds_new(1) [OF wf condensed_step(7)]
      by (simp_all add: d' condensed_step(9) summaryMessageIds_def summaryParentIds_def filter_empty_conv split_beta)
    have exp: "expands d' ?s xs" if "distinct (map ref_of mid)" "expands_to (expands d) (map ref_of mid) xs" for xs
    proof -
      have dist: "distinct sids" using that(1) condensed_step(2) by (simp add: distinct_refs_map)
      have "expands_to (expands d) (map SumRef sids) xs" using that(2) condensed_step(2) by simp
      then obtain mss where mss: "list_all2 (expands d) sids mss" and xs: "xs = concat mss"
        by (auto simp: expands_to_sums)
      have known: "\<forall>s \<in> set sids. hasSummary d s" using condensed_step(3) by (force simp: hasSummary_def)
      have "list_all2 (expands d') sids mss"
        using mss by (rule list.rel_mono_strong) (use expands_step [OF _ assms] known in blast)
      then show ?thesis
        using expands.expand [of d' ?s mss] links dist by (simp add: dedupe_from_disjoint xs)
    qed
    have "refs d cid = map ref_of pre @ map ref_of mid @ map ref_of suf" using condensed_step(1) by (simp add: refs_def)
    moreover have "refs d' cid = map ref_of pre @ SumRef ?s # map ref_of suf"
      by (rule spliced_refs(1) [OF condensed_step(10)])
    moreover have "hasSummary d' ?s" by (simp add: d' condensed_step(9))
    moreover have "refs d1 c = refs d c" by (rule refs_same) (simp add: condensed_step(9))
    then have "c \<noteq> cid \<Longrightarrow> refs d' c = refs d c" using spliced_refs(3) [OF condensed_step(10)] by simp
    ultimately show ?thesis using exp condensed_step(7) by blast
  next
    case (event_step m ps fts)
    then have "refs d' x = refs d x" for x by (intro refs_same) simp
    then show ?thesis by simp
  qed
  then show "c \<noteq> cid \<Longrightarrow> refs d' c = refs d c"
    "refs d' cid = refs d cid \<or> (\<exists>pre mid suf s. refs d cid = pre @ mid @ suf
      \<and> refs d' cid = pre @ SumRef s # suf \<and> \<not> hasSummary d s \<and> hasSummary d' s
      \<and> (\<forall>ms. distinct mid \<longrightarrow> expands_to (expands d) mid ms \<longrightarrow> expands d' s ms))"
    by blast+
qed

interpretation lin: lineage_store refs expands hasSummary lcm_step
  by unfold_locales
    (blast intro: expands_step step_old_links(3) dest: step_refs(1) step_refs(2))+

section \<open>Steps keep the newest messages and the history\<close>

text \<open>The messages that a context still holds raw, in order.\<close>

definition rawOf :: "ctx_ref list \<Rightarrow> nat list" where
  "rawOf rs = concat (map (\<lambda>r. case r of MsgRef m \<Rightarrow> [m] | _ \<Rightarrow> []) rs)"

definition rawMessages :: "database \<Rightarrow> nat \<Rightarrow> nat list" where
  "rawMessages d cid = rawOf (refs d cid)"

lemma rawOf_simps [simp]: "rawOf [] = []" "rawOf (rs @ rs') = rawOf rs @ rawOf rs'"
  "rawOf (MsgRef m # rs) = m # rawOf rs" "rawOf (SumRef s # rs) = rawOf rs" "rawOf (BadRef # rs) = rawOf rs"
  "rawOf (map MsgRef ms) = ms" "rawOf (map SumRef ss) = []"
  by (auto simp: rawOf_def comp_def)

lemma isRawMessage_ref:
  assumes "ref_of i \<noteq> BadRef"
  shows "isRawMessage i \<longleftrightarrow> (\<exists>m. ref_of i = MsgRef m)"
  using assms by (auto simp: isRawMessage_def ref_of_def split: context_item_type.splits option.splits)

lemma length_rawOf:
  assumes "\<forall>i \<in> set items. ref_of i \<noteq> BadRef"
  shows "length (rawOf (map ref_of items)) = length (filter isRawMessage items)"
  using assms
proof (induction items)
  case (Cons i items)
  then show ?case using isRawMessage_ref [of i] by (cases "ref_of i") auto
qed simp

lemma step_tail:
  assumes "compaction_step n cid d d'" and "wf_db d"
  shows "takeLast n (rawMessages d' cid) = takeLast n (rawMessages d cid)"
  using assms(1)
proof cases
  case (leaf_step pre mid suf ms row d1 fts k now)
  have "ref_of i \<noteq> BadRef" if "i \<in> set suf" for i
    using wf_context_valid [OF assms(2), of "ref_of i" cid] that leaf_step(1) by (auto simp: refs_def)
  then have len: "n \<le> length (rawOf (map ref_of suf))" using leaf_step(4) length_rawOf by simp
  have "refs d cid = map ref_of pre @ map MsgRef ms @ map ref_of suf"
    using leaf_step(1,3) by (simp add: refs_def)
  moreover have "refs d' cid = map ref_of pre @ SumRef (sum_id row) # map ref_of suf"
    by (rule spliced_refs(1) [OF leaf_step(11)])
  ultimately show ?thesis
    using takeLast_append_right [OF len, of "rawOf (map ref_of pre)"]
      takeLast_append_right [OF len, of "rawOf (map ref_of pre) @ ms"] by (simp add: rawMessages_def)
next
  case (condensed_step pre mid suf sids k row d1 fts ord now)
  have "refs d cid = map ref_of pre @ map SumRef sids @ map ref_of suf"
    using condensed_step(1,2) by (simp add: refs_def)
  moreover have "refs d' cid = map ref_of pre @ SumRef (sum_id row) # map ref_of suf"
    by (rule spliced_refs(1) [OF condensed_step(10)])
  ultimately show ?thesis by (simp add: rawMessages_def)
next
  case (event_step m ps fts)
  then have "refs d' cid = refs d cid" by (intro refs_same) simp
  then show ?thesis by (simp add: rawMessages_def)
qed

lemma steps_tail:
  "(compaction_step n cid)\<^sup>*\<^sup>* d d' \<Longrightarrow> wf_db d \<Longrightarrow>
     takeLast n (rawMessages d' cid) = takeLast n (rawMessages d cid)"
  by (induction rule: rtranclp_induct) (auto simp: step_tail steps_wf)

text \<open>What was stored stays stored: rows are only added to the tables of the history.\<close>

definition history_kept :: "database \<Rightarrow> database \<Rightarrow> bool" where
  "history_kept d d' \<longleftrightarrow> conversations d' = conversations d
     \<and> prefix (messages d) (messages d') \<and> prefix (message_parts d) (message_parts d')
     \<and> prefix (summaries d) (summaries d') \<and> prefix (summary_messages d) (summary_messages d')
     \<and> prefix (summary_parents d) (summary_parents d')
     \<and> large_files d' = large_files d \<and> promoted d' = promoted d"

lemma history_refl: "history_kept d d"
  by (simp add: history_kept_def)

lemma history_trans: "history_kept d d' \<Longrightarrow> history_kept d' d'' \<Longrightarrow> history_kept d d''"
  by (auto simp: history_kept_def intro: prefix_order.trans)

lemma step_history: "compaction_step n cid d d' \<Longrightarrow> history_kept d d'"
  by (erule compaction_stepE) (auto simp: history_kept_def spliced_def)

lemma steps_history: "(compaction_step n cid)\<^sup>*\<^sup>* d d' \<Longrightarrow> history_kept d d'"
  by (induction rule: rtranclp_induct) (auto intro: history_refl history_trans step_history)

text \<open>A link goes from a summary to one that was stored before it, so the links have no cycle.\<close>

definition older :: "database \<Rightarrow> string \<Rightarrow> string \<Rightarrow> bool" where
  "older d p s \<longleftrightarrow> (\<exists>xs ys zs. map sum_id (summaries d) = xs @ p # ys @ s # zs)"

definition links_back :: "database \<Rightarrow> bool" where
  "links_back d \<longleftrightarrow> (\<forall>(s, p, _) \<in> set (summary_parents d). older d p s)"

lemma older_prefix:
  assumes "older d p s" and "prefix (summaries d) (summaries d')"
  shows "older d' p s"
proof -
  obtain xs ys zs where "map sum_id (summaries d) = xs @ p # ys @ s # zs" using assms(1) by (auto simp: older_def)
  moreover obtain us where "summaries d' = summaries d @ us" using assms(2) by (auto simp: prefix_def)
  ultimately have "map sum_id (summaries d') = xs @ p # ys @ s # (zs @ map sum_id us)" by simp
  then show ?thesis unfolding older_def by blast
qed

lemma older_new:
  assumes "hasSummary d p" and "summaries d' = summaries d @ [row]"
  shows "older d' p (sum_id row)"
proof -
  obtain xs ys where "map sum_id (summaries d) = xs @ p # ys"
    using assms(1) split_list unfolding hasSummary_def by fast
  then have "map sum_id (summaries d') = xs @ p # ys @ sum_id row # []" using assms(2) by simp
  then show ?thesis unfolding older_def by blast
qed

lemma linkRows_mem: "(s, x, ord) \<in> set (linkRows sid seen idx xs) \<Longrightarrow> s = sid \<and> x \<in> set xs"
  by (induction sid seen idx xs rule: linkRows.induct) (auto split: if_splits)

lemma step_links_back:
  assumes "compaction_step n cid d d'" and "links_back d"
  shows "links_back d'"
proof -
  have pre: "prefix (summaries d) (summaries d')"
    using step_history [OF assms(1)] by (simp add: history_kept_def)
  show ?thesis
    using assms(1)
  proof cases
    case (condensed_step pre' mid suf sids k row d1 fts ord now)
    have sums: "summaries d' = summaries d @ [row]"
      and par: "summary_parents d' = summary_parents d @ linkRows (sum_id row) {} 0 sids"
      using condensed_step(9,10) by (auto simp: spliced_def)
    have "\<forall>s \<in> set sids. hasSummary d s" using condensed_step(3) by (force simp: hasSummary_def)
    then have "\<forall>(s, p, _) \<in> set (linkRows (sum_id row) {} 0 sids). older d' p s"
      using older_new [OF _ sums] by (auto dest!: linkRows_mem)
    then show ?thesis
      using assms(2) older_prefix [OF _ pre] par unfolding links_back_def by fastforce
  qed (use assms(2) older_prefix [OF _ pre] in \<open>fastforce simp: links_back_def spliced_def\<close>)+
qed

lemma steps_links_back: "(compaction_step n cid)\<^sup>*\<^sup>* d d' \<Longrightarrow> links_back d \<Longrightarrow> links_back d'"
  by (induction rule: rtranclp_induct) (auto intro: step_links_back)

end
