(* ===== verification/Compaction.thy ===== *)
theory Compaction
  imports Compaction_Steps
begin

text \<open>
  \<open>src/compaction.ts\<close>, the compaction engine, with \<open>throwIfAborted\<close> of
  \<open>src/daemon/cancellation.ts\<close> and \<open>extractFileIdsFromContent\<close> of
  \<open>src/large-files.ts\<close>.  The runtime's SHA-256 and \<open>Intl.DateTimeFormat\<close> are parameters,
  the summarizing function of the caller is an oracle that may throw.
\<close>

section \<open>Configuration and types\<close>

datatype compaction_reason = ThresholdReason | ManualReason | NoReason

datatype compaction_level = NormalLevel | AggressiveLevel | FallbackLevel

datatype compaction_pass = LeafPass | CondensedPass

record compaction_decision =
  dec_shouldCompact :: bool
  dec_reason :: compaction_reason
  dec_currentTokens :: nat
  dec_threshold :: js_number

record compaction_result =
  res_actionTaken :: bool
  res_tokensBefore :: nat
  res_tokensAfter :: nat
  res_createdSummaryId :: "string option"
  res_condensed :: bool
  res_level :: "compaction_level option"

record compaction_config =
  cfg_contextThreshold :: js_number
  cfg_freshTailCount :: js_number
  cfg_leafMinFanout :: js_number
  cfg_condensedMinFanout :: js_number
  cfg_condensedMinFanoutHard :: js_number
  cfg_incrementalMaxDepth :: js_number
  cfg_leafChunkTokens :: "js_number option"
  cfg_leafTargetTokens :: js_number
  cfg_condensedTargetTokens :: js_number
  cfg_maxRounds :: js_number
  cfg_timezone :: "string option"
  cfg_scrubber :: "(string \<Rightarrow> string) option"

record summarize_options =
  so_previousSummary :: "string option"
  so_isCondensed :: "bool option"
  so_depth :: "nat option"
  so_signal :: "nat option"
  so_invocationId :: "string option"

text \<open>The answers of the caller's function, by the number of calls made so far.\<close>

type_synonym summarize_fn = "nat \<Rightarrow> string \<Rightarrow> bool \<Rightarrow> summarize_options \<Rightarrow> lcm_error + string"

text \<open>Abort signals and commit admissions are named by numbers.\<close>

record invocation_context =
  ic_signal :: "nat option"
  ic_acquireCommit :: "nat option"
  ic_invocationId :: "string option"

record input_context = invocation_context +
  ic_context :: "invocation_context option"

definition noContext :: invocation_context where
  "noContext = \<lparr>ic_signal = None, ic_acquireCommit = None, ic_invocationId = None\<rparr>"

record leaf_chunk_selection =
  lc_items :: "context_item_record list"
  lc_rawTokensOutsideTail :: nat
  lc_threshold :: nat

record condensed_chunk_selection =
  cc_items :: "context_item_record list"
  cc_summaryTokens :: nat

text \<open>The runtime functions of the engine, and its constructor arguments.\<close>

record date_parts =
  dp_year :: string
  dp_month :: string
  dp_day :: string
  dp_hour :: string
  dp_minute :: string

record host =
  host_sha256 :: "string \<Rightarrow> string"
  host_dateParts :: "string \<Rightarrow> int \<Rightarrow> date_parts option"
  host_timeZoneName :: "string \<Rightarrow> int \<Rightarrow> string option option"

record engine =
  eng_config :: compaction_config
  eng_options :: store_options
  eng_host :: host

section \<open>Helpers\<close>

definition estimateTokens :: "string \<Rightarrow> nat" where
  "estimateTokens content = (length content + 3) div 4"

text \<open>The proleptic Gregorian calendar of \<open>Date.getUTC...\<close>, from milliseconds since the epoch.\<close>

definition civilFromDays :: "int \<Rightarrow> int \<times> int \<times> int" where
  "civilFromDays days = (let z = days + 719468; era = z div 146097; doe = z mod 146097;
     yoe = (doe - doe div 1460 + doe div 36524 - doe div 146096) div 365;
     doy = doe - (365 * yoe + yoe div 4 - yoe div 100);
     mp = (5 * doy + 2) div 153;
     month = (if mp < 10 then mp + 3 else mp - 9)
     in (yoe + era * 400 + (if month \<le> 2 then 1 else 0), month, doy - (153 * mp + 2) div 5 + 1))"

definition twoDigits :: "int \<Rightarrow> string" where
  "twoDigits n = padStart 2 (CHR ''0'') (show_int n)"

definition formatUTC :: "int \<Rightarrow> string" where
  "formatUTC ms = (case civilFromDays (ms div 86400000) of (year, month, day) \<Rightarrow>
     show_int year @ ''-'' @ twoDigits month @ ''-'' @ twoDigits day @ '' '' @
     twoDigits (ms mod 86400000 div 3600000) @ '':'' @ twoDigits (ms mod 3600000 div 60000) @ '' UTC'')"

definition shortTzAbbr :: "host \<Rightarrow> int \<Rightarrow> string \<Rightarrow> string" where
  "shortTzAbbr h t timezone = (case host_timeZoneName h timezone t of
       Some (Some abbr) \<Rightarrow> abbr | _ \<Rightarrow> timezone)"

definition formatTimestamp :: "host \<Rightarrow> int \<Rightarrow> string option \<Rightarrow> string" where
  "formatTimestamp h t tz = (let timezone = (case tz of Some z \<Rightarrow> z | None \<Rightarrow> ''UTC'') in
     case host_dateParts h timezone t of
       None \<Rightarrow> formatUTC t
     | Some p \<Rightarrow> dp_year p @ ''-'' @ dp_month p @ ''-'' @ dp_day p @ '' '' @ dp_hour p @ '':'' @
         dp_minute p @ '' '' @ (if timezone = ''UTC'' then ''UTC'' else shortTzAbbr h t timezone))"

definition generateSummaryId :: "host \<Rightarrow> string \<Rightarrow> (world, string) op" where
  "generateSummaryId h content = bindM dateNow (\<lambda>now.
     ret (''sum_'' @ take 16 (host_sha256 h (content @ show_int now))))"

definition FALLBACK_MAX_CHARS :: nat where
  "FALLBACK_MAX_CHARS = 512 * 4"

definition DEFAULT_LEAF_CHUNK_TOKENS :: nat where
  "DEFAULT_LEAF_CHUNK_TOKENS = 20000"

definition CONDENSED_MIN_INPUT_RATIO :: js_number where
  "CONDENSED_MIN_INPUT_RATIO = to_double (1 / 10)"

definition dedupeOrderedIds :: "string list \<Rightarrow> string list" where
  "dedupeOrderedIds ids = dedupe_from {} ids"

text \<open>The file references of a text: \<open>/\bfile_[a-f0-9]{16}\b/gi\<close>, in lower case, each once.\<close>

definition charIn :: "char \<Rightarrow> char \<Rightarrow> char \<Rightarrow> bool" where
  "charIn lo hi c \<longleftrightarrow> (of_char lo :: nat) \<le> of_char c \<and> (of_char c :: nat) \<le> of_char hi"

definition isWordChar :: "char \<Rightarrow> bool" where
  "isWordChar c \<longleftrightarrow> charIn (CHR ''a'') (CHR ''z'') c \<or> charIn (CHR ''A'') (CHR ''Z'') c
     \<or> charIn (CHR ''0'') (CHR ''9'') c \<or> c = CHR ''_''"

definition lowerChar :: "char \<Rightarrow> char" where
  "lowerChar c = (if charIn (CHR ''A'') (CHR ''Z'') c then char_of ((of_char c :: nat) + 32) else c)"

definition isHexChar :: "char \<Rightarrow> bool" where
  "isHexChar c \<longleftrightarrow> charIn (CHR ''a'') (CHR ''f'') (lowerChar c) \<or> charIn (CHR ''0'') (CHR ''9'') c"

definition isFileId :: "string \<Rightarrow> bool" where
  "isFileId s \<longleftrightarrow> length s = 21 \<and> map lowerChar (take 5 s) = ''file_'' \<and> list_all isHexChar (drop 5 s)"

definition atBoundary :: "string \<Rightarrow> bool" where
  "atBoundary rest \<longleftrightarrow> (case rest of [] \<Rightarrow> True | c # _ \<Rightarrow> \<not> isWordChar c)"

function matchFileIds :: "bool \<Rightarrow> string \<Rightarrow> string list" where
  "matchFileIds inWord [] = []"
| "matchFileIds inWord (c # cs) =
     (if \<not> inWord \<and> isFileId (take 21 (c # cs)) \<and> atBoundary (drop 21 (c # cs))
      then take 21 (c # cs) # matchFileIds True (drop 20 cs)
      else matchFileIds (isWordChar c) cs)"
  by pat_completeness auto
termination by (relation "measure (length \<circ> snd)") auto

definition extractFileIdsFromContent :: "string \<Rightarrow> string list" where
  "extractFileIdsFromContent content =
     dedupe_from {} (map (map lowerChar) (matchFileIds False content))"

section \<open>Cancellation and commit permits\<close>

definition throwIfAborted :: "nat option \<Rightarrow> (world, unit) op" where
  "throwIfAborted signal = (case signal of None \<Rightarrow> ret ()
     | Some s \<Rightarrow> (\<lambda>w. let k = w_checks w; w' = w\<lparr>w_checks := Suc k\<rparr> in
         case w_aborted w s of
           Some since \<Rightarrow> if since \<le> k then (Inl AbortError, w') else (Inr (), w')
         | None \<Rightarrow> (Inr (), w')))"

definition isAbortError :: "lcm_error \<Rightarrow> bool" where
  "isAbortError e \<longleftrightarrow> e = AbortError"

definition orElse :: "'a option \<Rightarrow> 'a option \<Rightarrow> 'a option" where
  "orElse a b = (case a of Some x \<Rightarrow> Some x | None \<Rightarrow> b)"

definition resolveInvocationContext :: "input_context \<Rightarrow> invocation_context" where
  "resolveInvocationContext input = 
     \<lparr>ic_signal = orElse (ic_signal input) (Option.bind (ic_context input) ic_signal),
      ic_acquireCommit = orElse (ic_acquireCommit input) (Option.bind (ic_context input) ic_acquireCommit),
      ic_invocationId = orElse (ic_invocationId input) (Option.bind (ic_context input) ic_invocationId)\<rparr>"

definition acquirePermit :: "nat \<Rightarrow> (world, unit) op" where
  "acquirePermit a = (\<lambda>w. let w' = w\<lparr>w_acquires := Suc (w_acquires w)\<rparr> in
     case w_refused w a (w_acquires w) of
       Some e \<Rightarrow> (Inl e, w')
     | None \<Rightarrow> (Inr (), w'\<lparr>w_permits := Suc (w_permits w)\<rparr>))"

definition releasePermit :: "world \<Rightarrow> world" where
  "releasePermit w = w\<lparr>w_permits := w_permits w - 1\<rparr>"

definition withCommitPermit :: "invocation_context \<Rightarrow> (world, 'a) op \<Rightarrow> (world, 'a) op" where
  "withCommitPermit context operation = bindM (throwIfAborted (ic_signal context)) (\<lambda>_.
     case ic_acquireCommit context of
       None \<Rightarrow> operation
     | Some a \<Rightarrow> bindM (acquirePermit a) (\<lambda>_. finallyM operation releasePermit))"

section \<open>Configuration values\<close>

text \<open>\<open>typeof x === "number" && Number.isFinite(x) && x > 0\<close>, and the value rounded down.\<close>

definition positiveFinite :: "js_number \<Rightarrow> bool" where
  "positiveFinite x \<longleftrightarrow> js_isFinite x \<and> js_less (Num 0) x"

definition floorOr :: "nat \<Rightarrow> js_number \<Rightarrow> nat" where
  "floorOr fallback x = (if positiveFinite x then js_floor_nat x else fallback)"

definition resolveLeafChunkTokens :: "compaction_config \<Rightarrow> nat" where
  "resolveLeafChunkTokens c = (case cfg_leafChunkTokens c of
       Some x \<Rightarrow> floorOr DEFAULT_LEAF_CHUNK_TOKENS x | None \<Rightarrow> DEFAULT_LEAF_CHUNK_TOKENS)"

definition resolveFreshTailCount :: "compaction_config \<Rightarrow> nat" where
  "resolveFreshTailCount c = floorOr 0 (cfg_freshTailCount c)"

definition resolveLeafMinFanout :: "compaction_config \<Rightarrow> nat" where
  "resolveLeafMinFanout c = floorOr 8 (cfg_leafMinFanout c)"

definition resolveCondensedMinFanout :: "compaction_config \<Rightarrow> nat" where
  "resolveCondensedMinFanout c = floorOr 4 (cfg_condensedMinFanout c)"

definition resolveCondensedMinFanoutHard :: "compaction_config \<Rightarrow> nat" where
  "resolveCondensedMinFanoutHard c = floorOr 2 (cfg_condensedMinFanoutHard c)"

definition resolveIncrementalMaxDepth :: "compaction_config \<Rightarrow> js_number" where
  "resolveIncrementalMaxDepth c = (let x = cfg_incrementalMaxDepth c in
     if js_isFinite x then
       if js_less x (Num 0) then PosInf else if js_less (Num 0) x then js_floor x else Num 0
     else Num 0)"

definition resolveFanoutForDepth :: "compaction_config \<Rightarrow> nat \<Rightarrow> bool \<Rightarrow> nat" where
  "resolveFanoutForDepth c targetDepth hardTrigger =
     (if hardTrigger then resolveCondensedMinFanoutHard c
      else if targetDepth = 0 then resolveLeafMinFanout c else resolveCondensedMinFanout c)"

definition resolveCondensedMinChunkTokens :: "compaction_config \<Rightarrow> js_number" where
  "resolveCondensedMinChunkTokens c =
     (let ratioFloor = js_floor (js_mul (js_nat (resolveLeafChunkTokens c)) CONDENSED_MIN_INPUT_RATIO)
      in js_max (cfg_condensedTargetTokens c) ratioFloor)"

section \<open>Selecting what to compact\<close>

text \<open>The stored count of a row, or the estimate from its content when it is not positive.\<close>

definition resolveMessageTokenCount :: "message_record \<Rightarrow> nat" where
  "resolveMessageTokenCount m = (if 0 < msg_tokenCount m then msg_tokenCount m else estimateTokens (msg_content m))"

definition resolveSummaryTokenCount :: "summary_record \<Rightarrow> nat" where
  "resolveSummaryTokenCount s = (if 0 < sum_tokenCount s then sum_tokenCount s else estimateTokens (sum_content s))"

definition resolveFreshTailOrdinal :: "compaction_config \<Rightarrow> context_item_record list \<Rightarrow> js_number" where
  "resolveFreshTailOrdinal c items = (let freshTailCount = resolveFreshTailCount c in
     if freshTailCount \<le> 0 then PosInf
     else let raw = filter isRawMessage items in
       if raw = [] then PosInf
       else Num (of_int (ctx_ordinal (raw ! (length raw - freshTailCount)))))"

definition inFreshTail :: "js_number \<Rightarrow> context_item_record \<Rightarrow> bool" where
  "inFreshTail bound i \<longleftrightarrow> js_leq bound (Num (of_int (ctx_ordinal i)))"

definition getMessageTokenCount :: "nat option \<Rightarrow> nat \<Rightarrow> (world, nat) op" where
  "getMessageTokenCount signal mid = bindM (throwIfAborted signal) (\<lambda>_.
     bindM (run (getMessageById mid)) (\<lambda>message.
     bindM (throwIfAborted signal) (\<lambda>_.
     ret (case message of None \<Rightarrow> 0 | Some m \<Rightarrow> resolveMessageTokenCount m))))"

text \<open>The loop that both \<open>countRawTokensOutsideFreshTail\<close> and \<open>selectOldestLeafChunk\<close> run.\<close>

fun sumRawTokens :: "nat option \<Rightarrow> js_number \<Rightarrow> nat \<Rightarrow> context_item_record list \<Rightarrow> (world, nat) op" where
  "sumRawTokens signal bound rawTokens [] = ret rawTokens"
| "sumRawTokens signal bound rawTokens (i # is) = bindM (throwIfAborted signal) (\<lambda>_.
     if inFreshTail bound i then ret rawTokens
     else if \<not> isRawMessage i then sumRawTokens signal bound rawTokens is
     else bindM (getMessageTokenCount signal (the (ctx_messageId i))) (\<lambda>t.
       sumRawTokens signal bound (rawTokens + t) is))"

definition countRawTokensOutsideFreshTail :: "engine \<Rightarrow> nat \<Rightarrow> nat option \<Rightarrow> (world, nat) op" where
  "countRawTokensOutsideFreshTail E cid signal = bindM (throwIfAborted signal) (\<lambda>_.
     bindM (run (getContextItems cid)) (\<lambda>items.
     bindM (throwIfAborted signal) (\<lambda>_.
     sumRawTokens signal (resolveFreshTailOrdinal (eng_config E) items) 0 items)))"

fun leafChunkFrom :: "nat option \<Rightarrow> js_number \<Rightarrow> nat \<Rightarrow> bool \<Rightarrow> context_item_record list \<Rightarrow> nat
    \<Rightarrow> context_item_record list \<Rightarrow> (world, context_item_record list) op" where
  "leafChunkFrom signal bound threshold started chunk chunkTokens [] = ret chunk"
| "leafChunkFrom signal bound threshold started chunk chunkTokens (i # is) =
     bindM (throwIfAborted signal) (\<lambda>_.
     if inFreshTail bound i then ret chunk
     else if \<not> isRawMessage i then
       (if started then ret chunk else leafChunkFrom signal bound threshold started chunk chunkTokens is)
     else bindM (getMessageTokenCount signal (the (ctx_messageId i))) (\<lambda>t.
       if chunk \<noteq> [] \<and> threshold < chunkTokens + t then ret chunk
       else if threshold \<le> chunkTokens + t then ret (chunk @ [i])
       else leafChunkFrom signal bound threshold True (chunk @ [i]) (chunkTokens + t) is))"

definition selectOldestLeafChunk :: "engine \<Rightarrow> nat \<Rightarrow> nat option \<Rightarrow> (world, leaf_chunk_selection) op" where
  "selectOldestLeafChunk E cid signal = bindM (throwIfAborted signal) (\<lambda>_.
     bindM (run (getContextItems cid)) (\<lambda>items.
     bindM (throwIfAborted signal) (\<lambda>_.
     let bound = resolveFreshTailOrdinal (eng_config E) items;
         threshold = resolveLeafChunkTokens (eng_config E) in
     bindM (sumRawTokens signal bound 0 items) (\<lambda>rawTokens.
     bindM (leafChunkFrom signal bound threshold False [] 0 items) (\<lambda>chunk.
     ret \<lparr>lc_items = chunk, lc_rawTokensOutsideTail = rawTokens, lc_threshold = threshold\<rparr>)))))"

text \<open>The text of the summaries that precede a chunk.\<close>

fun minOrdinal :: "context_item_record list \<Rightarrow> int" where
  "minOrdinal [] = 0"
| "minOrdinal [i] = ctx_ordinal i"
| "minOrdinal (i # is) = min (ctx_ordinal i) (minOrdinal is)"

fun maxOrdinalOf :: "context_item_record list \<Rightarrow> int" where
  "maxOrdinalOf [] = 0"
| "maxOrdinalOf [i] = ctx_ordinal i"
| "maxOrdinalOf (i # is) = max (ctx_ordinal i) (maxOrdinalOf is)"

definition priorSummaryItems :: "int \<Rightarrow> context_item_record list \<Rightarrow> context_item_record list" where
  "priorSummaryItems start items =
     filter (\<lambda>i. ctx_ordinal i < start \<and> ctx_itemType i = SummaryItem \<and> ctx_summaryId i \<noteq> None) items"

fun summaryContents :: "nat option \<Rightarrow> (summary_record \<Rightarrow> bool) \<Rightarrow> context_item_record list
    \<Rightarrow> (world, string list) op" where
  "summaryContents signal wanted [] = ret []"
| "summaryContents signal wanted (i # is) = bindM (throwIfAborted signal) (\<lambda>_.
     bindM (run (getSummary (the (ctx_summaryId i)))) (\<lambda>summary.
     bindM (throwIfAborted signal) (\<lambda>_.
     bindM (summaryContents signal wanted is) (\<lambda>rest.
     ret (case summary of
            Some s \<Rightarrow> if wanted s \<and> trim (sum_content s) \<noteq> [] then trim (sum_content s) # rest else rest
          | None \<Rightarrow> rest)))))"

definition blankLine :: string where
  "blankLine = newline @ newline"

definition resolvePriorLeafSummaryContext ::
  "nat \<Rightarrow> context_item_record list \<Rightarrow> nat option \<Rightarrow> (world, string option) op" where
  "resolvePriorLeafSummaryContext cid messageItems signal = bindM (throwIfAborted signal) (\<lambda>_.
     if messageItems = [] then ret None
     else bindM (run (getContextItems cid)) (\<lambda>items.
       bindM (throwIfAborted signal) (\<lambda>_.
       let prior = takeLast 2 (priorSummaryItems (minOrdinal messageItems) items) in
       if prior = [] then ret None
       else bindM (summaryContents signal (\<lambda>_. True) prior) (\<lambda>contents.
         ret (if contents = [] then None else Some (joinWith blankLine contents))))))"

definition resolvePriorSummaryContextAtDepth ::
  "nat \<Rightarrow> context_item_record list \<Rightarrow> nat \<Rightarrow> nat option \<Rightarrow> (world, string option) op" where
  "resolvePriorSummaryContextAtDepth cid summaryItems targetDepth signal = bindM (throwIfAborted signal) (\<lambda>_.
     if summaryItems = [] then ret None
     else bindM (run (getContextItems cid)) (\<lambda>items.
       bindM (throwIfAborted signal) (\<lambda>_.
       let prior = takeLast 4 (priorSummaryItems (minOrdinal summaryItems) items) in
       if prior = [] then ret None
       else bindM (summaryContents signal (\<lambda>s. sum_depth s = targetDepth) prior) (\<lambda>contents.
         ret (if contents = [] then None else Some (joinWith blankLine (takeLast 2 contents)))))))"

fun chunkAtDepthFrom :: "nat option \<Rightarrow> js_number \<Rightarrow> nat \<Rightarrow> nat \<Rightarrow> context_item_record list \<Rightarrow> nat
    \<Rightarrow> context_item_record list \<Rightarrow> (world, condensed_chunk_selection) op" where
  "chunkAtDepthFrom signal bound budget targetDepth chunk summaryTokens [] =
     ret \<lparr>cc_items = chunk, cc_summaryTokens = summaryTokens\<rparr>"
| "chunkAtDepthFrom signal bound budget targetDepth chunk summaryTokens (i # is) =
     (let selected = ret \<lparr>cc_items = chunk, cc_summaryTokens = summaryTokens\<rparr>;
          skip = (if chunk \<noteq> [] then selected
                  else chunkAtDepthFrom signal bound budget targetDepth chunk summaryTokens is)
      in bindM (throwIfAborted signal) (\<lambda>_.
         if inFreshTail bound i then selected
         else if ctx_itemType i \<noteq> SummaryItem \<or> ctx_summaryId i = None then skip
         else bindM (run (getSummary (the (ctx_summaryId i)))) (\<lambda>summary.
           bindM (throwIfAborted signal) (\<lambda>_.
           case summary of
             None \<Rightarrow> skip
           | Some s \<Rightarrow>
               if sum_depth s \<noteq> targetDepth then skip
               else let t = resolveSummaryTokenCount s in
                 if chunk \<noteq> [] \<and> budget < summaryTokens + t then selected
                 else if budget \<le> summaryTokens + t
                   then ret \<lparr>cc_items = chunk @ [i], cc_summaryTokens = summaryTokens + t\<rparr>
                 else chunkAtDepthFrom signal bound budget targetDepth (chunk @ [i]) (summaryTokens + t) is))))"

definition selectOldestChunkAtDepth ::
  "engine \<Rightarrow> nat \<Rightarrow> nat \<Rightarrow> js_number option \<Rightarrow> nat option \<Rightarrow> (world, condensed_chunk_selection) op" where
  "selectOldestChunkAtDepth E cid targetDepth boundOverride signal = bindM (throwIfAborted signal) (\<lambda>_.
     bindM (run (getContextItems cid)) (\<lambda>items.
     bindM (throwIfAborted signal) (\<lambda>_.
     let bound = (case boundOverride of Some b \<Rightarrow> b | None \<Rightarrow> resolveFreshTailOrdinal (eng_config E) items) in
     chunkAtDepthFrom signal bound (resolveLeafChunkTokens (eng_config E)) targetDepth [] 0 items)))"

text \<open>The shallowest depth whose chunk has enough members and tokens.\<close>

fun firstCandidate :: "engine \<Rightarrow> nat \<Rightarrow> bool \<Rightarrow> js_number \<Rightarrow> nat option \<Rightarrow> nat list
    \<Rightarrow> (world, (nat \<times> condensed_chunk_selection) option) op" where
  "firstCandidate E cid hardTrigger bound signal [] = ret None"
| "firstCandidate E cid hardTrigger bound signal (targetDepth # depths) = bindM (throwIfAborted signal) (\<lambda>_.
     let fanout = resolveFanoutForDepth (eng_config E) targetDepth hardTrigger in
     bindM (selectOldestChunkAtDepth E cid targetDepth (Some bound) signal) (\<lambda>chunk.
     bindM (throwIfAborted signal) (\<lambda>_.
     if length (cc_items chunk) < fanout then firstCandidate E cid hardTrigger bound signal depths
     else if js_less (js_nat (cc_summaryTokens chunk)) (resolveCondensedMinChunkTokens (eng_config E))
       then firstCandidate E cid hardTrigger bound signal depths
     else ret (Some (targetDepth, chunk)))))"

definition selectShallowestCondensationCandidate ::
  "engine \<Rightarrow> nat \<Rightarrow> bool \<Rightarrow> nat option \<Rightarrow> (world, (nat \<times> condensed_chunk_selection) option) op" where
  "selectShallowestCondensationCandidate E cid hardTrigger signal = bindM (throwIfAborted signal) (\<lambda>_.
     bindM (run (getContextItems cid)) (\<lambda>items.
     bindM (throwIfAborted signal) (\<lambda>_.
     let bound = resolveFreshTailOrdinal (eng_config E) items in
     bindM (run (getDistinctDepthsInContext cid (Some bound))) (\<lambda>depths.
     bindM (throwIfAborted signal) (\<lambda>_.
     firstCandidate E cid hardTrigger bound signal depths)))))"

section \<open>Summarizing\<close>

definition callSummarize :: "summarize_fn \<Rightarrow> string \<Rightarrow> bool \<Rightarrow> summarize_options \<Rightarrow> (world, string) op" where
  "callSummarize summarize text aggressive options = (\<lambda>w.
     (summarize (w_calls w) text aggressive options, w\<lparr>w_calls := Suc (w_calls w)\<rparr>))"

definition scrubbed :: "compaction_config \<Rightarrow> string \<Rightarrow> string" where
  "scrubbed c s = (case cfg_scrubber c of Some scrub \<Rightarrow> scrub s | None \<Rightarrow> s)"

definition fallbackSummary :: "string \<Rightarrow> nat \<Rightarrow> string" where
  "fallbackSummary sourceText inputTokens = take FALLBACK_MAX_CHARS sourceText @ newline @
     ''[Truncated from '' @ show_nat inputTokens @ '' tokens]''"

definition summarizeWithEscalation :: "engine \<Rightarrow> string \<Rightarrow> summarize_fn \<Rightarrow> summarize_options
    \<Rightarrow> invocation_context \<Rightarrow> (world, string \<times> compaction_level) op" where
  "summarizeWithEscalation E text summarize options context =
     (let signal = orElse (ic_signal context) (so_signal options);
          passed = options\<lparr>so_invocationId := orElse (ic_invocationId context) (so_invocationId options),
                           so_signal := orElse signal (so_signal options)\<rparr>;
          sourceText = scrubbed (eng_config E) (trim text)
      in bindM (throwIfAborted signal) (\<lambda>_.
         bindM (throwIfAborted signal) (\<lambda>_.
         if sourceText = [] then ret (''[Truncated from 0 tokens]'', FallbackLevel)
         else let inputTokens = max 1 (estimateTokens sourceText) in
           bindM (throwIfAborted signal) (\<lambda>_.
           bindM (callSummarize summarize sourceText False passed) (\<lambda>first.
           bindM (throwIfAborted signal) (\<lambda>_.
           if estimateTokens first < inputTokens then ret (first, NormalLevel)
           else bindM (throwIfAborted signal) (\<lambda>_.
             bindM (callSummarize summarize sourceText True passed) (\<lambda>second.
             bindM (throwIfAborted signal) (\<lambda>_.
             if estimateTokens second < inputTokens then ret (second, AggressiveLevel)
             else ret (fallbackSummary sourceText inputTokens, FallbackLevel))))))))))"

section \<open>The passes\<close>

text \<open>The rows of the chunk that exist.\<close>

fun chunkMessages :: "nat option \<Rightarrow> context_item_record list \<Rightarrow> (world, message_record list) op" where
  "chunkMessages signal [] = ret []"
| "chunkMessages signal (i # is) = bindM (throwIfAborted signal) (\<lambda>_.
     case ctx_messageId i of
       None \<Rightarrow> chunkMessages signal is
     | Some mid \<Rightarrow> bindM (run (getMessageById mid)) (\<lambda>msg.
         bindM (throwIfAborted signal) (\<lambda>_.
         bindM (chunkMessages signal is) (\<lambda>rest.
         ret (case msg of Some m \<Rightarrow> m # rest | None \<Rightarrow> rest)))))"

fun chunkSummaries :: "nat option \<Rightarrow> context_item_record list \<Rightarrow> (world, summary_record list) op" where
  "chunkSummaries signal [] = ret []"
| "chunkSummaries signal (i # is) = bindM (throwIfAborted signal) (\<lambda>_.
     case ctx_summaryId i of
       None \<Rightarrow> chunkSummaries signal is
     | Some sid \<Rightarrow> bindM (run (getSummary sid)) (\<lambda>summary.
         bindM (throwIfAborted signal) (\<lambda>_.
         bindM (chunkSummaries signal is) (\<lambda>rest.
         ret (case summary of Some s \<Rightarrow> s # rest | None \<Rightarrow> rest)))))"

fun minimum :: "int list \<Rightarrow> int option" where
  "minimum [] = None"
| "minimum (x # xs) = Some (case minimum xs of None \<Rightarrow> x | Some y \<Rightarrow> min x y)"

fun maximum :: "int list \<Rightarrow> int option" where
  "maximum [] = None"
| "maximum (x # xs) = Some (case maximum xs of None \<Rightarrow> x | Some y \<Rightarrow> max x y)"

definition chunkBounds :: "context_item_record list \<Rightarrow> (int \<times> int) option" where
  "chunkBounds items = (case (minimum (map ctx_ordinal items), maximum (map ctx_ordinal items)) of
     (Some s, Some e) \<Rightarrow> Some (s, e) | _ \<Rightarrow> None)"

definition leafText :: "engine \<Rightarrow> message_record list \<Rightarrow> string" where
  "leafText E ms = joinWith blankLine (map (\<lambda>m. ''['' @
     formatTimestamp (eng_host E) (msg_createdAt m) (cfg_timezone (eng_config E)) @ '']'' @ newline @
     msg_content m) ms)"

definition leafSummaryInput :: "string \<Rightarrow> nat \<Rightarrow> string \<Rightarrow> message_record list \<Rightarrow> create_summary_input" where
  "leafSummaryInput sid cid content ms = \<lparr>in_summaryId = sid, in_conversationId = cid, in_kind = Leaf,
     in_depth = Some (Num 0), in_content = content, in_tokenCount = estimateTokens content,
     in_fileIds = Some (dedupeOrderedIds (concat (map (\<lambda>m. extractFileIdsFromContent (msg_content m)) ms))),
     in_earliestAt = minimum (map msg_createdAt ms), in_latestAt = maximum (map msg_createdAt ms),
     in_descendantCount = Some (Num 0), in_descendantTokenCount = Some (Num 0),
     in_sourceMessageTokenCount = Some (js_nat (sum_list (map resolveMessageTokenCount ms)))\<rparr>"

text \<open>
  The durable part of a pass: one transaction that inserts the summary, links it and puts it in
  the place of the chunk.
\<close>

definition persistPass :: "engine \<Rightarrow> create_summary_input \<Rightarrow> (string \<Rightarrow> (world, unit) op)
    \<Rightarrow> (int \<times> int) option \<Rightarrow> (world, unit) op" where
  "persistPass E input link bounds = transaction (\<lambda>token.
     bindM (runScoped token (insertSummary (eng_options E) input)) (\<lambda>_.
     bindM (runScoped token (link (in_summaryId input))) (\<lambda>_.
     runScoped token (replaceContextRangeWithSummary (in_conversationId input) bounds (in_summaryId input)))))"

record pass_result =
  pass_summaryId :: string
  pass_level :: compaction_level
  pass_content :: string

definition leafPass :: "engine \<Rightarrow> nat \<Rightarrow> context_item_record list \<Rightarrow> summarize_fn \<Rightarrow> string option
    \<Rightarrow> invocation_context \<Rightarrow> (world, pass_result) op" where
  "leafPass E cid messageItems summarize previousSummaryContent context =
     bindM (chunkMessages (ic_signal context) messageItems) (\<lambda>ms.
     bindM (summarizeWithEscalation E (leafText E ms) summarize
       \<lparr>so_previousSummary = previousSummaryContent, so_isCondensed = Some False, so_depth = None,
        so_signal = None, so_invocationId = None\<rparr> context) (\<lambda>(content, level).
     bindM (throwIfAborted (ic_signal context)) (\<lambda>_.
     bindM (generateSummaryId (eng_host E) content) (\<lambda>sid.
     bindM (withCommitPermit context (persistPass E (leafSummaryInput sid cid content ms)
       (\<lambda>s. linkSummaryToMessages s (map msg_id ms)) (chunkBounds messageItems))) (\<lambda>_.
     ret \<lparr>pass_summaryId = sid, pass_level = level, pass_content = content\<rparr>)))))"

definition earliest :: "summary_record \<Rightarrow> int" where
  "earliest s = (case sum_earliestAt s of Some t \<Rightarrow> t | None \<Rightarrow> sum_createdAt s)"

definition latest :: "summary_record \<Rightarrow> int" where
  "latest s = (case sum_latestAt s of Some t \<Rightarrow> t | None \<Rightarrow> sum_createdAt s)"

definition condensedText :: "engine \<Rightarrow> summary_record list \<Rightarrow> string" where
  "condensedText E ss = joinWith blankLine (map (\<lambda>s.
     let fmt = (\<lambda>t. formatTimestamp (eng_host E) t (cfg_timezone (eng_config E))) in
     ''['' @ fmt (earliest s) @ '' - '' @ fmt (latest s) @ '']'' @ newline @ sum_content s) ss)"

definition condensedSummaryInput ::
  "string \<Rightarrow> nat \<Rightarrow> nat \<Rightarrow> string \<Rightarrow> summary_record list \<Rightarrow> create_summary_input" where
  "condensedSummaryInput sid cid targetDepth content ss = \<lparr>in_summaryId = sid, in_conversationId = cid,
     in_kind = Condensed, in_depth = Some (js_nat (targetDepth + 1)), in_content = content,
     in_tokenCount = estimateTokens content,
     in_fileIds = Some (dedupeOrderedIds (concat (map (\<lambda>s. sum_fileIds s @ extractFileIdsFromContent (sum_content s)) ss))),
     in_earliestAt = minimum (map earliest ss), in_latestAt = maximum (map latest ss),
     in_descendantCount = Some (js_nat (sum_list (map (\<lambda>s. sum_descendantCount s + 1) ss))),
     in_descendantTokenCount = Some (js_nat (sum_list (map (\<lambda>s. sum_tokenCount s + sum_descendantTokenCount s) ss))),
     in_sourceMessageTokenCount = Some (js_nat (sum_list (map sum_sourceMessageTokenCount ss)))\<rparr>"

definition condensedPass :: "engine \<Rightarrow> nat \<Rightarrow> context_item_record list \<Rightarrow> nat \<Rightarrow> summarize_fn
    \<Rightarrow> invocation_context \<Rightarrow> (world, pass_result) op" where
  "condensedPass E cid summaryItems targetDepth summarize context =
     bindM (chunkSummaries (ic_signal context) summaryItems) (\<lambda>ss.
     bindM (if targetDepth = 0
       then resolvePriorSummaryContextAtDepth cid summaryItems targetDepth (ic_signal context)
       else ret None) (\<lambda>previousSummaryContent.
     bindM (throwIfAborted (ic_signal context)) (\<lambda>_.
     bindM (summarizeWithEscalation E (condensedText E ss) summarize
       \<lparr>so_previousSummary = previousSummaryContent, so_isCondensed = Some True,
        so_depth = Some (targetDepth + 1), so_signal = None, so_invocationId = None\<rparr> context) (\<lambda>(content, level).
     bindM (throwIfAborted (ic_signal context)) (\<lambda>_.
     bindM (generateSummaryId (eng_host E) content) (\<lambda>sid.
     bindM (withCommitPermit context (persistPass E (condensedSummaryInput sid cid targetDepth content ss)
       (\<lambda>s. linkSummaryToParents s (map sum_id ss)) (chunkBounds summaryItems))) (\<lambda>_.
     ret \<lparr>pass_summaryId = sid, pass_level = level, pass_content = content\<rparr>)))))))"

section \<open>Compaction events\<close>

definition levelName :: "compaction_level \<Rightarrow> string" where
  "levelName l = (case l of NormalLevel \<Rightarrow> ''normal'' | AggressiveLevel \<Rightarrow> ''aggressive''
     | FallbackLevel \<Rightarrow> ''fallback'')"

definition passName :: "compaction_pass \<Rightarrow> string" where
  "passName p = (case p of LeafPass \<Rightarrow> ''leaf'' | CondensedPass \<Rightarrow> ''condensed'')"

record compaction_event =
  ev_conversationId :: nat
  ev_sessionId :: string
  ev_pass :: compaction_pass
  ev_level :: compaction_level
  ev_tokensBefore :: nat
  ev_tokensAfter :: nat
  ev_createdSummaryId :: string
  ev_createdSummaryIds :: "string list"
  ev_condensedPassOccurred :: bool

definition eventContent :: "compaction_event \<Rightarrow> string" where
  "eventContent e = ''LCM compaction '' @ passName (ev_pass e) @ '' pass ('' @ levelName (ev_level e) @ ''): '' @
     show_nat (ev_tokensBefore e) @ '' -> '' @ show_nat (ev_tokensAfter e)"

definition eventMetadata :: "compaction_event \<Rightarrow> json_text" where
  "eventMetadata e = Json (JObj
     [(''conversationId'', JNum (js_nat (ev_conversationId e))), (''pass'', JStr (passName (ev_pass e))),
      (''level'', JStr (levelName (ev_level e))), (''tokensBefore'', JNum (js_nat (ev_tokensBefore e))),
      (''tokensAfter'', JNum (js_nat (ev_tokensAfter e))), (''createdSummaryId'', JStr (ev_createdSummaryId e)),
      (''createdSummaryIds'', JArr (map JStr (ev_createdSummaryIds e))),
      (''condensedPassOccurred'', JBool (ev_condensedPassOccurred e))])"

definition eventInput :: "compaction_event \<Rightarrow> append_message_input" where
  "eventInput e = \<lparr>am_role = SystemRole, am_content = eventContent e,
     am_tokenCount = js_nat (estimateTokens (eventContent e))\<rparr>"

definition eventParts :: "compaction_event \<Rightarrow> create_message_part_input list" where
  "eventParts e =
     [\<lparr>cp_sessionId = ev_sessionId e, cp_partType = CompactionPart, cp_ordinal = Num 0,
       cp_textContent = Some (eventContent e), cp_toolCallId = None, cp_toolName = None,
       cp_toolInput = None, cp_toolOutput = None, cp_metadata = Some (eventMetadata e)\<rparr>,
      \<lparr>cp_sessionId = ev_sessionId e, cp_partType = SnapshotPart, cp_ordinal = Num 1,
       cp_textContent = None, cp_toolCallId = None, cp_toolName = None,
       cp_toolInput = None, cp_toolOutput = None, cp_metadata = Some (encodeTranscriptSlotMarker False)\<rparr>]"

text \<open>
  \<open>appendMessages\<close> and \<open>createMessageParts\<close> of the repository: validated, then run in a
  savepoint of the transaction.
\<close>

definition writeEvent :: "engine \<Rightarrow> compaction_event \<Rightarrow> nat \<Rightarrow> (world, unit) op" where
  "writeEvent E e token =
     bindM (runScoped token (getOrCreateConversation (ev_sessionId e) None)) (\<lambda>_.
     bindM (prevalidated (validateAppendTokenCounts [eventInput e])
       (runAtomicScoped token (appendMessagesCore (eng_options E) (ev_conversationId e) [eventInput e]))) (\<lambda>ms.
     prevalidated (validateMessageParts (eventParts e))
       (runAtomicScoped token (createMessagePartsCore (msg_id (hd ms)) (eventParts e)))))"

definition contextOr :: "invocation_context option \<Rightarrow> invocation_context" where
  "contextOr c = (case c of Some x \<Rightarrow> x | None \<Rightarrow> noContext)"

definition persistCompactionEvent ::
  "engine \<Rightarrow> compaction_event \<Rightarrow> invocation_context option \<Rightarrow> (world, unit) op" where
  "persistCompactionEvent E e context = bindM (throwIfAborted (ic_signal (contextOr context))) (\<lambda>_.
     catchM (withCommitPermit (contextOr context) (transaction (writeEvent E e)))
       (\<lambda>err. if isAbortError err then throw err else ret ()))"

definition persistCompactionEvents :: "engine \<Rightarrow> nat \<Rightarrow> nat \<Rightarrow> nat \<Rightarrow> nat
    \<Rightarrow> (string \<times> compaction_level) option \<Rightarrow> (string \<times> compaction_level) option
    \<Rightarrow> invocation_context option \<Rightarrow> (world, unit) op" where
  "persistCompactionEvents E cid tokensBefore tokensAfterLeaf tokensAfterFinal leafResult condenseResult context =
     (if leafResult = None \<and> condenseResult = None then ret ()
      else bindM (throwIfAborted (ic_signal (contextOr context))) (\<lambda>_.
        bindM (run (getConversation cid)) (\<lambda>conversation.
        bindM (throwIfAborted (ic_signal (contextOr context))) (\<lambda>_.
        case conversation of
          None \<Rightarrow> ret ()
        | Some c \<Rightarrow>
            let ids = filter (\<lambda>s. s \<noteq> []) (map fst (case leafResult of Some r \<Rightarrow> [r] | None \<Rightarrow> []) @
                        map fst (case condenseResult of Some r \<Rightarrow> [r] | None \<Rightarrow> []));
                event = (\<lambda>pass r before after. \<lparr>ev_conversationId = cid, ev_sessionId = conv_sessionId c,
                   ev_pass = pass, ev_level = snd r, ev_tokensBefore = before, ev_tokensAfter = after,
                   ev_createdSummaryId = fst r, ev_createdSummaryIds = ids,
                   ev_condensedPassOccurred = (condenseResult \<noteq> None)\<rparr>)
            in bindM (case leafResult of None \<Rightarrow> ret ()
                 | Some r \<Rightarrow> persistCompactionEvent E (event LeafPass r tokensBefore tokensAfterLeaf) context) (\<lambda>_.
               case condenseResult of None \<Rightarrow> ret ()
                 | Some r \<Rightarrow> persistCompactionEvent E (event CondensedPass r tokensAfterLeaf tokensAfterFinal) context)))))"

section \<open>Triggers\<close>

definition liveTokens :: "js_number option \<Rightarrow> nat" where
  "liveTokens observed = (case observed of Some x \<Rightarrow> floorOr 0 x | None \<Rightarrow> 0)"

definition contextTokenThreshold :: "engine \<Rightarrow> js_number \<Rightarrow> js_number" where
  "contextTokenThreshold E tokenBudget = js_floor (js_mul (cfg_contextThreshold (eng_config E)) tokenBudget)"

definition evaluate :: "engine \<Rightarrow> nat \<Rightarrow> js_number \<Rightarrow> js_number option \<Rightarrow> nat option
    \<Rightarrow> (world, compaction_decision) op" where
  "evaluate E cid tokenBudget observedTokenCount signal = bindM (throwIfAborted signal) (\<lambda>_.
     bindM (run (getContextTokenCount cid)) (\<lambda>storedTokens.
     bindM (throwIfAborted signal) (\<lambda>_.
     let currentTokens = max storedTokens (liveTokens observedTokenCount);
         threshold = contextTokenThreshold E tokenBudget in
     if js_less threshold (js_nat currentTokens)
     then ret \<lparr>dec_shouldCompact = True, dec_reason = ThresholdReason,
               dec_currentTokens = currentTokens, dec_threshold = threshold\<rparr>
     else ret \<lparr>dec_shouldCompact = False, dec_reason = NoReason,
               dec_currentTokens = currentTokens, dec_threshold = threshold\<rparr>)))"

record leaf_trigger =
  lt_shouldCompact :: bool
  lt_rawTokensOutsideTail :: nat
  lt_threshold :: nat

definition evaluateLeafTrigger :: "engine \<Rightarrow> nat \<Rightarrow> nat option \<Rightarrow> (world, leaf_trigger) op" where
  "evaluateLeafTrigger E cid signal = bindM (throwIfAborted signal) (\<lambda>_.
     bindM (countRawTokensOutsideFreshTail E cid signal) (\<lambda>rawTokens.
     bindM (throwIfAborted signal) (\<lambda>_.
     let threshold = resolveLeafChunkTokens (eng_config E) in
     ret \<lparr>lt_shouldCompact = (threshold \<le> rawTokens), lt_rawTokensOutsideTail = rawTokens,
          lt_threshold = threshold\<rparr>)))"

section \<open>Incremental compaction\<close>

record compact_input =
  ci_conversationId :: nat
  ci_tokenBudget :: js_number
  ci_summarize :: summarize_fn
  ci_force :: bool
  ci_hardTrigger :: bool
  ci_previousSummaryContent :: "string option"
  ci_context :: input_context

definition hasInvocationContext :: "invocation_context \<Rightarrow> bool" where
  "hasInvocationContext context \<longleftrightarrow> ic_signal context \<noteq> None \<or> ic_acquireCommit context \<noteq> None"

text \<open>Without a signal and an admission the passes run without the context, invocation id included.\<close>

definition passContext :: "invocation_context \<Rightarrow> invocation_context" where
  "passContext context = (if hasInvocationContext context then context else noContext)"

definition eventContext :: "invocation_context \<Rightarrow> invocation_context option" where
  "eventContext context = (if hasInvocationContext context then Some context else None)"

definition noAction :: "nat \<Rightarrow> compaction_result" where
  "noAction tokens = \<lparr>res_actionTaken = False, res_tokensBefore = tokens, res_tokensAfter = tokens,
     res_createdSummaryId = None, res_condensed = False, res_level = None\<rparr>"

text \<open>
  The incremental condensation of \<open>compactLeaf\<close>, one depth per round.  A negative configured
  depth means no bound on the depth; the rounds then end because each must lower the token count.
  The fuel stands for that argument.
\<close>

fun condenseDepths :: "engine \<Rightarrow> nat \<Rightarrow> summarize_fn \<Rightarrow> invocation_context \<Rightarrow> nat \<Rightarrow> nat
    \<Rightarrow> compaction_result \<Rightarrow> (world, compaction_result) op" where
  "condenseDepths E cid summarize context fuel targetDepth st =
     (let signal = ic_signal context in
      if \<not> js_less (js_nat targetDepth) (resolveIncrementalMaxDepth (eng_config E)) then ret st
      else case fuel of 0 \<Rightarrow> throw OutOfFuel | Suc fuel' \<Rightarrow>
        bindM (throwIfAborted signal) (\<lambda>_.
        bindM (selectOldestChunkAtDepth E cid targetDepth None signal) (\<lambda>chunk.
        bindM (throwIfAborted signal) (\<lambda>_.
        if length (cc_items chunk) < resolveFanoutForDepth (eng_config E) targetDepth False
           \<or> js_less (js_nat (cc_summaryTokens chunk)) (resolveCondensedMinChunkTokens (eng_config E))
        then ret st
        else bindM (run (getContextTokenCount cid)) (\<lambda>passTokensBefore.
          bindM (condensedPass E cid (cc_items chunk) targetDepth summarize (passContext context)) (\<lambda>r.
          bindM (run (getContextTokenCount cid)) (\<lambda>passTokensAfter.
          bindM (throwIfAborted signal) (\<lambda>_.
          bindM (persistCompactionEvents E cid passTokensBefore passTokensBefore passTokensAfter None
            (Some (pass_summaryId r, pass_level r)) (eventContext context)) (\<lambda>_.
          let st' = st\<lparr>res_tokensAfter := passTokensAfter, res_condensed := True,
                res_createdSummaryId := Some (pass_summaryId r), res_level := Some (pass_level r)\<rparr> in
          if passTokensBefore \<le> passTokensAfter then ret st'
          else condenseDepths E cid summarize context fuel' (Suc targetDepth) st')))))))))"

declare condenseDepths.simps [simp del]

definition compactLeaf :: "engine \<Rightarrow> compact_input \<Rightarrow> (world, compaction_result) op" where
  "compactLeaf E input =
     (let cid = ci_conversationId input; context = resolveInvocationContext (ci_context input);
          signal = ic_signal context; threshold = contextTokenThreshold E (ci_tokenBudget input)
      in bindM (throwIfAborted signal) (\<lambda>_.
         bindM (run (getContextTokenCount cid)) (\<lambda>tokensBefore.
         bindM (throwIfAborted signal) (\<lambda>_.
         bindM (evaluateLeafTrigger E cid signal) (\<lambda>leafTrigger.
         bindM (throwIfAborted signal) (\<lambda>_.
         if \<not> ci_force input \<and> js_leq (js_nat tokensBefore) threshold \<and> \<not> lt_shouldCompact leafTrigger
         then ret (noAction tokensBefore)
         else bindM (selectOldestLeafChunk E cid signal) (\<lambda>leafChunk.
           bindM (throwIfAborted signal) (\<lambda>_.
           if lc_items leafChunk = [] then ret (noAction tokensBefore)
           else bindM (case ci_previousSummaryContent input of Some p \<Rightarrow> ret (Some p)
                  | None \<Rightarrow> resolvePriorLeafSummaryContext cid (lc_items leafChunk) signal) (\<lambda>previous.
             bindM (leafPass E cid (lc_items leafChunk) (ci_summarize input) previous (passContext context)) (\<lambda>r.
             bindM (run (getContextTokenCount cid)) (\<lambda>tokensAfterLeaf.
             bindM (throwIfAborted signal) (\<lambda>_.
             bindM (persistCompactionEvents E cid tokensBefore tokensAfterLeaf tokensAfterLeaf
               (Some (pass_summaryId r, pass_level r)) None (eventContext context)) (\<lambda>_.
             condenseDepths E cid (ci_summarize input) context (Suc (Suc tokensAfterLeaf)) 0
               \<lparr>res_actionTaken = True, res_tokensBefore = tokensBefore, res_tokensAfter = tokensAfterLeaf,
                res_createdSummaryId = Some (pass_summaryId r), res_condensed = False,
                res_level = Some (pass_level r)\<rparr>)))))))))))))"

section \<open>The full sweep\<close>

record sweep_state =
  sw_actionTaken :: bool
  sw_condensed :: bool
  sw_createdSummaryId :: "string option"
  sw_level :: "compaction_level option"
  sw_previousSummaryContent :: "string option"
  sw_previousTokens :: nat
  sw_isFirstLeafPass :: bool

definition MAX_PREVIOUS_SUMMARY_LENGTH :: nat where
  "MAX_PREVIOUS_SUMMARY_LENGTH = 50000"

definition cappedSeed :: "string option \<Rightarrow> string option" where
  "cappedSeed seed = (case seed of Some s \<Rightarrow> if s = [] then None else Some (take MAX_PREVIOUS_SUMMARY_LENGTH s)
     | None \<Rightarrow> None)"

text \<open>Phase 1: a round goes on only below the token count of the round before, so the loop ends.\<close>

function leafSweep :: "engine \<Rightarrow> compact_input \<Rightarrow> invocation_context \<Rightarrow> sweep_state \<Rightarrow> (world, sweep_state) op" where
  "leafSweep E input context st =
     (let cid = ci_conversationId input; signal = ic_signal context in
      bindM (throwIfAborted signal) (\<lambda>_.
      bindM (selectOldestLeafChunk E cid signal) (\<lambda>leafChunk.
      bindM (throwIfAborted signal) (\<lambda>_.
      if lc_items leafChunk = [] then ret st
      else bindM (if \<not> sw_isFirstLeafPass st then ret (sw_previousSummaryContent st)
             else bindM (case ci_previousSummaryContent input of Some p \<Rightarrow> ret (Some p)
                    | None \<Rightarrow> resolvePriorLeafSummaryContext cid (lc_items leafChunk) signal) (\<lambda>seed.
               bindM (throwIfAborted signal) (\<lambda>_. ret (cappedSeed seed)))) (\<lambda>previous.
        bindM (run (getContextTokenCount cid)) (\<lambda>passTokensBefore.
        bindM (throwIfAborted signal) (\<lambda>_.
        bindM (leafPass E cid (lc_items leafChunk) (ci_summarize input) previous (passContext context)) (\<lambda>r.
        bindM (run (getContextTokenCount cid)) (\<lambda>passTokensAfter.
        bindM (throwIfAborted signal) (\<lambda>_.
        bindM (persistCompactionEvents E cid passTokensBefore passTokensAfter passTokensAfter
          (Some (pass_summaryId r, pass_level r)) None (eventContext context)) (\<lambda>_.
        let st' = st\<lparr>sw_actionTaken := True, sw_createdSummaryId := Some (pass_summaryId r),
              sw_level := Some (pass_level r), sw_previousSummaryContent := Some (pass_content r),
              sw_isFirstLeafPass := False\<rparr> in
        if passTokensBefore \<le> passTokensAfter then ret st'
        else if passTokensAfter < sw_previousTokens st
          then leafSweep E input context (st'\<lparr>sw_previousTokens := passTokensAfter\<rparr>)
        else ret st')))))))))))"
  by pat_completeness auto
termination
  by (relation "measure (\<lambda>(_, _, _, st). sw_previousTokens st)") auto

declare leafSweep.simps [simp del]

text \<open>Phase 2: the shallowest depth first.\<close>

function condensedSweep :: "engine \<Rightarrow> compact_input \<Rightarrow> invocation_context \<Rightarrow> sweep_state \<Rightarrow> (world, sweep_state) op" where
  "condensedSweep E input context st =
     (let cid = ci_conversationId input; signal = ic_signal context in
      bindM (throwIfAborted signal) (\<lambda>_.
      bindM (selectShallowestCondensationCandidate E cid (ci_hardTrigger input) signal) (\<lambda>candidate.
      bindM (throwIfAborted signal) (\<lambda>_.
      case candidate of None \<Rightarrow> ret st
      | Some (targetDepth, chunk) \<Rightarrow>
        bindM (run (getContextTokenCount cid)) (\<lambda>passTokensBefore.
        bindM (throwIfAborted signal) (\<lambda>_.
        bindM (condensedPass E cid (cc_items chunk) targetDepth (ci_summarize input) (passContext context)) (\<lambda>r.
        bindM (run (getContextTokenCount cid)) (\<lambda>passTokensAfter.
        bindM (throwIfAborted signal) (\<lambda>_.
        bindM (persistCompactionEvents E cid passTokensBefore passTokensBefore passTokensAfter None
          (Some (pass_summaryId r, pass_level r)) (eventContext context)) (\<lambda>_.
        let st' = st\<lparr>sw_actionTaken := True, sw_condensed := True,
              sw_createdSummaryId := Some (pass_summaryId r), sw_level := Some (pass_level r)\<rparr> in
        if passTokensBefore \<le> passTokensAfter then ret st'
        else if passTokensAfter < sw_previousTokens st
          then condensedSweep E input context (st'\<lparr>sw_previousTokens := passTokensAfter\<rparr>)
        else ret st'))))))))))"
  by pat_completeness auto
termination
  by (relation "measure (\<lambda>(_, _, _, st). sw_previousTokens st)") auto

declare condensedSweep.simps [simp del]

definition compactFullSweep :: "engine \<Rightarrow> compact_input \<Rightarrow> (world, compaction_result) op" where
  "compactFullSweep E input =
     (let cid = ci_conversationId input; context = resolveInvocationContext (ci_context input);
          signal = ic_signal context; threshold = contextTokenThreshold E (ci_tokenBudget input)
      in bindM (throwIfAborted signal) (\<lambda>_.
         bindM (run (getContextTokenCount cid)) (\<lambda>tokensBefore.
         bindM (throwIfAborted signal) (\<lambda>_.
         bindM (evaluateLeafTrigger E cid signal) (\<lambda>leafTrigger.
         bindM (throwIfAborted signal) (\<lambda>_.
         if \<not> ci_force input \<and> js_leq (js_nat tokensBefore) threshold \<and> \<not> lt_shouldCompact leafTrigger
         then ret (noAction tokensBefore)
         else bindM (throwIfAborted signal) (\<lambda>_.
           bindM (run (getContextItems cid)) (\<lambda>contextItems.
           bindM (throwIfAborted signal) (\<lambda>_.
           if contextItems = [] then ret (noAction tokensBefore)
           else bindM (leafSweep E input context \<lparr>sw_actionTaken = False, sw_condensed = False,
                  sw_createdSummaryId = None, sw_level = None, sw_previousSummaryContent = None,
                  sw_previousTokens = tokensBefore, sw_isFirstLeafPass = True\<rparr>) (\<lambda>st.
             bindM (condensedSweep E input context st) (\<lambda>st'.
             bindM (throwIfAborted signal) (\<lambda>_.
             bindM (run (getContextTokenCount cid)) (\<lambda>tokensAfter.
             bindM (throwIfAborted signal) (\<lambda>_.
             ret \<lparr>res_actionTaken = sw_actionTaken st', res_tokensBefore = tokensBefore,
                  res_tokensAfter = tokensAfter, res_createdSummaryId = sw_createdSummaryId st',
                  res_condensed = sw_condensed st', res_level = sw_level st'\<rparr>))))))))))))))"

definition compact :: "engine \<Rightarrow> compact_input \<Rightarrow> (world, compaction_result) op" where
  "compact E input = compactFullSweep E input"

section \<open>Compacting under a target\<close>

record until_under_input =
  uu_conversationId :: nat
  uu_tokenBudget :: js_number
  uu_targetTokens :: "js_number option"
  uu_currentTokens :: "js_number option"
  uu_summarize :: summarize_fn
  uu_context :: input_context

record until_under_result =
  uur_success :: bool
  uur_rounds :: js_number
  uur_finalTokens :: nat

definition roundInput :: "until_under_input \<Rightarrow> invocation_context \<Rightarrow> compact_input" where
  "roundInput input context = \<lparr>ci_conversationId = uu_conversationId input,
     ci_tokenBudget = uu_tokenBudget input, ci_summarize = uu_summarize input, ci_force = True,
     ci_hardTrigger = False, ci_previousSummaryContent = None,
     ci_context = \<lparr>ic_signal = None, ic_acquireCommit = None, ic_invocationId = None, ic_context = Some context\<rparr>\<rparr>"

definition targetTokensOf :: "until_under_input \<Rightarrow> js_number" where
  "targetTokensOf input = (case uu_targetTokens input of
       Some x \<Rightarrow> if positiveFinite x then js_floor x else uu_tokenBudget input
     | None \<Rightarrow> uu_tokenBudget input)"

function untilUnderRounds :: "engine \<Rightarrow> until_under_input \<Rightarrow> invocation_context \<Rightarrow> nat \<Rightarrow> nat
    \<Rightarrow> (world, until_under_result) op" where
  "untilUnderRounds E input context lastTokens rnd =
     (let signal = ic_signal context; target = targetTokensOf input in
      if js_leq (js_nat rnd) (cfg_maxRounds (eng_config E)) then
        bindM (throwIfAborted signal) (\<lambda>_.
        bindM (compact E (roundInput input context)) (\<lambda>result.
        bindM (throwIfAborted signal) (\<lambda>_.
        if js_leq (js_nat (res_tokensAfter result)) target
        then ret \<lparr>uur_success = True, uur_rounds = js_nat rnd, uur_finalTokens = res_tokensAfter result\<rparr>
        else if res_actionTaken result \<and> res_tokensAfter result < lastTokens
          then untilUnderRounds E input context (res_tokensAfter result) (Suc rnd)
        else ret \<lparr>uur_success = False, uur_rounds = js_nat rnd, uur_finalTokens = res_tokensAfter result\<rparr>)))
      else bindM (throwIfAborted signal) (\<lambda>_.
        bindM (run (getContextTokenCount (uu_conversationId input))) (\<lambda>finalTokens.
        bindM (throwIfAborted signal) (\<lambda>_.
        ret \<lparr>uur_success = js_leq (js_nat finalTokens) target, uur_rounds = cfg_maxRounds (eng_config E),
             uur_finalTokens = finalTokens\<rparr>))))"
  by pat_completeness auto
termination
  by (relation "measure (\<lambda>(_, _, _, lastTokens, _). lastTokens)") auto

declare untilUnderRounds.simps [simp del]

definition compactUntilUnder :: "engine \<Rightarrow> until_under_input \<Rightarrow> (world, until_under_result) op" where
  "compactUntilUnder E input =
     (let cid = uu_conversationId input; context = resolveInvocationContext (uu_context input);
          signal = ic_signal context
      in bindM (throwIfAborted signal) (\<lambda>_.
         bindM (run (getContextTokenCount cid)) (\<lambda>storedTokens.
         bindM (throwIfAborted signal) (\<lambda>_.
         let lastTokens = max storedTokens (liveTokens (uu_currentTokens input)) in
         if js_less (js_nat lastTokens) (targetTokensOf input)
         then ret \<lparr>uur_success = True, uur_rounds = Num 0, uur_finalTokens = lastTokens\<rparr>
         else untilUnderRounds E input context lastTokens 1))))"

end
