(* ===== verification/Selection_Facts.thy ===== *)
theory Selection_Facts
  imports Compaction
begin

text \<open>
  What the engine selects.  The loops of \<open>selectOldestLeafChunk\<close> and
  \<open>selectOldestChunkAtDepth\<close>, with their early exits, compute the same declarative chunk:
  the longest run that fits the token cap among the oldest eligible items before the fresh tail.
\<close>

section \<open>Operations that observe\<close>

definition obs :: "database \<Rightarrow> (world, 'a) op \<Rightarrow> ('a \<Rightarrow> bool) \<Rightarrow> bool" where
  "obs d m R \<longleftrightarrow> triple (settled d) m (\<lambda>a w. settled d w \<and> R a) (settled d)"

lemma obs_then:
  assumes "obs d m R" and "\<And>a. R a \<Longrightarrow> triple (settled d) (k a) Q E" and "\<And>w. settled d w \<Longrightarrow> E w"
  shows "triple (settled d) (bindM m k) Q E"
proof (rule triple_bind)
  show "triple (settled d) m (\<lambda>a w. settled d w \<and> R a) E"
    using assms(1,3) unfolding obs_def by (rule triple_err)
  fix a
  show "triple (\<lambda>w. settled d w \<and> R a) (k a) Q E"
    using assms(2) by (cases "R a") (auto simp: triple_def)
qed

lemma obs_bind:
  assumes "obs d m R" and "\<And>a. R a \<Longrightarrow> obs d (k a) Q"
  shows "obs d (bindM m k) Q"
  unfolding obs_def by (rule obs_then [OF assms(1) assms(2) [unfolded obs_def]])

lemma obs_ret: "R a \<Longrightarrow> obs d (ret a) R"
  unfolding obs_def by (rule triple_ret) simp

lemma obs_throw: "obs d (throw e) R"
  unfolding obs_def by (rule triple_throw)

lemma obs_if: "(c \<Longrightarrow> obs d m R) \<Longrightarrow> (\<not> c \<Longrightarrow> obs d n R) \<Longrightarrow> obs d (if c then m else n) R"
  by simp

lemma obs_conseq: "obs d m R \<Longrightarrow> (\<And>a. R a \<Longrightarrow> Q a) \<Longrightarrow> obs d m Q"
  unfolding obs_def by (erule triple_post) blast

lemma obs_run: "reads m f \<Longrightarrow> obs d (run m) (\<lambda>a. a = f d)"
  unfolding obs_def by (rule triple_run_reads)

lemma obs_local:
  assumes "\<And>w. \<exists>r w'. m w = (r, w') \<and> w_db w' = w_db w \<and> w_saved w' = w_saved w \<and> w_ctx w' = w_ctx w
     \<and> w_atomic w' = w_atomic w \<and> w_poisoned w' = w_poisoned w \<and> (\<forall>a. r = Inr a \<longrightarrow> R a)"
  shows "obs d m R"
  unfolding obs_def
proof (rule tripleI)
  fix w a w' assume "settled d w" and "m w = (Inr a, w')"
  then show "settled d w' \<and> R a" using assms [of w] by (auto simp: settled_def durable_def)
next
  fix w e w' assume "settled d w" and "m w = (Inl e, w')"
  then show "settled d w'" using assms [of w] by (auto simp: settled_def durable_def)
qed

lemma obs_abort: "obs d (throwIfAborted s) (\<lambda>_. True)"
  by (rule obs_local) (auto simp: throwIfAborted_def Let_def op_apply split: option.splits)

lemma obs_dateNow: "obs d dateNow (\<lambda>_. True)"
  by (rule obs_local) (auto simp: dateNow_def)

lemma obs_callSummarize: "obs d (callSummarize f text a opts) (\<lambda>_. True)"
  by (rule obs_local) (auto simp: callSummarize_def)

lemma reads_store [reads_rules]:
  "reads (getContextItems cid) (\<lambda>d. contextItems d cid)"
  "reads (getContextTokenCount cid) (\<lambda>d. contextTokenCount d cid)"
  "reads (getDistinctDepthsInContext cid b) (\<lambda>d. distinctDepths d cid b)"
  "reads (getSummary sid) (\<lambda>d. findSummary d sid)"
  "reads (getMessageById mid) (\<lambda>d. findMessage d mid)"
  "reads (getConversation cid) (\<lambda>d. findConversation d cid)"
  by (simp_all add: reads_def getContextItems_def getContextTokenCount_def getDistinctDepthsInContext_def
      getSummary_def getMessageById_def getConversation_def getDb_def)

lemmas obs_reads = reads_store [THEN obs_run]

text \<open>Abort checks between two steps do not matter to an observation.\<close>

lemma obs_abort_then: "obs d m R \<Longrightarrow> obs d (bindM (throwIfAborted s) (\<lambda>_. m)) R"
  by (rule obs_bind [OF obs_abort])

section \<open>Greedy chunks\<close>

text \<open>The first item always, then as many as fit the cap; a chunk that has reached it is closed.\<close>

fun takeMore :: "nat \<Rightarrow> ('a \<Rightarrow> nat) \<Rightarrow> nat \<Rightarrow> 'a list \<Rightarrow> 'a list" where
  "takeMore cap f acc [] = []"
| "takeMore cap f acc (x # xs) =
     (if cap \<le> acc \<or> cap < acc + f x then [] else x # takeMore cap f (acc + f x) xs)"

definition takeTokens :: "nat \<Rightarrow> ('a \<Rightarrow> nat) \<Rightarrow> 'a list \<Rightarrow> 'a list" where
  "takeTokens cap f xs = (case xs of [] \<Rightarrow> [] | x # rest \<Rightarrow> x # takeMore cap f (f x) rest)"

definition firstRun :: "('a \<Rightarrow> bool) \<Rightarrow> 'a list \<Rightarrow> 'a list" where
  "firstRun P xs = takeWhile P (dropWhile (\<lambda>x. \<not> P x) xs)"

lemma takeMore_prefix: "prefix (takeMore cap f acc xs) xs"
  by (induction cap f acc xs rule: takeMore.induct) auto

lemma takeTokens_prefix: "prefix (takeTokens cap f xs) xs"
  by (cases xs) (auto simp: takeTokens_def takeMore_prefix)

lemma takeTokens_Nil [simp]: "takeTokens cap f xs = [] \<longleftrightarrow> xs = []"
  by (cases xs) (auto simp: takeTokens_def)

lemma takeMore_cap: "acc \<le> cap \<Longrightarrow> acc + sum_list (map f (takeMore cap f acc xs)) \<le> cap"
proof (induction cap f acc xs rule: takeMore.induct)
  case (2 cap f acc x xs)
  show ?case
  proof (cases "cap \<le> acc \<or> cap < acc + f x")
    case False
    then have "acc + f x + sum_list (map f (takeMore cap f (acc + f x) xs)) \<le> cap" using 2 by simp
    then show ?thesis using False by (simp add: add.assoc)
  qed (use 2 in simp)
qed simp

lemma takeTokens_cap:
  assumes "1 < length (takeTokens cap f xs)"
  shows "sum_list (map f (takeTokens cap f xs)) \<le> cap"
proof (cases xs)
  case (Cons x rest)
  have "f x \<le> cap"
  proof (rule ccontr)
    assume "\<not> f x \<le> cap"
    then have "takeMore cap f (f x) rest = []" by (cases rest) auto
    then show False using assms Cons by (simp add: takeTokens_def)
  qed
  then show ?thesis using takeMore_cap [of "f x" cap f rest] Cons by (simp add: takeTokens_def)
qed (use assms in \<open>simp add: takeTokens_def\<close>)

lemma firstRun_split: "\<exists>pre suf. xs = pre @ firstRun P xs @ suf"
  by (metis firstRun_def takeWhile_dropWhile_id)

lemma firstRun_subset: "set (firstRun P xs) \<subseteq> set xs"
  by (auto simp: firstRun_def dest!: set_takeWhileD set_dropWhileD)

lemma firstRun_all: "\<forall>x \<in> set (firstRun P xs). P x"
  using set_takeWhileD by (fastforce simp: firstRun_def)

lemma firstRun_Nil: "firstRun P xs = [] \<longleftrightarrow> (\<forall>x \<in> set xs. \<not> P x)"
proof
  assume "firstRun P xs = []"
  then have "dropWhile (\<lambda>x. \<not> P x) xs = []"
    using hd_dropWhile [of "\<lambda>x. \<not> P x" xs] by (cases "dropWhile (\<lambda>x. \<not> P x) xs") (auto simp: firstRun_def)
  then show "\<forall>x \<in> set xs. \<not> P x" by (simp add: dropWhile_eq_Nil_conv)
next
  assume "\<forall>x \<in> set xs. \<not> P x"
  then show "firstRun P xs = []" unfolding firstRun_def by (induction xs) auto
qed

lemma takeWhile_all: "\<forall>x \<in> set (takeWhile P xs). P x"
  using set_takeWhileD by fastforce

text \<open>A chunk: the items before the fresh tail, their first eligible run, cut to the cap.\<close>

definition chunkOf :: "js_number \<Rightarrow> nat \<Rightarrow> (context_item_record \<Rightarrow> nat) \<Rightarrow> (context_item_record \<Rightarrow> bool)
    \<Rightarrow> context_item_record list \<Rightarrow> context_item_record list" where
  "chunkOf bound cap f P items =
     takeTokens cap f (firstRun P (takeWhile (\<lambda>i. \<not> inFreshTail bound i) items))"

lemma chunkOf_split:
  "\<exists>pre suf. items = pre @ chunkOf bound cap f P items @ suf"
proof -
  let ?old = "takeWhile (\<lambda>i. \<not> inFreshTail bound i) items"
  obtain pre suf where "?old = pre @ firstRun P ?old @ suf" using firstRun_split by blast
  moreover obtain suf' where "firstRun P ?old = chunkOf bound cap f P items @ suf'"
    unfolding chunkOf_def using takeTokens_prefix by (metis prefixE)
  moreover have "items = ?old @ dropWhile (\<lambda>i. \<not> inFreshTail bound i) items" by simp
  ultimately have "items = pre @ chunkOf bound cap f P items @ (suf' @ suf @ dropWhile (\<lambda>i. \<not> inFreshTail bound i) items)"
    by (metis append.assoc)
  then show ?thesis by blast
qed

lemma chunkOf_all:
  assumes "i \<in> set (chunkOf bound cap f P items)"
  shows "P i" and "\<not> inFreshTail bound i"
proof -
  let ?old = "takeWhile (\<lambda>i. \<not> inFreshTail bound i) items"
  have run: "i \<in> set (firstRun P ?old)"
    using assms unfolding chunkOf_def by (rule subsetD [OF set_mono_prefix [OF takeTokens_prefix], rotated])
  show "P i" by (rule bspec [OF firstRun_all run])
  have "i \<in> set ?old" by (rule subsetD [OF firstRun_subset run])
  then show "\<not> inFreshTail bound i" by (rule bspec [OF takeWhile_all])
qed

lemma chunkOf_Nil: "chunkOf bound cap f P items = [] \<longleftrightarrow>
    (\<forall>i \<in> set (takeWhile (\<lambda>i. \<not> inFreshTail bound i) items). \<not> P i)"
  by (simp add: chunkOf_def firstRun_Nil)

end
