(* ===== verification/Selection_Spec.thy ===== *)
theory Selection_Spec
  imports Selection_Facts
begin

text \<open>
  The selection loops of the engine return the declarative chunks of \<open>Selection_Facts\<close>
  whenever they return, the triggers compare the declared quantities, and the chunk lies before
  the fresh tail.
\<close>

section \<open>Leaf chunks\<close>

definition leafTokens :: "database \<Rightarrow> context_item_record \<Rightarrow> nat" where
  "leafTokens d i = (case Option.bind (ctx_messageId i) (findMessage d) of
     Some m \<Rightarrow> resolveMessageTokenCount m | None \<Rightarrow> 0)"

definition oldestLeafChunk :: "engine \<Rightarrow> database \<Rightarrow> nat \<Rightarrow> context_item_record list" where
  "oldestLeafChunk E d cid = (let items = contextItems d cid in
     chunkOf (resolveFreshTailOrdinal (eng_config E) items) (resolveLeafChunkTokens (eng_config E))
       (leafTokens d) isRawMessage items)"

definition rawTokensOutsideTail :: "engine \<Rightarrow> database \<Rightarrow> nat \<Rightarrow> nat" where
  "rawTokensOutsideTail E d cid = (let items = contextItems d cid in
     sum_list (map (leafTokens d) (filter isRawMessage
       (takeWhile (\<lambda>i. \<not> inFreshTail (resolveFreshTailOrdinal (eng_config E) items) i) items))))"

lemma takeMore_closed: "cap \<le> acc \<Longrightarrow> takeMore cap f acc xs = []"
  by (cases xs) auto

lemma obs_getMessageTokenCount:
  assumes "isRawMessage i"
  shows "obs d (getMessageTokenCount s (the (ctx_messageId i))) (\<lambda>t. t = leafTokens d i)"
proof -
  obtain mid where mid: "ctx_messageId i = Some mid" using assms by (auto simp: isRawMessage_def)
  show ?thesis
    unfolding getMessageTokenCount_def
    by (rule obs_bind [OF obs_abort], rule obs_bind [OF obs_reads(5)], rule obs_bind [OF obs_abort], rule obs_ret)
      (simp add: leafTokens_def mid)
qed

lemma obs_sumRawTokens:
  "obs d (sumRawTokens s bound acc items) (\<lambda>t. t = acc + sum_list (map (leafTokens d)
     (filter isRawMessage (takeWhile (\<lambda>i. \<not> inFreshTail bound i) items))))"
proof (induction items arbitrary: acc)
  case (Cons i items)
  show ?case
    unfolding sumRawTokens.simps
  proof (rule obs_abort_then, rule obs_if, rule obs_ret, simp, rule obs_if)
    assume "\<not> inFreshTail bound i" and "\<not> isRawMessage i"
    then show "obs d (sumRawTokens s bound acc items) (\<lambda>t. t = acc + sum_list (map (leafTokens d)
     (filter isRawMessage (takeWhile (\<lambda>i. \<not> inFreshTail bound i) (i # items)))))"
      using Cons.IH by simp
  next
    assume i: "\<not> inFreshTail bound i" "\<not> \<not> isRawMessage i"
    then have "obs d (getMessageTokenCount s (the (ctx_messageId i))) (\<lambda>t. t = leafTokens d i)"
      by (intro obs_getMessageTokenCount) simp
    then show "obs d (bindM (getMessageTokenCount s (the (ctx_messageId i))) (\<lambda>t. sumRawTokens s bound (acc + t) items))
       (\<lambda>t. t = acc + sum_list (map (leafTokens d)
         (filter isRawMessage (takeWhile (\<lambda>i. \<not> inFreshTail bound i) (i # items)))))"
      using Cons.IH [of "acc + leafTokens d i"] i by (elim obs_bind) (simp add: add.assoc)
  qed
qed (simp add: obs_ret)

lemma obs_countRawTokens:
  "obs d (countRawTokensOutsideFreshTail E cid s) (\<lambda>t. t = rawTokensOutsideTail E d cid)"
  unfolding countRawTokensOutsideFreshTail_def
  by (rule obs_abort_then, rule obs_bind [OF obs_reads(1)], rule obs_abort_then,
      rule obs_conseq [OF obs_sumRawTokens]) (simp add: rawTokensOutsideTail_def Let_def)

lemma obs_leafChunk_started:
  assumes "chunk \<noteq> []" and "t < cap"
  shows "obs d (leafChunkFrom s bound cap True chunk t items) (\<lambda>r. r = chunk @
     takeMore cap (leafTokens d) t (takeWhile isRawMessage (takeWhile (\<lambda>i. \<not> inFreshTail bound i) items)))"
  using assms
proof (induction items arbitrary: chunk t)
  case (Cons i items)
  let ?f = "leafTokens d"
  let ?R = "\<lambda>r. r = chunk @ takeMore cap ?f t
      (takeWhile isRawMessage (takeWhile (\<lambda>i. \<not> inFreshTail bound i) (i # items)))"
  show ?case
    unfolding leafChunkFrom.simps
  proof (rule obs_abort_then, rule obs_if, rule obs_ret, simp, rule obs_if)
    assume "\<not> inFreshTail bound i" and "\<not> isRawMessage i"
    then show "obs d (if True then ret chunk else leafChunkFrom s bound cap True chunk t items) ?R"
      by (simp add: obs_ret)
  next
    assume i: "\<not> inFreshTail bound i" "\<not> \<not> isRawMessage i"
    show "obs d (bindM (getMessageTokenCount s (the (ctx_messageId i))) (\<lambda>x.
       if chunk \<noteq> [] \<and> cap < t + x then ret chunk
       else if cap \<le> t + x then ret (chunk @ [i])
       else leafChunkFrom s bound cap True (chunk @ [i]) (t + x) items)) ?R"
    proof (rule obs_bind [OF obs_getMessageTokenCount], use i in simp, simp only:)
      show "obs d (if chunk \<noteq> [] \<and> cap < t + ?f i then ret chunk
       else if cap \<le> t + ?f i then ret (chunk @ [i])
       else leafChunkFrom s bound cap True (chunk @ [i]) (t + ?f i) items) ?R"
        using i Cons.prems Cons.IH [of "chunk @ [i]" "t + ?f i"]
        by (auto intro!: obs_ret simp: takeMore_closed)
    qed
  qed
qed (simp add: obs_ret)

lemma obs_leafChunk:
  "obs d (leafChunkFrom s bound cap False [] 0 items) (\<lambda>r. r = chunkOf bound cap (leafTokens d) isRawMessage items)"
proof (induction items)
  case (Cons i items)
  let ?f = "leafTokens d"
  let ?R = "\<lambda>r. r = chunkOf bound cap ?f isRawMessage (i # items)"
  show ?case
    unfolding leafChunkFrom.simps
  proof (rule obs_abort_then, rule obs_if, rule obs_ret)
    show "inFreshTail bound i \<Longrightarrow> [] = chunkOf bound cap ?f isRawMessage (i # items)"
      by (simp add: chunkOf_def firstRun_def takeTokens_def)
  next
    assume old: "\<not> inFreshTail bound i"
    show "obs d (if \<not> isRawMessage i then if False then ret [] else leafChunkFrom s bound cap False [] 0 items
       else bindM (getMessageTokenCount s (the (ctx_messageId i))) (\<lambda>x.
         if [] \<noteq> [] \<and> cap < 0 + x then ret []
         else if cap \<le> 0 + x then ret ([] @ [i])
         else leafChunkFrom s bound cap True ([] @ [i]) (0 + x) items)) ?R"
    proof (rule obs_if)
      assume "\<not> isRawMessage i"
      then show "obs d (if False then ret [] else leafChunkFrom s bound cap False [] 0 items) ?R"
        using Cons.IH old by (simp add: chunkOf_def firstRun_def)
    next
      assume raw: "\<not> \<not> isRawMessage i"
      then have chunk: "chunkOf bound cap ?f isRawMessage (i # items) =
          [i] @ takeMore cap ?f (?f i) (takeWhile isRawMessage (takeWhile (\<lambda>i. \<not> inFreshTail bound i) items))"
        using old by (simp add: chunkOf_def firstRun_def takeTokens_def)
      show "obs d (bindM (getMessageTokenCount s (the (ctx_messageId i))) (\<lambda>x.
         if [] \<noteq> [] \<and> cap < 0 + x then ret []
         else if cap \<le> 0 + x then ret ([] @ [i])
         else leafChunkFrom s bound cap True ([] @ [i]) (0 + x) items)) ?R"
      proof (rule obs_bind [OF obs_getMessageTokenCount], use raw in simp, simp only:)
        show "obs d (if [] \<noteq> [] \<and> cap < 0 + ?f i then ret []
         else if cap \<le> 0 + ?f i then ret ([] @ [i])
         else leafChunkFrom s bound cap True ([] @ [i]) (0 + ?f i) items) ?R"
          unfolding chunk using obs_leafChunk_started [of "[i]" "?f i" cap d s bound items]
          by (auto intro!: obs_ret simp: takeMore_closed)
      qed
    qed
  qed
qed (simp add: obs_ret chunkOf_def firstRun_def takeTokens_def)

lemma obs_selectOldestLeafChunk:
  "obs d (selectOldestLeafChunk E cid s) (\<lambda>c. lc_items c = oldestLeafChunk E d cid
     \<and> lc_rawTokensOutsideTail c = rawTokensOutsideTail E d cid
     \<and> lc_threshold c = resolveLeafChunkTokens (eng_config E))"
  unfolding selectOldestLeafChunk_def Let_def
  by (rule obs_abort_then, rule obs_bind [OF obs_reads(1)], rule obs_abort_then,
      rule obs_bind [OF obs_sumRawTokens], rule obs_bind [OF obs_leafChunk], rule obs_ret)
    (simp add: oldestLeafChunk_def rawTokensOutsideTail_def Let_def)

section \<open>Condensed chunks\<close>

definition itemSummary :: "database \<Rightarrow> context_item_record \<Rightarrow> summary_record option" where
  "itemSummary d i = (if ctx_itemType i = SummaryItem then Option.bind (ctx_summaryId i) (findSummary d) else None)"

definition summaryAtDepth :: "database \<Rightarrow> nat \<Rightarrow> context_item_record \<Rightarrow> bool" where
  "summaryAtDepth d k i \<longleftrightarrow> (case itemSummary d i of Some s \<Rightarrow> sum_depth s = k | None \<Rightarrow> False)"

definition summaryTokens :: "database \<Rightarrow> context_item_record \<Rightarrow> nat" where
  "summaryTokens d i = (case itemSummary d i of Some s \<Rightarrow> resolveSummaryTokenCount s | None \<Rightarrow> 0)"

definition oldestChunkAtDepth :: "engine \<Rightarrow> database \<Rightarrow> nat \<Rightarrow> nat \<Rightarrow> context_item_record list" where
  "oldestChunkAtDepth E d cid k = (let items = contextItems d cid in
     chunkOf (resolveFreshTailOrdinal (eng_config E) items) (resolveLeafChunkTokens (eng_config E))
       (summaryTokens d) (summaryAtDepth d k) items)"

lemma obs_getItemSummary:
  assumes "ctx_itemType i = SummaryItem" and "ctx_summaryId i \<noteq> None"
  shows "obs d (run (getSummary (the (ctx_summaryId i)))) (\<lambda>s. s = itemSummary d i)"
proof -
  obtain sid where "ctx_summaryId i = Some sid" using assms(2) by auto
  then show ?thesis using assms(1) obs_reads(4) [of d sid] by (simp add: itemSummary_def)
qed

lemma summaryAtDepth_not_item:
  "ctx_itemType i \<noteq> SummaryItem \<or> ctx_summaryId i = None \<Longrightarrow> \<not> summaryAtDepth d k i"
  by (auto simp: summaryAtDepth_def itemSummary_def)

text \<open>One round of the loop: the end of the chunk, a skipped item, or an eligible one.\<close>

lemma obs_chunk_round:
  assumes tail: "inFreshTail bound i \<Longrightarrow> R \<lparr>cc_items = chunk, cc_summaryTokens = t\<rparr>"
    and skip: "\<not> inFreshTail bound i \<Longrightarrow> \<not> summaryAtDepth d k i \<Longrightarrow>
      (if chunk \<noteq> [] then R \<lparr>cc_items = chunk, cc_summaryTokens = t\<rparr>
       else obs d (chunkAtDepthFrom s bound cap k chunk t items) R)"
    and take: "\<not> inFreshTail bound i \<Longrightarrow> summaryAtDepth d k i \<Longrightarrow>
      obs d (if chunk \<noteq> [] \<and> cap < t + summaryTokens d i then ret \<lparr>cc_items = chunk, cc_summaryTokens = t\<rparr>
        else if cap \<le> t + summaryTokens d i
          then ret \<lparr>cc_items = chunk @ [i], cc_summaryTokens = t + summaryTokens d i\<rparr>
        else chunkAtDepthFrom s bound cap k (chunk @ [i]) (t + summaryTokens d i) items) R"
  shows "obs d (chunkAtDepthFrom s bound cap k chunk t (i # items)) R"
proof -
  let ?skip = "if chunk \<noteq> [] then ret \<lparr>cc_items = chunk, cc_summaryTokens = t\<rparr>
    else chunkAtDepthFrom s bound cap k chunk t items"
  have skipped: "obs d ?skip R" if "\<not> inFreshTail bound i" "\<not> summaryAtDepth d k i"
    using skip [OF that] by (cases "chunk = []") (simp_all add: obs_ret)
  show ?thesis
    unfolding chunkAtDepthFrom.simps Let_def
  proof (rule obs_abort_then, rule obs_if, rule obs_ret, erule tail, rule obs_if)
    assume "\<not> inFreshTail bound i" and "ctx_itemType i \<noteq> SummaryItem \<or> ctx_summaryId i = None"
    then show "obs d ?skip R" using skipped summaryAtDepth_not_item by blast
  next
    assume old: "\<not> inFreshTail bound i" and it: "\<not> (ctx_itemType i \<noteq> SummaryItem \<or> ctx_summaryId i = None)"
    show "obs d (bindM (run (getSummary (the (ctx_summaryId i)))) (\<lambda>summary. bindM (throwIfAborted s) (\<lambda>_.
        case summary of None \<Rightarrow> ?skip
        | Some x \<Rightarrow> if sum_depth x \<noteq> k then ?skip
            else if chunk \<noteq> [] \<and> cap < t + resolveSummaryTokenCount x then ret \<lparr>cc_items = chunk, cc_summaryTokens = t\<rparr>
            else if cap \<le> t + resolveSummaryTokenCount x
              then ret \<lparr>cc_items = chunk @ [i], cc_summaryTokens = t + resolveSummaryTokenCount x\<rparr>
            else chunkAtDepthFrom s bound cap k (chunk @ [i]) (t + resolveSummaryTokenCount x) items))) R"
    proof (rule obs_bind [OF obs_getItemSummary], use it in simp, use it in simp, rule obs_abort_then)
      fix summary assume summary: "summary = itemSummary d i"
      show "obs d (case summary of None \<Rightarrow> ?skip
        | Some x \<Rightarrow> if sum_depth x \<noteq> k then ?skip
            else if chunk \<noteq> [] \<and> cap < t + resolveSummaryTokenCount x then ret \<lparr>cc_items = chunk, cc_summaryTokens = t\<rparr>
            else if cap \<le> t + resolveSummaryTokenCount x
              then ret \<lparr>cc_items = chunk @ [i], cc_summaryTokens = t + resolveSummaryTokenCount x\<rparr>
            else chunkAtDepthFrom s bound cap k (chunk @ [i]) (t + resolveSummaryTokenCount x) items) R"
      proof (cases summary)
        case None
        then have "\<not> summaryAtDepth d k i" using summary by (simp add: summaryAtDepth_def)
        then show ?thesis using skipped [OF old] None by simp
      next
        case (Some x)
        then have x: "summaryAtDepth d k i = (sum_depth x = k)" "summaryTokens d i = resolveSummaryTokenCount x"
          using summary by (simp_all add: summaryAtDepth_def summaryTokens_def split: option.splits)
        show ?thesis
        proof (cases "sum_depth x = k")
          case True
          then have "summaryAtDepth d k i" using x(1) by simp
          from take [OF old this] show ?thesis
            by (simp only: Some option.case True x(2) simp_thms if_False)
        next
          case False
          then show ?thesis using skipped [OF old] x Some by simp
        qed
      qed
    qed
  qed
qed

abbreviation chunkResult :: "database \<Rightarrow> context_item_record list \<Rightarrow> condensed_chunk_selection \<Rightarrow> bool" where
  "chunkResult d chunk r \<equiv> r = \<lparr>cc_items = chunk, cc_summaryTokens = sum_list (map (summaryTokens d) chunk)\<rparr>"

lemma obs_chunkAtDepth_started:
  assumes "chunk \<noteq> []" and "sum_list (map (summaryTokens d) chunk) < cap"
  shows "obs d (chunkAtDepthFrom s bound cap k chunk (sum_list (map (summaryTokens d) chunk)) items)
    (chunkResult d (chunk @ takeMore cap (summaryTokens d) (sum_list (map (summaryTokens d) chunk))
       (takeWhile (summaryAtDepth d k) (takeWhile (\<lambda>i. \<not> inFreshTail bound i) items))))"
  using assms
proof (induction items arbitrary: chunk)
  case (Cons i items)
  let ?f = "summaryTokens d"
  show ?case
  proof (rule obs_chunk_round)
    assume i: "\<not> inFreshTail bound i" "summaryAtDepth d k i"
    then show "obs d (if chunk \<noteq> [] \<and> cap < sum_list (map ?f chunk) + ?f i
        then ret \<lparr>cc_items = chunk, cc_summaryTokens = sum_list (map ?f chunk)\<rparr>
        else if cap \<le> sum_list (map ?f chunk) + ?f i
          then ret \<lparr>cc_items = chunk @ [i], cc_summaryTokens = sum_list (map ?f chunk) + ?f i\<rparr>
        else chunkAtDepthFrom s bound cap k (chunk @ [i]) (sum_list (map ?f chunk) + ?f i) items)
      (chunkResult d (chunk @ takeMore cap ?f (sum_list (map ?f chunk))
       (takeWhile (summaryAtDepth d k) (takeWhile (\<lambda>i. \<not> inFreshTail bound i) (i # items)))))"
      using Cons.IH [of "chunk @ [i]"] Cons.prems
      by (auto intro!: obs_ret simp: takeMore_closed)
  qed (use Cons.prems in auto)
qed (simp add: obs_ret)

lemma obs_chunkAtDepth:
  "obs d (chunkAtDepthFrom s bound cap k [] 0 items)
    (chunkResult d (chunkOf bound cap (summaryTokens d) (summaryAtDepth d k) items))"
proof (induction items)
  case (Cons i items)
  let ?f = "summaryTokens d"
  show ?case
  proof (rule obs_chunk_round)
    assume i: "\<not> inFreshTail bound i" "summaryAtDepth d k i"
    then have chunk: "chunkOf bound cap ?f (summaryAtDepth d k) (i # items) =
        [i] @ takeMore cap ?f (?f i) (takeWhile (summaryAtDepth d k) (takeWhile (\<lambda>i. \<not> inFreshTail bound i) items))"
      by (simp add: chunkOf_def firstRun_def takeTokens_def)
    show "obs d (if [] \<noteq> [] \<and> cap < 0 + ?f i then ret \<lparr>cc_items = [], cc_summaryTokens = 0\<rparr>
        else if cap \<le> 0 + ?f i then ret \<lparr>cc_items = [] @ [i], cc_summaryTokens = 0 + ?f i\<rparr>
        else chunkAtDepthFrom s bound cap k ([] @ [i]) (0 + ?f i) items)
      (chunkResult d (chunkOf bound cap ?f (summaryAtDepth d k) (i # items)))"
      unfolding chunk using obs_chunkAtDepth_started [of "[i]" d cap s bound k items]
      by (auto intro!: obs_ret simp: takeMore_closed)
  qed (use Cons.IH in \<open>auto simp: chunkOf_def firstRun_def takeTokens_def\<close>)
qed (simp add: obs_ret chunkOf_def firstRun_def takeTokens_def)

lemma obs_selectOldestChunkAtDepth:
  assumes "case b of None \<Rightarrow> True | Some x \<Rightarrow> x = resolveFreshTailOrdinal (eng_config E) (contextItems d cid)"
  shows "obs d (selectOldestChunkAtDepth E cid k b s) (chunkResult d (oldestChunkAtDepth E d cid k))"
proof -
  have bound: "(case b of Some x \<Rightarrow> x | None \<Rightarrow> resolveFreshTailOrdinal (eng_config E) (contextItems d cid))
      = resolveFreshTailOrdinal (eng_config E) (contextItems d cid)"
    using assms by (cases b) auto
  show ?thesis
    unfolding selectOldestChunkAtDepth_def Let_def
    by (rule obs_abort_then, rule obs_bind [OF obs_reads(1)], rule obs_abort_then, simp only: bound,
        rule obs_conseq [OF obs_chunkAtDepth]) (simp add: oldestChunkAtDepth_def Let_def)
qed

text \<open>The depth a sweep condenses next.\<close>

definition candidateAt :: "engine \<Rightarrow> database \<Rightarrow> nat \<Rightarrow> bool \<Rightarrow> nat \<Rightarrow> bool" where
  "candidateAt E d cid hard k \<longleftrightarrow> (let chunk = oldestChunkAtDepth E d cid k in
     resolveFanoutForDepth (eng_config E) k hard \<le> length chunk
     \<and> \<not> js_less (js_nat (sum_list (map (summaryTokens d) chunk))) (resolveCondensedMinChunkTokens (eng_config E)))"

definition shallowestCandidate :: "engine \<Rightarrow> database \<Rightarrow> nat \<Rightarrow> bool \<Rightarrow> (nat \<times> context_item_record list) option" where
  "shallowestCandidate E d cid hard = map_option (\<lambda>k. (k, oldestChunkAtDepth E d cid k))
     (List.find (candidateAt E d cid hard)
       (distinctDepths d cid (Some (resolveFreshTailOrdinal (eng_config E) (contextItems d cid)))))"

lemma obs_firstCandidate:
  assumes "bound = resolveFreshTailOrdinal (eng_config E) (contextItems d cid)"
  shows "obs d (firstCandidate E cid hard bound s depths)
    (\<lambda>r. map_option (\<lambda>(k, c). (k, cc_items c)) r =
       map_option (\<lambda>k. (k, oldestChunkAtDepth E d cid k)) (List.find (candidateAt E d cid hard) depths))"
proof (induction depths)
  case (Cons k depths)
  have sel: "obs d (selectOldestChunkAtDepth E cid k (Some bound) s) (chunkResult d (oldestChunkAtDepth E d cid k))"
    by (rule obs_selectOldestChunkAtDepth) (simp add: assms)
  show ?case
    unfolding firstCandidate.simps Let_def
  proof (rule obs_abort_then, rule obs_bind [OF sel], rule obs_abort_then)
    fix c assume c: "chunkResult d (oldestChunkAtDepth E d cid k) c"
    show "obs d (if length (cc_items c) < resolveFanoutForDepth (eng_config E) k hard
          then firstCandidate E cid hard bound s depths
        else if js_less (js_nat (cc_summaryTokens c)) (resolveCondensedMinChunkTokens (eng_config E))
          then firstCandidate E cid hard bound s depths
        else ret (Some (k, c)))
      (\<lambda>r. map_option (\<lambda>(k, c). (k, cc_items c)) r = map_option (\<lambda>k. (k, oldestChunkAtDepth E d cid k))
         (List.find (candidateAt E d cid hard) (k # depths)))"
    proof -
      have cand: "candidateAt E d cid hard k \<longleftrightarrow> \<not> length (cc_items c) < resolveFanoutForDepth (eng_config E) k hard
          \<and> \<not> js_less (js_nat (cc_summaryTokens c)) (resolveCondensedMinChunkTokens (eng_config E))"
        using c by (auto simp: candidateAt_def Let_def)
      show ?thesis
        by (rule obs_if, simp add: cand Cons.IH, rule obs_if, simp add: cand Cons.IH,
            rule obs_ret) (use c cand in simp)
    qed
  qed
qed (simp add: obs_ret)

lemma obs_selectShallowest:
  "obs d (selectShallowestCondensationCandidate E cid hard s)
    (\<lambda>r. map_option (\<lambda>(k, c). (k, cc_items c)) r = shallowestCandidate E d cid hard)"
  unfolding selectShallowestCondensationCandidate_def Let_def
  by (rule obs_abort_then, rule obs_bind [OF obs_reads(1)], rule obs_abort_then,
      rule obs_bind [OF obs_reads(3)], rule obs_abort_then, rule obs_conseq [OF obs_firstCandidate])
    (simp_all add: shallowestCandidate_def)

section \<open>The chunk and the fresh tail\<close>

lemma chunk_before_tail:
  assumes items: "contextItems d cid = pre @ mid @ suf" and "mid \<noteq> []" and "ctx_ok d cid"
    and old: "\<forall>i \<in> set mid. isRawMessage i \<and> \<not> inFreshTail (resolveFreshTailOrdinal c (contextItems d cid)) i"
  shows "resolveFreshTailCount c \<le> length (filter isRawMessage suf)"
proof (rule ccontr)
  let ?n = "resolveFreshTailCount c" and ?raw = "filter isRawMessage (contextItems d cid)"
  let ?rest = "filter isRawMessage pre @ mid"
  assume less: "\<not> ?n \<le> length (filter isRawMessage suf)"
  have "filter isRawMessage mid = mid" using old by (simp add: filter_id_conv)
  then have raw: "?raw = ?rest @ filter isRawMessage suf" by (simp add: items)
  define k where "k = length ?raw - ?n"
  have "0 < length mid" using assms(2) by simp
  then have k: "k < length ?rest"
    unfolding k_def raw length_append using less by linarith
  have last: "last mid \<in> set mid" using assms(2) by simp
  have strict: "sorted_wrt (\<lambda>a b. ctx_ordinal a < ctx_ordinal b) (pre @ mid)"
    using ctx_ok_strict [OF assms(3)] items by (simp add: sorted_wrt_append)
  have "ctx_ordinal i \<le> ctx_ordinal (last mid)" if "i \<in> set ?rest" for i
  proof (cases "i \<in> set mid")
    case True
    have "sorted (map ctx_ordinal mid)" using strict_ordinals [of mid] strict by (simp add: sorted_wrt_append)
    then show ?thesis using sorted_map_bounds True by blast
  next
    case False
    then have "i \<in> set pre" using that by auto
    then show ?thesis using strict last by (fastforce simp: sorted_wrt_append)
  qed
  moreover have "?raw ! k \<in> set ?rest" using k raw by (metis nth_append_left nth_mem)
  ultimately have "ctx_ordinal (?raw ! k) \<le> ctx_ordinal (last mid)" by blast
  moreover have "resolveFreshTailOrdinal c (contextItems d cid) = Num (of_int (ctx_ordinal (?raw ! k)))"
  proof -
    have "?raw \<noteq> []" using raw assms(2) by simp
    then show ?thesis using less by (simp add: resolveFreshTailOrdinal_def Let_def k_def)
  qed
  ultimately show False using old last by (simp add: inFreshTail_def)
qed

lemma oldestLeafChunk_facts:
  assumes "oldestLeafChunk E d cid \<noteq> []" and "ctx_ok d cid"
  obtains pre suf where "contextItems d cid = pre @ oldestLeafChunk E d cid @ suf"
    and "\<forall>i \<in> set (oldestLeafChunk E d cid). isRawMessage i"
    and "resolveFreshTailCount (eng_config E) \<le> length (filter isRawMessage suf)"
proof -
  let ?chunk = "oldestLeafChunk E d cid"
  obtain pre suf where split: "contextItems d cid = pre @ ?chunk @ suf"
    unfolding oldestLeafChunk_def Let_def using chunkOf_split by blast
  have all: "\<forall>i \<in> set ?chunk. isRawMessage i
      \<and> \<not> inFreshTail (resolveFreshTailOrdinal (eng_config E) (contextItems d cid)) i"
    unfolding oldestLeafChunk_def Let_def using chunkOf_all by blast
  show ?thesis
    using chunk_before_tail [OF split assms(1,2) all] split all by (intro that) auto
qed

lemma oldestChunkAtDepth_facts:
  obtains pre suf where "contextItems d cid = pre @ oldestChunkAtDepth E d cid k @ suf"
    and "\<forall>i \<in> set (oldestChunkAtDepth E d cid k). summaryAtDepth d k i"
proof -
  obtain pre suf where "contextItems d cid = pre @ oldestChunkAtDepth E d cid k @ suf"
    unfolding oldestChunkAtDepth_def Let_def using chunkOf_split by blast
  moreover have "\<forall>i \<in> set (oldestChunkAtDepth E d cid k). summaryAtDepth d k i"
    unfolding oldestChunkAtDepth_def Let_def using chunkOf_all by blast
  ultimately show ?thesis using that by blast
qed

end
