(* ===== verification/Engine_Facts.thy ===== *)
theory Engine_Facts
  imports Selection_Spec
begin

text \<open>
  The engine refines the step relation: every entry point of \<open>src/compaction.ts\<close>, whatever
  the environment does, moves the database along steps of \<open>Compaction_Steps\<close> and leaves no
  transaction open.
\<close>

section \<open>Replacing a chunk inside a transaction\<close>

lemma replaceContextRangeCore_empty:
  assumes ok: "ctx_ok (w_db w) cid" and fk: "hasConversation (w_db w) cid" "hasSummary (w_db w) sid"
  obtains d' now k where
    "replaceContextRangeCore cid None sid w = (Inr (), w\<lparr>w_db := d', w_reads := Suc (w_reads w)\<rparr>)"
    and "spliced (w_db w) cid (contextItems (w_db w) cid) (summaryContextRow cid k sid now) [] d'"
proof -
  let ?d = "w_db w" and ?k = "maxOrdinal (w_db w) cid + 1"
  let ?now = "w_clock w (w_reads w) div 1000 * 1000"
  let ?row = "summaryContextRow cid ?k sid ?now"
  let ?v = "w\<lparr>w_reads := Suc (w_reads w)\<rparr>" and ?d2 = "?d\<lparr>context_items := context_items ?d @ [?row]\<rparr>"
  let ?w2 = "?v\<lparr>w_db := ?d2\<rparr>"
  have row: "ctx_conversationId ?row = cid" "behind ?d cid (ctx_ordinal ?row)"
    using behind_max [OF ok] by (simp_all add: summaryContextRow_def)
  have ins: "insertContextRow ?row ?v = (Inr (), ?w2)"
    using insertContextRow_fresh [of ?row cid ?v] row fk by (simp add: summaryContextRow_def)
  have items: "contextItems ?d2 cid = contextItems ?d cid @ [?row]" and ok2: "ctx_ok ?d2 cid"
    using contextItems_append [OF ok row] by auto
  have run: "replaceContextRangeCore cid None sid w = resequence cid ?w2"
    using ins by (simp add: replaceContextRangeCore_def getDb_def sqlNow_def bindM_def op_apply)
  obtain d' where "resequence cid ?w2 = (Inr (), ?w2\<lparr>w_db := d'\<rparr>)"
    and rows: "\<exists>rows. d' = (w_db ?w2)\<lparr>context_items := rows\<rparr>"
    and "contextItems d' cid = renumber (contextItems ?d cid @ [?row])"
    and "\<forall>c. c \<noteq> cid \<longrightarrow> contextItems d' c = contextItems (w_db ?w2) c"
    by (rule resequence_spliced [of ?w2 cid "contextItems ?d cid @ [?row]"])
      (use items ok2 in \<open>simp_all add: ctx_ok_def del: contextItems_update\<close>)
  moreover have "contextItems ?d2 c = contextItems ?d c" if "c \<noteq> cid" for c
    using contextItems_append_other [of ?row c ?d] row(1) that by simp
  moreover have "\<exists>rows. d' = ?d\<lparr>context_items := rows\<rparr>" using rows by auto
  ultimately show ?thesis
    using run by (intro that [of d' ?k ?now]) (simp_all add: spliced_def del: contextItems_update)
qed

lemma minimum_sorted: "sorted (map ctx_ordinal mid) \<Longrightarrow> mid \<noteq> [] \<Longrightarrow> minimum (map ctx_ordinal mid) = Some (ctx_ordinal (hd mid))"
proof (induction mid)
  case (Cons i mid)
  then show ?case by (cases mid) auto
qed simp

lemma maximum_sorted: "sorted (map ctx_ordinal mid) \<Longrightarrow> mid \<noteq> [] \<Longrightarrow> maximum (map ctx_ordinal mid) = Some (ctx_ordinal (last mid))"
proof (induction mid)
  case (Cons i mid)
  show ?case
  proof (cases mid)
    case (Cons j rest)
    then have "maximum (map ctx_ordinal mid) = Some (ctx_ordinal (last mid))" using Cons.IH Cons.prems by simp
    moreover have "ctx_ordinal i \<le> ctx_ordinal (last mid)"
      using Cons.prems(1) \<open>mid = j # rest\<close> by (auto simp: last_in_set)
    ultimately show ?thesis using \<open>mid = j # rest\<close> by simp
  qed simp
qed simp

lemma chunkBounds_eq:
  assumes "contextItems d cid = pre @ mid @ suf" and "mid \<noteq> []"
  shows "chunkBounds mid = Some (ctx_ordinal (hd mid), ctx_ordinal (last mid))"
proof -
  have "sorted (map ctx_ordinal (pre @ mid @ suf))" using contextItems_sorted [of d cid] assms(1) by simp
  then have "sorted (map ctx_ordinal mid)" by (simp add: sorted_append)
  then show ?thesis
    using assms(2) by (simp add: chunkBounds_def minimum_sorted maximum_sorted)
qed

text \<open>The range of a chunk, or the end of the context for an empty one.\<close>

definition chunk_place :: "database \<Rightarrow> nat \<Rightarrow> context_item_record list \<Rightarrow> context_item_record list
    \<Rightarrow> context_item_record list \<Rightarrow> bool" where
  "chunk_place d cid pre mid suf \<longleftrightarrow> contextItems d cid = pre @ mid @ suf \<and> (mid = [] \<longrightarrow> suf = [])"

lemma replaceCore_place:
  assumes "chunk_place (w_db w) cid pre mid suf" and "ctx_ok (w_db w) cid"
    and "hasConversation (w_db w) cid" and "hasSummary (w_db w) sid"
  shows "\<exists>d' k now. replaceContextRangeCore cid (chunkBounds mid) sid w =
      (Inr (), w\<lparr>w_db := d', w_reads := Suc (w_reads w)\<rparr>)
    \<and> spliced (w_db w) cid pre (summaryContextRow cid k sid now) suf d'"
proof (cases "mid = []")
  case True
  then have "pre = contextItems (w_db w) cid" "suf = []" and "chunkBounds mid = None"
    using assms(1) by (simp_all add: chunk_place_def chunkBounds_def)
  then show ?thesis using replaceContextRangeCore_empty [OF assms(2-4)] by metis
next
  case False
  have items: "contextItems (w_db w) cid = pre @ mid @ suf" using assms(1) by (simp add: chunk_place_def)
  show ?thesis
    unfolding chunkBounds_eq [OF items False]
    using replaceContextRangeCore_run [OF items False assms(2-4)] by metis
qed

lemma replace_in_transaction:
  assumes "w_saved w \<noteq> []"
  shows "replaceContextRangeWithSummary cid bounds sid w = replaceContextRangeCore cid bounds sid w"
  using assms unfolding replaceContextRangeWithSummary_def
  by (auto simp: bindM_def catchM_def op_apply split: prod.splits sum.splits)

lemma local_replaceCore [local_rules]: "local_op (replaceContextRangeCore cid bounds sid)"
  unfolding replaceContextRangeCore_def deleteContextRange_def
  by (auto split: option.splits intro!: local_rules effect_local [OF keeps_resequence])

lemma runScoped_cong:
  assumes "\<And>w. w_saved w \<noteq> [] \<Longrightarrow> m w = m' w" and "in_transaction d t w"
  shows "runScoped t m w = runScoped t m' w"
  using assms by (auto simp: runScoped_def bindM_def assertUsable_def normalized_def catchM_def op_apply
      in_transaction_def split: prod.splits sum.splits if_splits)

lemma triple_replace:
  assumes "chunk_place d1 cid pre mid suf" and "ctx_ok d1 cid" and "hasConversation d1 cid" and "hasSummary d1 sid"
  shows "triple (\<lambda>w. in_transaction d t w \<and> w_db w = d1)
    (runScoped t (replaceContextRangeWithSummary cid (chunkBounds mid) sid))
    (\<lambda>_ w. in_transaction d t w \<and> (\<exists>k now. spliced d1 cid pre (summaryContextRow cid k sid now) suf (w_db w)))
    (broken_transaction d)"
proof -
  have "effect (\<lambda>d. d = d1) (replaceContextRangeCore cid (chunkBounds mid) sid)
      (\<lambda>_ d. \<exists>k now. spliced d1 cid pre (summaryContextRow cid k sid now) suf d)"
  proof (rule effectI [OF local_replaceCore])
    fix w a w' assume w: "w_db w = d1" and run: "replaceContextRangeCore cid (chunkBounds mid) sid w = (Inr a, w')"
    obtain d' k now where "replaceContextRangeCore cid (chunkBounds mid) sid w =
        (Inr (), w\<lparr>w_db := d', w_reads := Suc (w_reads w)\<rparr>)"
      and "spliced d1 cid pre (summaryContextRow cid k sid now) suf d'"
      using replaceCore_place [of w cid pre mid suf sid] assms w by auto
    then show "\<exists>k now. spliced d1 cid pre (summaryContextRow cid k sid now) suf (w_db w')" using run by auto
  qed
  note t = triple_runScoped [OF this, of d t]
  show ?thesis
  proof (rule triple_pre)
    fix w assume w: "in_transaction d t w \<and> w_db w = d1"
    have "runScoped t (replaceContextRangeWithSummary cid (chunkBounds mid) sid) w =
        runScoped t (replaceContextRangeCore cid (chunkBounds mid) sid) w"
      by (rule runScoped_cong [OF replace_in_transaction conjunct1 [OF w]])
    then show "triple (\<lambda>v. v = w) (runScoped t (replaceContextRangeWithSummary cid (chunkBounds mid) sid))
      (\<lambda>_ w. in_transaction d t w \<and> (\<exists>k now. spliced d1 cid pre (summaryContextRow cid k sid now) suf (w_db w)))
      (broken_transaction d)"
      using t w unfolding triple_def by simp
  qed
qed

section \<open>The rows of a chunk and their summary\<close>

lemma obs_chunkMessages:
  "obs d (chunkMessages s items) (\<lambda>ms. ms = concat (map (\<lambda>i.
     case Option.bind (ctx_messageId i) (findMessage d) of Some m \<Rightarrow> [m] | None \<Rightarrow> []) items))"
proof (induction items)
  case (Cons i items)
  show ?case
  proof (cases "ctx_messageId i")
    case None
    then show ?thesis using Cons.IH by (simp add: obs_abort_then)
  next
    case (Some mid)
    show ?thesis
      unfolding chunkMessages.simps Some option.case
      by (rule obs_abort_then, rule obs_bind [OF obs_reads(5)], rule obs_abort_then,
          rule obs_bind [OF Cons.IH], rule obs_ret) (auto simp: Some split: option.split)
  qed
qed (simp add: obs_ret)

lemma obs_chunkSummaries:
  "obs d (chunkSummaries s items) (\<lambda>ss. ss = concat (map (\<lambda>i.
     case Option.bind (ctx_summaryId i) (findSummary d) of Some r \<Rightarrow> [r] | None \<Rightarrow> []) items))"
proof (induction items)
  case (Cons i items)
  show ?case
  proof (cases "ctx_summaryId i")
    case None
    then show ?thesis using Cons.IH by (simp add: obs_abort_then)
  next
    case (Some sid)
    show ?thesis
      unfolding chunkSummaries.simps Some option.case
      by (rule obs_abort_then, rule obs_bind [OF obs_reads(4)], rule obs_abort_then,
          rule obs_bind [OF Cons.IH], rule obs_ret) (auto simp: Some split: option.split)
  qed
qed (simp add: obs_ret)

lemma findMessage_has:
  assumes "hasMessage_row d mid"
  obtains m where "findMessage d mid = Some m" and "msg_id m = mid"
proof (cases "findMessage d mid")
  case None
  then have "\<forall>m \<in> set (messages d). msg_id m \<noteq> mid" by (auto simp: findMessage_def find_None_iff)
  then show ?thesis using assms by (auto simp: hasMessage_row_def)
next
  case (Some m)
  then show ?thesis using find_Some_mem that unfolding findMessage_def by fast
qed

lemma chunk_message_ids:
  assumes "\<forall>i \<in> set items. isRawMessage i \<and> valid_ref d (ref_of i)"
  shows "map ref_of items = map MsgRef (map msg_id (concat (map (\<lambda>i.
     case Option.bind (ctx_messageId i) (findMessage d) of Some m \<Rightarrow> [m] | None \<Rightarrow> []) items)))"
  using assms
proof (induction items)
  case (Cons i items)
  have v: "valid_ref d (ref_of i)" and "isRawMessage i" using Cons.prems by simp_all
  moreover have "ref_of i \<noteq> BadRef" using v by auto
  ultimately obtain mid where ref: "ref_of i = MsgRef mid" using isRawMessage_ref by blast
  then have "ctx_messageId i = Some mid" by (simp add: ref_of_Msg)
  moreover obtain m where "findMessage d mid = Some m" "msg_id m = mid"
    by (rule findMessage_has [of d mid]) (use v ref in auto)
  ultimately show ?case using Cons ref by simp
qed simp

lemma summaryAtDepth_ref:
  assumes "summaryAtDepth d k i" and "valid_ref d (ref_of i)"
  obtains r where "Option.bind (ctx_summaryId i) (findSummary d) = Some r" and "r \<in> set (summaries d)"
    and "sum_depth r = k" and "ref_of i = SumRef (sum_id r)"
proof -
  obtain r where r: "itemSummary d i = Some r" "sum_depth r = k"
    using assms(1) by (auto simp: summaryAtDepth_def split: option.splits)
  then have "ctx_itemType i = SummaryItem" and bind: "Option.bind (ctx_summaryId i) (findSummary d) = Some r"
    by (auto simp: itemSummary_def split: if_splits)
  then obtain sid where sid: "ctx_summaryId i = Some sid" "findSummary d sid = Some r"
    by (cases "ctx_summaryId i") auto
  have r_mem: "r \<in> set (summaries d)" "sum_id r = sid"
    using find_Some_mem [OF sid(2) [unfolded findSummary_def]] by auto
  have "ref_of i \<noteq> BadRef" using assms(2) by auto
  then have "ref_of i = SumRef sid"
    using sid(1) \<open>ctx_itemType i = SummaryItem\<close> by (auto simp: ref_of_def split: option.splits)
  then show ?thesis using that [OF bind r_mem(1) r(2)] r_mem(2) by simp
qed

lemma chunk_summary_ids:
  assumes "\<forall>i \<in> set items. summaryAtDepth d k i \<and> valid_ref d (ref_of i)"
    and "ss = concat (map (\<lambda>i. case Option.bind (ctx_summaryId i) (findSummary d) of Some r \<Rightarrow> [r] | None \<Rightarrow> []) items)"
  shows "map ref_of items = map SumRef (map sum_id ss)
    \<and> (\<forall>s \<in> set (map sum_id ss). \<exists>r \<in> set (summaries d). sum_id r = s \<and> sum_depth r = k)"
  using assms
proof (induction items arbitrary: ss)
  case (Cons i items)
  obtain r where "Option.bind (ctx_summaryId i) (findSummary d) = Some r" and "r \<in> set (summaries d)"
    and "sum_depth r = k" and "ref_of i = SumRef (sum_id r)"
    by (rule summaryAtDepth_ref [of d k i]) (use Cons.prems(1) in auto)
  moreover define rest where "rest = concat (map (\<lambda>i. case Option.bind (ctx_summaryId i) (findSummary d) of Some r \<Rightarrow> [r] | None \<Rightarrow> []) items)"
  ultimately have ss: "ss = r # rest" using Cons.prems(2) by simp
  show ?case
    using Cons.IH [of rest] Cons.prems(1) \<open>ref_of i = SumRef (sum_id r)\<close> \<open>r \<in> set (summaries d)\<close>
      \<open>sum_depth r = k\<close> ss by (auto simp: rest_def)
qed simp

text \<open>What the escalation returns: a summary shorter than its source, or the truncated source.\<close>

definition escalated :: "string \<Rightarrow> string \<times> compaction_level \<Rightarrow> bool" where
  "escalated source r \<longleftrightarrow> (case r of (content, level) \<Rightarrow>
     if source = [] then content = ''[Truncated from 0 tokens]'' \<and> level = FallbackLevel
     else if level = FallbackLevel then content = fallbackSummary source (max 1 (estimateTokens source))
     else estimateTokens content < max 1 (estimateTokens source))"

lemma obs_summarize:
  "obs d (summarizeWithEscalation E text f opts context) (escalated (scrubbed (eng_config E) (trim text)))"
  unfolding summarizeWithEscalation_def Let_def
  by (intro obs_abort_then obs_if obs_ret obs_bind [OF obs_callSummarize]) (simp_all add: escalated_def)

lemma obs_generateSummaryId: "obs d (generateSummaryId h content) (\<lambda>_. True)"
  unfolding generateSummaryId_def by (rule obs_bind [OF obs_dateNow], rule obs_ret) simp

lemma obs_priorAtDepth: "obs d (resolvePriorSummaryContextAtDepth cid items k s) (\<lambda>_. True)"
proof -
  have contents: "obs d (summaryContents s wanted is) (\<lambda>_. True)" for wanted "is"
    by (induction "is") (auto intro!: obs_ret obs_abort_then obs_bind [OF obs_reads(4)] elim!: obs_bind)
  show ?thesis
    unfolding resolvePriorSummaryContextAtDepth_def Let_def
    by (intro obs_abort_then obs_if obs_ret obs_bind [OF obs_reads(1)] obs_bind [OF contents]) simp_all
qed

lemma obs_priorLeaf: "obs d (resolvePriorLeafSummaryContext cid items s) (\<lambda>_. True)"
proof -
  have contents: "obs d (summaryContents s wanted is) (\<lambda>_. True)" for wanted "is"
    by (induction "is") (auto intro!: obs_ret obs_abort_then obs_bind [OF obs_reads(4)] elim!: obs_bind)
  show ?thesis
    unfolding resolvePriorLeafSummaryContext_def Let_def
    by (intro obs_abort_then obs_if obs_ret obs_bind [OF obs_reads(1)] obs_bind [OF contents]) simp_all
qed

section \<open>The transaction of a pass\<close>

lemma triple_exists:
  assumes "\<And>x. triple (P x) m Q E"
  shows "triple (\<lambda>w. \<exists>x. P x w) m Q E"
proof (rule tripleI)
  fix w a w' assume "\<exists>x. P x w" and "m w = (Inr a, w')"
  then show "Q a w'" using assms triple_value by fast
next
  fix w e w' assume "\<exists>x. P x w" and "m w = (Inl e, w')"
  then show "E w'" using assms triple_error by fast
qed

lemma triple_fact: "(c \<Longrightarrow> triple P m Q E) \<Longrightarrow> triple (\<lambda>w. P w \<and> c) m Q E"
  by (auto simp: triple_def)

definition inserted :: "create_summary_input \<Rightarrow> database \<Rightarrow> int \<Rightarrow> (string \<times> string) list \<Rightarrow> database" where
  "inserted input d now fts = d\<lparr>summaries := summaries d @ [summaryRow input now], summaries_fts := fts\<rparr>"

definition pass_written :: "create_summary_input \<Rightarrow> (database \<Rightarrow> database) \<Rightarrow> context_item_record list
    \<Rightarrow> context_item_record list \<Rightarrow> database \<Rightarrow> database \<Rightarrow> bool" where
  "pass_written input g pre suf d d' \<longleftrightarrow> (\<exists>now fts k now'.
     \<not> hasSummary d (in_summaryId input) \<and> hasConversation d (in_conversationId input)
     \<and> spliced (g (inserted input d now fts)) (in_conversationId input) pre
         (summaryContextRow (in_conversationId input) k (in_summaryId input) now') suf d')"

lemma triple_persistPass:
  assumes ok: "ctx_ok d (in_conversationId input)" and place: "chunk_place d (in_conversationId input) pre mid suf"
    and link: "\<And>d0. effect (\<lambda>d. d = d0) (link (in_summaryId input)) (\<lambda>_ d. d = g d0)"
    and same: "\<And>d0. context_items (g d0) = context_items d0" "\<And>d0. summaries (g d0) = summaries d0"
      "\<And>d0. conversations (g d0) = conversations d0"
  shows "triple (settled d) (persistPass E input link (chunkBounds mid))
    (\<lambda>_ w. settled (w_db w) w \<and> w_saved w = [] \<and> pass_written input g pre suf d (w_db w)) (settled d)"
  unfolding persistPass_def
proof (rule triple_transaction, rule triple_bind)
  fix t
  let ?cid = "in_conversationId input" and ?sid = "in_summaryId input"
  let ?new = "\<not> hasSummary d ?sid \<and> hasConversation d ?cid"
  have start: "triple (\<lambda>w. in_transaction d t w \<and> w_db w = d) (runScoped t (insertSummary (eng_options E) input))
    (\<lambda>row w. in_transaction d t w \<and> (\<exists>now fts. row = summaryRow input now
       \<and> w_db w = d\<lparr>summaries := summaries d @ [row], summaries_fts := fts\<rparr> \<and> ?new)) (broken_transaction d)"
    by (rule triple_runScoped [OF effect_insertSummary])
  show "triple (\<lambda>w. in_transaction d t w \<and> w_db w = d) (runScoped t (insertSummary (eng_options E) input))
    (\<lambda>_ w. \<exists>now fts. (in_transaction d t w \<and> w_db w = inserted input d now fts) \<and> ?new) (broken_transaction d)"
    by (rule triple_post [OF start]) (auto simp: inserted_def)
  show "triple (\<lambda>w. \<exists>now fts. (in_transaction d t w \<and> w_db w = inserted input d now fts) \<and> ?new)
    (bindM (runScoped t (link ?sid)) (\<lambda>_. runScoped t (replaceContextRangeWithSummary ?cid (chunkBounds mid) ?sid)))
    (\<lambda>a w. in_transaction d t w \<and> pass_written input g pre suf d (w_db w)) (broken_transaction d)" for a
  proof (rule triple_exists, rule triple_exists, rule triple_fact, rule triple_bind [OF triple_runScoped [OF link]])
    fix now fts and u :: unit assume new: ?new
    let ?d1 = "inserted input d now fts"
    have items: "contextItems (g ?d1) c = contextItems d c" for c
      using same(1) [of ?d1] by (simp add: contextItems_def inserted_def)
    have "chunk_place (g ?d1) ?cid pre mid suf" using place items by (simp add: chunk_place_def)
    moreover have "ctx_ok (g ?d1) ?cid" using ok items by (simp add: ctx_ok_def)
    moreover have "hasConversation (g ?d1) ?cid" "hasSummary (g ?d1) ?sid"
      using new same(2,3) [of ?d1] by (simp_all add: hasConversation_def hasSummary_def inserted_def summaryRow_def)
    ultimately have "triple (\<lambda>w. in_transaction d t w \<and> w_db w = g ?d1)
      (runScoped t (replaceContextRangeWithSummary ?cid (chunkBounds mid) ?sid))
      (\<lambda>_ w. in_transaction d t w \<and> (\<exists>k now. spliced (g ?d1) ?cid pre (summaryContextRow ?cid k ?sid now) suf (w_db w)))
      (broken_transaction d)"
      by (rule triple_replace)
    then show "triple (\<lambda>w. in_transaction d t w \<and> w_db w = g ?d1)
      (runScoped t (replaceContextRangeWithSummary ?cid (chunkBounds mid) ?sid))
      (\<lambda>a w. in_transaction d t w \<and> pass_written input g pre suf d (w_db w)) (broken_transaction d)"
      using new by (elim triple_post) (auto simp: pass_written_def)
  qed
qed

lemma triple_withCommitPermit:
  assumes "triple (settled d) m Q (settled d)" and "\<And>a w. Q a w \<Longrightarrow> Q a (releasePermit w)"
  shows "triple (settled d) (withCommitPermit context m) Q (settled d)"
  unfolding withCommitPermit_def
proof (rule obs_then [OF obs_abort])
  have permit: "obs d (acquirePermit a) (\<lambda>_. True)" for a
    by (rule obs_local) (auto simp: acquirePermit_def Let_def split: option.splits)
  have rel: "settled d w \<Longrightarrow> settled d (releasePermit w)" for w
    by (auto simp: settled_def durable_def releasePermit_def)
  have "triple (settled d) (finallyM m releasePermit) Q (settled d)"
    using assms rel by (intro triple_finally triple_conseq [OF assms(1)]) auto
  then show "triple (settled d) (case ic_acquireCommit context of None \<Rightarrow> m
     | Some a \<Rightarrow> bindM (acquirePermit a) (\<lambda>_. finallyM m releasePermit)) Q (settled d)"
    using assms(1) by (cases "ic_acquireCommit context") (auto intro: obs_then [OF permit])
qed simp

lemma effect_linkSummaryToMessages:
  "effect (\<lambda>d. d = d0) (linkSummaryToMessages sid ms) (\<lambda>_ d. d = d0\<lparr>summary_messages :=
     summary_messages d0 @ linkRows sid (linkedBefore (summary_messages d0) sid) 0 ms\<rparr>)"
  unfolding linkSummaryToMessages_def
  by (rule effect_if, rule effect_ret, simp, rule effect_linkMessagesFrom)

lemma effect_linkSummaryToParents:
  "effect (\<lambda>d. d = d0) (linkSummaryToParents sid ps) (\<lambda>_ d. d = d0\<lparr>summary_parents :=
     summary_parents d0 @ linkRows sid (linkedBefore (summary_parents d0) sid) 0 ps\<rparr>)"
  unfolding linkSummaryToParents_def
  by (rule effect_if, rule effect_ret, simp, rule effect_linkParentsFrom)

section \<open>A pass is a step\<close>

text \<open>The chunk gives its place in the context to the new summary.\<close>

definition ref_replaced :: "database \<Rightarrow> nat \<Rightarrow> context_item_record list \<Rightarrow> string \<Rightarrow> database \<Rightarrow> bool" where
  "ref_replaced d cid mid sid d' \<longleftrightarrow> (\<exists>pre suf. contextItems d cid = pre @ mid @ suf
     \<and> refs d' cid = map ref_of pre @ SumRef sid # map ref_of suf)"

definition leaf_done :: "engine \<Rightarrow> nat \<Rightarrow> database \<Rightarrow> context_item_record list \<Rightarrow> pass_result \<Rightarrow> database \<Rightarrow> bool" where
  "leaf_done E cid d mid r d' \<longleftrightarrow> (\<exists>ms now. map ref_of mid = map MsgRef (map msg_id ms)
     \<and> set ms \<subseteq> set (messages d) \<and> \<not> hasSummary d (pass_summaryId r)
     \<and> ref_replaced d cid mid (pass_summaryId r) d'
     \<and> summaries d' = summaries d @ [summaryRow (leafSummaryInput (pass_summaryId r) cid (pass_content r) ms) now]
     \<and> escalated (scrubbed (eng_config E) (trim (leafText E ms))) (pass_content r, pass_level r))"

definition condensed_done :: "engine \<Rightarrow> nat \<Rightarrow> nat \<Rightarrow> database \<Rightarrow> context_item_record list \<Rightarrow> pass_result \<Rightarrow> database \<Rightarrow> bool" where
  "condensed_done E cid k d mid r d' \<longleftrightarrow> (\<exists>ss now. map ref_of mid = map SumRef (map sum_id ss)
     \<and> set ss \<subseteq> set (summaries d) \<and> \<not> hasSummary d (pass_summaryId r)
     \<and> ref_replaced d cid mid (pass_summaryId r) d'
     \<and> summaries d' = summaries d @ [summaryRow (condensedSummaryInput (pass_summaryId r) cid k (pass_content r) ss) now]
     \<and> escalated (scrubbed (eng_config E) (trim (condensedText E ss))) (pass_content r, pass_level r))"

lemma linkedBefore_inserted:
  assumes "wf_db d" and "\<not> hasSummary d sid"
  shows "linkedBefore (summary_messages (inserted input d now fts)) sid = {}"
    and "linkedBefore (summary_parents (inserted input d now fts)) sid = {}"
  using linkedBefore_fresh [OF assms] by (simp_all add: inserted_def)

lemma summaryRow_fields [simp]:
  "sum_id (summaryRow i now) = in_summaryId i" "sum_conversationId (summaryRow i now) = in_conversationId i"
  "sum_kind (summaryRow i now) = in_kind i" "sum_content (summaryRow i now) = in_content i"
  "sum_tokenCount (summaryRow i now) = in_tokenCount i"
  "sum_depth (summaryRow i now) = normalizeDepth (in_kind i) (in_depth i)"
  by (simp_all add: summaryRow_def)

lemma normalizeDepth_nat [simp]: "normalizeDepth kind (Some (js_nat n)) = n" "normalizeDepth kind (Some (Num 0)) = 0"
  by (simp_all add: normalizeDepth_def js_nat_def)

lemma leaf_written_step:
  assumes "wf_db d" and "contextItems d cid = pre @ mid @ suf" and "mid \<noteq> []"
    and "map ref_of mid = map MsgRef (map msg_id ms)" and "n \<le> length (filter isRawMessage suf)"
    and written: "pass_written (leafSummaryInput sid cid content ms) (\<lambda>d0. d0\<lparr>summary_messages := summary_messages d0 @
      linkRows sid (linkedBefore (summary_messages d0) sid) 0 (map msg_id ms)\<rparr>) pre suf d d'"
  shows "compaction_step n cid d d' \<and> (\<exists>now. summaries d' = summaries d @ [summaryRow (leafSummaryInput sid cid content ms) now])
    \<and> \<not> hasSummary d sid \<and> ref_replaced d cid mid sid d'"
proof -
  let ?i = "leafSummaryInput sid cid content ms"
  have i: "in_summaryId ?i = sid" "in_conversationId ?i = cid" "in_kind ?i = Leaf" "in_depth ?i = Some (Num 0)"
    by (simp_all add: leafSummaryInput_def)
  obtain now fts k now' where new: "\<not> hasSummary d sid" and conv: "hasConversation d cid"
    and sp: "spliced ((inserted ?i d now fts)\<lparr>summary_messages := summary_messages d @ linkRows sid {} 0 (map msg_id ms)\<rparr>)
      cid pre (summaryContextRow cid k sid now') suf d'"
    using written linkedBefore_inserted(1) [OF assms(1)] by (auto simp: pass_written_def i inserted_def)
  have "compaction_step n cid d d'"
  proof (rule leaf_step)
    show "spliced (d\<lparr>summaries := summaries d @ [summaryRow ?i now], summaries_fts := fts,
        summary_messages := summary_messages d @ linkRows (sum_id (summaryRow ?i now)) {} 0 (map msg_id ms)\<rparr>)
      cid pre (summaryContextRow cid k (sum_id (summaryRow ?i now)) now') suf d'"
      using sp by (simp add: inserted_def i)
  qed (use assms conv new in \<open>simp_all add: i\<close>)
  moreover have "summaries d' = summaries d @ [summaryRow ?i now]"
    using sp by (auto simp: spliced_def inserted_def)
  moreover have "ref_replaced d cid mid sid d'"
    unfolding ref_replaced_def using spliced_refs(1) [OF sp] assms(2) by blast
  ultimately show ?thesis using new by blast
qed

lemma condensed_written_step:
  assumes "wf_db d" and "contextItems d cid = pre @ mid @ suf"
    and "map ref_of mid = map SumRef (map sum_id ss)"
    and "\<forall>s \<in> set (map sum_id ss). \<exists>r \<in> set (summaries d). sum_id r = s \<and> sum_depth r = depth"
    and written: "pass_written (condensedSummaryInput sid cid depth content ss) (\<lambda>d0. d0\<lparr>summary_parents := summary_parents d0 @
      linkRows sid (linkedBefore (summary_parents d0) sid) 0 (map sum_id ss)\<rparr>) pre suf d d'"
  shows "compaction_step n cid d d' \<and> (\<exists>now. summaries d' = summaries d @ [summaryRow (condensedSummaryInput sid cid depth content ss) now])
    \<and> \<not> hasSummary d sid \<and> ref_replaced d cid mid sid d'"
proof -
  let ?i = "condensedSummaryInput sid cid depth content ss"
  have i: "in_summaryId ?i = sid" "in_conversationId ?i = cid" "in_kind ?i = Condensed" "in_depth ?i = Some (js_nat (Suc depth))"
    by (simp_all add: condensedSummaryInput_def)
  obtain now fts k now' where new: "\<not> hasSummary d sid" and conv: "hasConversation d cid"
    and sp: "spliced ((inserted ?i d now fts)\<lparr>summary_parents := summary_parents d @ linkRows sid {} 0 (map sum_id ss)\<rparr>)
      cid pre (summaryContextRow cid k sid now') suf d'"
    using written linkedBefore_inserted(2) [OF assms(1)] by (auto simp: pass_written_def i inserted_def)
  have "compaction_step n cid d d'"
  proof (rule condensed_step)
    show "spliced (d\<lparr>summaries := summaries d @ [summaryRow ?i now], summaries_fts := fts,
        summary_parents := summary_parents d @ linkRows (sum_id (summaryRow ?i now)) {} 0 (map sum_id ss)\<rparr>)
      cid pre (summaryContextRow cid k (sum_id (summaryRow ?i now)) now') suf d'"
      using sp by (simp add: inserted_def i)
  qed (use assms conv new in \<open>simp_all add: i\<close>)
  moreover have "summaries d' = summaries d @ [summaryRow ?i now]"
    using sp by (auto simp: spliced_def inserted_def)
  moreover have "ref_replaced d cid mid sid d'"
    unfolding ref_replaced_def using spliced_refs(1) [OF sp] assms(2) by blast
  ultimately show ?thesis using new by blast
qed

lemma settled_release: "settled (w_db w) w \<Longrightarrow> settled (w_db w) (releasePermit w)"
  by (auto simp: settled_def durable_def releasePermit_def)

lemma release_fields [simp]: "w_db (releasePermit w) = w_db w" "w_saved (releasePermit w) = w_saved w"
  by (simp_all add: releasePermit_def)

lemma found_messages: "set (concat (map (\<lambda>i. case Option.bind (ctx_messageId i) (findMessage d) of Some m \<Rightarrow> [m] | None \<Rightarrow> []) items))
    \<subseteq> set (messages d)"
proof -
  have "m \<in> set (messages d)" if "findMessage d x = Some m" for x m
    using find_Some_mem that unfolding findMessage_def by fast
  then show ?thesis by (auto split: option.splits Option.bind_splits)
qed

lemma found_summaries: "set (concat (map (\<lambda>i. case Option.bind (ctx_summaryId i) (findSummary d) of Some m \<Rightarrow> [m] | None \<Rightarrow> []) items))
    \<subseteq> set (summaries d)"
proof -
  have "s \<in> set (summaries d)" if "findSummary d x = Some s" for x s
    using find_Some_mem that unfolding findSummary_def by fast
  then show ?thesis by (auto split: option.splits Option.bind_splits)
qed

theorem triple_leafPass:
  assumes wf: "wf_db d" and items: "contextItems d cid = pre @ mid @ suf" and "mid \<noteq> []"
    and raw: "\<forall>i \<in> set mid. isRawMessage i" and tail: "n \<le> length (filter isRawMessage suf)"
  shows "triple (settled d) (leafPass E cid mid f previous context)
    (\<lambda>r w. settled (w_db w) w \<and> w_saved w = [] \<and> compaction_step n cid d (w_db w) \<and> leaf_done E cid d mid r (w_db w))
    (settled d)"
  unfolding leafPass_def
proof (rule obs_then [OF obs_chunkMessages], rule obs_then [OF obs_summarize], unfold split_beta,
    rule obs_then [OF obs_abort], rule obs_then [OF obs_generateSummaryId])
  fix ms r sid assume ms: "ms = concat (map (\<lambda>i. case Option.bind (ctx_messageId i) (findMessage d) of Some m \<Rightarrow> [m] | None \<Rightarrow> []) mid)"
    and esc: "escalated (scrubbed (eng_config E) (trim (leafText E ms))) r"
  let ?i = "leafSummaryInput sid cid (fst r) ms"
  let ?res = "\<lparr>pass_summaryId = sid, pass_level = snd r, pass_content = fst r\<rparr>"
  let ?Q = "\<lambda>r w. settled (w_db w) w \<and> w_saved w = [] \<and> compaction_step n cid d (w_db w) \<and> leaf_done E cid d mid r (w_db w)"
  have i: "in_summaryId ?i = sid" "in_conversationId ?i = cid" by (simp_all add: leafSummaryInput_def)
  have valid: "\<forall>i \<in> set mid. isRawMessage i \<and> valid_ref d (ref_of i)"
    using raw wf_context_valid [OF wf, of _ cid] items by (auto simp: refs_def)
  note ids = chunk_message_ids [OF valid, folded ms]
  have "triple (settled d) (persistPass E ?i (\<lambda>s. linkSummaryToMessages s (map msg_id ms)) (chunkBounds mid))
    (\<lambda>_ w. settled (w_db w) w \<and> w_saved w = [] \<and> pass_written ?i (\<lambda>d0. d0\<lparr>summary_messages := summary_messages d0 @
      linkRows sid (linkedBefore (summary_messages d0) sid) 0 (map msg_id ms)\<rparr>) pre suf d (w_db w)) (settled d)"
    by (rule triple_persistPass)
      (use wf_context_ok [OF wf] items \<open>mid \<noteq> []\<close> in \<open>simp_all add: i chunk_place_def effect_linkSummaryToMessages\<close>)
  then have "triple (settled d) (persistPass E ?i (\<lambda>s. linkSummaryToMessages s (map msg_id ms)) (chunkBounds mid))
    (\<lambda>_. ?Q ?res) (settled d)"
  proof (rule triple_post, elim conjE)
    fix a w assume "settled (w_db w) w" "w_saved w = []" and written: "pass_written ?i (\<lambda>d0. d0\<lparr>summary_messages := summary_messages d0 @
      linkRows sid (linkedBefore (summary_messages d0) sid) 0 (map msg_id ms)\<rparr>) pre suf d (w_db w)"
    moreover have "set ms \<subseteq> set (messages d)" unfolding ms by (rule found_messages)
    ultimately show "?Q ?res w"
      using leaf_written_step [OF wf items \<open>mid \<noteq> []\<close> ids tail written] ids esc
      unfolding leaf_done_def by auto
  qed
  then have "triple (settled d) (withCommitPermit context (persistPass E ?i
      (\<lambda>s. linkSummaryToMessages s (map msg_id ms)) (chunkBounds mid))) (\<lambda>_. ?Q ?res) (settled d)"
    by (rule triple_withCommitPermit) (simp add: settled_release)
  then show "triple (settled d) (bindM (withCommitPermit context (persistPass E ?i
      (\<lambda>s. linkSummaryToMessages s (map msg_id ms)) (chunkBounds mid))) (\<lambda>_. ret ?res)) ?Q (settled d)"
    by (rule triple_bind) (rule triple_ret)
qed simp_all

theorem triple_condensedPass:
  assumes wf: "wf_db d" and items: "contextItems d cid = pre @ mid @ suf"
    and depth: "\<forall>i \<in> set mid. summaryAtDepth d k i"
  shows "triple (settled d) (condensedPass E cid mid k f context)
    (\<lambda>r w. settled (w_db w) w \<and> w_saved w = [] \<and> compaction_step n cid d (w_db w) \<and> condensed_done E cid k d mid r (w_db w))
    (settled d)"
  unfolding condensedPass_def
proof (rule obs_then [OF obs_chunkSummaries], rule obs_then [where R = "\<lambda>_. True"], rule obs_if,
    rule obs_priorAtDepth, rule obs_ret, simp, rule obs_then [OF obs_abort],
    rule obs_then [OF obs_summarize], unfold split_beta, rule obs_then [OF obs_abort], rule obs_then [OF obs_generateSummaryId])
  fix ss prev r sid assume ss: "ss = concat (map (\<lambda>i. case Option.bind (ctx_summaryId i) (findSummary d) of Some m \<Rightarrow> [m] | None \<Rightarrow> []) mid)"
    and esc: "escalated (scrubbed (eng_config E) (trim (condensedText E ss))) r"
  let ?i = "condensedSummaryInput sid cid k (fst r) ss"
  let ?res = "\<lparr>pass_summaryId = sid, pass_level = snd r, pass_content = fst r\<rparr>"
  let ?Q = "\<lambda>r w. settled (w_db w) w \<and> w_saved w = [] \<and> compaction_step n cid d (w_db w) \<and> condensed_done E cid k d mid r (w_db w)"
  have i: "in_summaryId ?i = sid" "in_conversationId ?i = cid" by (simp_all add: condensedSummaryInput_def)
  have valid: "\<forall>i \<in> set mid. summaryAtDepth d k i \<and> valid_ref d (ref_of i)"
    using depth wf_context_valid [OF wf, of _ cid] items by (auto simp: refs_def)
  note ids = chunk_summary_ids [OF valid ss]
  obtain pre' suf' where items': "contextItems d cid = pre' @ mid @ suf'" and place: "chunk_place d cid pre' mid suf'"
    using items by (cases "mid = []") (auto simp: chunk_place_def)
  have "triple (settled d) (persistPass E ?i (\<lambda>s. linkSummaryToParents s (map sum_id ss)) (chunkBounds mid))
    (\<lambda>_ w. settled (w_db w) w \<and> w_saved w = [] \<and> pass_written ?i (\<lambda>d0. d0\<lparr>summary_parents := summary_parents d0 @
      linkRows sid (linkedBefore (summary_parents d0) sid) 0 (map sum_id ss)\<rparr>) pre' suf' d (w_db w)) (settled d)"
    by (rule triple_persistPass)
      (use wf_context_ok [OF wf] place in \<open>simp_all add: i effect_linkSummaryToParents\<close>)
  then have "triple (settled d) (persistPass E ?i (\<lambda>s. linkSummaryToParents s (map sum_id ss)) (chunkBounds mid))
    (\<lambda>_. ?Q ?res) (settled d)"
  proof (rule triple_post, elim conjE)
    fix a w assume "settled (w_db w) w" "w_saved w = []" and written: "pass_written ?i (\<lambda>d0. d0\<lparr>summary_parents := summary_parents d0 @
      linkRows sid (linkedBefore (summary_parents d0) sid) 0 (map sum_id ss)\<rparr>) pre' suf' d (w_db w)"
    moreover have "set ss \<subseteq> set (summaries d)" unfolding ss by (rule found_summaries)
    ultimately show "?Q ?res w"
      using condensed_written_step [OF wf items' conjunct1 [OF ids] conjunct2 [OF ids] written] ids esc
      unfolding condensed_done_def by auto
  qed
  then have "triple (settled d) (withCommitPermit context (persistPass E ?i
      (\<lambda>s. linkSummaryToParents s (map sum_id ss)) (chunkBounds mid))) (\<lambda>_. ?Q ?res) (settled d)"
    by (rule triple_withCommitPermit) (simp add: settled_release)
  then show "triple (settled d) (bindM (withCommitPermit context (persistPass E ?i
      (\<lambda>s. linkSummaryToParents s (map sum_id ss)) (chunkBounds mid))) (\<lambda>_. ret ?res)) ?Q (settled d)"
    by (rule triple_bind) (rule triple_ret)
qed simp_all

section \<open>An event is a step\<close>

lemma findBySession_exists:
  assumes "findConversation d cid = Some c"
  shows "findBySession d (conv_sessionId c) \<noteq> None"
proof -
  have "c \<in> set (filter (\<lambda>x. conv_sessionId x = conv_sessionId c) (conversations d))"
    using find_Some_mem [OF assms [unfolded findConversation_def]] by simp
  then have c: "c \<in> set (sort_key (\<lambda>c. (- conv_createdAt c, - int (conv_id c)))
      (filter (\<lambda>x. conv_sessionId x = conv_sessionId c) (conversations d)))"
    unfolding set_sort .
  show ?thesis
  proof (cases "sort_key (\<lambda>c. (- conv_createdAt c, - int (conv_id c)))
      (filter (\<lambda>x. conv_sessionId x = conv_sessionId c) (conversations d))")
    case Nil
    with c show ?thesis by simp
  next
    case (Cons x xs)
    then show ?thesis by (simp add: findBySession_def)
  qed
qed

lemma effect_existingConversation:
  assumes "findBySession d s \<noteq> None"
  shows "effect (\<lambda>x. x = d) (getOrCreateConversation s title) (\<lambda>_ x. x = d)"
proof (rule effectI)
  show "local_op (getOrCreateConversation s title)" by (rule effect_local [OF keeps_getOrCreateConversation])
next
  fix w a w' assume "w_db w = d" and "getOrCreateConversation s title w = (Inr a, w')"
  then show "w_db w' = d"
    using assms by (auto simp: getOrCreateConversation_def getConversationBySessionId_def bindM_def getDb_def
        liftE_def op_apply split: sum.splits prod.splits option.splits)
qed

definition added_message :: "nat \<Rightarrow> append_message_input \<Rightarrow> database \<Rightarrow> message_record \<Rightarrow> database \<Rightarrow> bool" where
  "added_message cid i d m d' \<longleftrightarrow> (\<exists>fts. msg_conversationId m = cid \<and> msg_role m = am_role i
     \<and> msg_content m = am_content i \<and> msg_seq m = nextSeq d cid
     \<and> msg_id m = Suc (messages_rowid d) \<and> messageViolation m d = None
     \<and> d' = d\<lparr>messages := messages d @ [m], messages_rowid := msg_id m, messages_fts := fts\<rparr>)"

lemma effect_insertMessage:
  "effect (\<lambda>x. x = d) (insertMessage opts i) (\<lambda>m x. \<exists>now fts. m = messageRow (Suc (messages_rowid d)) i now
     \<and> messageViolation m d = None
     \<and> x = d\<lparr>messages := messages d @ [m], messages_rowid := msg_id m, messages_fts := fts\<rparr>)"
  unfolding insertMessage_def
proof (rule effect_bind [OF effect_sqlNow [where Q = "\<lambda>_ x. x = d"]], simp, rule effect_getDb_then)
  fix now row
  let ?I = "\<lambda>x. messageRow (Suc (messages_rowid d)) i now = row \<and> messageViolation row d = None
    \<and> (\<exists>fts. x = d\<lparr>messages := messages d @ [row], messages_rowid := msg_id row, messages_fts := fts\<rparr>)"
  have fts0: "d\<lparr>messages := x, messages_rowid := y\<rparr> = d\<lparr>messages := x, messages_rowid := y, messages_fts := messages_fts d\<rparr>" for x y
    by simp
  have ins: "effect (\<lambda>x. x = d \<and> messageRow (Suc (messages_rowid x)) i now = row) (sqlWrite (messageViolation row)
     (\<lambda>d. d\<lparr>messages := messages d @ [row], messages_rowid := msg_id row\<rparr>)) (\<lambda>_. ?I)"
    by (rule effect_sqlWrite) (use fts0 in blast)
  have idx: "effect ?I (indexMessageForFullText opts (msg_id row) (cm_content i)) (\<lambda>_. ?I)"
    unfolding indexMessageForFullText_def by (intro effect_if effect_ret effect_setDb) auto
  show "effect (\<lambda>x. x = d \<and> messageRow (Suc (messages_rowid x)) i now = row)
    (bindM (sqlWrite (messageViolation row) (\<lambda>d. d\<lparr>messages := messages d @ [row], messages_rowid := msg_id row\<rparr>)) (\<lambda>_.
     bindM (indexMessageForFullText opts (msg_id row) (cm_content i)) (\<lambda>_. ret row)))
    (\<lambda>m x. \<exists>now fts. m = messageRow (Suc (messages_rowid d)) i now \<and> messageViolation m d = None
     \<and> x = d\<lparr>messages := messages d @ [m], messages_rowid := msg_id m, messages_fts := fts\<rparr>)"
    by (rule effect_bind [OF ins], rule effect_bind [OF idx], rule effect_ret) blast
qed

lemma effect_liftE: "(\<And>u d. r = Inr u \<Longrightarrow> P d \<Longrightarrow> Q u d) \<Longrightarrow> effect P (liftE r) Q"
  by (cases r) (auto intro: effect_throw effect_ret)

lemma added_messageI:
  assumes "nextSeq d cid = s" and "m = messageRow (Suc (messages_rowid d)) (appendInput cid s i) now"
    and "messageViolation m d = None"
    and "x = d\<lparr>messages := messages d @ [m], messages_rowid := msg_id m, messages_fts := fts\<rparr>"
  shows "added_message cid i d m x"
  using assms(1,3,4) unfolding added_message_def assms(2)
  by (auto simp: messageRow_def appendInput_def js_nat_def)

lemma effect_appendOne:
  "effect (\<lambda>x. x = d) (appendMessagesCore opts cid [i]) (\<lambda>ms x. \<exists>m. ms = [m] \<and> added_message cid i d m x)"
proof -
  have ins: "effect (\<lambda>x. x = d) (mapM (insertMessage opts) [appendInput cid s i])
      (\<lambda>ms x. \<exists>m now fts. ms = [m] \<and> m = messageRow (Suc (messages_rowid d)) (appendInput cid s i) now
       \<and> messageViolation m d = None
       \<and> x = d\<lparr>messages := messages d @ [m], messages_rowid := msg_id m, messages_fts := fts\<rparr>)" for s
    unfolding mapM.simps by (rule effect_bind [OF effect_insertMessage]) (auto intro!: effect_ret)
  have bulk: "effect (\<lambda>x. x = d \<and> nextSeq x cid = s) (createMessagesBulkCore opts [appendInput cid s i])
      (\<lambda>ms x. \<exists>m. ms = [m] \<and> added_message cid i d m x)" for s
    unfolding createMessagesBulkCore_def
  proof (simp only: list.distinct if_False, rule effect_bind [OF effect_liftE [where Q = "\<lambda>_ x. x = d \<and> nextSeq d cid = s"]], blast)
    fix u :: unit
    show "effect (\<lambda>x. x = d \<and> nextSeq d cid = s) (mapM (insertMessage opts) [appendInput cid s i])
      (\<lambda>ms x. \<exists>m. ms = [m] \<and> added_message cid i d m x)"
    proof (cases "nextSeq d cid = s")
      case True
      show ?thesis
      proof (rule effect_conseq [OF ins [of s]])
        fix ms x
        assume "\<exists>m now fts. ms = [m] \<and> m = messageRow (Suc (messages_rowid d)) (appendInput cid s i) now
          \<and> messageViolation m d = None
          \<and> x = d\<lparr>messages := messages d @ [m], messages_rowid := msg_id m, messages_fts := fts\<rparr>"
        then show "\<exists>m. ms = [m] \<and> added_message cid i d m x"
          using added_messageI [OF True] by blast
      qed simp
    next
      case False
      then show ?thesis by (intro effectI [OF effect_local [OF ins]]) simp
    qed
  qed
  show ?thesis
    unfolding appendMessagesCore_def
    by (simp, rule effect_bind [OF effect_liftE [where Q = "\<lambda>_ x. x = d"]], simp,
        rule effect_getDb_then) (use bulk in simp)
qed

text \<open>The parts of one message: their ids are fresh and their ordinals differ.\<close>

definition added_parts :: "nat \<Rightarrow> database \<Rightarrow> message_part_record list \<Rightarrow> database \<Rightarrow> bool" where
  "added_parts mid d ps d' \<longleftrightarrow> d' = d\<lparr>message_parts := message_parts d @ ps\<rparr>
     \<and> (\<forall>p \<in> set ps. part_messageId p = mid)
     \<and> distinct (map part_id (message_parts d @ ps)) \<and> distinct (map part_ordinal ps)"

lemma effect_insertPart:
  "effect (\<lambda>x. added_parts mid d ps x) (insertPart mid p) (\<lambda>_ x. \<exists>q. added_parts mid d (ps @ [q]) x
     \<and> (\<exists>pid. q = partRow pid mid p))"
  unfolding insertPart_def Let_def
proof (rule effect_bind [OF effect_randomUUID [where Q = "\<lambda>_ x. added_parts mid d ps x"]], simp, rule effect_sqlWrite)
  fix pid x assume x: "added_parts mid d ps x" and v: "partViolation (partRow pid mid p) x = None"
  let ?q = "partRow pid mid p"
  have q: "part_id ?q = pid" "part_messageId ?q = mid" by (simp_all add: partRow_def)
  have "pid \<notin> set (map part_id (message_parts x))"
    and "\<not> (\<exists>p \<in> set (message_parts x). part_messageId p = mid \<and> part_ordinal p = part_ordinal ?q)"
    using v q by (auto simp: partViolation_def split: if_splits)
  then have "added_parts mid d (ps @ [?q]) (x\<lparr>message_parts := message_parts x @ [?q]\<rparr>)"
    using x q by (auto simp: added_parts_def)
  then show "\<exists>q. added_parts mid d (ps @ [q]) (x\<lparr>message_parts := message_parts x @ [?q]\<rparr>) \<and> (\<exists>pid. q = partRow pid mid p)"
    by blast
qed

lemma effect_exists:
  assumes "\<And>x. effect (P x) m Q"
  shows "effect (\<lambda>d. \<exists>x. P x d) m Q"
proof (rule effectI)
  show "local_op m" using assms by (rule effect_local)
  fix w a w' assume "\<exists>x. P x (w_db w)" and "m w = (Inr a, w')"
  then show "Q a (w_db w')" using assms effectD by fast
qed

lemma effect_insertParts:
  "effect (\<lambda>x. added_parts mid d ps x) (foreachM (insertPart mid) parts) (\<lambda>_ x. \<exists>qs. added_parts mid d (ps @ qs) x
     \<and> list_all2 (\<lambda>p q. \<exists>pid. q = partRow pid mid p) parts qs)"
proof (induction parts arbitrary: ps)
  case Nil
  show ?case by (auto intro: effect_ret)
next
  case (Cons p parts)
  have "effect (\<lambda>x. \<exists>q. added_parts mid d (ps @ [q]) x \<and> (\<exists>pid. q = partRow pid mid p)) (foreachM (insertPart mid) parts)
    (\<lambda>_ x. \<exists>qs. added_parts mid d (ps @ qs) x \<and> list_all2 (\<lambda>p q. \<exists>pid. q = partRow pid mid p) (p # parts) qs)"
  proof (rule effect_exists)
    fix q
    show "effect (\<lambda>x. added_parts mid d (ps @ [q]) x \<and> (\<exists>pid. q = partRow pid mid p)) (foreachM (insertPart mid) parts)
      (\<lambda>_ x. \<exists>qs. added_parts mid d (ps @ qs) x \<and> list_all2 (\<lambda>p q. \<exists>pid. q = partRow pid mid p) (p # parts) qs)"
    proof (cases "\<exists>pid. q = partRow pid mid p")
      case True
      have *: "\<exists>qs. added_parts mid d (ps @ qs) x \<and> list_all2 (\<lambda>p q. \<exists>pid. q = partRow pid mid p) (p # parts) qs"
        if "\<exists>qs. added_parts mid d ((ps @ [q]) @ qs) x \<and> list_all2 (\<lambda>p q. \<exists>pid. q = partRow pid mid p) parts qs" for x
      proof -
        from that obtain qs where "added_parts mid d ((ps @ [q]) @ qs) x"
          and "list_all2 (\<lambda>p q. \<exists>pid. q = partRow pid mid p) parts qs"
          by blast
        then have "added_parts mid d (ps @ (q # qs)) x" and "list_all2 (\<lambda>p q. \<exists>pid. q = partRow pid mid p) parts qs"
          by simp_all
        then show ?thesis using True by (intro exI [of _ "q # qs"]) simp
      qed
      show ?thesis by (rule effect_conseq [OF Cons.IH [of "ps @ [q]"]]) (use * in auto)
    next
      case False
      then show ?thesis by (intro effectI [OF effect_local [OF Cons.IH]]) blast
    qed
  qed
  then show ?case unfolding foreachM.simps by (rule effect_bind [OF effect_insertPart])
qed

lemma effect_createParts:
  assumes "distinct (map part_id (message_parts d))"
  shows "effect (\<lambda>x. x = d) (createMessagePartsCore mid parts) (\<lambda>_ x. \<exists>qs. added_parts mid d qs x
     \<and> list_all2 (\<lambda>p q. \<exists>pid. q = partRow pid mid p) parts qs)"
proof -
  have start: "added_parts mid d [] d" using assms by (simp add: added_parts_def)
  have "effect (\<lambda>x. x = d) (foreachM (insertPart mid) parts) (\<lambda>_ x. \<exists>qs. added_parts mid d qs x
     \<and> list_all2 (\<lambda>p q. \<exists>pid. q = partRow pid mid p) parts qs)"
    by (rule effect_conseq [OF effect_insertParts [of mid d "[]" parts]]) (use start in auto)
  moreover have "effect (\<lambda>x. x = d) (ret ()) (\<lambda>_ x. \<exists>qs. added_parts mid d qs x
     \<and> list_all2 (\<lambda>p q. \<exists>pid. q = partRow pid mid p) [] qs)"
    by (rule effect_ret) (use start in auto)
  ultimately show ?thesis
    unfolding createMessagePartsCore_def
    by (auto intro!: effect_bind [OF effect_liftE [where Q = "\<lambda>_ x. x = d"]])
qed

end
