(* ===== verification/Engine_Refinement.thy ===== *)
theory Engine_Refinement
  imports Engine_Facts
begin

text \<open>
  The entry points of the engine refine the step relation: whatever \<open>compactLeaf\<close>,
  \<open>compactFullSweep\<close> and \<open>compactUntilUnder\<close> do, in the order of their loops and with
  every early exit and error, the durable database moves by compaction steps only.
\<close>

section \<open>Reached worlds\<close>

definition reach :: "nat \<Rightarrow> nat \<Rightarrow> database \<Rightarrow> world \<Rightarrow> bool" where
  "reach n cid d w \<longleftrightarrow> (\<exists>d'. settled d' w \<and> (compaction_step n cid)\<^sup>*\<^sup>* d d')"

lemma reachI: "settled d' w \<Longrightarrow> (compaction_step n cid)\<^sup>*\<^sup>* d d' \<Longrightarrow> reach n cid d w"
  by (auto simp: reach_def)

lemma reach_refl [simp]: "settled d w \<Longrightarrow> reach n cid d w"
  by (erule reachI) (rule rtranclp.rtrancl_refl)

lemma reach_trans: "reach n cid d' w \<Longrightarrow> (compaction_step n cid)\<^sup>*\<^sup>* d d' \<Longrightarrow> reach n cid d w"
  unfolding reach_def by (meson rtranclp_trans)

lemma then_at:
  assumes "triple P m (\<lambda>a w. \<exists>d'. settled d' w \<and> R a d') E"
    and "\<And>a d'. R a d' \<Longrightarrow> triple (settled d') (k a) Q E"
  shows "triple P (bindM m k) Q E"
proof (rule triple_bind [OF assms(1)], rule triple_pre)
  fix a w assume "\<exists>d'. settled d' w \<and> R a d'"
  then obtain d' where "settled d' w" and "R a d'" by blast
  then show "triple (\<lambda>v. v = w) (k a) Q E"
    using assms(2) by (auto intro: triple_pre_imp)
qed

section \<open>Events\<close>

definition event_recorded :: "compaction_event \<Rightarrow> database \<Rightarrow> database \<Rightarrow> bool" where
  "event_recorded e d d' \<longleftrightarrow> (\<exists>m ps fts. msg_conversationId m = ev_conversationId e
     \<and> msg_role m = SystemRole \<and> msg_content m = eventContent e
     \<and> msg_seq m = nextSeq d (ev_conversationId e) \<and> msg_id m = Suc (messages_rowid d)
     \<and> messageViolation m d = None
     \<and> list_all2 (\<lambda>p q. \<exists>pid. q = partRow pid (msg_id m) p) (eventParts e) ps
     \<and> distinct (map part_id (message_parts d @ ps))
     \<and> d' = d\<lparr>messages := messages d @ [m], messages_rowid := msg_id m, messages_fts := fts,
         message_parts := message_parts d @ ps\<rparr>)"

lemma event_recorded_step:
  assumes "event_recorded e d d'"
  shows "compaction_step n (ev_conversationId e) d d'"
proof -
  obtain m ps fts where m: "msg_conversationId m = ev_conversationId e" "msg_role m = SystemRole"
      "msg_id m = Suc (messages_rowid d)" "messageViolation m d = None"
    and ps: "list_all2 (\<lambda>p q. \<exists>pid. q = partRow pid (msg_id m) p) (eventParts e) ps"
    and ids: "distinct (map part_id (message_parts d @ ps))"
    and d': "d' = d\<lparr>messages := messages d @ [m], messages_rowid := msg_id m, messages_fts := fts,
         message_parts := message_parts d @ ps\<rparr>"
    using assms by (auto simp: event_recorded_def)
  have "\<forall>p \<in> set ps. part_messageId p = msg_id m" and "distinct (map part_ordinal ps)"
    and "\<exists>p \<in> set ps. part_type p = CompactionPart"
    using ps by (auto simp: eventParts_def list_all2_Cons1 partRow_def)
  then show ?thesis using m ids d' by (intro event_step) auto
qed

lemma triple_prevalidated:
  assumes "triple P m Q E" and "\<And>w. P w \<Longrightarrow> E w"
  shows "triple P (prevalidated v m) Q E"
  using assms by (cases v) (auto simp: prevalidated_def intro: triple_throw)

lemma triple_writeEvent:
  assumes wf: "wf_db d" and conv: "findBySession d (ev_sessionId e) \<noteq> None"
  shows "triple (\<lambda>w. in_transaction d t w \<and> w_db w = d) (writeEvent E e t)
    (\<lambda>_ w. in_transaction d t w \<and> event_recorded e d (w_db w)) (broken_transaction d)"
proof -
  let ?I = "\<lambda>P w. in_transaction d t w \<and> P (w_db w)"
  have broken: "?I P w \<Longrightarrow> broken_transaction d w" for P w by (blast intro: in_transaction_broken)
  have conversation: "triple (?I (\<lambda>x. x = d)) (runScoped t (getOrCreateConversation (ev_sessionId e) None))
      (\<lambda>_. ?I (\<lambda>x. x = d)) (broken_transaction d)"
    by (rule triple_runScoped [OF effect_existingConversation [OF conv]])
  have message: "triple (?I (\<lambda>x. x = d))
      (prevalidated (validateAppendTokenCounts [eventInput e])
        (runAtomicScoped t (appendMessagesCore (eng_options E) (ev_conversationId e) [eventInput e])))
      (\<lambda>ms w. in_transaction d t w \<and> (\<exists>m. ms = [m] \<and> added_message (ev_conversationId e) (eventInput e) d m (w_db w)))
      (broken_transaction d)"
    by (rule triple_prevalidated [OF triple_runAtomicScoped [OF effect_appendOne] broken])
  have parts: "triple (\<lambda>w. in_transaction d t w \<and> (\<exists>m. ms = [m] \<and> added_message (ev_conversationId e) (eventInput e) d m (w_db w)))
      (prevalidated (validateMessageParts (eventParts e))
        (runAtomicScoped t (createMessagePartsCore (msg_id (hd ms)) (eventParts e))))
      (\<lambda>_. ?I (event_recorded e d)) (broken_transaction d)" for ms
  proof (rule triple_prevalidated [OF triple_pre], elim conjE exE)
    fix w m assume w: "in_transaction d t w" "ms = [m]" and added: "added_message (ev_conversationId e) (eventInput e) d m (w_db w)"
    obtain fts where m: "msg_conversationId m = ev_conversationId e" "msg_role m = SystemRole" "msg_content m = eventContent e"
        "msg_seq m = nextSeq d (ev_conversationId e)" "msg_id m = Suc (messages_rowid d)" "messageViolation m d = None"
      and dm: "w_db w = d\<lparr>messages := messages d @ [m], messages_rowid := msg_id m, messages_fts := fts\<rparr>"
      using added by (auto simp: added_message_def eventInput_def)
    have "distinct (map part_id (message_parts (w_db w)))"
      using wf dm by (simp add: wf_db_def wf_parts_def)
    note made = effect_createParts [OF this, of "msg_id m" "eventParts e"]
    have "event_recorded e d x"
      if x: "added_parts (msg_id m) (w_db w) qs x"
        and qs: "list_all2 (\<lambda>p q. \<exists>pid. q = partRow pid (msg_id m) p) (eventParts e) qs" for x qs
    proof -
      have "distinct (map part_id (message_parts d @ qs))"
        and "x = d\<lparr>messages := messages d @ [m], messages_rowid := msg_id m, messages_fts := fts,
          message_parts := message_parts d @ qs\<rparr>"
        using x dm by (simp_all add: added_parts_def)
      then show ?thesis using m qs unfolding event_recorded_def by blast
    qed
    then have "effect (\<lambda>x. x = w_db w) (createMessagePartsCore (msg_id m) (eventParts e)) (\<lambda>_. event_recorded e d)"
      by (intro effect_conseq [OF made]) blast+
    from triple_runAtomicScoped [OF this, of d t]
    show "triple (\<lambda>v. v = w) (runAtomicScoped t (createMessagePartsCore (msg_id (hd ms)) (eventParts e)))
      (\<lambda>_. ?I (event_recorded e d)) (broken_transaction d)"
      unfolding w(2) list.sel(1) by (rule triple_pre_imp) (simp add: w(1))
  qed (auto intro: in_transaction_broken)
  show ?thesis
    unfolding writeEvent_def
    by (rule triple_bind [OF conversation], rule triple_bind [OF message], rule parts)
qed


text \<open>Recording an event is best effort: it happens as a whole, or the database is as before.\<close>

definition event_or_not :: "compaction_event \<Rightarrow> database \<Rightarrow> database \<Rightarrow> bool" where
  "event_or_not e d d' \<longleftrightarrow> d' = d \<or> event_recorded e d d'"

lemma triple_persistCompactionEvent:
  assumes wf: "wf_db d" and conv: "findBySession d (ev_sessionId e) \<noteq> None"
  shows "triple (settled d) (persistCompactionEvent E e context)
    (\<lambda>_ w. \<exists>d'. settled d' w \<and> event_or_not e d d') (settled d)"
  unfolding persistCompactionEvent_def
proof (rule obs_then [OF obs_abort], rule triple_catch)
  let ?Q = "\<lambda>_ w. \<exists>d'. settled d' w \<and> event_or_not e d d'"
  have "triple (settled d) (transaction (writeEvent E e))
      (\<lambda>_ w. settled (w_db w) w \<and> w_saved w = [] \<and> event_recorded e d (w_db w)) (settled d)"
    by (rule triple_transaction [OF triple_writeEvent [OF assms]])
  then have "triple (settled d) (transaction (writeEvent E e)) ?Q (settled d)"
    by (rule triple_post) (auto simp: event_or_not_def)
  then show "triple (settled d) (withCommitPermit (contextOr context) (transaction (writeEvent E e))) ?Q (settled d)"
  proof (rule triple_withCommitPermit, elim exE conjE)
    fix w d' assume "settled d' w" and "event_or_not e d d'"
    moreover from this have "settled d' (releasePermit w)" by (auto simp: settled_def durable_def releasePermit_def)
    ultimately show "\<exists>d'. settled d' (releasePermit w) \<and> event_or_not e d d'" by blast
  qed
  show "triple (settled d) (if isAbortError err then throw err else ret ()) ?Q (settled d)" for err
    by (intro triple_if triple_throw triple_ret) (auto simp: event_or_not_def)
qed simp

lemma some_event: "\<exists>e. ev_conversationId e = cid"
  by (metis compaction_event.select_convs(1))

text \<open>The engine passes one result, so at most one event is recorded.\<close>

lemma triple_persistCompactionEvents:
  assumes wf: "wf_db d" and one: "leafResult = None \<or> condenseResult = None"
  shows "triple (settled d) (persistCompactionEvents E cid before afterLeaf afterFinal leafResult condenseResult context)
    (\<lambda>_ w. \<exists>d'. settled d' w \<and> (\<exists>e. ev_conversationId e = cid \<and> event_or_not e d d')) (settled d)"
proof -
  let ?Q = "\<lambda>_ w. \<exists>d'. settled d' w \<and> (\<exists>e. ev_conversationId e = cid \<and> event_or_not e d d')"
  have none: "triple (settled d) (ret ()) ?Q (settled d)"
    by (rule triple_ret) (use some_event [of cid] in \<open>auto simp: event_or_not_def\<close>)
  have event: "triple (settled d) (persistCompactionEvent E e context) ?Q (settled d)"
    if "findConversation d cid = Some c" and "ev_conversationId e = cid" and "ev_sessionId e = conv_sessionId c" for e c
  proof (rule triple_post [OF triple_persistCompactionEvent [OF wf]])
    show "findBySession d (ev_sessionId e) \<noteq> None" using findBySession_exists that by metis
  qed (use that in blast)
  have read: "obs d (run (getConversation cid)) (\<lambda>c. c = findConversation d cid)"
    by (rule obs_run [OF reads_store(6)])
  show ?thesis
    unfolding persistCompactionEvents_def
  proof (rule triple_if [OF none], rule obs_then [OF obs_abort], rule obs_then [OF read], rule obs_then [OF obs_abort])
    fix found assume found: "found = findConversation d cid"
    show "triple (settled d) (case found of None \<Rightarrow> ret () | Some c \<Rightarrow>
            let ids = filter (\<lambda>s. s \<noteq> []) (map fst (case leafResult of Some r \<Rightarrow> [r] | None \<Rightarrow> []) @
                        map fst (case condenseResult of Some r \<Rightarrow> [r] | None \<Rightarrow> []));
                event = (\<lambda>pass r before after. \<lparr>ev_conversationId = cid, ev_sessionId = conv_sessionId c,
                   ev_pass = pass, ev_level = snd r, ev_tokensBefore = before, ev_tokensAfter = after,
                   ev_createdSummaryId = fst r, ev_createdSummaryIds = ids,
                   ev_condensedPassOccurred = (condenseResult \<noteq> None)\<rparr>)
            in bindM (case leafResult of None \<Rightarrow> ret ()
                 | Some r \<Rightarrow> persistCompactionEvent E (event LeafPass r before afterLeaf) context) (\<lambda>_.
               case condenseResult of None \<Rightarrow> ret ()
                 | Some r \<Rightarrow> persistCompactionEvent E (event CondensedPass r afterLeaf afterFinal) context)) ?Q (settled d)"
    proof (cases found)
      case None
      then show ?thesis using none by simp
    next
      case (Some c)
      then have c: "findConversation d cid = Some c" using found by simp
      have pass: "triple (settled d) (bindM (persistCompactionEvent E e context) ret) ?Q (settled d)"
        if "ev_conversationId e = cid" and "ev_sessionId e = conv_sessionId c" for e
        by (rule triple_bind [OF event [OF c that]]) (rule triple_ret)
      have start: "triple (settled d) (bindM (ret ()) (\<lambda>_. m)) ?Q (settled d)"
        if "triple (settled d) m ?Q (settled d)" for m
        using that by (rule triple_bind [rotated]) (rule triple_ret)
      show ?thesis
        using one by (cases leafResult; cases condenseResult) (auto simp: Some Let_def intro!: start none pass event [OF c])
    qed
  qed simp_all
qed


lemma event_or_not_steps: "event_or_not e d d' \<Longrightarrow> ev_conversationId e = cid \<Longrightarrow> (compaction_step n cid)\<^sup>*\<^sup>* d d'"
  unfolding event_or_not_def using event_recorded_step by blast

text \<open>An event leaves the context and its token count as they are.\<close>

lemma contextTokenCount_message:
  assumes "wf_db d" and "msg_id m = Suc (messages_rowid d)" and "messages d' = messages d @ [m]"
    and "context_items d' = context_items d" and "summaries d' = summaries d"
  shows "contextTokenCount d' cid = contextTokenCount d cid"
proof -
  have "ctx_messageId i \<noteq> Some (msg_id m)" if "i \<in> set (context_items d)" and "ctx_itemType i = MessageItem" for i
  proof
    assume "ctx_messageId i = Some (msg_id m)"
    moreover have "valid_ref d (ref_of i)" using assms(1) that(1) by (simp add: wf_db_def wf_context_def)
    ultimately have "hasMessage_row d (msg_id m)"
      using that(2) by (auto simp: ref_of_def split: option.splits)
    then have "msg_id m \<le> messages_rowid d"
      using assms(1) by (auto simp: hasMessage_row_def wf_db_def wf_messages_def)
    then show False using assms(2) by simp
  qed
  then have "map (\<lambda>i. map msg_tokenCount (filter (\<lambda>x. ctx_messageId i = Some (msg_id x)) (messages d')))
      (filter (\<lambda>i. ctx_conversationId i = cid \<and> ctx_itemType i = MessageItem) (context_items d))
    = map (\<lambda>i. map msg_tokenCount (filter (\<lambda>x. ctx_messageId i = Some (msg_id x)) (messages d)))
      (filter (\<lambda>i. ctx_conversationId i = cid \<and> ctx_itemType i = MessageItem) (context_items d))"
    by (intro map_cong) (auto simp: assms(3))
  then show ?thesis unfolding contextTokenCount_def assms(4,5) by (simp only:)
qed

lemma event_or_not_tokens:
  assumes "wf_db d" and "event_or_not e d d'"
  shows "contextTokenCount d' cid = contextTokenCount d cid"
  using assms(2) unfolding event_or_not_def
proof
  assume "event_recorded e d d'"
  then obtain m where "msg_id m = Suc (messages_rowid d)" and "messages d' = messages d @ [m]"
      and "context_items d' = context_items d" and "summaries d' = summaries d"
    by (auto simp: event_recorded_def)
  then show ?thesis by (rule contextTokenCount_message [OF assms(1)])
qed simp


section \<open>One round of a loop\<close>

text \<open>
  A round runs a pass, reads the token count and records the event of the pass; what follows it
  starts in a database that the round reached by steps and whose token count it knows.
\<close>

lemma round_then:
  assumes wf: "wf_db d" and within: "\<And>w. reach n cid d w \<Longrightarrow> G w"
    and pass: "triple (settled d) pass (\<lambda>r w. settled (w_db w) w \<and> w_saved w = [] \<and> compaction_step n cid d (w_db w) \<and> F r (w_db w)) (settled d)"
    and ev: "\<And>r after d'. wf_db d' \<Longrightarrow> triple (settled d') (event r after)
      (\<lambda>_ w. \<exists>d''. settled d'' w \<and> (\<exists>e. ev_conversationId e = cid \<and> event_or_not e d' d'')) (settled d')"
    and rest: "\<And>r d' after. wf_db d' \<Longrightarrow> (compaction_step n cid)\<^sup>*\<^sup>* d d' \<Longrightarrow> after = contextTokenCount d' cid
      \<Longrightarrow> triple (settled d') (k r after) Q G"
  shows "triple (settled d) (bindM pass (\<lambda>r. bindM (run (getContextTokenCount cid)) (\<lambda>after.
    bindM (throwIfAborted s) (\<lambda>_. bindM (event r after) (\<lambda>_. k r after))))) Q G"
proof (rule then_at [where R = "\<lambda>_ d'. compaction_step n cid d d'"])
  show "triple (settled d) pass (\<lambda>r w. \<exists>d'. settled d' w \<and> compaction_step n cid d d') G"
    by (rule triple_conseq [OF pass]) (auto intro: within)
next
  fix r d' assume step: "compaction_step n cid d d'"
  have wf': "wf_db d'" by (rule step_wf [OF step wf])
  have err: "settled d' w \<Longrightarrow> G w" for w using step by (blast intro: within reachI)
  show "triple (settled d') (bindM (run (getContextTokenCount cid)) (\<lambda>after.
    bindM (throwIfAborted s) (\<lambda>_. bindM (event r after) (\<lambda>_. k r after)))) Q G"
  proof (rule obs_then [OF obs_reads(2)], rule obs_then [OF obs_abort])
    fix after assume after: "after = contextTokenCount d' cid"
    show "triple (settled d') (bindM (event r after) (\<lambda>_. k r after)) Q G"
    proof (rule then_at [where R = "\<lambda>_ d''. \<exists>e. ev_conversationId e = cid \<and> event_or_not e d' d''"])
      show "triple (settled d') (event r after)
          (\<lambda>_ w. \<exists>d''. settled d'' w \<and> (\<exists>e. ev_conversationId e = cid \<and> event_or_not e d' d'')) G"
        by (rule triple_err [OF ev [OF wf'] err])
    next
      fix d'' assume "\<exists>e. ev_conversationId e = cid \<and> event_or_not e d' d''"
      then obtain e where e: "ev_conversationId e = cid" "event_or_not e d' d''" by blast
      have "(compaction_step n cid)\<^sup>*\<^sup>* d' d''" using event_or_not_steps e by blast
      moreover have "(compaction_step n cid)\<^sup>*\<^sup>* d d''"
        using step calculation by (rule converse_rtranclp_into_rtranclp)
      ultimately show "triple (settled d'') (k r after) Q G"
        using steps_wf [OF _ wf'] event_or_not_tokens [OF wf' e(2)] after by (intro rest) simp_all
    qed
  qed (use err in simp_all)
qed

lemmas leaf_round = round_then [OF _ _ triple_leafPass triple_persistCompactionEvents]
lemmas condensed_round = round_then [OF _ _ triple_condensedPass triple_persistCompactionEvents]


section \<open>The sweeps\<close>

text \<open>
  What a sweep over the database \<open>d0\<close> leaves: a reachable database, \<open>d0\<close> itself when no
  action was taken.
\<close>

definition swept :: "nat \<Rightarrow> nat \<Rightarrow> database \<Rightarrow> bool \<Rightarrow> database \<Rightarrow> bool" where
  "swept n cid d0 acted d \<longleftrightarrow> (compaction_step n cid)\<^sup>*\<^sup>* d0 d \<and> (\<not> acted \<longrightarrow> d = d0)"

lemma triple_leafSweep:
  assumes "wf_db d" and "swept n cid d0 (sw_actionTaken st) d"
    and "n = resolveFreshTailCount (eng_config E)" and "cid = ci_conversationId input"
  shows "triple (settled d) (leafSweep E input context st)
    (\<lambda>st' w. \<exists>d'. settled d' w \<and> swept n cid d0 (sw_actionTaken st') d') (reach n cid d0)"
  using assms(1,2)
proof (induction "sw_previousTokens st" arbitrary: st d rule: less_induct)
  case less
  let ?Q = "\<lambda>st' w. \<exists>d'. settled d' w \<and> swept n cid d0 (sw_actionTaken st') d'"
  have start: "(compaction_step n cid)\<^sup>*\<^sup>* d0 d" using less.prems by (simp add: swept_def)
  let ?st = "\<lambda>r. st\<lparr>sw_actionTaken := True, sw_createdSummaryId := Some (pass_summaryId r),
    sw_level := Some (pass_level r), sw_previousSummaryContent := Some (pass_content r), sw_isFirstLeafPass := False\<rparr>"
  have err: "settled d w \<Longrightarrow> reach n cid d0 w" for w using start by (blast intro: reachI)
  have seed: "obs d (if \<not> sw_isFirstLeafPass st then ret (sw_previousSummaryContent st)
             else bindM (case ci_previousSummaryContent input of Some p \<Rightarrow> ret (Some p)
                    | None \<Rightarrow> resolvePriorLeafSummaryContext cid items s) (\<lambda>seed.
               bindM (throwIfAborted s) (\<lambda>_. ret (cappedSeed seed)))) (\<lambda>_. True)" for s items
    by (cases "ci_previousSummaryContent input")
      (auto intro!: obs_if obs_ret obs_bind [OF obs_abort] obs_bind [where R = "\<lambda>_. True"] obs_priorLeaf)
  have stop: "swept n cid d0 (sw_actionTaken st') d' \<Longrightarrow> triple (settled d') (ret st') ?Q F" for st' d' F
    by (rule triple_ret) auto
  show ?case
    unfolding leafSweep.simps [of E input "context" st] Let_def assms(4) [symmetric]
    apply (rule obs_then [OF obs_abort _ err])
     apply (rule obs_then [OF obs_selectOldestLeafChunk _ err])
      apply (rule obs_then [OF obs_abort _ err])
       apply (rule triple_if [OF stop [OF less.prems(2)]])
       apply (rule obs_then [OF seed _ err])
        apply (rule obs_then [OF obs_reads(2) _ err])
         apply (rule obs_then [OF obs_abort _ err])
          subgoal premises chunk for u0 chunk u1 previous before u2
          proof -
            obtain pre suf where items: "contextItems d cid = pre @ lc_items chunk @ suf"
              and raw: "\<forall>i \<in> set (lc_items chunk). isRawMessage i" and tail: "n \<le> length (filter isRawMessage suf)"
              using oldestLeafChunk_facts [OF _ wf_context_ok [OF less.prems(1)]] chunk assms(3) by metis
            show ?thesis
            proof (rule leaf_round [OF less.prems(1) _ less.prems(1) items _ raw tail])
              show "lc_items chunk \<noteq> []" by (rule chunk)
              show "reach n cid d w \<Longrightarrow> reach n cid d0 w" for w by (rule reach_trans [OF _ start])
            next
              fix r d' after assume d': "wf_db d'" "(compaction_step n cid)\<^sup>*\<^sup>* d d'"
              then have acted: "swept n cid d0 True d'" using start by (auto simp: swept_def)
              have again: "triple (settled d') (leafSweep E input context (?st r\<lparr>sw_previousTokens := after\<rparr>)) ?Q (reach n cid d0)"
                if "after < sw_previousTokens st"
                by (rule less.hyps) (use that d' acted in simp_all)
              show "triple (settled d') (if before \<le> after then ret (?st r)
                else if after < sw_previousTokens st then leafSweep E input context (?st r\<lparr>sw_previousTokens := after\<rparr>)
                else ret (?st r)) ?Q (reach n cid d0)"
                by (intro triple_if stop again) (simp_all add: acted)
            qed simp_all
          qed
    by (simp_all add: err)
qed


lemma candidate_facts:
  assumes "map_option (\<lambda>(k, c). (k, cc_items c)) r = shallowestCandidate E d cid hard" and "r = Some (k, c)"
  obtains pre suf where "contextItems d cid = pre @ cc_items c @ suf"
    and "\<forall>i \<in> set (cc_items c). summaryAtDepth d k i"
proof -
  have "cc_items c = oldestChunkAtDepth E d cid k"
    using assms unfolding shallowestCandidate_def by (auto simp del: find_Some_iff dest: sym)
  then show ?thesis using that oldestChunkAtDepth_facts by metis
qed

lemma triple_condensedSweep:
  assumes "wf_db d" and "swept n cid d0 (sw_actionTaken st) d" and "cid = ci_conversationId input"
  shows "triple (settled d) (condensedSweep E input context st)
    (\<lambda>st' w. \<exists>d'. settled d' w \<and> swept n cid d0 (sw_actionTaken st') d') (reach n cid d0)"
  using assms(1,2)
proof (induction "sw_previousTokens st" arbitrary: st d rule: less_induct)
  case less
  let ?Q = "\<lambda>st' w. \<exists>d'. settled d' w \<and> swept n cid d0 (sw_actionTaken st') d'"
  have start: "(compaction_step n cid)\<^sup>*\<^sup>* d0 d" using less.prems by (simp add: swept_def)
  let ?st = "\<lambda>r. st\<lparr>sw_actionTaken := True, sw_condensed := True,
    sw_createdSummaryId := Some (pass_summaryId r), sw_level := Some (pass_level r)\<rparr>"
  have err: "settled d w \<Longrightarrow> reach n cid d0 w" for w using start by (blast intro: reachI)
  have stop: "swept n cid d0 (sw_actionTaken st') d' \<Longrightarrow> triple (settled d') (ret st') ?Q F" for st' d' F
    by (rule triple_ret) auto
  show ?case
    unfolding condensedSweep.simps [of E input "context" st] Let_def assms(3) [symmetric]
    apply (rule obs_then [OF obs_abort _ err])
     apply (rule obs_then [OF obs_selectShallowest _ err])
      apply (rule obs_then [OF obs_abort _ err])
       subgoal premises found for u0 candidate u1
       proof (cases candidate)
         case None
         then show ?thesis using stop [OF less.prems(2)] by simp
       next
         case (Some kc)
         then obtain k c where kc: "candidate = Some (k, c)" by (cases kc) simp
         obtain pre suf where items: "contextItems d cid = pre @ cc_items c @ suf"
           and depth: "\<forall>i \<in> set (cc_items c). summaryAtDepth d k i"
           using candidate_facts [OF _ kc] found by metis
         show ?thesis
           unfolding kc option.case prod.case
         proof (rule obs_then [OF obs_reads(2) _ err], rule obs_then [OF obs_abort _ err],
             rule condensed_round [OF less.prems(1) _ less.prems(1) items depth])
           fix before r d' after assume d': "wf_db d'" "(compaction_step n cid)\<^sup>*\<^sup>* d d'"
           then have acted: "swept n cid d0 True d'" using start by (auto simp: swept_def)
           have again: "triple (settled d') (condensedSweep E input context (?st r\<lparr>sw_previousTokens := after\<rparr>)) ?Q (reach n cid d0)"
             if "after < sw_previousTokens st"
             by (rule less.hyps) (use that d' acted in simp_all)
           show "triple (settled d') (if before \<le> after then ret (?st r)
             else if after < sw_previousTokens st then condensedSweep E input context (?st r\<lparr>sw_previousTokens := after\<rparr>)
             else ret (?st r)) ?Q (reach n cid d0)"
             by (intro triple_if stop again) (simp_all add: acted)
         qed (simp_all add: err reach_trans [OF _ start])
       qed
    by (simp_all add: err)
qed

section \<open>The entry points\<close>

text \<open>
  What a compaction over \<open>d0\<close> reports when it returns: the token counts are those of the
  context before and after, and without an action nothing has changed.
\<close>

definition compacted :: "nat \<Rightarrow> nat \<Rightarrow> database \<Rightarrow> compaction_result \<Rightarrow> database \<Rightarrow> bool" where
  "compacted n cid d0 r d \<longleftrightarrow> swept n cid d0 (res_actionTaken r) d
     \<and> res_tokensBefore r = contextTokenCount d0 cid \<and> res_tokensAfter r = contextTokenCount d cid"

lemma obs_evaluateLeafTrigger:
  "obs d (evaluateLeafTrigger E cid s) (\<lambda>t. lt_rawTokensOutsideTail t = rawTokensOutsideTail E d cid
     \<and> lt_threshold t = resolveLeafChunkTokens (eng_config E)
     \<and> lt_shouldCompact t = (resolveLeafChunkTokens (eng_config E) \<le> rawTokensOutsideTail E d cid))"
  unfolding evaluateLeafTrigger_def Let_def
  by (rule obs_abort_then, rule obs_bind [OF obs_countRawTokens], rule obs_abort_then, rule obs_ret) simp

lemma triple_compactFullSweep:
  assumes wf: "wf_db d" and cid: "cid = ci_conversationId input" and n: "n = resolveFreshTailCount (eng_config E)"
  shows "triple (settled d) (compactFullSweep E input)
    (\<lambda>r w. \<exists>d'. settled d' w \<and> compacted n cid d r d') (reach n cid d)"
proof -
  let ?Q = "\<lambda>r w. \<exists>d'. settled d' w \<and> compacted n cid d r d'"
  have idle: "triple (settled d) (ret (noAction (contextTokenCount d cid))) ?Q (reach n cid d)"
    by (rule triple_ret) (auto simp: compacted_def swept_def noAction_def)
  have sweeps: "triple (settled d) (bindM (leafSweep E input context st) (\<lambda>st.
        bindM (condensedSweep E input context st) (\<lambda>st'.
        bindM (throwIfAborted s) (\<lambda>_. bindM (run (getContextTokenCount cid)) (\<lambda>tokensAfter.
        bindM (throwIfAborted s) (\<lambda>_. ret \<lparr>res_actionTaken = sw_actionTaken st', res_tokensBefore = contextTokenCount d cid,
          res_tokensAfter = tokensAfter, res_createdSummaryId = sw_createdSummaryId st',
          res_condensed = sw_condensed st', res_level = sw_level st'\<rparr>)))))) ?Q (reach n cid d)"
    if "\<not> sw_actionTaken st" for "context" and st :: sweep_state and s
  proof (rule then_at [where R = "\<lambda>st' d'. swept n cid d (sw_actionTaken st') d'"])
    show "triple (settled d) (leafSweep E input context st)
        (\<lambda>st' w. \<exists>d'. settled d' w \<and> swept n cid d (sw_actionTaken st') d') (reach n cid d)"
      by (rule triple_leafSweep [OF wf _ n cid]) (use that in \<open>simp add: swept_def\<close>)
  next
    fix st1 :: sweep_state and d1 assume d1: "swept n cid d (sw_actionTaken st1) d1"
    then have wf1: "wf_db d1" using steps_wf wf by (auto simp: swept_def)
    show "triple (settled d1) (bindM (condensedSweep E input context st1) (\<lambda>st'.
        bindM (throwIfAborted s) (\<lambda>_. bindM (run (getContextTokenCount cid)) (\<lambda>tokensAfter.
        bindM (throwIfAborted s) (\<lambda>_. ret \<lparr>res_actionTaken = sw_actionTaken st', res_tokensBefore = contextTokenCount d cid,
          res_tokensAfter = tokensAfter, res_createdSummaryId = sw_createdSummaryId st',
          res_condensed = sw_condensed st', res_level = sw_level st'\<rparr>))))) ?Q (reach n cid d)"
    proof (rule then_at [OF triple_condensedSweep [OF wf1 d1 cid]])
      fix st2 :: sweep_state and d2 assume d2: "swept n cid d (sw_actionTaken st2) d2"
      then have err: "settled d2 w \<Longrightarrow> reach n cid d w" for w by (auto simp: swept_def intro: reachI)
      show "triple (settled d2) (bindM (throwIfAborted s) (\<lambda>_. bindM (run (getContextTokenCount cid)) (\<lambda>tokensAfter.
        bindM (throwIfAborted s) (\<lambda>_. ret \<lparr>res_actionTaken = sw_actionTaken st2, res_tokensBefore = contextTokenCount d cid,
          res_tokensAfter = tokensAfter, res_createdSummaryId = sw_createdSummaryId st2,
          res_condensed = sw_condensed st2, res_level = sw_level st2\<rparr>)))) ?Q (reach n cid d)"
        by (rule obs_then [OF obs_abort _ err], rule obs_then [OF obs_reads(2) _ err], rule obs_then [OF obs_abort _ err],
            rule triple_ret) (use d2 in \<open>auto simp: compacted_def\<close>)
    qed
  qed
  show ?thesis
    unfolding compactFullSweep_def Let_def cid [symmetric]
    apply (rule obs_then [OF obs_abort])
     apply (rule obs_then [OF obs_reads(2)])
      apply (rule obs_then [OF obs_abort])
       apply (rule obs_then [OF obs_evaluateLeafTrigger])
        apply (rule obs_then [OF obs_abort])
         apply (simp only:)
         apply (rule triple_if [OF idle])
         apply (rule obs_then [OF obs_abort])
          apply (rule obs_then [OF obs_reads(1)])
           apply (rule obs_then [OF obs_abort])
            apply (rule triple_if [OF idle])
            apply (rule sweeps)
            apply simp_all
    done
qed


lemma triple_condenseDepths:
  assumes "wf_db d" and "compacted n cid d0 st d" and "res_actionTaken st"
  shows "triple (settled d) (condenseDepths E cid f context fuel k st)
    (\<lambda>r w. \<exists>d'. settled d' w \<and> compacted n cid d0 r d') (reach n cid d0)"
  using assms
proof (induction fuel arbitrary: k st d)
  case 0
  have "settled d w \<Longrightarrow> reach n cid d0 w" for w using 0(2) by (auto simp: compacted_def swept_def intro: reachI)
  then show ?case
    unfolding condenseDepths.simps [of E cid f "context" 0 k st] Let_def nat.case
    by (intro triple_if triple_ret triple_throw) (use 0(2) in auto)
next
  case (Suc fuel)
  let ?Q = "\<lambda>r w. \<exists>d'. settled d' w \<and> compacted n cid d0 r d'"
  have start: "(compaction_step n cid)\<^sup>*\<^sup>* d0 d" using Suc.prems by (simp add: compacted_def swept_def)
  let ?st = "\<lambda>r after. st\<lparr>res_tokensAfter := after, res_condensed := True,
    res_createdSummaryId := Some (pass_summaryId r), res_level := Some (pass_level r)\<rparr>"
  have err: "settled d w \<Longrightarrow> reach n cid d0 w" for w using start by (blast intro: reachI)
  have stop: "compacted n cid d0 st' d' \<Longrightarrow> triple (settled d') (ret st') ?Q F" for st' d' F
    by (rule triple_ret) auto
  show ?case
    unfolding condenseDepths.simps [of E cid f "context" "Suc fuel" k st] Let_def nat.case
    apply (rule triple_if [OF stop [OF Suc.prems(2)]])
    apply (rule obs_then [OF obs_abort _ err])
     apply (rule obs_then [OF obs_selectOldestChunkAtDepth _ err])
       apply simp
      apply (rule obs_then [OF obs_abort _ err])
       apply (rule triple_if [OF stop [OF Suc.prems(2)]])
       apply (rule obs_then [OF obs_reads(2) _ err])
        subgoal premises found for u0 chunk u1 before
        proof -
          have "cc_items chunk = oldestChunkAtDepth E d cid k" using found by simp
          then obtain pre suf where items: "contextItems d cid = pre @ cc_items chunk @ suf"
            and depth: "\<forall>i \<in> set (cc_items chunk). summaryAtDepth d k i"
            using oldestChunkAtDepth_facts by metis
          show ?thesis
          proof (rule condensed_round [OF Suc.prems(1) _ Suc.prems(1) items depth])
            fix r d' after assume d': "wf_db d'" "(compaction_step n cid)\<^sup>*\<^sup>* d d'" "after = contextTokenCount d' cid"
            then have acted: "compacted n cid d0 (?st r after) d'"
              using start Suc.prems(2,3) by (auto simp: swept_def compacted_def)
            have again: "triple (settled d') (condenseDepths E cid f context fuel (Suc k) (?st r after)) ?Q (reach n cid d0)"
              by (rule Suc.IH) (use d' acted Suc.prems(3) in simp_all)
            show "triple (settled d') (if before \<le> after then ret (?st r after)
              else condenseDepths E cid f context fuel (Suc k) (?st r after)) ?Q (reach n cid d0)"
              by (intro triple_if stop again) (simp_all add: acted)
          qed (simp_all add: err reach_trans [OF _ start])
        qed
    by (simp_all add: err)
qed

lemma triple_compactLeaf:
  assumes wf: "wf_db d" and cid: "cid = ci_conversationId input" and n: "n = resolveFreshTailCount (eng_config E)"
  shows "triple (settled d) (compactLeaf E input)
    (\<lambda>r w. \<exists>d'. settled d' w \<and> compacted n cid d r d') (reach n cid d)"
proof -
  let ?Q = "\<lambda>r w. \<exists>d'. settled d' w \<and> compacted n cid d r d'"
  have idle: "triple (settled d) (ret (noAction (contextTokenCount d cid))) ?Q (reach n cid d)"
    by (rule triple_ret) (auto simp: compacted_def swept_def noAction_def)
  have seed: "obs d (case ci_previousSummaryContent input of Some p \<Rightarrow> ret (Some p)
      | None \<Rightarrow> resolvePriorLeafSummaryContext cid items s) (\<lambda>_. True)" for s items
    by (cases "ci_previousSummaryContent input") (auto intro: obs_ret obs_priorLeaf)
  show ?thesis
    unfolding compactLeaf_def Let_def cid [symmetric]
    apply (rule obs_then [OF obs_abort])
     apply (rule obs_then [OF obs_reads(2)])
      apply (rule obs_then [OF obs_abort])
       apply (rule obs_then [OF obs_evaluateLeafTrigger])
        apply (rule obs_then [OF obs_abort])
         apply (simp only:)
         apply (rule triple_if [OF idle])
         apply (rule obs_then [OF obs_selectOldestLeafChunk])
          apply (rule obs_then [OF obs_abort])
           apply (rule triple_if [OF idle])
           apply (rule obs_then [OF seed])
            subgoal premises found for u0 before u1 trigger u2 chunk u3 previous
            proof -
              obtain pre suf where items: "contextItems d cid = pre @ lc_items chunk @ suf"
                and raw: "\<forall>i \<in> set (lc_items chunk). isRawMessage i" and tail: "n \<le> length (filter isRawMessage suf)"
                using oldestLeafChunk_facts [OF _ wf_context_ok [OF wf]] found n by metis
              show ?thesis
              proof (rule leaf_round [OF wf _ wf items _ raw tail])
                show "lc_items chunk \<noteq> []" by (rule found)
              next
                fix r d' after assume d': "wf_db d'" "(compaction_step n cid)\<^sup>*\<^sup>* d d'" "after = contextTokenCount d' cid"
                show "triple (settled d') (condenseDepths E cid (ci_summarize input) (resolveInvocationContext (ci_context input))
                    (Suc (Suc after)) 0 \<lparr>res_actionTaken = True, res_tokensBefore = contextTokenCount d cid,
                    res_tokensAfter = after, res_createdSummaryId = Some (pass_summaryId r), res_condensed = False,
                    res_level = Some (pass_level r)\<rparr>) ?Q (reach n cid d)"
                  by (rule triple_condenseDepths) (use d' in \<open>simp_all add: compacted_def swept_def\<close>)
              qed simp_all
            qed
    by simp_all
qed


lemma js_less_leq: "js_less a b \<Longrightarrow> js_leq a b"
  by (cases a; cases b) simp_all

definition compacted_under :: "nat \<Rightarrow> nat \<Rightarrow> database \<Rightarrow> js_number \<Rightarrow> until_under_result \<Rightarrow> database \<Rightarrow> bool" where
  "compacted_under n cid d0 target r d \<longleftrightarrow> (compaction_step n cid)\<^sup>*\<^sup>* d0 d
     \<and> contextTokenCount d cid \<le> uur_finalTokens r
     \<and> (uur_rounds r \<noteq> Num 0 \<longrightarrow> uur_finalTokens r = contextTokenCount d cid)
     \<and> (uur_success r \<longrightarrow> js_leq (js_nat (uur_finalTokens r)) target)"

lemma triple_compact_at:
  assumes "wf_db d" and "(compaction_step n cid)\<^sup>*\<^sup>* d0 d" and "cid = ci_conversationId input"
    and "n = resolveFreshTailCount (eng_config E)"
  shows "triple (settled d) (compact E input) (\<lambda>r w. \<exists>d'. settled d' w \<and> (compaction_step n cid)\<^sup>*\<^sup>* d0 d'
    \<and> wf_db d' \<and> res_tokensAfter r = contextTokenCount d' cid) (reach n cid d0)"
  unfolding compact_def
proof (rule triple_conseq [OF triple_compactFullSweep [OF assms(1,3,4)]])
  show "reach n cid d w \<Longrightarrow> reach n cid d0 w" for w by (rule reach_trans [OF _ assms(2)])
next
  fix r w assume "\<exists>d'. settled d' w \<and> compacted n cid d r d'"
  then show "\<exists>d'. settled d' w \<and> (compaction_step n cid)\<^sup>*\<^sup>* d0 d' \<and> wf_db d'
      \<and> res_tokensAfter r = contextTokenCount d' cid"
    using rtranclp_trans [OF assms(2)] steps_wf [OF _ assms(1)] by (auto simp: compacted_def swept_def)
qed

lemma triple_untilUnderRounds:
  assumes "wf_db d" and "(compaction_step n cid)\<^sup>*\<^sup>* d0 d" and "cid = uu_conversationId input"
    and "n = resolveFreshTailCount (eng_config E)"
  shows "triple (settled d) (untilUnderRounds E input context lastTokens k)
    (\<lambda>r w. \<exists>d'. settled d' w \<and> compacted_under n cid d0 (targetTokensOf input) r d') (reach n cid d0)"
  using assms(1,2)
proof (induction lastTokens arbitrary: d k rule: less_induct)
  case (less lastTokens)
  let ?Q = "\<lambda>r w. \<exists>d'. settled d' w \<and> compacted_under n cid d0 (targetTokensOf input) r d'"
  have err: "settled d w \<Longrightarrow> reach n cid d0 w" for w using less.prems(2) by (blast intro: reachI)
  have input: "cid = ci_conversationId (roundInput input context)" by (simp add: roundInput_def assms(3))
  show ?case
    unfolding untilUnderRounds.simps [of E input "context" lastTokens k] Let_def assms(3) [symmetric]
    apply (rule triple_if)
     apply (rule obs_then [OF obs_abort _ err])
      apply (rule then_at [OF triple_compact_at [OF less.prems input assms(4)]])
      subgoal premises reached for u result d'
      proof -
        have d': "(compaction_step n cid)\<^sup>*\<^sup>* d0 d'" "res_tokensAfter result = contextTokenCount d' cid"
          using reached by simp_all
        have wf': "wf_db d'" using reached by simp
        have err': "settled d' w \<Longrightarrow> reach n cid d0 w" for w using d'(1) by (blast intro: reachI)
        have stop: "triple (settled d') (ret \<lparr>uur_success = b, uur_rounds = js_nat k, uur_finalTokens = res_tokensAfter result\<rparr>)
            ?Q (reach n cid d0)" if "b \<longrightarrow> js_leq (js_nat (res_tokensAfter result)) (targetTokensOf input)" for b
          by (rule triple_ret) (use d' that in \<open>auto simp: compacted_under_def\<close>)
        show ?thesis
          by (rule obs_then [OF obs_abort _ err'], intro triple_if stop less.IH) (simp_all add: wf' d')
      qed
     apply (simp add: err)
    apply (rule obs_then [OF obs_abort _ err])
     apply (rule obs_then [OF obs_reads(2) _ err])
      apply (rule obs_then [OF obs_abort _ err])
       apply (rule triple_ret)
       apply (use less.prems(2) in \<open>auto simp: compacted_under_def\<close>)[1]
    by (simp_all add: err)
qed

lemma triple_compactUntilUnder:
  assumes wf: "wf_db d" and cid: "cid = uu_conversationId input" and n: "n = resolveFreshTailCount (eng_config E)"
  shows "triple (settled d) (compactUntilUnder E input)
    (\<lambda>r w. \<exists>d'. settled d' w \<and> compacted_under n cid d (targetTokensOf input) r d') (reach n cid d)"
proof -
  have early: "compacted_under n cid d (targetTokensOf input)
      \<lparr>uur_success = True, uur_rounds = Num 0, uur_finalTokens = max (contextTokenCount d cid) live\<rparr> d"
    if "js_less (js_nat (max (contextTokenCount d cid) live)) (targetTokensOf input)" for live
    using js_less_leq [OF that] by (simp add: compacted_under_def)
  show ?thesis
    unfolding compactUntilUnder_def Let_def cid [symmetric]
    apply (rule obs_then [OF obs_abort])
     apply (rule obs_then [OF obs_reads(2)])
      apply (rule obs_then [OF obs_abort])
       apply (simp only:)
       apply (rule triple_if)
        apply (rule triple_ret)
        apply (use early in blast)
       apply (rule triple_untilUnderRounds [OF wf _ cid n])
    by simp_all
qed


section \<open>The fuel of the incremental condensation is enough\<close>

text \<open>
  Two operations that agree on the worlds with \<open>P\<close>.  Each round of \<open>condenseDepths\<close>
  that goes on has lowered the token count, so more fuel than tokens never runs out.
\<close>

definition agree :: "(world \<Rightarrow> bool) \<Rightarrow> (world, 'a) op \<Rightarrow> (world, 'a) op \<Rightarrow> bool" where
  "agree P m m' \<longleftrightarrow> (\<forall>w. P w \<longrightarrow> m w = m' w)"

lemma agree_refl: "agree P m m"
  by (simp add: agree_def)

lemma agree_if: "(c \<Longrightarrow> agree P m m') \<Longrightarrow> (\<not> c \<Longrightarrow> agree P k k') \<Longrightarrow>
    agree P (if c then m else k) (if c then m' else k')"
  by simp

lemma agree_bind:
  assumes "triple P m R E" and "\<And>a. agree (R a) (k a) (k' a)"
  shows "agree P (bindM m k) (bindM m k')"
  unfolding agree_def
proof (intro allI impI)
  fix w assume w: "P w"
  show "bindM m k w = bindM m k' w"
  proof (cases "m w")
    case (Pair r v)
    then show ?thesis using assms(2) triple_value [OF assms(1) w]
      by (cases r) (auto simp: bindM_def agree_def)
  qed
qed

lemma agree_obs:
  assumes "obs d m R" and "\<And>a. R a \<Longrightarrow> agree (settled d) (k a) (k' a)"
  shows "agree (settled d) (bindM m k) (bindM m k')"
  by (rule agree_bind [OF assms(1) [unfolded obs_def]]) (use assms(2) in \<open>auto simp: agree_def\<close>)

lemma agree_at:
  assumes "triple P m (\<lambda>a w. \<exists>d'. settled d' w \<and> R a d') E" and "\<And>a d'. R a d' \<Longrightarrow> agree (settled d') (k a) (k' a)"
  shows "agree P (bindM m k) (bindM m k')"
  by (rule agree_bind [OF assms(1)]) (use assms(2) in \<open>auto simp: agree_def\<close>)

lemma condenseDepths_fuel:
  assumes "wf_db d" and "contextTokenCount d cid < fuel" and "contextTokenCount d cid < fuel'"
  shows "agree (settled d) (condenseDepths E cid f context fuel k st) (condenseDepths E cid f context fuel' k st)"
  using assms
proof (induction fuel arbitrary: fuel' k st d)
  case (Suc fuel)
  let ?st = "\<lambda>r after. st\<lparr>res_tokensAfter := after, res_condensed := True,
    res_createdSummaryId := Some (pass_summaryId r), res_level := Some (pass_level r)\<rparr>"
  obtain more where fuel': "fuel' = Suc more" using Suc.prems(3) by (cases fuel') auto
  show ?case
    unfolding fuel' condenseDepths.simps [of E cid f "context" "Suc fuel" k st]
      condenseDepths.simps [of E cid f "context" "Suc more" k st] Let_def nat.case
    apply (rule agree_if [OF agree_refl])
    apply (rule agree_obs [OF obs_abort])
    apply (rule agree_obs [OF obs_selectOldestChunkAtDepth])
     apply simp
    apply (rule agree_obs [OF obs_abort])
    apply (rule agree_if [OF agree_refl])
    apply (rule agree_obs [OF obs_reads(2)])
    subgoal premises found for u0 chunk u1 before
    proof -
      have "cc_items chunk = oldestChunkAtDepth E d cid k" using found by simp
      then obtain pre suf where items: "contextItems d cid = pre @ cc_items chunk @ suf"
        and depth: "\<forall>i \<in> set (cc_items chunk). summaryAtDepth d k i"
        using oldestChunkAtDepth_facts by metis
      have pass: "triple (settled d) (condensedPass E cid (cc_items chunk) k f (passContext context))
          (\<lambda>r w. \<exists>d'. settled d' w \<and> wf_db d') (\<lambda>_. True)"
        by (rule triple_conseq [OF triple_condensedPass [where n = 0, OF Suc.prems(1) items depth]])
          (use step_wf Suc.prems(1) in blast)+
      show ?thesis
      proof (rule agree_at [OF pass], rule agree_obs [OF obs_reads(2)], rule agree_obs [OF obs_abort])
        fix r d' after assume d': "wf_db d'" "after = contextTokenCount d' cid"
        show "agree (settled d')
          (bindM (persistCompactionEvents E cid before before after None (Some (pass_summaryId r, pass_level r)) (eventContext context)) (\<lambda>_.
             if before \<le> after then ret (?st r after) else condenseDepths E cid f context fuel (Suc k) (?st r after)))
          (bindM (persistCompactionEvents E cid before before after None (Some (pass_summaryId r, pass_level r)) (eventContext context)) (\<lambda>_.
             if before \<le> after then ret (?st r after) else condenseDepths E cid f context more (Suc k) (?st r after)))"
        proof (rule agree_at [OF triple_persistCompactionEvents [OF d'(1)]])
          fix d'' assume "\<exists>e. ev_conversationId e = cid \<and> event_or_not e d' d''"
          then have d'': "wf_db d''" "contextTokenCount d'' cid = after"
            using event_or_not_steps steps_wf [OF _ d'(1)] event_or_not_tokens [OF d'(1)] d'(2) by blast+
          have "agree (settled d'') (condenseDepths E cid f context fuel (Suc k) (?st r after))
              (condenseDepths E cid f context more (Suc k) (?st r after))" if "\<not> before \<le> after"
            by (rule Suc.IH) (use d'' that found Suc.prems fuel' in simp_all)
          then show "agree (settled d'') (if before \<le> after then ret (?st r after)
              else condenseDepths E cid f context fuel (Suc k) (?st r after))
            (if before \<le> after then ret (?st r after) else condenseDepths E cid f context more (Suc k) (?st r after))"
            by (intro agree_if agree_refl)
        qed simp
      qed
    qed
    done
qed simp


section \<open>Runs of the engine\<close>

text \<open>A run is a call of one of the entry points for a conversation, whatever its outcome.\<close>

inductive compaction_run :: "engine \<Rightarrow> nat \<Rightarrow> world \<Rightarrow> world \<Rightarrow> bool" for E cid where
  run_leaf: "compactLeaf E input w = (r, w') \<Longrightarrow> ci_conversationId input = cid \<Longrightarrow> compaction_run E cid w w'"
| run_full: "compactFullSweep E input w = (r, w') \<Longrightarrow> ci_conversationId input = cid \<Longrightarrow> compaction_run E cid w w'"
| run_until: "compactUntilUnder E i w = (r', w') \<Longrightarrow> uu_conversationId i = cid \<Longrightarrow> compaction_run E cid w w'"

lemma triple_any:
  assumes "triple P m (\<lambda>r w. \<exists>d'. settled d' w \<and> R r d') (reach n cid d)"
    and "\<And>r d'. R r d' \<Longrightarrow> (compaction_step n cid)\<^sup>*\<^sup>* d d'" and "P w" and "m w = (r, w')"
  shows "reach n cid d w'"
proof (cases r)
  case (Inl e)
  then show ?thesis using triple_error [OF assms(1,3)] assms(4) by simp
next
  case (Inr a)
  then obtain d' where "settled d' w'" and "R a d'" using triple_value [OF assms(1,3)] assms(4) by blast
  then show ?thesis using assms(2) by (blast intro: reachI)
qed

lemma run_reach:
  assumes "compaction_run E cid w w'" and "settled d w" and "wf_db d"
  shows "reach (resolveFreshTailCount (eng_config E)) cid d w'"
  using assms(1)
proof cases
  case (run_leaf input r)
  show ?thesis
    by (rule triple_any [OF triple_compactLeaf [OF assms(3)] _ assms(2) run_leaf(1)])
      (simp_all add: run_leaf compacted_def swept_def)
next
  case (run_full input r)
  show ?thesis
    by (rule triple_any [OF triple_compactFullSweep [OF assms(3)] _ assms(2) run_full(1)])
      (simp_all add: run_full compacted_def swept_def)
next
  case (run_until i r)
  show ?thesis
    by (rule triple_any [OF triple_compactUntilUnder [OF assms(3)] _ assms(2) run_until(1)])
      (simp_all add: run_until compacted_under_def)
qed

lemma settled_durable: "settled d w \<Longrightarrow> durable w = d"
  by (simp add: settled_def)

lemma run_steps:
  assumes "compaction_run E cid w w'" and "settled d w" and "wf_db d"
  shows "settled (durable w') w'" and "(compaction_step (resolveFreshTailCount (eng_config E)) cid)\<^sup>*\<^sup>* d (durable w')"
  using run_reach [OF assms] settled_durable by (auto simp: reach_def)

text \<open>Any number of runs, on any conversations, with any engines.\<close>

definition any_run :: "world \<Rightarrow> world \<Rightarrow> bool" where
  "any_run w w' \<longleftrightarrow> (\<exists>E cid. compaction_run E cid w w')"

lemma any_run_wf:
  assumes "any_run w w'" and "settled d w" and "wf_db d"
  shows "settled (durable w') w' \<and> wf_db (durable w')"
  using assms run_steps steps_wf unfolding any_run_def by metis


definition transcript :: "database \<Rightarrow> nat \<Rightarrow> nat list \<Rightarrow> bool" where
  "transcript d c ms \<longleftrightarrow> distinct (refs d c) \<and> (\<forall>s. SumRef s \<in> set (refs d c) \<longrightarrow> hasSummary d s)
     \<and> expands_to (expands d) (refs d c) ms"

lemma transcript_lin: "transcript d c ms \<longleftrightarrow> lin.transcript d c ms"
  by (simp add: transcript_def lin.transcript_def)

lemma any_run_steps:
  assumes "any_run w w'" and "settled d w" and "wf_db d"
  obtains n cid where "(compaction_step n cid)\<^sup>*\<^sup>* d (durable w')"
  using assms run_steps(2) unfolding any_run_def by blast

lemma any_run_keeps:
  assumes "any_run w w'" and "settled d w" and "wf_db d"
  shows "transcript d c ms \<Longrightarrow> transcript (durable w') c ms" and "history_kept d (durable w')"
    and "links_back d \<Longrightarrow> links_back (durable w')"
proof -
  obtain n cid where steps: "(compaction_step n cid)\<^sup>*\<^sup>* d (durable w')" using any_run_steps [OF assms] .
  show "transcript d c ms \<Longrightarrow> transcript (durable w') c ms"
    unfolding transcript_lin by (rule lin.transcript_steps [OF steps_lcm [OF steps assms(3)]])
  show "history_kept d (durable w')" and "links_back d \<Longrightarrow> links_back (durable w')"
    using steps_history [OF steps] steps_links_back [OF steps] by blast+
qed

text \<open>An invariant of single runs is one of any sequence of them.\<close>

lemma any_runs_induct:
  assumes "any_run\<^sup>*\<^sup>* w w'" and "settled d w" and "wf_db d" and "P d"
    and "\<And>d d'. wf_db d \<Longrightarrow> P d \<Longrightarrow> (\<exists>w w'. any_run w w' \<and> settled d w \<and> d' = durable w') \<Longrightarrow> P d'"
  shows "settled (durable w') w' \<and> wf_db (durable w') \<and> P (durable w')"
  using assms(1)
proof (induction rule: rtranclp_induct)
  case base
  then show ?case using assms(2-4) settled_durable by auto
next
  case (step v v')
  then show ?case using assms(5) any_run_wf by blast
qed

lemma any_runs_keep:
  assumes "any_run\<^sup>*\<^sup>* w w'" and "settled d w" and "wf_db d"
  shows "transcript d c ms \<Longrightarrow> transcript (durable w') c ms" and "history_kept d (durable w')"
    and "links_back d \<Longrightarrow> links_back (durable w')" and "settled (durable w') w'" and "wf_db (durable w')"
proof -
  show "transcript d c ms \<Longrightarrow> transcript (durable w') c ms"
    using any_runs_induct [OF assms, of "\<lambda>d. transcript d c ms"] any_run_keeps(1) by blast
  show "history_kept d (durable w')"
    using any_runs_induct [OF assms, of "history_kept d"] any_run_keeps(2) history_refl history_trans by blast
  show "links_back d \<Longrightarrow> links_back (durable w')"
    using any_runs_induct [OF assms, of links_back] any_run_keeps(3) by blast
  show "settled (durable w') w'" "wf_db (durable w')"
    using any_runs_induct [OF assms, of "\<lambda>_. True"] by blast+
qed

end
