(* ===== verification/Sample_Project.thy ===== *)
theory Sample_Project
  imports Engine_Refinement "HOL-Library.Code_Target_Nat"
begin

text \<open>
  A small project for the concrete instances of the properties: one conversation with three
  messages in its context, and an engine that protects the newest of them.
\<close>

definition sample_message :: "nat \<Rightarrow> string \<Rightarrow> message_record" where
  "sample_message k text = \<lparr>msg_id = Suc k, msg_conversationId = 1, msg_seq = k, msg_role = UserRole,
     msg_content = text, msg_tokenCount = 40, msg_createdAt = 0\<rparr>"

definition sample_item :: "nat \<Rightarrow> context_item_record" where
  "sample_item k = \<lparr>ctx_conversationId = 1, ctx_ordinal = int k, ctx_itemType = MessageItem,
     ctx_messageId = Some (Suc k), ctx_summaryId = None, ctx_createdAt = 0\<rparr>"

definition sample_database :: database where
  "sample_database = empty_database\<lparr>
     conversations := [\<lparr>conv_id = 1, conv_sessionId = ''s'', conv_title = None, conv_bootstrappedAt = None,
       conv_createdAt = 0, conv_updatedAt = 0, conv_parentSessionId = None\<rparr>],
     messages := [sample_message 0 ''a'', sample_message 1 ''b'',
       sample_message 2 ''c''],
     context_items := [sample_item 0, sample_item 1, sample_item 2],
     conversations_rowid := 1, messages_rowid := 3\<rparr>"

definition sample_config :: compaction_config where
  "sample_config = \<lparr>cfg_contextThreshold = Num (3 / 4), cfg_freshTailCount = Num 1, cfg_leafMinFanout = Num 8,
     cfg_condensedMinFanout = Num 4, cfg_condensedMinFanoutHard = Num 2, cfg_incrementalMaxDepth = Num 0,
     cfg_leafChunkTokens = None, cfg_leafTargetTokens = Num 600, cfg_condensedTargetTokens = Num 900,
     cfg_maxRounds = Num 10, cfg_timezone = None, cfg_scrubber = None\<rparr>"

definition sample_engine :: engine where
  "sample_engine = \<lparr>eng_config = sample_config,
     eng_options = \<lparr>fts5Available = True, ftsStatementOk = True\<rparr>,
     eng_host = \<lparr>host_sha256 = (\<lambda>_. ''0f''), host_dateParts = (\<lambda>_ _. None),
       host_timeZoneName = (\<lambda>_ _. None)\<rparr>\<rparr>"

definition sample_input :: compact_input where
  "sample_input = \<lparr>ci_conversationId = 1, ci_tokenBudget = Num 100, ci_summarize = (\<lambda>_ _ _ _. Inr ''s''),
     ci_force = True, ci_hardTrigger = False, ci_previousSummaryContent = None,
     ci_context = \<lparr>ic_signal = None, ic_acquireCommit = None, ic_invocationId = None, ic_context = None\<rparr>\<rparr>"

lemma sample_items: "contextItems sample_database cid = (if cid = 1 then [sample_item 0, sample_item 1, sample_item 2] else [])"
  by (simp add: contextItems_def sample_database_def sample_item_def)

lemma sample_refs: "refs sample_database cid = (if cid = 1 then [MsgRef 1, MsgRef 2, MsgRef 3] else [])"
  by (simp add: refs_def sample_items sample_item_def ref_of_def)

lemma sample_wf: "wf_db sample_database"
proof -
  have "ctx_ok sample_database 1"
    unfolding ctx_ok_def sample_items by (simp add: sample_item_def)
  then show ?thesis
    by (simp add: wf_db_def wf_parts_of_db sample_database_def empty_database_def sample_message_def
        hasConversation_def hasMessage_row_def sample_item_def ref_of_def)
qed

lemma settled_fresh: "settled d (fresh_world d)"
  by (simp add: settled_def durable_def fresh_world_def)

lemma durable_fresh: "durable (fresh_world d) = d"
  by (simp add: durable_def fresh_world_def)


definition sample_world :: world where
  "sample_world = snd (compactFullSweep sample_engine sample_input (fresh_world sample_database))"

lemma sample_run: "compaction_run sample_engine 1 (fresh_world sample_database) sample_world"
  by (rule run_full [where input = sample_input and r = "fst (compactFullSweep sample_engine sample_input (fresh_world sample_database))"])
    (simp_all add: sample_world_def sample_input_def)

lemma sample_any_run: "any_run\<^sup>*\<^sup>* (fresh_world sample_database) sample_world"
  by (rule r_into_rtranclp) (unfold any_run_def, rule exI, rule exI, rule sample_run)

lemma sample_transcript: "transcript sample_database 1 [1, 2, 3]"
proof -
  have "expands_to (expands sample_database) (map MsgRef [1, 2, 3]) [1, 2, 3]" by (simp only: expands_to_msgs)
  then show ?thesis by (simp add: transcript_def sample_refs)
qed

lemma sample_tail: "takeLast 1 (rawMessages sample_database 1) = [3]"
  by (simp add: rawMessages_def sample_refs rawOf_def takeLast_def)

lemma sample_links: "links_back sample_database"
  by (simp add: links_back_def sample_database_def empty_database_def)

lemma sample_tail_count: "resolveFreshTailCount (eng_config sample_engine) = 1"
  by (simp add: sample_engine_def sample_config_def resolveFreshTailCount_def floorOr_def positiveFinite_def)


text \<open>A call that has nothing to do: not forced, and under the threshold.\<close>

definition idle_input :: compact_input where
  "idle_input = sample_input\<lparr>ci_force := False, ci_tokenBudget := Num 1000\<rparr>"

lemma fresh_reads:
  assumes "reads m f"
  shows "run m (fresh_world d) = (Inr (f d), fresh_world d)"
  using readsD [OF assms, of "fresh_world d"]
  by (simp add: run_def enqueue_def normalized_def catchM_def assertUsable_def bindM_def op_apply fresh_world_def)

lemma throwIfAborted_None [simp]: "throwIfAborted None w = (Inr (), w)"
  by (simp add: throwIfAborted_def op_apply)

lemma bindM_value:
  assumes "m w = (Inr a, v)"
  shows "bindM m k w = k a v"
  by (simp add: bindM_def assms)

lemma to_double_750: "to_double 750 = Num 750"
proof -
  have "binade 750 = 9"
    by (simp add: binade_def quotient_of_number compute_floorlog power_int_def)
  then show ?thesis
    by (simp add: to_double_def round_double_def round_half_even_def power_int_def Let_def power_divide)
qed

lemma sample_threshold: "js_leq (js_nat 120) (contextTokenThreshold sample_engine (Num 1000))"
  by (simp add: contextTokenThreshold_def sample_engine_def sample_config_def js_nat_def to_double_750)

lemma sample_tokens: "contextTokenCount sample_database 1 = 120"
  by code_simp

lemma sample_trigger: "map_sum id lt_shouldCompact (fst (evaluateLeafTrigger sample_engine 1 None (fresh_world sample_database))) = Inr False"
  by code_simp

lemma idle_run: "\<exists>w'. compactFullSweep sample_engine idle_input (fresh_world sample_database) = (Inr (noAction 120), w')"
proof -
  have input: "ci_conversationId idle_input = 1" "ci_force idle_input = False" "ci_tokenBudget idle_input = Num 1000"
    "ic_signal (resolveInvocationContext (ci_context idle_input)) = None"
    by (simp_all add: idle_input_def sample_input_def resolveInvocationContext_def orElse_def)
  obtain t v where trigger: "evaluateLeafTrigger sample_engine 1 None (fresh_world sample_database) = (Inr t, v)"
    and t: "\<not> lt_shouldCompact t"
    using sample_trigger
    by (cases "evaluateLeafTrigger sample_engine 1 None (fresh_world sample_database)"; cases "fst (evaluateLeafTrigger sample_engine 1 None (fresh_world sample_database))") auto
  show ?thesis
    unfolding compactFullSweep_def Let_def input
    apply (subst bindM_value, rule throwIfAborted_None)
    apply (subst bindM_value, rule fresh_reads, rule reads_store(2))
    apply (subst bindM_value, rule throwIfAborted_None)
    apply (subst bindM_value, rule trigger)
    apply (subst bindM_value, rule throwIfAborted_None)
    apply (unfold sample_tokens)
    by (simp add: t sample_threshold op_apply)
qed


definition sample_until :: until_under_input where
  "sample_until = \<lparr>uu_conversationId = 1, uu_tokenBudget = Num 1000, uu_targetTokens = Some (Num 500),
     uu_currentTokens = None, uu_summarize = ci_summarize sample_input,
     uu_context = \<lparr>ic_signal = None, ic_acquireCommit = None, ic_invocationId = None, ic_context = None\<rparr>\<rparr>"

lemma sample_until_run: "compactUntilUnder sample_engine sample_until (fresh_world sample_database)
    = (Inr \<lparr>uur_success = True, uur_rounds = Num 0, uur_finalTokens = 120\<rparr>, fresh_world sample_database)"
proof -
  have input: "uu_conversationId sample_until = 1" "uu_currentTokens sample_until = None"
    "ic_signal (resolveInvocationContext (uu_context sample_until)) = None"
    by (simp_all add: sample_until_def resolveInvocationContext_def orElse_def)
  have target: "targetTokensOf sample_until = Num 500"
    by (simp add: targetTokensOf_def sample_until_def positiveFinite_def)
  show ?thesis
    unfolding compactUntilUnder_def Let_def input target
    apply (subst bindM_value, rule throwIfAborted_None)
    apply (subst bindM_value, rule fresh_reads, rule reads_store(2))
    apply (subst bindM_value, rule throwIfAborted_None)
    apply (unfold sample_tokens)
    by (simp add: liveTokens_def op_apply js_nat_def)
qed


lemma sample_threshold_value: "contextTokenThreshold sample_engine (Num 1000) = Num 750"
  by (simp add: contextTokenThreshold_def sample_engine_def sample_config_def to_double_750)

lemma sample_evaluate: "\<exists>r w'. evaluate sample_engine 1 (Num 1000) None None (fresh_world sample_database) = (Inr r, w')"
  unfolding evaluate_def Let_def
  apply (subst bindM_value, rule throwIfAborted_None)
  apply (subst bindM_value, rule fresh_reads, rule reads_store(2))
  apply (subst bindM_value, rule throwIfAborted_None)
  by (simp add: op_apply)

lemma sample_selects: "\<exists>c w'. selectOldestLeafChunk sample_engine 1 None (fresh_world sample_database) = (Inr c, w')
    \<and> length (lc_items c) = 2"
proof -
  have "map_sum id (length \<circ> lc_items) (fst (selectOldestLeafChunk sample_engine 1 None (fresh_world sample_database))) = Inr 2"
    by code_simp
  then show ?thesis
    by (cases "selectOldestLeafChunk sample_engine 1 None (fresh_world sample_database)";
        cases "fst (selectOldestLeafChunk sample_engine 1 None (fresh_world sample_database))") auto
qed

lemma sample_chunk: "length (oldestLeafChunk sample_engine sample_database 1) = 2"
  by code_simp

lemma sample_no_candidate:
  "selectShallowestCondensationCandidate sample_engine 1 True None (fresh_world sample_database) = (Inr None, fresh_world sample_database)"
proof -
  have depths: "distinctDepths sample_database 1 b = []" for b
    by (simp add: distinctDepths_def Let_def sample_database_def empty_database_def)
  show ?thesis
    unfolding selectShallowestCondensationCandidate_def Let_def
    apply (subst bindM_value, rule throwIfAborted_None)
    apply (subst bindM_value, rule fresh_reads, rule reads_store(1))
    apply (subst bindM_value, rule throwIfAborted_None)
    apply (subst bindM_value, rule fresh_reads, rule reads_store(3))
    apply (subst bindM_value, rule throwIfAborted_None)
    apply (unfold depths)
    by (simp add: op_apply)
qed

definition sample_event :: compaction_event where
  "sample_event = \<lparr>ev_conversationId = 1, ev_sessionId = ''s'', ev_pass = LeafPass, ev_level = NormalLevel,
     ev_tokensBefore = 120, ev_tokensAfter = 41, ev_createdSummaryId = ''sum_0f'', ev_createdSummaryIds = [''sum_0f''],
     ev_condensedPassOccurred = False\<rparr>"

lemma sample_session: "findBySession sample_database (ev_sessionId sample_event) \<noteq> None"
  by (simp add: findBySession_def sample_database_def sample_event_def)

text \<open>The project after two leaf passes: two summaries of one message each.\<close>

definition sample_summary :: "nat \<Rightarrow> string \<Rightarrow> summary_record" where
  "sample_summary k sid = \<lparr>sum_id = sid, sum_conversationId = 1, sum_kind = Leaf, sum_depth = 0, sum_content = ''s'',
     sum_tokenCount = 30, sum_fileIds = [], sum_earliestAt = Some 0, sum_latestAt = Some 0, sum_descendantCount = 0,
     sum_descendantTokenCount = 0, sum_sourceMessageTokenCount = 40, sum_createdAt = int k\<rparr>"

definition sample_summary_item :: "nat \<Rightarrow> context_item_record" where
  "sample_summary_item k = \<lparr>ctx_conversationId = 1, ctx_ordinal = int k, ctx_itemType = SummaryItem,
     ctx_messageId = None, ctx_summaryId = Some (if k = 0 then ''A'' else ''B''), ctx_createdAt = 0\<rparr>"

definition sample_condensable :: database where
  "sample_condensable = sample_database\<lparr>summaries := [sample_summary 0 ''A'', sample_summary 1 ''B''],
     summary_messages := [(''A'', 1, 0), (''B'', 2, 0)],
     context_items := [sample_summary_item 0, sample_summary_item 1]\<rparr>"

lemma condensable_items: "contextItems sample_condensable 1 = [sample_summary_item 0, sample_summary_item 1]"
  unfolding contextItems_def sample_condensable_def by (simp add: sample_summary_item_def)

lemma condensable_depth: "\<forall>i \<in> set [sample_summary_item 0, sample_summary_item 1]. summaryAtDepth sample_condensable 0 i"
  by (simp add: summaryAtDepth_def itemSummary_def findSummary_def sample_condensable_def sample_summary_item_def sample_summary_def)

lemma condensable_wf: "wf_db sample_condensable"
proof -
  have "ctx_ok sample_condensable 1"
    unfolding ctx_ok_def condensable_items by (simp add: sample_summary_item_def)
  then show ?thesis
    by (simp add: wf_db_def wf_parts_of_db sample_condensable_def sample_database_def empty_database_def sample_message_def
        hasConversation_def hasMessage_row_def hasSummary_def sample_summary_def sample_summary_item_def ref_of_def)
qed

end
