(* ===== verification/File_References.thy ===== *)
theory File_References
  imports Sample_Project
begin

text \<open>
  \<open>extractFileIdsFromContent\<close> of \<open>src/large-files.ts\<close> against a reference: the scan with
  word boundaries finds the words of the text that are file references.
\<close>

section \<open>Words\<close>

text \<open>The maximal runs of word characters of a text; \<open>w\<close> is the run being read.\<close>

fun wordsFrom :: "string \<Rightarrow> string \<Rightarrow> string list" where
  "wordsFrom w [] = (if w = [] then [] else [w])"
| "wordsFrom w (c # cs) = (if isWordChar c then wordsFrom (w @ [c]) cs
     else (if w = [] then [] else [w]) @ wordsFrom [] cs)"

definition wordsOf :: "string \<Rightarrow> string list" where
  "wordsOf s = wordsFrom [] s"

lemma wordsFrom_split:
  "wordsFrom w s = (let v = w @ takeWhile isWordChar s; rest = dropWhile isWordChar s
     in (if v = [] then [] else [v]) @ (case rest of [] \<Rightarrow> [] | _ # cs \<Rightarrow> wordsFrom [] cs))"
  by (induction w s rule: wordsFrom.induct) (auto simp: Let_def)

lemma word_of_file_id:
  assumes "isFileId s"
  shows "\<forall>c \<in> set s. isWordChar c"
proof
  fix c assume c: "c \<in> set s"
  have split: "s = take 5 s @ drop 5 s" by simp
  have lower: "isWordChar c" if "lowerChar c \<in> set ''file_''" for c
    using that unfolding lowerChar_def isWordChar_def by (auto simp: charIn_def split: if_splits)
  have hex: "isWordChar c" if "isHexChar c" for c
    using that unfolding isHexChar_def isWordChar_def lowerChar_def by (auto simp: charIn_def split: if_splits)
  show "isWordChar c"
  proof (cases "c \<in> set (take 5 s)")
    case True
    then have "lowerChar c \<in> set (map lowerChar (take 5 s))" by simp
    then show ?thesis using assms lower unfolding isFileId_def by metis
  next
    case False
    then have "c \<in> set (drop 5 s)" using c split by (metis Un_iff set_append)
    then show ?thesis using assms hex by (auto simp: isFileId_def list_all_iff)
  qed
qed


definition afterWord :: "string \<Rightarrow> string list" where
  "afterWord s = (case dropWhile isWordChar s of [] \<Rightarrow> [] | _ # cs \<Rightarrow> wordsFrom [] cs)"

lemma wordsFrom_word: "isWordChar c \<Longrightarrow> wordsFrom [] (c # cs) = takeWhile isWordChar (c # cs) # afterWord cs"
  using wordsFrom_split [of "[]" "c # cs"] by (simp add: Let_def afterWord_def)

lemma takeWhile_take:
  assumes "\<forall>x \<in> set (take n xs). P x" and "case drop n xs of [] \<Rightarrow> True | y # _ \<Rightarrow> \<not> P y"
  shows "takeWhile P xs = take n xs" and "dropWhile P xs = drop n xs"
proof -
  have "takeWhile P zs = [] \<and> dropWhile P zs = zs" if "case zs of [] \<Rightarrow> True | y # _ \<Rightarrow> \<not> P y" for zs
    using that by (cases zs) auto
  note stop = this [OF assms(2)]
  have "takeWhile P (take n xs @ drop n xs) = take n xs @ takeWhile P (drop n xs)"
    using assms(1) by (simp only: takeWhile_append2)
  then show "takeWhile P xs = take n xs" unfolding append_take_drop_id using stop by simp
  have "dropWhile P (take n xs @ drop n xs) = dropWhile P (drop n xs)"
    using assms(1) by (simp only: dropWhile_append2)
  then show "dropWhile P xs = drop n xs" unfolding append_take_drop_id using stop by simp
qed

lemma matchFileIds_words:
  "matchFileIds inWord s = filter isFileId (if inWord then afterWord s else wordsFrom [] s)"
proof (induction inWord s rule: matchFileIds.induct)
  case (1 inWord)
  then show ?case by (simp add: afterWord_def)
next
  case (2 inWord c cs)
  let ?s = "c # cs"
  show ?case
  proof (cases "\<not> inWord \<and> isFileId (take 21 ?s) \<and> atBoundary (drop 21 ?s)")
    case True
    have word: "\<forall>x \<in> set (take 21 ?s). isWordChar x" using True word_of_file_id by blast
    have bound: "case drop 21 ?s of [] \<Rightarrow> True | y # _ \<Rightarrow> \<not> isWordChar y"
      using True by (simp only: atBoundary_def)
    have c: "isWordChar c" using word by simp
    have take: "takeWhile isWordChar ?s = take 21 ?s" and drop: "dropWhile isWordChar ?s = drop 21 ?s"
      using takeWhile_take [OF word bound] by auto
    have "dropWhile isWordChar cs = drop 20 cs" using drop c by simp
    moreover have "dropWhile isWordChar (drop 20 cs) = drop 20 cs"
      using bound by (auto split: list.splits)
    ultimately have rest: "afterWord (drop 20 cs) = afterWord cs" by (simp add: afterWord_def)
    have "matchFileIds inWord ?s = take 21 ?s # filter isFileId (afterWord cs)"
      unfolding matchFileIds.simps if_P [OF True] using 2(1) [OF True] rest by simp
    moreover have "wordsFrom [] ?s = take 21 ?s # afterWord cs"
      unfolding wordsFrom_word [OF c] take ..
    ultimately show ?thesis using True by simp
  next
    case False
    have rec: "matchFileIds inWord ?s = filter isFileId (if isWordChar c then afterWord cs else wordsFrom [] cs)"
      unfolding matchFileIds.simps if_not_P [OF False] by (rule 2(2) [OF False])
    have "\<not> isFileId (takeWhile isWordChar ?s)" if "\<not> inWord" and "isWordChar c"
    proof
      assume id: "isFileId (takeWhile isWordChar ?s)"
      then have len: "length (takeWhile isWordChar ?s) = 21" by (simp only: isFileId_def)
      then have "take 21 ?s = takeWhile isWordChar ?s" and "drop 21 ?s = dropWhile isWordChar ?s"
        by (metis takeWhile_eq_take) (metis len dropWhile_eq_drop)
      moreover have "atBoundary (dropWhile isWordChar ?s)"
        unfolding atBoundary_def using hd_dropWhile [of isWordChar ?s] by (auto split: list.split)
      ultimately show False using False id that by metis
    qed
    then show ?thesis
      unfolding rec using wordsFrom_word [of c cs] by (auto simp: afterWord_def)
  qed
qed

text \<open>C16: The file references of a text are its words of the form \<open>file_\<close> and 16
  hexadecimal digits, in lower case, in the order of their first occurrence and each once.\<close>

theorem extractFileIds_words:
  "extractFileIdsFromContent content
    = dedupe_from {} (map (map lowerChar) (filter isFileId (wordsOf content)))"
  unfolding extractFileIdsFromContent_def wordsOf_def by (simp add: matchFileIds_words)

end
