(* ===== verification/Lineage_Queries.thy ===== *)
theory Lineage_Queries
  imports Sample_Project
begin

text \<open>
  The queries of \<open>src/store/summary-store.ts\<close> on the links between summaries: the recursive
  query of \<open>getSummarySubtree\<close> ends on every link table that compaction builds, and what the
  two directions of a link see of a condensed summary.
\<close>

section \<open>The recursive query ends\<close>

lemma older_trans:
  assumes "distinct (map sum_id (summaries d))" and "older d a b" and "older d b c"
  shows "older d a c"
proof -
  obtain x y z where 1: "map sum_id (summaries d) = x @ a # y @ b # z" using assms(2) by (auto simp: older_def)
  obtain u v t where 2: "map sum_id (summaries d) = u @ b # v @ c # t" using assms(3) by (auto simp: older_def)
  have "distinct ((x @ a # y) @ b # z)" using assms(1) 1 by simp
  then have "b \<notin> set (x @ a # y)" and "b \<notin> set z" by auto
  moreover have "(x @ a # y) @ b # z = u @ b # (v @ c # t)" using 1 2 by simp
  ultimately have "z = v @ c # t" using append_Cons_eq_iff by metis
  then have "map sum_id (summaries d) = x @ a # (y @ b # v) @ c # t" using 1 by simp
  then show ?thesis unfolding older_def by blast
qed

lemma older_irrefl: "distinct (map sum_id (summaries d)) \<Longrightarrow> \<not> older d a a"
  by (auto simp: older_def)


lemma sorted_wrt_distinct: "sorted_wrt P xs \<Longrightarrow> (\<And>x. \<not> P x x) \<Longrightarrow> distinct xs"
  by (induction xs) auto

text \<open>A row of level \<open>n\<close> ends a chain of \<open>n\<close> links, each to a younger summary.\<close>

definition levelStep :: "(string \<times> string \<times> nat) list \<Rightarrow> subtree_row list \<Rightarrow> subtree_row list" where
  "levelStep links rows = concat (map (subtreeStep links) rows)"

lemma subtreeStep_row:
  assumes "row' \<in> set (subtreeStep links row)"
  shows "(fst row', fst row) \<in> (\<lambda>(s, p, _). (s, p)) ` set links"
proof -
  obtain sid par depth path where row: "row = (sid, par, depth, path)" by (cases row)
  obtain s ord where "row' = (s, Some sid, Suc depth, subtreePath path ord)" and "(s, sid, ord) \<in> set links"
    using assms unfolding row subtreeStep_def by auto
  then show ?thesis unfolding row by force
qed

lemma level_chain:
  assumes wf: "distinct (map sum_id (summaries d))" and linked: "links_back d"
    and "row \<in> set ((levelStep (summary_parents d) ^^ n) [(sid, None, 0, path)])"
  shows "\<exists>ss. length ss = n \<and> set ss \<subseteq> fst ` set (summary_parents d)
    \<and> sorted_wrt (\<lambda>a b. older d b a) ss \<and> (ss \<noteq> [] \<longrightarrow> hd ss = fst row)"
  using assms(3)
proof (induction n arbitrary: row)
  case (Suc n)
  obtain row0 where row0: "row0 \<in> set ((levelStep (summary_parents d) ^^ n) [(sid, None, 0, path)])"
    and row: "row \<in> set (subtreeStep (summary_parents d) row0)"
    using Suc.prems unfolding funpow.simps comp_apply levelStep_def [of _ "(levelStep _ ^^ n) _"] by auto
  obtain ss where ss: "length ss = n" "set ss \<subseteq> fst ` set (summary_parents d)"
      "sorted_wrt (\<lambda>a b. older d b a) ss" "ss \<noteq> [] \<longrightarrow> hd ss = fst row0"
    using Suc.IH [OF row0] by blast
  obtain ord where link: "(fst row, fst row0, ord) \<in> set (summary_parents d)"
    using subtreeStep_row [OF row] by auto
  then have next1: "older d (fst row0) (fst row)" using linked by (auto simp: links_back_def)
  have "older d t (fst row)" if "t \<in> set ss" for t
  proof (cases ss)
    case (Cons x xs)
    have "t = fst row0 \<or> older d t (fst row0)" using that ss(3,4) Cons by auto
    then show ?thesis using next1 older_trans [OF wf] by blast
  qed (use that in simp)
  then have "sorted_wrt (\<lambda>a b. older d b a) (fst row # ss)" using ss(3) by simp
  moreover have "fst row \<in> fst ` set (summary_parents d)" using link by force
  ultimately show ?case
    using ss(1,2) by (intro exI [of _ "fst row # ss"]) simp
qed simp

lemma level_bound:
  assumes "distinct (map sum_id (summaries d))" and "links_back d" and "length (summary_parents d) < n"
  shows "(levelStep (summary_parents d) ^^ n) [(sid, None, 0, path)] = []"
proof (rule ccontr)
  assume "(levelStep (summary_parents d) ^^ n) [(sid, None, 0, path)] \<noteq> []"
  then obtain row where "row \<in> set ((levelStep (summary_parents d) ^^ n) [(sid, None, 0, path)])"
    by (metis list.set_intros(1) neq_Nil_conv)
  then obtain ss where ss: "length ss = n" "set ss \<subseteq> fst ` set (summary_parents d)" "sorted_wrt (\<lambda>a b. older d b a) ss"
    using level_chain [OF assms(1,2)] by blast
  have "distinct ss" by (rule sorted_wrt_distinct [OF ss(3)]) (rule older_irrefl [OF assms(1)])
  then have "n = card (set ss)" using ss(1) by (simp add: distinct_card)
  also have "\<dots> \<le> card (fst ` set (summary_parents d))" using ss(2) by (intro card_mono) simp_all
  also have "\<dots> \<le> length (summary_parents d)"
    by (meson card_image_le card_length finite_set le_trans)
  finally show False using assms(3) by simp
qed

lemma levels_fuel:
  "(levelStep links ^^ fuel) rows = [] \<Longrightarrow> subtreeLevels fuel links rows \<noteq> None"
proof (induction fuel arbitrary: rows)
  case (Suc fuel)
  have "(levelStep links ^^ fuel) (levelStep links rows) = []"
    using Suc.prems by (simp add: funpow_swap1)
  then have "subtreeLevels fuel links (levelStep links rows) \<noteq> None" by (rule Suc.IH)
  then show ?case by (cases rows) (auto simp: levelStep_def)
qed auto

lemma firstById_distinct:
  "distinct (map sum_id (firstById seen ns)) \<and> seen \<inter> sum_id ` set (firstById seen ns) = {}"
proof (induction ns arbitrary: seen)
  case (Cons n ns)
  show ?case
  proof (cases "sum_id n \<in> seen")
    case True
    then show ?thesis using Cons.IH [of seen] by simp
  next
    case False
    then show ?thesis using Cons.IH [of "insert (sum_id n) seen"] by simp
  qed
qed simp

text \<open>\<open>getSummarySubtree\<close> ends on every database whose links go back in time: the recursive
  query needs no more levels than there are links.\<close>

theorem subtree_terminates:
  assumes "wf_db d" and "links_back d"
  shows "\<exists>nodes. summarySubtree d sid = Some nodes \<and> distinct (map sum_id nodes)"
proof -
  have ids: "distinct (map sum_id (summaries d))" using assms(1) by (simp add: wf_db_def wf_summaries_def)
  have "subtreeLevels (subtreeFuel d) (summary_parents d) [(sid, None, 0, '''')] \<noteq> None"
    by (rule levels_fuel, rule level_bound [OF ids assms(2)]) (simp add: subtreeFuel_def)
  then show ?thesis using firstById_distinct unfolding summarySubtree_def by blast
qed

theorem subtree_terminates_witness:
  "\<exists>nodes. summarySubtree sample_condensable ''A'' = Some nodes \<and> distinct (map sum_id nodes)"
  by (rule subtree_terminates [OF condensable_wf]) (simp add: links_back_def sample_condensable_def sample_database_def empty_database_def)

section \<open>The two directions of a link\<close>

lemma summaryChildren_fresh:
  assumes "wf_db d" and "\<not> hasSummary d s" and "compaction_step n cid d d'" and "hasSummary d' s"
  shows "summaryChildren d' s = []"
proof -
  have new: "\<forall>(_, p, _) \<in> set (summary_parents d). p \<noteq> s"
    using assms(1,2) by (force simp: wf_db_def wf_links_def)
  have "\<forall>(_, p, _) \<in> set (summary_parents d'). p \<noteq> s"
    using assms(3)
  proof cases
    case (condensed_step pre mid suf sids k row d1 fts ord now)
    have "\<forall>x \<in> set sids. hasSummary d x" using condensed_step(3) by (force simp: hasSummary_def)
    then have "\<forall>(_, p, _) \<in> set (linkRows (sum_id row) {} 0 sids). p \<noteq> s"
      using assms(2) by (auto dest!: linkRows_mem)
    then show ?thesis using new condensed_step(9,10) by (auto simp: spliced_def)
  qed (use new in \<open>auto simp: spliced_def\<close>)
  then have "filter (\<lambda>(_, p, _). p = s) (summary_parents d') = []"
    by (auto simp: filter_empty_conv)
  then show ?thesis by (simp add: summaryChildren_def)
qed



end
