(* ===== verification/Store_Effects.thy ===== *)
theory Store_Effects
  imports Sample_Project
begin

text \<open>
  What the operations of the two stores and of the executor do to the rows, on every branch:
  appending and deleting messages, linking, editing the context, validation, the slot markers of
  compaction events, transactions and savepoints.
\<close>

section \<open>Two more rules\<close>

lemma effect_map:
  "effect P m Q \<Longrightarrow> effect P (bindM m (\<lambda>a. ret (f a))) (\<lambda>b x. \<exists>a. b = f a \<and> Q a x)"
  by (rule effect_bind, assumption, rule effect_ret) auto

lemma effect_pure: "local_op m \<Longrightarrow> (c \<Longrightarrow> effect P m Q) \<Longrightarrow> effect (\<lambda>x. P x \<and> c) m Q"
  by (rule effectI) (auto dest: effectD)

section \<open>Appending messages\<close>

lemma effect_insertMessages:
  "effect (\<lambda>x. messages x = pre) (mapM (insertMessage opts) is) (\<lambda>ms x. messages x = pre @ ms
     \<and> list_all2 (\<lambda>i m. \<exists>k now. m = messageRow k i now) is ms)"
proof (induction "is" arbitrary: pre)
  case Nil
  show ?case by (auto intro: effect_ret)
next
  case (Cons i "is")
  have one: "effect (\<lambda>x. messages x = pre) (insertMessage opts i)
      (\<lambda>m x. messages x = pre @ [m] \<and> (\<exists>k now. m = messageRow k i now))"
  proof (rule effectI)
    show "local_op (insertMessage opts i)" by (rule effect_local [OF keeps_insertMessage])
    fix w m w' assume "messages (w_db w) = pre" and "insertMessage opts i w = (Inr m, w')"
    then show "messages (w_db w') = pre @ [m] \<and> (\<exists>k now. m = messageRow k i now)"
      using effectD [OF effect_insertMessage, of w "w_db w" opts i m w'] by auto
  qed
  have more: "effect (\<lambda>x. messages x = pre @ [m] \<and> (\<exists>k now. m = messageRow k i now))
      (bindM (mapM (insertMessage opts) is) (\<lambda>ms. ret (m # ms))) (\<lambda>ms x. messages x = pre @ ms
     \<and> list_all2 (\<lambda>i m. \<exists>k now. m = messageRow k i now) (i # is) ms)" for m
  proof (cases "\<exists>k now. m = messageRow k i now")
    case True
    have "effect (\<lambda>x. messages x = pre @ [m]) (bindM (mapM (insertMessage opts) is) (\<lambda>ms. ret (m # ms)))
      (\<lambda>ms x. messages x = pre @ ms \<and> list_all2 (\<lambda>i m. \<exists>k now. m = messageRow k i now) (i # is) ms)"
      by (rule effect_bind [OF Cons.IH], rule effect_ret) (use True in auto)
    then show ?thesis by (rule effect_conseq) auto
  next
    case False
    show ?thesis
      by (rule effectI) (use False in \<open>auto intro!: local_rules effect_local [OF keeps_insertMessage]\<close>)
  qed
  show ?case unfolding mapM.simps by (rule effect_bind [OF one more])
qed

lemma zip_upt_nth: "list_all2 (\<lambda>(k, i) m. P k i m) (zip [0..<length xs] xs) ys \<longleftrightarrow>
    length ys = length xs \<and> (\<forall>k < length xs. P k (xs ! k) (ys ! k))"
  by (auto simp: list_all2_conv_all_nth)

text \<open>The appended messages carry on the numbering of the conversation, in the order of the inputs.\<close>

definition appended :: "nat \<Rightarrow> append_message_input list \<Rightarrow> nat \<Rightarrow> message_record list \<Rightarrow> bool" where
  "appended cid inputs s ms \<longleftrightarrow> length ms = length inputs
     \<and> (\<forall>k < length inputs. msg_conversationId (ms ! k) = cid \<and> msg_seq (ms ! k) = s + k
        \<and> msg_role (ms ! k) = am_role (inputs ! k) \<and> msg_content (ms ! k) = am_content (inputs ! k)
        \<and> msg_tokenCount (ms ! k) = js_floor_nat (am_tokenCount (inputs ! k)))"

lemma appended_rows:
  assumes "list_all2 (\<lambda>i m. \<exists>k now. m = messageRow k i now)
    (map (\<lambda>(offset, i). appendInput cid (s + offset) i) (zip [0..<length inputs] inputs)) ms"
  shows "appended cid inputs s ms"
  using assms unfolding appended_def
  by (auto simp: list_all2_conv_all_nth messageRow_def appendInput_def js_nat_def)

lemma effect_appendMessages:
  "effect (\<lambda>x. x = d) (appendMessagesCore opts cid inputs)
    (\<lambda>ms x. messages x = messages d @ ms \<and> appended cid inputs (nextSeq d cid) ms)"
proof -
  have bulk: "effect (\<lambda>x. x = d \<and> nextSeq x cid = s) (createMessagesBulkCore opts is)
      (\<lambda>ms x. messages x = messages d @ ms \<and> list_all2 (\<lambda>i m. \<exists>k now. m = messageRow k i now) is ms)" for s "is"
    unfolding createMessagesBulkCore_def
    by (rule effect_if, rule effect_ret, simp,
        rule effect_bind [OF effect_liftE [where Q = "\<lambda>_ x. messages x = messages d"]], simp, rule effect_insertMessages)
  have seq: "effect (\<lambda>x. x = d \<and> nextSeq x cid = s)
      (createMessagesBulkCore opts (map (\<lambda>(offset, i). appendInput cid (s + offset) i) (zip [0..<length inputs] inputs)))
      (\<lambda>ms x. messages x = messages d @ ms \<and> appended cid inputs (nextSeq d cid) ms)" for s
  proof (cases "s = nextSeq d cid")
    case True
    then show ?thesis by - (rule effect_conseq [OF bulk], assumption, simp add: appended_rows)
  next
    case False
    then show ?thesis by (intro effectI [OF effect_local [OF bulk]]) auto
  qed
  show ?thesis
    unfolding appendMessagesCore_def
    by (rule effect_if, rule effect_ret, simp add: appended_def,
        rule effect_bind [OF effect_liftE [where Q = "\<lambda>_ x. x = d"]], simp, rule effect_getDb_then, rule seq)
qed


section \<open>Deleting messages\<close>

text \<open>What remains of a database after deleting the messages \<open>ids\<close> that no summary refers to.\<close>

definition deletable :: "database \<Rightarrow> nat list \<Rightarrow> nat \<Rightarrow> bool" where
  "deletable d ids mid \<longleftrightarrow> mid \<in> set ids \<and> \<not> referencedBySummary d mid"

definition without_messages :: "database \<Rightarrow> nat list \<Rightarrow> database" where
  "without_messages d ids = d\<lparr>
     messages := filter (\<lambda>m. \<not> deletable d ids (msg_id m)) (messages d),
     message_parts := filter (\<lambda>p. \<not> deletable d ids (part_messageId p)) (message_parts d),
     context_items := filter (\<lambda>i. \<not> (ctx_itemType i = MessageItem
       \<and> (\<exists>mid. ctx_messageId i = Some mid \<and> deletable d ids mid))) (context_items d)\<rparr>"

definition deleted :: "database \<Rightarrow> nat list \<Rightarrow> database \<Rightarrow> bool" where
  "deleted d ids x \<longleftrightarrow> x\<lparr>messages_fts := []\<rparr> = (without_messages d ids)\<lparr>messages_fts := []\<rparr>"

lemma deleted_rows:
  assumes "deleted d ids x"
  shows "messages x = messages (without_messages d ids)" and "message_parts x = message_parts (without_messages d ids)"
    and "context_items x = context_items (without_messages d ids)"
    and "summary_messages x = summary_messages d"
proof -
  have "f (x\<lparr>messages_fts := []\<rparr>) = f ((without_messages d ids)\<lparr>messages_fts := []\<rparr>)" for f :: "database \<Rightarrow> 'r"
    using assms by (simp add: deleted_def)
  from this [of messages] this [of message_parts] this [of context_items] this [of summary_messages]
  show "messages x = messages (without_messages d ids)" and "message_parts x = message_parts (without_messages d ids)"
    and "context_items x = context_items (without_messages d ids)"
    and "summary_messages x = summary_messages d"
    by (simp_all add: without_messages_def)
qed

lemma deleted_references: "deleted d ids x \<Longrightarrow> referencedBySummary x = referencedBySummary d"
  by (drule deleted_rows(4)) (simp add: referencedBySummary_def fun_eq_iff)

lemma deletable_snoc: "deletable d (ids @ [mid]) m \<longleftrightarrow> deletable d ids m \<or> (m = mid \<and> \<not> referencedBySummary d mid)"
  by (auto simp: deletable_def)

lemma deleted_skip: "deleted d ids x \<Longrightarrow> referencedBySummary d mid \<Longrightarrow> deleted d (ids @ [mid]) x"
  by (simp add: deleted_def without_messages_def deletable_snoc)

lemma deleted_one:
  assumes x: "deleted d ids x" and r: "\<not> referencedBySummary d mid"
    and y: "y\<lparr>messages_fts := []\<rparr> = x\<lparr>
      context_items := filter (\<lambda>i. \<not> (ctx_itemType i = MessageItem \<and> ctx_messageId i = Some mid)) (context_items x),
      messages := filter (\<lambda>m. msg_id m \<noteq> mid) (messages x),
      message_parts := filter (\<lambda>p. part_messageId p \<noteq> mid) (message_parts x), messages_fts := []\<rparr>"
  shows "deleted d (ids @ [mid]) y"
proof -
  have "filter (\<lambda>m. msg_id m \<noteq> mid) (messages x) = filter (\<lambda>m. \<not> deletable d (ids @ [mid]) (msg_id m)) (messages d)"
    and "filter (\<lambda>p. part_messageId p \<noteq> mid) (message_parts x)
      = filter (\<lambda>p. \<not> deletable d (ids @ [mid]) (part_messageId p)) (message_parts d)"
    and "filter (\<lambda>i. \<not> (ctx_itemType i = MessageItem \<and> ctx_messageId i = Some mid)) (context_items x)
      = filter (\<lambda>i. \<not> (ctx_itemType i = MessageItem
         \<and> (\<exists>m. ctx_messageId i = Some m \<and> deletable d (ids @ [mid]) m))) (context_items d)"
    using r by (auto simp: deleted_rows [OF x] without_messages_def deletable_snoc intro!: filter_cong)
  moreover have "x\<lparr>context_items := A, messages := B, message_parts := C, messages_fts := []\<rparr>
      = d\<lparr>context_items := A, messages := B, message_parts := C, messages_fts := []\<rparr>" for A B C
  proof -
    have "x\<lparr>messages_fts := []\<rparr> = (without_messages d ids)\<lparr>messages_fts := []\<rparr>"
      using x by (simp add: deleted_def)
    then have "(x\<lparr>messages_fts := []\<rparr>)\<lparr>context_items := A, messages := B, message_parts := C\<rparr>
      = ((without_messages d ids)\<lparr>messages_fts := []\<rparr>)\<lparr>context_items := A, messages := B, message_parts := C\<rparr>"
      by argo
    then show ?thesis by (cases x, cases d) (simp add: without_messages_def)
  qed
  ultimately show ?thesis
    unfolding deleted_def y by (simp add: without_messages_def)
qed

lemma effect_deleteMessage:
  "effect (deleted d ids) (deleteMessage opts mid)
    (\<lambda>b x. deleted d (ids @ [mid]) x \<and> b = (\<not> referencedBySummary d mid))"
proof (rule effectI)
  show "local_op (deleteMessage opts mid)" by (rule effect_local [OF keeps_deleteMessage])
  fix w b w' assume d: "deleted d ids (w_db w)" and run: "deleteMessage opts mid w = (Inr b, w')"
  show "deleted d (ids @ [mid]) (w_db w') \<and> b = (\<not> referencedBySummary d mid)"
  proof (cases "referencedBySummary d mid")
    case True
    then show ?thesis
      using run deleted_references [OF d] deleted_skip [OF d]
      by (auto simp: deleteMessage_def bindM_def getDb_def op_apply)
  next
    case False
    have "(w_db w')\<lparr>messages_fts := []\<rparr> = (w_db w)\<lparr>
        context_items := filter (\<lambda>i. \<not> (ctx_itemType i = MessageItem \<and> ctx_messageId i = Some mid)) (context_items (w_db w)),
        messages := filter (\<lambda>m. msg_id m \<noteq> mid) (messages (w_db w)),
        message_parts := filter (\<lambda>p. part_messageId p \<noteq> mid) (message_parts (w_db w)), messages_fts := []\<rparr>" and b
      using run False deleted_references [OF d]
      by (auto simp: deleteMessage_def bindM_def getDb_def setDb_def sqlWrite_def deleteMessageFromFullText_def op_apply
          split: if_splits option.splits)
    then show ?thesis using deleted_one [OF d False] False by simp
  qed
qed


lemma effect_deleteEach:
  "effect (deleted d before) (mapM (deleteMessage opts) ids)
    (\<lambda>flags x. deleted d (before @ ids) x \<and> flags = map (\<lambda>mid. \<not> referencedBySummary d mid) ids)"
proof (induction ids arbitrary: before)
  case Nil
  show ?case by (auto intro: effect_ret)
next
  case (Cons mid ids)
  have more: "effect (\<lambda>x. deleted d (before @ [mid]) x \<and> flag = (\<not> referencedBySummary d mid))
      (bindM (mapM (deleteMessage opts) ids) (\<lambda>flags. ret (flag # flags)))
      (\<lambda>flags x. deleted d (before @ mid # ids) x \<and> flags = map (\<lambda>mid. \<not> referencedBySummary d mid) (mid # ids))" for flag
  proof (rule effect_pure)
    show "local_op (bindM (mapM (deleteMessage opts) ids) (\<lambda>flags. ret (flag # flags)))"
      by (intro local_rules effect_local [OF keeps_deleteMessage])
    show "effect (deleted d (before @ [mid])) (bindM (mapM (deleteMessage opts) ids) (\<lambda>flags. ret (flag # flags)))
      (\<lambda>flags x. deleted d (before @ mid # ids) x \<and> flags = map (\<lambda>mid. \<not> referencedBySummary d mid) (mid # ids))"
      if "flag = (\<not> referencedBySummary d mid)"
      by (rule effect_conseq [OF effect_map [OF Cons.IH]]) (use that in auto)
  qed
  show ?case unfolding mapM.simps by (rule effect_bind [OF effect_deleteMessage more])
qed

lemma deleted_none: "deleted d [] d"
  by (simp add: deleted_def without_messages_def deletable_def)

lemma effect_deleteMessages:
  "effect (\<lambda>x. x = d) (deleteMessagesCore opts ids)
    (\<lambda>n x. deleted d ids x \<and> n = length (filter (\<lambda>mid. \<not> referencedBySummary d mid) ids))"
  unfolding deleteMessagesCore_def
proof (rule effect_if)
  assume "ids = []"
  then show "effect (\<lambda>x. x = d) (ret 0)
      (\<lambda>n x. deleted d ids x \<and> n = length (filter (\<lambda>mid. \<not> referencedBySummary d mid) ids))"
    by (auto intro: effect_ret deleted_none)
next
  have each: "effect (\<lambda>x. x = d) (mapM (deleteMessage opts) ids)
      (\<lambda>flags x. deleted d ids x \<and> flags = map (\<lambda>mid. \<not> referencedBySummary d mid) ids)"
    by (rule effect_conseq [OF effect_deleteEach [where before = "[]" and d = d]]) (simp_all add: deleted_none)
  show "effect (\<lambda>x. x = d) (bindM (mapM (deleteMessage opts) ids) (\<lambda>flags. ret (length (filter id flags))))
      (\<lambda>n x. deleted d ids x \<and> n = length (filter (\<lambda>mid. \<not> referencedBySummary d mid) ids))"
    by (rule effect_bind [OF each], rule effect_ret) (simp add: filter_map comp_def)
qed

end
