(* ===== verification/Sqlite_Repositories.thy ===== *)
theory Sqlite_Repositories
  imports Conversation_Store
begin

text \<open>
  The repositories of \<open>src/storage/sqlite/repositories.ts\<close> over the two stores, with the two
  invokers of \<open>src/storage/sqlite/project-storage.ts\<close>: outside a transaction a call goes through
  \<open>run\<close> or, where the store needs several statements to be one, \<open>runAtomic\<close>; inside a
  transaction through \<open>runScoped\<close> or, with a savepoint, \<open>runAtomicScoped\<close>.  The state of the
  handle (open, closing, closed) and the publication admission are not modelled.
\<close>

datatype invoker = RootInvoker | ScopedInvoker nat

definition invoke :: "invoker \<Rightarrow> bool \<Rightarrow> (world, 'a) op \<Rightarrow> (world, 'a) op" where
  "invoke iv atomic callback = (case iv of
     RootInvoker \<Rightarrow> if atomic then runAtomic callback else run callback
   | ScopedInvoker token \<Rightarrow> if atomic then runAtomicScoped token callback else runScoped token callback)"

text \<open>\<open>SqliteProjectStorage.transaction\<close>: the callback gets the scoped invoker of its token.\<close>

definition storage_transaction :: "(invoker \<Rightarrow> (world, 'a) op) \<Rightarrow> (world, 'a) op" where
  "storage_transaction callback = transaction (\<lambda>token. callback (ScopedInvoker token))"

section \<open>Conversations\<close>

definition repo_createConversation :: "invoker \<Rightarrow> string \<Rightarrow> string option \<Rightarrow> (world, conversation_record) op" where
  "repo_createConversation iv sessionId title = invoke iv False (createConversation sessionId title)"

definition repo_getConversation :: "invoker \<Rightarrow> nat \<Rightarrow> (world, conversation_record option) op" where
  "repo_getConversation iv cid = invoke iv False (getConversation cid)"

definition repo_getConversationBySessionId :: "invoker \<Rightarrow> string \<Rightarrow> (world, conversation_record option) op" where
  "repo_getConversationBySessionId iv sessionId = invoke iv False (getConversationBySessionId sessionId)"

definition repo_getOrCreateConversation :: "invoker \<Rightarrow> string \<Rightarrow> string option \<Rightarrow> (world, conversation_record) op" where
  "repo_getOrCreateConversation iv sessionId title = invoke iv False (getOrCreateConversation sessionId title)"

definition repo_markConversationBootstrapped :: "invoker \<Rightarrow> nat \<Rightarrow> (world, unit) op" where
  "repo_markConversationBootstrapped iv cid = invoke iv False (markConversationBootstrapped cid)"

definition repo_setParentSessionIdIfNull :: "invoker \<Rightarrow> nat \<Rightarrow> string \<Rightarrow> (world, unit) op" where
  "repo_setParentSessionIdIfNull iv cid parentSessionId = invoke iv False (setParentSessionIdIfNull cid parentSessionId)"

definition repo_listConversations :: "invoker \<Rightarrow> (world, conversation_record list) op" where
  "repo_listConversations iv = invoke iv False listConversations"

definition repo_createMessage :: "invoker \<Rightarrow> store_options \<Rightarrow> create_message_input \<Rightarrow> (world, message_record) op" where
  "repo_createMessage iv opts input = invoke iv False (createMessage opts input)"

definition repo_createMessagesBulk ::
  "invoker \<Rightarrow> store_options \<Rightarrow> create_message_input list \<Rightarrow> (world, message_record list) op" where
  "repo_createMessagesBulk iv opts inputs = (if inputs = [] then ret []
     else prevalidated (validateMessageInputs inputs) (invoke iv True (createMessagesBulkCore opts inputs)))"

definition repo_appendMessages ::
  "invoker \<Rightarrow> store_options \<Rightarrow> nat \<Rightarrow> append_message_input list \<Rightarrow> (world, message_record list) op" where
  "repo_appendMessages iv opts cid inputs = (if inputs = [] then ret []
     else prevalidated (validateAppendTokenCounts inputs) (invoke iv True (appendMessagesCore opts cid inputs)))"

definition repo_getMessages :: "invoker \<Rightarrow> nat \<Rightarrow> int option \<Rightarrow> int option \<Rightarrow> (world, message_record list) op" where
  "repo_getMessages iv cid afterSeq limit = invoke iv False (getMessages cid afterSeq limit)"

definition repo_getLastMessage :: "invoker \<Rightarrow> nat \<Rightarrow> (world, message_record option) op" where
  "repo_getLastMessage iv cid = invoke iv False (getLastMessage cid)"

definition repo_hasMessage :: "invoker \<Rightarrow> nat \<Rightarrow> message_role \<Rightarrow> string \<Rightarrow> (world, bool) op" where
  "repo_hasMessage iv cid role content = invoke iv False (hasMessage cid role content)"

definition repo_countMessagesByIdentity :: "invoker \<Rightarrow> nat \<Rightarrow> message_role \<Rightarrow> string \<Rightarrow> (world, nat) op" where
  "repo_countMessagesByIdentity iv cid role content = invoke iv False (countMessagesByIdentity cid role content)"

definition repo_getMessageById :: "invoker \<Rightarrow> nat \<Rightarrow> (world, message_record option) op" where
  "repo_getMessageById iv mid = invoke iv False (getMessageById mid)"

definition repo_createMessageParts :: "invoker \<Rightarrow> nat \<Rightarrow> create_message_part_input list \<Rightarrow> (world, unit) op" where
  "repo_createMessageParts iv mid parts = (if parts = [] then ret ()
     else prevalidated (validateMessageParts parts) (invoke iv True (createMessagePartsCore mid parts)))"

definition repo_getMessageParts :: "invoker \<Rightarrow> nat \<Rightarrow> (world, message_part_record list) op" where
  "repo_getMessageParts iv mid = invoke iv False (getMessageParts mid)"

definition repo_getMessageCount :: "invoker \<Rightarrow> nat \<Rightarrow> (world, nat) op" where
  "repo_getMessageCount iv cid = invoke iv False (getMessageCount cid)"

definition repo_getMessageCountBySessionId :: "invoker \<Rightarrow> string \<Rightarrow> (world, nat) op" where
  "repo_getMessageCountBySessionId iv sessionId = invoke iv False (getMessageCountBySessionId sessionId)"

definition repo_getMaxSeq :: "invoker \<Rightarrow> nat \<Rightarrow> (world, nat) op" where
  "repo_getMaxSeq iv cid = invoke iv False (getMaxSeq cid)"

definition repo_getTranscriptSlotSnapshot :: "invoker \<Rightarrow> string \<Rightarrow> (world, transcript_slot_snapshot) op" where
  "repo_getTranscriptSlotSnapshot iv sessionId = invoke iv False (getTranscriptSlotSnapshot sessionId)"

definition repo_deleteMessages :: "invoker \<Rightarrow> store_options \<Rightarrow> nat list \<Rightarrow> (world, nat) op" where
  "repo_deleteMessages iv opts ids = (if ids = [] then ret 0 else invoke iv True (deleteMessagesCore opts ids))"

section \<open>Summaries\<close>

definition repo_insertSummary :: "invoker \<Rightarrow> store_options \<Rightarrow> create_summary_input \<Rightarrow> (world, summary_record) op" where
  "repo_insertSummary iv opts input = invoke iv False (insertSummary opts input)"

definition repo_getSummary :: "invoker \<Rightarrow> string \<Rightarrow> (world, summary_record option) op" where
  "repo_getSummary iv sid = invoke iv False (getSummary sid)"

definition repo_getSummariesByConversation :: "invoker \<Rightarrow> nat \<Rightarrow> (world, summary_record list) op" where
  "repo_getSummariesByConversation iv cid = invoke iv False (getSummariesByConversation cid)"

definition repo_listRecentSummaries :: "invoker \<Rightarrow> int \<Rightarrow> (world, summary_record list) op" where
  "repo_listRecentSummaries iv limit = invoke iv False (listRecentSummaries limit)"

definition repo_listRecentSummariesForSession :: "invoker \<Rightarrow> string \<Rightarrow> int \<Rightarrow> (world, summary_record list) op" where
  "repo_listRecentSummariesForSession iv sessionId limit = invoke iv False (listRecentSummariesForSession sessionId limit)"

definition repo_linkSummaryToMessages :: "invoker \<Rightarrow> string \<Rightarrow> nat list \<Rightarrow> (world, unit) op" where
  "repo_linkSummaryToMessages iv sid messageIds = invoke iv False (linkSummaryToMessages sid messageIds)"

definition repo_linkSummaryToParents :: "invoker \<Rightarrow> string \<Rightarrow> string list \<Rightarrow> (world, unit) op" where
  "repo_linkSummaryToParents iv sid parentIds = invoke iv False (linkSummaryToParents sid parentIds)"

definition repo_getSummaryMessages :: "invoker \<Rightarrow> string \<Rightarrow> (world, nat list) op" where
  "repo_getSummaryMessages iv sid = invoke iv False (getSummaryMessages sid)"

definition repo_getSummaryChildren :: "invoker \<Rightarrow> string \<Rightarrow> (world, summary_record list) op" where
  "repo_getSummaryChildren iv sid = invoke iv False (getSummaryChildren sid)"

definition repo_getSummaryParents :: "invoker \<Rightarrow> string \<Rightarrow> (world, summary_record list) op" where
  "repo_getSummaryParents iv sid = invoke iv False (getSummaryParents sid)"

definition repo_getSummarySubtree :: "invoker \<Rightarrow> string \<Rightarrow> (world, summary_subtree_node list) op" where
  "repo_getSummarySubtree iv sid = invoke iv False (getSummarySubtree sid)"

section \<open>Context and large files\<close>

definition repo_getContextItems :: "invoker \<Rightarrow> nat \<Rightarrow> (world, context_item_record list) op" where
  "repo_getContextItems iv cid = invoke iv False (getContextItems cid)"

definition repo_getDistinctDepthsInContext :: "invoker \<Rightarrow> nat \<Rightarrow> js_number option \<Rightarrow> (world, nat list) op" where
  "repo_getDistinctDepthsInContext iv cid maxOrdinalExclusive =
     invoke iv False (getDistinctDepthsInContext cid maxOrdinalExclusive)"

definition repo_appendContextMessage :: "invoker \<Rightarrow> nat \<Rightarrow> nat \<Rightarrow> (world, unit) op" where
  "repo_appendContextMessage iv cid mid = invoke iv False (appendContextMessage cid mid)"

definition repo_appendContextMessages :: "invoker \<Rightarrow> nat \<Rightarrow> nat list \<Rightarrow> (world, unit) op" where
  "repo_appendContextMessages iv cid messageIds = invoke iv False (appendContextMessages cid messageIds)"

definition repo_appendContextSummary :: "invoker \<Rightarrow> nat \<Rightarrow> string \<Rightarrow> (world, unit) op" where
  "repo_appendContextSummary iv cid sid = invoke iv False (appendContextSummary cid sid)"

definition repo_replaceContextRangeWithSummary ::
  "invoker \<Rightarrow> nat \<Rightarrow> (int \<times> int) option \<Rightarrow> string \<Rightarrow> (world, unit) op" where
  "repo_replaceContextRangeWithSummary iv cid bounds sid =
     invoke iv False (replaceContextRangeWithSummary cid bounds sid)"

definition repo_getContextTokenCount :: "invoker \<Rightarrow> nat \<Rightarrow> (world, nat) op" where
  "repo_getContextTokenCount iv cid = invoke iv False (getContextTokenCount cid)"

definition repo_insertLargeFile :: "invoker \<Rightarrow> large_file_record \<Rightarrow> (world, large_file_record) op" where
  "repo_insertLargeFile iv input = invoke iv False (insertLargeFile input)"

definition repo_getLargeFile :: "invoker \<Rightarrow> string \<Rightarrow> (world, large_file_record option) op" where
  "repo_getLargeFile iv fid = invoke iv False (getLargeFile fid)"

definition repo_getLargeFilesByConversation :: "invoker \<Rightarrow> nat \<Rightarrow> (world, large_file_record list) op" where
  "repo_getLargeFilesByConversation iv cid = invoke iv False (getLargeFilesByConversation cid)"

end
