(* ===== verification/Repository_Facts.thy ===== *)
theory Repository_Facts
  imports Store_Effects Sqlite_Repositories
begin

text \<open>
  What a caller of the repositories may rely on: the effect of each writing operation, that the
  constraints survive any sequence of calls, and what the executor does with failures and with
  calls outside their scope.
\<close>

section \<open>Calls from outside a transaction\<close>

lemma triple_root:
  assumes "effect (\<lambda>x. x = d) m Q" and "atomic"
  shows "triple (settled d) (invoke RootInvoker atomic m)
     (\<lambda>a w. settled (w_db w) w \<and> w_saved w = [] \<and> Q a (w_db w)) (settled d)"
  using triple_runAtomic [OF assms(1), of d] assms(2) by (simp add: invoke_def)

text \<open>The outcome of an atomic call: the described database, or the old one.\<close>

lemma root_outcome:
  assumes "settled d w" and "triple (settled d) m (\<lambda>a w. settled (w_db w) w \<and> w_saved w = [] \<and> Q a (w_db w)) (settled d)"
    and "m w = (r, w')"
  shows "case r of Inl e \<Rightarrow> settled d w' | Inr a \<Rightarrow> settled (durable w') w' \<and> Q a (durable w')"
proof (cases r)
  case (Inl e)
  then show ?thesis using triple_error [OF assms(2,1)] assms(3) by auto
next
  case (Inr a)
  then have "settled (w_db w') w'" and "Q a (w_db w')"
    using triple_value [OF assms(2,1)] assms(3) by auto
  then show ?thesis using Inr settled_durable by fastforce
qed

text \<open>Appending messages outside a transaction stores either nothing or all of them, behind the
  stored ones, in the order of the inputs and numbered from the next sequence number on.\<close>

theorem appendMessages_spec:
  assumes "settled d w" and "repo_appendMessages RootInvoker opts cid inputs w = (r, w')"
  shows "case r of Inl e \<Rightarrow> settled d w'
    | Inr ms \<Rightarrow> settled (durable w') w' \<and> messages (durable w') = messages d @ ms
        \<and> appended cid inputs (nextSeq d cid) ms"
proof (cases "inputs = []")
  case True
  then show ?thesis
    using assms settled_durable [OF assms(1)] by (auto simp: repo_appendMessages_def op_apply appended_def)
next
  case False
  have "triple (settled d) (repo_appendMessages RootInvoker opts cid inputs)
      (\<lambda>ms w. settled (w_db w) w \<and> w_saved w = [] \<and> (messages (w_db w) = messages d @ ms
        \<and> appended cid inputs (nextSeq d cid) ms)) (settled d)"
    unfolding repo_appendMessages_def if_not_P [OF False]
    by (rule triple_prevalidated [OF triple_root [OF effect_appendMessages TrueI]]) simp
  from root_outcome [OF assms(1) this assms(2)] show ?thesis by simp
qed

theorem appendMessages_spec_witness:
  "\<exists>r w'. repo_appendMessages RootInvoker (eng_options sample_engine) 1
        [\<lparr>am_role = UserRole, am_content = ''hi'', am_tokenCount = Num 1\<rparr>] (fresh_world sample_database) = (r, w')
    \<and> (case r of Inl e \<Rightarrow> settled sample_database w'
       | Inr ms \<Rightarrow> settled (durable w') w' \<and> messages (durable w') = messages sample_database @ ms
        \<and> appended 1 [\<lparr>am_role = UserRole, am_content = ''hi'', am_tokenCount = Num 1\<rparr>] (nextSeq sample_database 1) ms)"
  using appendMessages_spec [OF settled_fresh] by (meson surj_pair)



lemma sample_delete: "map_sum id id (fst (repo_deleteMessages RootInvoker (eng_options sample_engine) [1, 9] (fresh_world sample_database))) = Inr 2"
  by code_simp


section \<open>Calls without a transaction of their own\<close>

lemma triple_run:
  assumes "triple (\<lambda>w. settled d w \<and> \<not> w_poisoned w) m Q E" and "\<And>w. settled d w \<Longrightarrow> E w"
  shows "triple (settled d) (run m) Q E"
proof -
  have "triple (\<lambda>w. settled d w \<and> \<not> w_poisoned w) (enqueue False m) Q E"
    unfolding enqueue_def
    by (rule triple_normalized, simp, rule triple_usable, rule triple_pre_imp [OF assms(1)]) (auto intro: assms(2))
  then show ?thesis
    unfolding run_def
    by - (rule triple_getW, rule triple_if, rule triple_throw, rule assms(2), simp, rule triple_usable,
        rule triple_pre_imp, assumption, auto intro: assms(2))
qed

text \<open>A usable executor: settled and not poisoned.\<close>

definition usable :: "database \<Rightarrow> world \<Rightarrow> bool" where
  "usable d w \<longleftrightarrow> settled d w \<and> \<not> w_poisoned w"

lemma usable_fields: "usable d w \<Longrightarrow> w_saved w = [] \<and> w_ctx w = None \<and> w_db w = d"
  by (auto simp: usable_def settled_def durable_def split: if_splits)

lemma usable_outside: "usable d w \<Longrightarrow> outside w' = outside w \<Longrightarrow> usable (w_db w') w'"
  by (auto simp: usable_def settled_def durable_def dest: outside_fields)

lemma run_usable: "usable d w \<Longrightarrow> run m w = normalized m w"
  by (simp add: usable_def settled_def run_def enqueue_def normalized_def catchM_def assertUsable_def bindM_def op_apply)

lemma root_read: "usable d w \<Longrightarrow> invoke RootInvoker False (getDb f) w = (Inr (f d), w)"
  using usable_fields [of d w]
  by (simp add: invoke_def run_usable normalized_def catchM_def getDb_def)

lemma root_usable:
  assumes "usable d w" and "invoke RootInvoker False m w = (r, w')" and "effect (\<lambda>x. x = d) m Q"
  shows "usable (w_db w') w' \<and> (\<forall>a. r = Inr a \<longrightarrow> Q a (w_db w'))"
proof -
  have d: "w_db w = d" using usable_fields [OF assms(1)] by simp
  have n: "normalized m w = (r, w')" using assms(2) by (simp add: invoke_def run_usable [OF assms(1)])
  obtain r0 where m: "m w = (r0, w')" and r: "\<forall>a. r = Inr a \<longrightarrow> r0 = Inr a"
    using n by (auto simp: normalized_def catchM_def op_apply split: prod.splits sum.splits)
  have "usable (w_db w') w'"
    using usable_outside [OF assms(1) local_opD [OF effect_local [OF assms(3)] m]] .
  moreover have "Q a (w_db w')" if "r = Inr a" for a
    using effectD [OF assms(3) d, of a w'] m r that by auto
  ultimately show ?thesis by blast
qed

text \<open>The links of a summary that has none yet are read back as they were written: the message
  ids in the given order, each once.\<close>

theorem linkMessages_roundtrip:
  assumes "usable d w" and "linkedBefore (summary_messages d) sid = {}"
    and "repo_linkSummaryToMessages RootInvoker sid ms w = (Inr u, w')"
  shows "repo_getSummaryMessages RootInvoker sid w' = (Inr (dedupe_from {} ms), w')"
proof -
  have "usable (w_db w') w'" and d': "w_db w' = d\<lparr>summary_messages :=
      summary_messages d @ linkRows sid (linkedBefore (summary_messages d) sid) 0 ms\<rparr>"
    using root_usable [OF assms(1) assms(3) [unfolded repo_linkSummaryToMessages_def] effect_linkSummaryToMessages] by auto
  moreover have "summaryMessageIds (w_db w') sid = dedupe_from {} ms"
    using link_roundtrip [of "summary_messages d" sid ms] assms(2)
    by (force simp: d' summaryMessageIds_def linkedBefore_def)
  ultimately show ?thesis
    unfolding repo_getSummaryMessages_def getSummaryMessages_def by (simp only: root_read)
qed

lemma usable_fresh: "usable d (fresh_world d)"
  by (simp add: usable_def settled_fresh) (simp add: fresh_world_def)

theorem linkMessages_roundtrip_witness:
  "\<exists>w'. repo_linkSummaryToMessages RootInvoker ''A'' [2, 1, 2] (fresh_world (sample_condensable\<lparr>summary_messages := []\<rparr>)) = (Inr (), w')
    \<and> repo_getSummaryMessages RootInvoker ''A'' w' = (Inr [2, 1], w')"
proof -
  obtain r w' where run: "repo_linkSummaryToMessages RootInvoker ''A'' [2, 1, 2] (fresh_world (sample_condensable\<lparr>summary_messages := []\<rparr>)) = (r, w')"
    by (rule prod.exhaust)
  have "map_sum id id (fst (repo_linkSummaryToMessages RootInvoker ''A'' [2, 1, 2] (fresh_world (sample_condensable\<lparr>summary_messages := []\<rparr>)))) = Inr ()"
    by code_simp
  then have r: "r = Inr ()" using run by (cases r) auto
  have "linkedBefore (summary_messages (sample_condensable\<lparr>summary_messages := []\<rparr>)) ''A'' = {}"
    by (simp add: linkedBefore_def)
  from linkMessages_roundtrip [OF usable_fresh this run [unfolded r]] show ?thesis
    using run r by simp
qed

text \<open>Appending to a context, outside a transaction, with a usable executor, an existing
  conversation and stored messages always succeeds: the messages follow the context in the given
  order and no other context changes.\<close>

theorem appendContext_spec:
  assumes "usable d w" and "wf_db d" and "hasConversation d cid" and "\<forall>m \<in> set ms. hasMessage_row d m"
  shows "\<exists>w'. repo_appendContextMessages RootInvoker cid ms w = (Inr (), w') \<and> usable (w_db w') w'
    \<and> refs (w_db w') cid = refs d cid @ map MsgRef ms
    \<and> (\<forall>c. c \<noteq> cid \<longrightarrow> contextItems (w_db w') c = contextItems d c)"
proof -
  have d: "w_db w = d" using usable_fields [OF assms(1)] by simp
  obtain d' n where run: "appendContextMessages cid ms w = (Inr (), w\<lparr>w_db := d', w_reads := n\<rparr>)"
    and grown: "grown d cid (map MsgRef ms) d'"
    using appendContextMessages_run [of w cid ms] wf_context_ok [OF assms(2)] assms(3,4) d by auto
  have "repo_appendContextMessages RootInvoker cid ms w = (Inr (), w\<lparr>w_db := d', w_reads := n\<rparr>)"
    by (simp add: repo_appendContextMessages_def invoke_def run_usable [OF assms(1)] normalized_def catchM_def run)
  moreover have "usable d' (w\<lparr>w_db := d', w_reads := n\<rparr>)"
    using usable_outside [OF assms(1), of "w\<lparr>w_db := d', w_reads := n\<rparr>"] by (simp add: outside_def)
  ultimately show ?thesis using grown by (auto simp: grown_def)
qed


theorem appendContext_spec_witness:
  "\<exists>w'. repo_appendContextMessages RootInvoker 1 [1] (fresh_world sample_database) = (Inr (), w')
    \<and> refs (w_db w') 1 = [MsgRef 1, MsgRef 2, MsgRef 3, MsgRef 1]"
proof -
  have "hasConversation sample_database 1" and "\<forall>m \<in> set [1]. hasMessage_row sample_database m"
    by (simp_all add: hasConversation_def hasMessage_row_def sample_database_def sample_message_def)
  from appendContext_spec [OF usable_fresh sample_wf this] show ?thesis
    by (auto simp: sample_refs)
qed

section \<open>Constraints after a failure half-way\<close>

text \<open>
  Outside a transaction every statement commits by itself, so a call that fails half-way leaves
  what it has written.  \<open>stays m\<close>: the constraints hold however \<open>m\<close> ends.
\<close>

definition stays :: "(world, 'a) op \<Rightarrow> bool" where
  "stays m \<longleftrightarrow> local_op m \<and> (\<forall>w :: world. wf_db (w_db w) \<longrightarrow> wf_db (w_db (snd (m w))))"

definition clean :: "(world, 'a) op \<Rightarrow> bool" where
  "clean m \<longleftrightarrow> (\<forall>w e (w' :: world). m w = (Inl e, w') \<longrightarrow> w_db w' = w_db w)"

definition silent :: "(world, 'a) op \<Rightarrow> bool" where
  "silent m \<longleftrightarrow> (\<forall>w :: world. w_db (snd (m w)) = w_db w)"

definition total :: "(world, 'a) op \<Rightarrow> bool" where
  "total m \<longleftrightarrow> (\<forall>w. \<exists>a. fst (m w) = Inr a)"

named_theorems silent_rules \<open>operations that write no row\<close>
named_theorems total_rules \<open>operations that never throw\<close>
named_theorems clean_rules \<open>operations that write nothing when they throw\<close>
named_theorems stays_rules \<open>operations that keep the constraints\<close>

lemma silent_basic [silent_rules]:
  "silent (ret a)" "silent (throw e)" "silent (getDb f)" "silent sqlNow" "silent randomUUID" "silent (liftE r)"
  by (auto simp: silent_def op_apply getDb_def sqlNow_def randomUUID_def) (cases r; simp add: op_apply)

lemma total_basic [total_rules]:
  "total (ret a)" "total (getDb f)" "total (setDb g)" "total sqlNow"
  by (auto simp: total_def op_apply getDb_def setDb_def sqlNow_def)

lemma total_if [total_rules]: "total m \<Longrightarrow> total n \<Longrightarrow> total (if c then m else n)"
  by simp

lemma total_bind [total_rules]:
  assumes "total m" and "\<And>a. total (k a)"
  shows "total (bindM m k)"
  unfolding total_def
proof
  fix w
  obtain a w' where "m w = (Inr a, w')" using assms(1) by (metis total_def prod.collapse)
  then show "\<exists>b. fst (bindM m k w) = Inr b" using assms(2) by (simp add: bindM_Inr total_def)
qed

lemma clean_total: "total m \<Longrightarrow> clean m"
  by (metis total_def clean_def fst_conv Inl_Inr_False)

lemma clean_silent: "silent m \<Longrightarrow> clean m"
  by (metis silent_def clean_def snd_conv)

lemma clean_sqlWrite [clean_rules]: "clean (sqlWrite v f)"
  by (auto simp: clean_def sqlWrite_def bindM_def getDb_def setDb_def op_apply split: option.splits)

lemma clean_first:
  assumes "silent m" and "\<And>a. clean (k a)"
  shows "clean (bindM m k)"
  unfolding clean_def
proof (intro allI impI)
  fix w e and w' :: world assume run: "bindM m k w = (Inl e, w')"
  obtain r v where m: "m w = (r, v)" by (rule prod.exhaust)
  have v: "w_db v = w_db w" using assms(1) m by (metis silent_def snd_conv)
  show "w_db w' = w_db w"
  proof (cases r)
    case (Inl e')
    then show ?thesis using run m v by (simp add: bindM_Inl)
  next
    case (Inr a)
    then have "k a v = (Inl e, w')" using run m by (simp add: bindM_Inr)
    then show ?thesis using assms(2) v by (metis clean_def)
  qed
qed

lemma clean_last:
  assumes "clean m" and "\<And>a. total (k a)"
  shows "clean (bindM m k)"
  unfolding clean_def
proof (intro allI impI)
  fix w e and w' :: world assume run: "bindM m k w = (Inl e, w')"
  obtain r v where m: "m w = (r, v)" by (rule prod.exhaust)
  show "w_db w' = w_db w"
  proof (cases r)
    case (Inl e')
    then show ?thesis using run m assms(1) by (auto simp: bindM_Inl clean_def)
  next
    case (Inr a)
    obtain b where "fst (k a v) = Inr b" using assms(2) by (auto simp: total_def)
    then show ?thesis using run m Inr by (simp add: bindM_Inr)
  qed
qed

lemma stays_clean: "keeps_wf m \<Longrightarrow> clean m \<Longrightarrow> stays m"
  unfolding stays_def
proof (intro conjI allI impI)
  assume k: "keeps_wf m" and c: "clean m"
  show "local_op m" by (rule effect_local [OF k])
  fix w :: world assume wf: "wf_db (w_db w)"
  obtain r w' where m: "m w = (r, w')" by (rule prod.exhaust)
  show "wf_db (w_db (snd (m w)))"
    using c wf effectD [OF k wf] m by (cases r) (auto simp: clean_def)
qed

lemma stays_bind:
  assumes "stays m" and "\<And>a. stays (k a)"
  shows "stays (bindM m k)"
  unfolding stays_def
proof (intro conjI allI impI)
  show "local_op (bindM m k)" using assms by (auto simp: stays_def intro: local_bind)
  fix w :: world assume wf: "wf_db (w_db w)"
  obtain r v where m: "m w = (r, v)" by (rule prod.exhaust)
  then have "wf_db (w_db v)" using assms(1) wf by (metis stays_def snd_conv)
  then show "wf_db (w_db (snd (bindM m k w)))"
    using assms(2) m by (cases r) (simp_all add: bindM_Inl bindM_Inr stays_def)
qed

lemma stays_basic [stays_rules]: "stays (ret a)" "stays (throw e)" "stays (liftE r)" "stays sqlNow" "stays (getDb f)"
  by (intro stays_clean keeps clean_silent silent_rules)+


lemma silent_bind [silent_rules]:
  assumes "silent m" and "\<And>a. silent (k a)"
  shows "silent (bindM m k)"
  unfolding silent_def
proof
  fix w :: world
  obtain r v where m: "m w = (r, v)" by (rule prod.exhaust)
  then have "w_db v = w_db w" using assms(1) by (metis silent_def snd_conv)
  then show "w_db (snd (bindM m k w)) = w_db w"
    using assms(2) m by (cases r) (simp_all add: bindM_Inl bindM_Inr silent_def)
qed

lemma clean_insertMessage [clean_rules]: "clean (insertMessage opts i)"
  unfolding insertMessage_def indexMessageForFullText_def
  by (intro clean_first [OF silent_basic(4)] clean_first [OF silent_basic(3)] clean_last clean_rules total_rules)

lemma clean_createConversation [clean_rules]: "clean (createConversation sessionId title)"
  unfolding createConversation_def Let_def
  by (intro clean_first [OF silent_basic(6)] clean_total total_rules)

lemma clean_getOrCreate [clean_rules]: "clean (getOrCreateConversation sessionId title)"
  unfolding getOrCreateConversation_def getConversationBySessionId_def
  by (rule clean_first [OF silent_basic(6)], rule clean_first, intro silent_rules)
    (auto split: option.split intro: clean_rules clean_total total_rules)

lemma clean_insertSummary [clean_rules]: "clean (insertSummary opts input)"
  unfolding insertSummary_def Let_def
  by (intro clean_first [OF silent_basic(4)] clean_last clean_rules total_rules)

lemma valid_ref_files: "valid_ref (d\<lparr>large_files := x\<rparr>) r = valid_ref d r"
  by (cases r) (simp_all add: hasMessage_row_def hasSummary_def)

lemma wf_files: "wf_db d \<Longrightarrow> wf_db (d\<lparr>large_files := x\<rparr>)"
  by (simp add: wf_db_def wf_parts_of_db hasConversation_def hasMessage_row_def hasSummary_def ctx_ok_rows valid_ref_files)

lemma keeps_insertLargeFile [keeps]: "keeps_wf (insertLargeFile input)"
  unfolding insertLargeFile_def Let_def by (intro keeps keeps_sqlWrite wf_files)

lemma stays_one [stays_rules]:
  "stays (createConversation sessionId title)" "stays (getOrCreateConversation sessionId title)"
  "stays (markConversationBootstrapped cid)" "stays (setParentSessionIdIfNull cid parentSessionId)"
  "stays (createMessage opts i)" "stays (insertSummary opts input)"
  "stays (linkMessage sid mid ordinal)" "stays (linkParent sid pid ordinal)"
  "stays (appendContextMessage cid mid)" "stays (appendContextSummary cid sid)" "stays (insertLargeFile f)"
  by (intro stays_clean keeps clean_rules;
      (unfold markConversationBootstrapped_def setParentSessionIdIfNull_def createMessage_def linkMessage_def
        linkParent_def appendContextMessage_def appendContextSummary_def insertContextRow_def insertLargeFile_def Let_def)?;
      intro clean_first [OF silent_basic(6)] clean_first [OF silent_basic(3)] clean_first [OF silent_basic(4)]
        clean_last clean_rules clean_total [OF total_basic(3)] total_rules)+

lemma stays_linkMessagesFrom: "stays (linkMessagesFrom sid idx ms)"
  by (induction ms arbitrary: idx) (auto intro!: stays_bind stays_rules)

lemma stays_linkParentsFrom: "stays (linkParentsFrom sid idx ps)"
  by (induction ps arbitrary: idx) (auto intro!: stays_bind stays_rules)

lemma stays_links [stays_rules]: "stays (linkSummaryToMessages sid ms)" "stays (linkSummaryToParents sid ps)"
  by (auto simp: linkSummaryToMessages_def linkSummaryToParents_def
      intro: stays_rules stays_linkMessagesFrom stays_linkParentsFrom)

lemma stays_appendContextMessagesFrom: "0 \<le> ord \<Longrightarrow> stays (appendContextMessagesFrom cid ord ms)"
proof (induction ms arbitrary: ord)
  case (Cons m ms)
  have "stays (insertContextRow (messageContextRow cid ord m now))" for now
    using Cons.prems
    by (intro stays_clean keeps_insertContextRow)
      (simp_all add: messageContextRow_def ref_of_def insertContextRow_def clean_rules)
  then show ?case using Cons by (auto intro!: stays_bind stays_rules)
qed (simp add: stays_rules)

lemma stays_appendContextMessages [stays_rules]: "stays (appendContextMessages cid ms)"
  unfolding stays_def
proof (intro conjI allI impI)
  show "local_op (appendContextMessages cid ms)" by (rule effect_local [OF keeps_appendContextMessages])
  fix w :: world assume wf: "wf_db (w_db w)"
  have "stays (appendContextMessagesFrom cid (maxOrdinal (w_db w) cid + 1) ms)"
    by (rule stays_appendContextMessagesFrom [OF maxOrdinal_wf [OF wf]])
  then show "wf_db (w_db (snd (appendContextMessages cid ms w)))"
    using wf by (simp add: appendContextMessages_def op_apply bindM_def getDb_def stays_def)
qed


section \<open>Any sequence of calls\<close>

text \<open>
  A call of a writing repository operation from outside a transaction, with any outcome; the
  replacement of a context range, which opens a transaction by itself, has its own theorem below.
\<close>

inductive repository_call :: "store_options \<Rightarrow> world \<Rightarrow> world \<Rightarrow> bool" for opts where
  call_createConversation: "repo_createConversation RootInvoker sessionId title w = (r1, w') \<Longrightarrow> repository_call opts w w'"
| call_getOrCreateConversation: "repo_getOrCreateConversation RootInvoker sessionId title w = (r1, w') \<Longrightarrow> repository_call opts w w'"
| call_markConversationBootstrapped: "repo_markConversationBootstrapped RootInvoker cid w = (r2, w') \<Longrightarrow> repository_call opts w w'"
| call_setParentSessionIdIfNull: "repo_setParentSessionIdIfNull RootInvoker cid sessionId w = (r2, w') \<Longrightarrow> repository_call opts w w'"
| call_createMessage: "repo_createMessage RootInvoker opts input w = (r3, w') \<Longrightarrow> repository_call opts w w'"
| call_createMessagesBulk: "repo_createMessagesBulk RootInvoker opts inputs w = (r4, w') \<Longrightarrow> repository_call opts w w'"
| call_appendMessages: "repo_appendMessages RootInvoker opts cid appends w = (r4, w') \<Longrightarrow> repository_call opts w w'"
| call_createMessageParts: "repo_createMessageParts RootInvoker mid parts w = (r2, w') \<Longrightarrow> repository_call opts w w'"
| call_deleteMessages: "repo_deleteMessages RootInvoker opts mids w = (r5, w') \<Longrightarrow> repository_call opts w w'"
| call_insertSummary: "repo_insertSummary RootInvoker opts summary w = (r6, w') \<Longrightarrow> repository_call opts w w'"
| call_linkSummaryToMessages: "repo_linkSummaryToMessages RootInvoker sid mids w = (r2, w') \<Longrightarrow> repository_call opts w w'"
| call_linkSummaryToParents: "repo_linkSummaryToParents RootInvoker sid sids w = (r2, w') \<Longrightarrow> repository_call opts w w'"
| call_appendContextMessage: "repo_appendContextMessage RootInvoker cid mid w = (r2, w') \<Longrightarrow> repository_call opts w w'"
| call_appendContextMessages: "repo_appendContextMessages RootInvoker cid mids w = (r2, w') \<Longrightarrow> repository_call opts w w'"
| call_appendContextSummary: "repo_appendContextSummary RootInvoker cid sid w = (r2, w') \<Longrightarrow> repository_call opts w w'"
| call_insertLargeFile: "repo_insertLargeFile RootInvoker file w = (r7, w') \<Longrightarrow> repository_call opts w w'"

definition sound :: "world \<Rightarrow> bool" where
  "sound w \<longleftrightarrow> settled (durable w) w \<and> wf_db (durable w)"

lemma sound_settled: "settled d w \<Longrightarrow> wf_db d \<Longrightarrow> sound w"
  using settled_durable by (auto simp: sound_def)

lemma sound_run: "stays m \<Longrightarrow> sound w \<Longrightarrow> invoke RootInvoker False m w = (r, w') \<Longrightarrow> sound w'"
proof (cases "w_poisoned w")
  case True
  assume "sound w" and "invoke RootInvoker False m w = (r, w')"
  moreover have "w' = w" using True calculation(2)
    by (auto simp: invoke_def run_def assertUsable_def op_apply bindM_def split: if_splits)
  ultimately show ?thesis by simp
next
  case False
  assume s: "stays m" and w: "sound w" and run: "invoke RootInvoker False m w = (r, w')"
  have u: "usable (durable w) w" using w False by (simp add: usable_def sound_def)
  have "w_db w = durable w" using usable_fields [OF u] by simp
  then have "wf_db (w_db w)" using w by (simp add: sound_def)
  have n: "normalized m w = (r, w')" using run by (simp add: invoke_def run_usable [OF u])
  obtain r0 where m: "m w = (r0, w')"
    using n by (auto simp: normalized_def catchM_def op_apply split: prod.splits sum.splits)
  have "wf_db (w_db w')" using s \<open>wf_db (w_db w)\<close> m by (metis stays_def snd_conv)
  moreover have "usable (w_db w') w'"
    using usable_outside [OF u] local_opD [of m w r0 w'] m s by (simp add: stays_def)
  ultimately show "sound w'" by (auto simp: usable_def intro: sound_settled)
qed

lemma sound_atomic:
  assumes "keeps_wf m" and "sound w" and "invoke RootInvoker True m w = (r, w')"
  shows "sound w'"
proof -
  have t: "triple (\<lambda>v. settled (durable w) v \<and> wf_db (durable w)) (runAtomic m)
     (\<lambda>a v. settled (w_db v) v \<and> w_saved v = [] \<and> wf_db (w_db v)) (settled (durable w))"
    by (rule triple_runAtomic [OF assms(1)])
  have pre: "settled (durable w) w \<and> wf_db (durable w)" using assms(2) by (simp add: sound_def)
  show ?thesis
    using triple_value [OF t pre] triple_error [OF t pre] assms(3) pre
    by (cases r) (auto simp: invoke_def intro: sound_settled)
qed

lemma sound_prevalidated:
  "(\<And>r w'. m w = (r, w') \<Longrightarrow> sound w') \<Longrightarrow> sound w \<Longrightarrow> prevalidated v m w = (r, w') \<Longrightarrow> sound w'"
  by (auto simp: prevalidated_def op_apply split: sum.splits)

lemma sound_call: "repository_call opts w w' \<Longrightarrow> sound w \<Longrightarrow> sound w'"
proof (induction rule: repository_call.induct)
  case (call_createMessagesBulk inputs w r4 w')
  then show ?case
    by (cases "inputs = []") (auto simp: repo_createMessagesBulk_def op_apply
        intro: sound_prevalidated sound_atomic [OF keeps_createMessagesBulkCore])
next
  case (call_appendMessages cid appends w r4 w')
  then show ?case
    by (cases "appends = []") (auto simp: repo_appendMessages_def op_apply
        intro: sound_prevalidated sound_atomic [OF keeps_appendMessagesCore])
next
  case (call_createMessageParts mid parts w r2 w')
  then show ?case
    by (cases "parts = []") (auto simp: repo_createMessageParts_def op_apply
        intro: sound_prevalidated sound_atomic [OF keeps_createMessagePartsCore])
next
  case (call_deleteMessages mids w r5 w')
  then show ?case
    by (cases "mids = []") (auto simp: repo_deleteMessages_def op_apply
        intro: sound_atomic [OF keeps_deleteMessagesCore])
qed (auto simp: repo_createConversation_def repo_getOrCreateConversation_def repo_markConversationBootstrapped_def
    repo_setParentSessionIdIfNull_def repo_createMessage_def repo_insertSummary_def repo_linkSummaryToMessages_def
    repo_linkSummaryToParents_def repo_appendContextMessage_def repo_appendContextMessages_def
    repo_appendContextSummary_def repo_insertLargeFile_def intro: sound_run [rotated] stays_rules)




section \<open>Replacing a range of the context\<close>

lemma triple_owned_replace:
  assumes "effect (\<lambda>x. x = d) (replaceContextRangeCore cid bounds sid) Q"
  shows "triple (\<lambda>w. settled d w \<and> \<not> w_poisoned w) (replaceContextRangeWithSummary cid bounds sid)
    (\<lambda>_ w. settled (w_db w) w \<and> w_saved w = [] \<and> Q () (w_db w)) (\<lambda>w. durable w = d)"
proof -
  let ?I = "\<lambda>w. w_saved w = [('''', d)] \<and> w_ctx w = None \<and> w_atomic w = None"
  let ?done = "\<lambda>_ w. settled (w_db w) w \<and> w_saved w = [] \<and> Q () (w_db w)"
  have core: "triple (begun d) (replaceContextRangeCore cid bounds sid) (\<lambda>_ w. ?I w \<and> Q () (w_db w)) ?I"
    by (rule triple_conseq [OF triple_of_effect [OF assms, of ?I ?I]]) (auto simp: begun_def dest: outside_fields)
  have commit: "triple (\<lambda>w. ?I w \<and> Q () (w_db w)) (sql_exec Commit) ?done (\<lambda>w. broken_transaction d w \<and> w_ctx w = None)"
    using triple_commit [of d "Q ()"] by (rule triple_conseq) auto
  have handler: "triple (\<lambda>w. broken_transaction d w \<and> w_ctx w = None) (bindM (sql_exec Rollback) (\<lambda>_. throw e)) Q' (\<lambda>w. durable w = d)"
    for e and Q' :: "unit \<Rightarrow> world \<Rightarrow> bool"
    by (rule tripleI)
      (auto simp: bindM_def op_apply sql_exec_def Let_def broken_transaction_def durable_def split: if_splits)
  have body: "triple (begun d) (bindM (replaceContextRangeCore cid bounds sid) (\<lambda>_. sql_exec Commit)) ?done
      (\<lambda>w. broken_transaction d w \<and> w_ctx w = None)"
    by (rule triple_bind [OF triple_err [OF core] commit]) (auto simp: broken_transaction_def)
  have owned: "triple (\<lambda>w. settled d w \<and> \<not> w_poisoned w) (bindM (sql_exec BeginImmediate) (\<lambda>_.
      catchM (bindM (replaceContextRangeCore cid bounds sid) (\<lambda>_. sql_exec Commit))
        (\<lambda>e. bindM (sql_exec Rollback) (\<lambda>_. throw e)))) ?done (\<lambda>w. durable w = d)"
    by (rule triple_bind [OF triple_err [OF triple_begin] triple_catch [OF body handler]]) (simp add: settled_def)
  show ?thesis
  proof (rule triple_pre)
    fix w assume w: "settled d w \<and> \<not> w_poisoned w"
    then have "w_saved w = []" by (auto simp: settled_def)
    then have "replaceContextRangeWithSummary cid bounds sid w = bindM (sql_exec BeginImmediate) (\<lambda>_.
      catchM (bindM (replaceContextRangeCore cid bounds sid) (\<lambda>_. sql_exec Commit))
        (\<lambda>e. bindM (sql_exec Rollback) (\<lambda>_. throw e))) w"
      by (simp add: replaceContextRangeWithSummary_def)
    then show "triple (\<lambda>v. v = w) (replaceContextRangeWithSummary cid bounds sid) ?done (\<lambda>w. durable w = d)"
      using owned w unfolding triple_def by simp
  qed
qed

text \<open>C23: Replacing a range of the context by a stored summary, outside a transaction, puts the summary
  in the place of the range, renumbers the items from 0 on without a gap and leaves the other
  contexts alone; when it throws, the durable database is the old one.\<close>

theorem replaceRange_spec:
  assumes "settled d w" and "wf_db d" and "contextItems d cid = pre @ mid @ suf" and "mid \<noteq> []" and "hasSummary d sid"
    and "repo_replaceContextRangeWithSummary RootInvoker cid (chunkBounds mid) sid w = (r, w')"
  shows "case r of Inl e \<Rightarrow> durable w' = d
    | Inr _ \<Rightarrow> settled (durable w') w' \<and> refs (durable w') cid = map ref_of pre @ SumRef sid # map ref_of suf
        \<and> contiguous (durable w') cid \<and> (\<forall>c. c \<noteq> cid \<longrightarrow> refs (durable w') c = refs d c)"
proof -
  have "hd mid \<in> set (contextItems d cid)" using assms(3,4) by simp
  then have conv: "hasConversation d cid" using assms(2) by (auto simp: set_contextItems wf_db_def wf_context_def)
  have place: "chunk_place d cid pre mid suf" using assms(3,4) by (simp add: chunk_place_def)
  have core: "effect (\<lambda>x. x = d) (replaceContextRangeCore cid (chunkBounds mid) sid)
      (\<lambda>_ x. \<exists>k now. spliced d cid pre (summaryContextRow cid k sid now) suf x)"
  proof (rule effectI [OF local_replaceCore])
    fix w a w' assume w: "w_db w = d" and run: "replaceContextRangeCore cid (chunkBounds mid) sid w = (Inr a, w')"
    obtain d' k now where "replaceContextRangeCore cid (chunkBounds mid) sid w =
        (Inr (), w\<lparr>w_db := d', w_reads := Suc (w_reads w)\<rparr>)"
      and "spliced d cid pre (summaryContextRow cid k sid now) suf d'"
      using replaceCore_place [of w cid pre mid suf sid] place wf_context_ok [OF assms(2)] conv assms(5) w by auto
    then show "\<exists>k now. spliced d cid pre (summaryContextRow cid k sid now) suf (w_db w')" using run by auto
  qed
  have call: "triple (settled d) (run (replaceContextRangeWithSummary cid (chunkBounds mid) sid))
      (\<lambda>_ w. settled (w_db w) w \<and> w_saved w = [] \<and> (\<exists>k now. spliced d cid pre (summaryContextRow cid k sid now) suf (w_db w)))
      (\<lambda>w. durable w = d)"
    by (rule triple_run [OF triple_owned_replace [OF core]]) (simp add: settled_def)
  have run: "run (replaceContextRangeWithSummary cid (chunkBounds mid) sid) w = (r, w')"
    using assms(6) by (simp add: repo_replaceContextRangeWithSummary_def invoke_def)
  show ?thesis
  proof (cases r)
    case (Inl e)
    then show ?thesis using triple_error [OF call assms(1)] run by auto
  next
    case (Inr u)
    then obtain k now where s: "settled (w_db w') w'" and sp: "spliced d cid pre (summaryContextRow cid k sid now) suf (w_db w')"
      using triple_value [OF call assms(1)] run by blast
    show ?thesis
      unfolding Inr sum.case settled_durable [OF s] using s spliced_refs [OF sp] by simp
  qed
qed

theorem replaceRange_spec_witness:
  "\<exists>r w'. repo_replaceContextRangeWithSummary RootInvoker 1 (chunkBounds [sample_summary_item 0]) ''A'' (fresh_world sample_condensable) = (r, w')
    \<and> (case r of Inl e \<Rightarrow> durable w' = sample_condensable
      | Inr _ \<Rightarrow> settled (durable w') w' \<and> refs (durable w') 1 = map ref_of [] @ SumRef ''A'' # map ref_of [sample_summary_item 1]
          \<and> contiguous (durable w') 1 \<and> (\<forall>c. c \<noteq> 1 \<longrightarrow> refs (durable w') c = refs sample_condensable c))"
proof -
  have place: "contextItems sample_condensable 1 = [] @ [sample_summary_item 0] @ [sample_summary_item 1]"
    by (subst condensable_items) simp
  have "hasSummary sample_condensable ''A''" by code_simp
  moreover obtain r w' where "repo_replaceContextRangeWithSummary RootInvoker 1 (chunkBounds [sample_summary_item 0]) ''A'' (fresh_world sample_condensable) = (r, w')"
    by (rule prod.exhaust)
  ultimately show ?thesis using replaceRange_spec [OF settled_fresh condensable_wf place] by blast
qed


end
