(* ===== verification/Executor_Facts.thy ===== *)
theory Executor_Facts
  imports Sample_Project Sqlite_Repositories
begin

text \<open>
  The promises of \<open>src/storage/sqlite/executor.ts\<close> to its callers: a transaction is all or
  nothing, an operation with a savepoint undoes itself and nothing else, and a poisoned executor
  does nothing any more.
\<close>

section \<open>Transactions\<close>

text \<open>C18: A transaction is atomic.  Whatever the callback is, if it keeps the outer snapshot when it
  fails and establishes \<open>Q\<close> when it returns, the call either returns, with nothing open and a durable
  database with \<open>Q\<close>, or throws and the durable database is the old one, driver failures in
  \<open>COMMIT\<close> and \<open>ROLLBACK\<close> included.\<close>

theorem transaction_atomic:
  assumes "settled d w"
    and "\<And>t. triple (\<lambda>v. in_transaction d t v \<and> w_db v = d) (callback (ScopedInvoker t))
       (\<lambda>a v. in_transaction d t v \<and> Q a (w_db v)) (broken_transaction d)"
    and "storage_transaction callback w = (r, w')"
  shows "case r of Inl e \<Rightarrow> settled d w' | Inr a \<Rightarrow> settled (durable w') w' \<and> w_saved w' = [] \<and> Q a (durable w')"
proof -
  have t: "triple (settled d) (transaction (\<lambda>token. callback (ScopedInvoker token)))
      (\<lambda>a v. settled (w_db v) v \<and> w_saved v = [] \<and> Q a (w_db v)) (settled d)"
    by (rule triple_transaction [OF assms(2)])
  show ?thesis
  proof (cases r)
    case (Inl e)
    then show ?thesis using triple_error [OF t assms(1)] assms(3) by (auto simp: storage_transaction_def)
  next
    case (Inr a)
    then have "settled (w_db w') w' \<and> w_saved w' = [] \<and> Q a (w_db w')"
      using triple_value [OF t assms(1)] assms(3) by (auto simp: storage_transaction_def)
    then show ?thesis using Inr settled_durable by fastforce
  qed
qed

lemma scoped_calls:
  assumes "effect P m Q"
  shows "triple (\<lambda>v. in_transaction d t v \<and> P (w_db v)) (invoke (ScopedInvoker t) atomic m)
     (\<lambda>a v. in_transaction d t v \<and> Q a (w_db v)) (broken_transaction d)"
  using triple_runScoped [OF assms] triple_runAtomicScoped [OF assms] by (simp add: invoke_def)

theorem transaction_atomic_witness:
  "\<exists>r w'. storage_transaction (\<lambda>iv. repo_deleteMessages iv (eng_options sample_engine) [3]) (fresh_world sample_database) = (r, w')
    \<and> (case r of Inl e \<Rightarrow> settled sample_database w' | Inr a \<Rightarrow> settled (durable w') w' \<and> w_saved w' = [] \<and> wf_db (durable w'))"
proof -
  obtain r w' where run: "storage_transaction (\<lambda>iv. repo_deleteMessages iv (eng_options sample_engine) [3])
      (fresh_world sample_database) = (r, w')" by (rule prod.exhaust)
  have body: "triple (\<lambda>v. in_transaction sample_database t v \<and> w_db v = sample_database)
      (repo_deleteMessages (ScopedInvoker t) (eng_options sample_engine) [3])
      (\<lambda>a v. in_transaction sample_database t v \<and> wf_db (w_db v)) (broken_transaction sample_database)" for t
    unfolding repo_deleteMessages_def
    by (simp, rule triple_pre_imp [OF scoped_calls [OF keeps_deleteMessagesCore]]) (simp add: sample_wf)
  show ?thesis
    using transaction_atomic [OF settled_fresh body run] run by blast
qed

text \<open>C19: Inside a transaction an operation with a savepoint of its own (\<open>invoke\<close> with
  \<open>atomic\<close>) leaves the database, when it throws, exactly as it found it, with the transaction still
  open around it, unless the undoing itself failed and has poisoned the executor.\<close>

theorem savepoint_undoes:
  assumes "in_transaction d t w" and "\<not> w_poisoned w" and "local_op m"
    and "invoke (ScopedInvoker t) True m w = (Inl e, w')"
  shows "broken_transaction d w' \<and> (w_poisoned w' \<or> w_db w' = w_db w)"
proof -
  have m: "effect (\<lambda>x. x = w_db w) m (\<lambda>_ _. True)" by (rule effectI [OF assms(3)]) simp
  have eq: "invoke (ScopedInvoker t) True m w = atomicScoped t m w"
    using assms(1,2) by (auto simp: invoke_def runAtomicScoped_def scopedActive_def in_transaction_def assertUsable_def bindM_assoc)
  show ?thesis
    using triple_error [OF triple_atomicScoped [OF m, of d t "w_db w"], of w] assms(1,4)
    unfolding eq rolled_back_def by simp
qed

definition sample_open :: world where
  "sample_open = (fresh_world sample_database)\<lparr>w_saved := [('''', sample_database)], w_ctx := Some (0, 0), w_activeTokens := [0]\<rparr>"

theorem savepoint_undoes_witness:
  "\<exists>w'. invoke (ScopedInvoker 0) True (bindM (setDb (\<lambda>d. d\<lparr>messages := []\<rparr>)) (\<lambda>_. throw DriverError) :: (world, unit) op) sample_open
      = (Inl (StorageError ''STORAGE_OPERATION_FAILED''), w')
    \<and> broken_transaction sample_database w' \<and> w_db w' = sample_database"
proof -
  let ?m = "bindM (setDb (\<lambda>d. d\<lparr>messages := []\<rparr>)) (\<lambda>_. throw DriverError) :: (world, unit) op"
  have "in_transaction sample_database 0 sample_open" and ok: "\<not> w_poisoned sample_open" and db: "w_db sample_open = sample_database"
    by (simp_all add: sample_open_def in_transaction_def fresh_world_def)
  moreover have "local_op ?m" by (intro local_rules)
  moreover obtain w' where run: "invoke (ScopedInvoker 0) True ?m sample_open = (Inl (StorageError ''STORAGE_OPERATION_FAILED''), w')"
    and "\<not> w_poisoned w'"
    by (simp add: invoke_def runAtomicScoped_def scopedActive_def sample_open_def fresh_world_def assertUsable_def
        atomicScoped_def takeSavepointOrdinal_def maxSafeInteger_def normalized_def catchM_def sql_exec_def Let_def
        withScopedAtomic_def finallyM_def bindM_def op_apply setDb_def normalizeStorageError_def)
  ultimately show ?thesis using savepoint_undoes [of sample_database 0 sample_open ?m] by fastforce
qed

text \<open>A poisoned executor refuses every call through every invoker and every transaction,
  and touches nothing.\<close>

theorem poisoned_inert:
  assumes "w_poisoned w"
  shows "(\<exists>c. invoke iv atomic m w = (Inl (StorageError c), w)) \<and> (\<exists>c. storage_transaction callback w = (Inl (StorageError c), w))"
proof -
  have "assertUsable w = (Inl (StorageError ''STORAGE_OPERATION_FAILED''), w)"
    using assms by (simp add: assertUsable_def op_apply)
  then have use: "bindM assertUsable k w = (Inl (StorageError ''STORAGE_OPERATION_FAILED''), w)" for k :: "unit \<Rightarrow> (world, 'x) op"
    by (simp add: bindM_def)
  have "\<exists>c. invoke iv atomic m w = (Inl (StorageError c), w)"
    by (cases iv) (auto simp: invoke_def run_def runAtomic_def runScoped_def runAtomicScoped_def scopeError_def op_apply use)
  moreover have "\<exists>c. storage_transaction callback w = (Inl (StorageError c), w)"
    by (auto simp: storage_transaction_def transaction_def op_apply use)
  ultimately show ?thesis ..
qed

theorem poisoned_inert_witness:
  "\<exists>c. repo_deleteMessages RootInvoker (eng_options sample_engine) [1] ((fresh_world sample_database)\<lparr>w_poisoned := True\<rparr>)
     = (Inl (StorageError c), (fresh_world sample_database)\<lparr>w_poisoned := True\<rparr>)"
  using conjunct1 [OF poisoned_inert [of "(fresh_world sample_database)\<lparr>w_poisoned := True\<rparr>" RootInvoker True]]
  by (simp add: repo_deleteMessages_def)

end
