(* ===== verification/Transcript_Slots.thy ===== *)
theory Transcript_Slots
  imports Sample_Project
begin

text \<open>
  The transcript slots of a session (\<open>getTranscriptSlotSnapshot\<close> and the markers of
  \<open>src/storage/contracts.ts\<close>): ingest counts the messages that are not compaction events to find
  the next transcript entry, so recording an event must not change that count.
\<close>

section \<open>Markers\<close>

text \<open>Parsing an encoded slot marker gives the encoded flag back.\<close>

theorem slotMarker_roundtrip: "parseTranscriptSlotMarker (Some (encodeTranscriptSlotMarker b)) = Some b"
  by (simp add: parseTranscriptSlotMarker_def encodeTranscriptSlotMarker_def jsonField_def TRANSCRIPT_SLOT_METADATA_KEY_def)

section \<open>Counting\<close>

text \<open>The transcript rows of a session, conversation by conversation.\<close>

definition transcriptRows :: "database \<Rightarrow> conversation_record \<Rightarrow> message_record list" where
  "transcriptRows d c = filter (\<lambda>m. msg_conversationId m = conv_id c \<and> \<not> hasCompactionPart d m) (messages d)"

lemma length_filter_concat: "length (filter P (concat xss)) = sum_list (map (\<lambda>xs. length (filter P xs)) xss)"
  by (induction xss) simp_all

lemma transcriptCount_rows:
  "slot_transcriptCount (transcriptSlotSnapshot d s)
    = sum_list (map (\<lambda>c. length (transcriptRows d c)) (filter (\<lambda>c. conv_sessionId c = s) (conversations d)))"
  by (simp add: transcriptSlotSnapshot_def Let_def sessionMessages_def length_filter_concat comp_def
      filter_map filter_filter transcriptRows_def conj_commute)

lemma transcriptCount_cong:
  assumes "conversations d' = conversations d" and "\<And>c. transcriptRows d' c = transcriptRows d c"
  shows "slot_transcriptCount (transcriptSlotSnapshot d' s) = slot_transcriptCount (transcriptSlotSnapshot d s)"
  by (simp add: transcriptCount_rows assms)

lemma transcriptRows_cong:
  assumes "messages d' = messages d" and "message_parts d' = message_parts d"
  shows "transcriptRows d' c = transcriptRows d c"
  by (simp add: transcriptRows_def hasCompactionPart_def assms)

lemma transcriptRows_event:
  assumes "wf_messages d" and "msg_id m = Suc (messages_rowid d)" and "\<forall>p \<in> set ps. part_messageId p = msg_id m"
    and "\<exists>p \<in> set ps. part_type p = CompactionPart"
    and "messages d' = messages d @ [m]" and "message_parts d' = message_parts d @ ps"
  shows "transcriptRows d' c = transcriptRows d c"
proof -
  have "hasCompactionPart d' m"
    using assms(3,4) by (auto simp: hasCompactionPart_def assms(6) list_ex_iff)
  moreover have "hasCompactionPart d' x = hasCompactionPart d x" if "x \<in> set (messages d)" for x
  proof -
    have "msg_id x \<noteq> msg_id m" using assms(1,2) that by (auto simp: wf_messages_def)
    then show ?thesis using assms(3) by (auto simp: hasCompactionPart_def assms(6) list_ex_iff)
  qed
  ultimately show ?thesis
    unfolding transcriptRows_def assms(5) by (auto intro: filter_cong)
qed

lemma transcriptCount_step:
  assumes "compaction_step n cid d d'" and "wf_db d"
  shows "slot_transcriptCount (transcriptSlotSnapshot d' s) = slot_transcriptCount (transcriptSlotSnapshot d s)"
  using assms(1)
proof cases
  case (leaf_step pre mid suf ms row d1 fts k now)
  then have "conversations d' = conversations d" "messages d' = messages d" "message_parts d' = message_parts d"
    by (auto simp: spliced_def)
  then show ?thesis by (intro transcriptCount_cong transcriptRows_cong)
next
  case (condensed_step pre mid suf sids k row d1 fts ord now)
  then have "conversations d' = conversations d" "messages d' = messages d" "message_parts d' = message_parts d"
    by (auto simp: spliced_def)
  then show ?thesis by (intro transcriptCount_cong transcriptRows_cong)
next
  case (event_step m ps fts)
  have "transcriptRows d' c = transcriptRows d c" for c
    by (rule transcriptRows_event [of d m ps]) (use event_step assms(2) in \<open>simp_all add: wf_db_def\<close>)
  then show ?thesis using event_step by (intro transcriptCount_cong) simp_all
qed

lemma transcriptCount_steps:
  "(compaction_step n cid)\<^sup>*\<^sup>* d d' \<Longrightarrow> wf_db d \<Longrightarrow>
     slot_transcriptCount (transcriptSlotSnapshot d' s) = slot_transcriptCount (transcriptSlotSnapshot d s)"
  by (induction rule: rtranclp_induct) (auto simp: transcriptCount_step steps_wf)

lemma transcriptCount_run:
  assumes "any_run w w'" and "settled d w" and "wf_db d"
  shows "slot_transcriptCount (transcriptSlotSnapshot (durable w') s) = slot_transcriptCount (transcriptSlotSnapshot d s)"
  using any_run_steps [OF assms] transcriptCount_steps assms(3) by metis

text \<open>C25: No sequence of compaction runs, whatever events it records, changes the number of
  transcript slots of a session, so ingest goes on at the same transcript entry.\<close>

theorem runs_keep_slots:
  assumes "settled d w" and "wf_db d" and "any_run\<^sup>*\<^sup>* w w'"
  shows "slot_transcriptCount (transcriptSlotSnapshot (durable w') s) = slot_transcriptCount (transcriptSlotSnapshot d s)"
  using any_runs_induct [OF assms(3,1,2), of "\<lambda>x. slot_transcriptCount (transcriptSlotSnapshot x s)
    = slot_transcriptCount (transcriptSlotSnapshot d s)"] transcriptCount_run by fastforce

theorem runs_keep_slots_witness:
  "slot_transcriptCount (transcriptSlotSnapshot (durable sample_world) ''s'') = 3"
proof -
  have "slot_transcriptCount (transcriptSlotSnapshot sample_database ''s'') = 3"
    by code_simp
  then show ?thesis using runs_keep_slots [OF settled_fresh sample_wf sample_any_run, of "''s''"] by simp
qed

end
