(* ===== verification/Commit_Permits.thy ===== *)
theory Commit_Permits
  imports Sample_Project
begin

text \<open>
  The admission of durable writes: a caller of the engine may pass \<open>acquireCommit\<close>, and then every
  transaction of the engine must run while a permit is held, and every permit be given back on every
  path.  The log of the world holds, for every transaction that was opened, the number of permits
  held at that moment.
\<close>

section \<open>Operations that respect the permits\<close>

text \<open>
  \<open>guarded b m\<close>: \<open>m\<close> gives back what it takes and opens no transaction without a permit; with
  \<open>b\<close> it may rely on a permit held by its caller.
\<close>

definition guarded :: "bool \<Rightarrow> (world, 'a) op \<Rightarrow> bool" where
  "guarded b m \<longleftrightarrow> (\<forall>w r w'. (b \<longrightarrow> 0 < w_permits w) \<longrightarrow> m w = (r, w') \<longrightarrow>
     w_permits w' = w_permits w \<and> (\<exists>p. w_log w' = p @ w_log w \<and> 0 \<notin> set p))"

named_theorems guarded_rules \<open>operations that respect the permits\<close>

lemma guardedI:
  "(\<And>w r w'. (b \<longrightarrow> 0 < w_permits w) \<Longrightarrow> m w = (r, w') \<Longrightarrow>
     w_permits w' = w_permits w \<and> (\<exists>p. w_log w' = p @ w_log w \<and> 0 \<notin> set p)) \<Longrightarrow> guarded b m"
  by (simp add: guarded_def)

lemma guardedD:
  assumes "guarded b m" and "b \<longrightarrow> 0 < w_permits w" and "m w = (r, w')"
  obtains p where "w_permits w' = w_permits w" and "w_log w' = p @ w_log w" and "0 \<notin> set p"
  using assms unfolding guarded_def by metis

lemma guarded_quiet:
  assumes "\<And>w r w'. m w = (r, w') \<Longrightarrow> w_permits w' = w_permits w \<and> w_log w' = w_log w"
  shows "guarded b m"
  by (rule guardedI) (use assms in fastforce)

lemma guarded_local: "local_op m \<Longrightarrow> guarded b m"
  by (rule guarded_quiet) (auto dest!: local_opD dest: outside_fields)

lemma guarded_basic [guarded_rules]: "guarded b (ret a)" "guarded b (throw e)" "guarded b (liftE r')"
  by (intro guarded_local local_rules)+

lemma guarded_getW [guarded_rules]: "guarded b (getW f)"
  by (rule guarded_quiet) auto

lemma guarded_modifyW: "(\<And>w. w_permits (f w) = w_permits w \<and> w_log (f w) = w_log w) \<Longrightarrow> guarded b (modifyW f)"
  by (rule guarded_quiet) auto

lemma guarded_sql [guarded_rules]: "guarded b (sql_exec c)"
  by (rule guarded_quiet) (auto simp: sql_exec_def Let_def split: if_splits option.splits)

lemma guarded_abort [guarded_rules]: "guarded b (throwIfAborted signal)"
  by (rule guarded_quiet) (auto simp: throwIfAborted_def op_apply Let_def split: option.splits if_splits)

lemma guarded_bind [guarded_rules]:
  assumes "guarded b m" and "\<And>a. guarded b (k a)"
  shows "guarded b (bindM m k)"
proof (rule guardedI)
  fix w r w' assume pre: "b \<longrightarrow> 0 < w_permits w" and run: "bindM m k w = (r, w')"
  obtain r1 v where m: "m w = (r1, v)" by (rule prod.exhaust)
  obtain p where v: "w_permits v = w_permits w" "w_log v = p @ w_log w" "0 \<notin> set p"
    using guardedD [OF assms(1) pre m] .
  show "w_permits w' = w_permits w \<and> (\<exists>p. w_log w' = p @ w_log w \<and> 0 \<notin> set p)"
  proof (cases r1)
    case (Inl e)
    then show ?thesis using run m v by (auto simp: bindM_def)
  next
    case (Inr a)
    then have "k a v = (r, w')" using run m by (simp add: bindM_def)
    then obtain q where "w_permits w' = w_permits v" "w_log w' = q @ w_log v" "0 \<notin> set q"
      using guardedD [OF assms(2)] pre v(1) by metis
    then show ?thesis using v by (intro conjI exI [of _ "q @ p"]) auto
  qed
qed

lemma guarded_catch [guarded_rules]:
  assumes "guarded b m" and "\<And>e. guarded b (h e)"
  shows "guarded b (catchM m h)"
proof (rule guardedI)
  fix w r w' assume pre: "b \<longrightarrow> 0 < w_permits w" and run: "catchM m h w = (r, w')"
  obtain r1 v where m: "m w = (r1, v)" by (rule prod.exhaust)
  obtain p where v: "w_permits v = w_permits w" "w_log v = p @ w_log w" "0 \<notin> set p"
    using guardedD [OF assms(1) pre m] .
  show "w_permits w' = w_permits w \<and> (\<exists>p. w_log w' = p @ w_log w \<and> 0 \<notin> set p)"
  proof (cases r1)
    case (Inr a)
    then show ?thesis using run m v by (auto simp: catchM_def)
  next
    case (Inl e)
    then have "h e v = (r, w')" using run m by (simp add: catchM_def)
    then obtain q where "w_permits w' = w_permits v" "w_log w' = q @ w_log v" "0 \<notin> set q"
      using guardedD [OF assms(2)] pre v(1) by metis
    then show ?thesis using v by (intro conjI exI [of _ "q @ p"]) auto
  qed
qed

lemma guarded_finally:
  assumes "guarded b m" and "\<And>w. w_permits (f w) = w_permits w \<and> w_log (f w) = w_log w"
  shows "guarded b (finallyM m f)"
proof (rule guardedI)
  fix w r w' assume pre: "b \<longrightarrow> 0 < w_permits w" and run: "finallyM m f w = (r, w')"
  obtain r1 v where m: "m w = (r1, v)" by (rule prod.exhaust)
  then have "w' = f v" using run by (simp add: finallyM_def)
  then show "w_permits w' = w_permits w \<and> (\<exists>p. w_log w' = p @ w_log w \<and> 0 \<notin> set p)"
    using guardedD [OF assms(1) pre m] assms(2) [of v] by metis
qed

lemma guarded_if [guarded_rules]: "guarded b m \<Longrightarrow> guarded b n \<Longrightarrow> guarded b (if c then m else n)"
  by simp

lemma guarded_option [guarded_rules]:
  "guarded b m \<Longrightarrow> (\<And>x. guarded b (k x)) \<Longrightarrow> guarded b (case v of None \<Rightarrow> m | Some x \<Rightarrow> k x)"
  by (cases v) simp_all

lemma guarded_prod [guarded_rules]: "(\<And>x y. guarded b (k x y)) \<Longrightarrow> guarded b (case v of (x, y) \<Rightarrow> k x y)"
  by (cases v) simp

text \<open>An operation between two changes of the world that concern neither permits nor the log.\<close>

lemma guarded_within:
  assumes "guarded b m" and "\<And>w. w_permits (f w) = w_permits w \<and> w_log (f w) = w_log w"
    and "\<And>w v. w_permits (g w v) = w_permits v \<and> w_log (g w v) = w_log v"
    and "\<And>w. m' w = finallyM m (g w) (f w)"
  shows "guarded b m'"
proof (rule guardedI)
  fix w r w' assume pre: "b \<longrightarrow> 0 < w_permits w" and run: "m' w = (r, w')"
  obtain r1 v where m: "m (f w) = (r1, v)" by (rule prod.exhaust)
  have w': "w' = g w v" using run m assms(4) by (simp add: finallyM_def)
  have "b \<longrightarrow> 0 < w_permits (f w)" using pre assms(2) by simp
  from guardedD [OF assms(1) this m] show "w_permits w' = w_permits w \<and> (\<exists>p. w_log w' = p @ w_log w \<and> 0 \<notin> set p)"
    unfolding w' using assms(2) [of w] assms(3) [of w v] by metis
qed

section \<open>The executor\<close>

lemma guarded_usable [guarded_rules]: "guarded b assertUsable"
  unfolding assertUsable_def by (intro guarded_rules)

lemma guarded_poison [guarded_rules]: "guarded b poison"
  unfolding poison_def by (rule guarded_modifyW) simp

lemma guarded_normalized [guarded_rules]: "guarded b m \<Longrightarrow> guarded b (normalized m)"
  unfolding normalized_def by (intro guarded_rules)

lemma guarded_run [guarded_rules]: "guarded b m \<Longrightarrow> guarded b (run m)"
  unfolding run_def enqueue_def if_False by (intro guarded_rules)

lemma guarded_runScoped [guarded_rules]: "guarded b m \<Longrightarrow> guarded b (runScoped t m)"
  unfolding runScoped_def by (intro guarded_rules)

lemma guarded_ordinal [guarded_rules]: "guarded b takeSavepointOrdinal"
  by (rule guarded_quiet) (auto simp: takeSavepointOrdinal_def split: option.splits if_splits prod.splits)

lemma guarded_scope:
  assumes "guarded b m"
  shows "guarded b (withScopedAtomic t m)" and "guarded b (withTransactionContext t m)"
proof -
  show "guarded b (withScopedAtomic t m)"
    by (rule guarded_within [OF assms, of "\<lambda>w. w\<lparr>w_atomic := Some t\<rparr>" "\<lambda>w w'. w'\<lparr>w_atomic := w_atomic w\<rparr>"])
      (simp_all add: withScopedAtomic_def)
  show "guarded b (withTransactionContext t m)"
    by (rule guarded_within [OF assms, of "\<lambda>w. w\<lparr>w_ctx := Some (t, 0)\<rparr>" "\<lambda>w w'. w'\<lparr>w_ctx := w_ctx w\<rparr>"])
      (simp_all add: withTransactionContext_def)
qed

lemma guarded_runAtomicScoped [guarded_rules]: "guarded b m \<Longrightarrow> guarded b (runAtomicScoped t m)"
  unfolding runAtomicScoped_def atomicScoped_def
  by (intro guarded_rules guarded_scope guarded_modifyW) simp_all

text \<open>A transaction is opened under the permit of the caller.\<close>

lemma guarded_activate: "guarded True (modifyW (activateToken t))"
  by (rule guardedI) (auto simp: activateToken_def intro: exI [of _ "[w_permits w]" for w])

lemma guarded_transaction:
  assumes "\<And>t. guarded True (callback t)"
  shows "guarded True (transaction callback)"
proof -
  have "guarded True openToken" by (rule guarded_quiet) (auto simp: openToken_def)
  then show ?thesis
    unfolding transaction_def enqueue_def if_False
    by (intro guarded_rules guarded_scope guarded_activate guarded_finally assms) (simp_all add: closeToken_def)
qed

lemma guarded_permit [guarded_rules]:
  assumes "guarded True m" and "ic_acquireCommit context \<noteq> None"
  shows "guarded b (withCommitPermit context m)"
proof -
  obtain a where a: "ic_acquireCommit context = Some a" using assms(2) by blast
  have "guarded b (bindM (acquirePermit a) (\<lambda>_. finallyM m releasePermit))"
  proof (rule guardedI)
    fix w r w' assume run: "bindM (acquirePermit a) (\<lambda>_. finallyM m releasePermit) w = (r, w')"
    let ?v = "w\<lparr>w_acquires := Suc (w_acquires w), w_permits := Suc (w_permits w)\<rparr>"
    show "w_permits w' = w_permits w \<and> (\<exists>p. w_log w' = p @ w_log w \<and> 0 \<notin> set p)"
    proof (cases "w_refused w a (w_acquires w)")
      case (Some e)
      then show ?thesis using run by (auto simp: acquirePermit_def bindM_def Let_def)
    next
      case None
      obtain r1 v where m: "m ?v = (r1, v)" by (rule prod.exhaust)
      then have w': "w' = releasePermit v"
        using run None by (simp add: acquirePermit_def bindM_def Let_def finallyM_def)
      obtain p where "w_permits v = w_permits ?v" "w_log v = p @ w_log ?v" "0 \<notin> set p"
        using guardedD [OF assms(1) _ m] by auto
      then show ?thesis by (simp add: w' releasePermit_def)
    qed
  qed
  then show ?thesis unfolding withCommitPermit_def a by (auto intro: guarded_rules)
qed


section \<open>The engine\<close>

lemma guarded_reads [guarded_rules]:
  "guarded b (getContextTokenCount cid)" "guarded b (getContextItems cid)" "guarded b (getMessageById mid)"
  "guarded b (getSummary sid)" "guarded b (getDistinctDepthsInContext cid bound)" "guarded b (getConversation cid)"
  unfolding getContextTokenCount_def getContextItems_def getMessageById_def getSummary_def
    getDistinctDepthsInContext_def getConversation_def
  by (intro guarded_local local_rules)+

lemma guarded_calls [guarded_rules]:
  "guarded b (callSummarize f source aggressive options)" "guarded b (generateSummaryId h content)"
  by (rule guarded_quiet, simp add: callSummarize_def)
    (auto simp: generateSummaryId_def intro!: guarded_local local_rules)

lemma guarded_tokenCount [guarded_rules]: "guarded b (getMessageTokenCount signal mid)"
  unfolding getMessageTokenCount_def by (intro guarded_rules)

lemma guarded_sumRaw [guarded_rules]: "guarded b (sumRawTokens signal bound n items)"
  by (induction items arbitrary: n) (auto intro!: guarded_rules)

lemma guarded_trigger [guarded_rules]: "guarded b (evaluateLeafTrigger E cid signal)"
  unfolding evaluateLeafTrigger_def countRawTokensOutsideFreshTail_def Let_def by (intro guarded_rules)

lemma guarded_leafChunk [guarded_rules]: "guarded b (leafChunkFrom signal bound threshold started chunk n items)"
  by (induction items arbitrary: started chunk n) (auto intro!: guarded_rules)

lemma guarded_selectLeaf [guarded_rules]: "guarded b (selectOldestLeafChunk E cid signal)"
  unfolding selectOldestLeafChunk_def Let_def by (intro guarded_rules)

lemma guarded_contents [guarded_rules]: "guarded b (summaryContents signal wanted items)"
  by (induction items) (auto intro!: guarded_rules)

lemma guarded_prior [guarded_rules]:
  "guarded b (resolvePriorLeafSummaryContext cid items signal)"
  "guarded b (resolvePriorSummaryContextAtDepth cid items k signal)"
  unfolding resolvePriorLeafSummaryContext_def resolvePriorSummaryContextAtDepth_def Let_def by (intro guarded_rules)+

lemma guarded_chunkAtDepth [guarded_rules]: "guarded b (chunkAtDepthFrom signal bound budget k chunk n items)"
  by (induction items arbitrary: chunk n) (auto simp: Let_def intro!: guarded_rules)

lemma guarded_selectAtDepth [guarded_rules]: "guarded b (selectOldestChunkAtDepth E cid k bound signal)"
  unfolding selectOldestChunkAtDepth_def Let_def by (intro guarded_rules)

lemma guarded_candidates [guarded_rules]: "guarded b (firstCandidate E cid hard bound signal depths)"
  by (induction depths) (auto simp: Let_def intro!: guarded_rules)

lemma guarded_selectShallowest [guarded_rules]: "guarded b (selectShallowestCondensationCandidate E cid hard signal)"
  unfolding selectShallowestCondensationCandidate_def Let_def by (intro guarded_rules)

lemma guarded_escalation [guarded_rules]: "guarded b (summarizeWithEscalation E source f options context)"
  unfolding summarizeWithEscalation_def Let_def by (intro guarded_rules)

lemma guarded_chunks [guarded_rules]: "guarded b (chunkMessages signal items)" "guarded b (chunkSummaries signal items)"
  by (induction items) (auto intro!: guarded_rules)

lemma guarded_replace [guarded_rules]: "guarded b (replaceContextRangeWithSummary cid bounds sid)"
  unfolding replaceContextRangeWithSummary_def by (intro guarded_rules guarded_local [OF local_replaceCore])

lemma guarded_persistPass:
  assumes "\<And>s. local_op (link s)"
  shows "guarded True (persistPass E input link bounds)"
  unfolding persistPass_def
  by (intro guarded_transaction guarded_rules guarded_local [OF effect_local [OF keeps_insertSummary]] guarded_local [OF assms])

lemma guarded_passes [guarded_rules]:
  assumes "ic_acquireCommit context \<noteq> None"
  shows "guarded b (leafPass E cid items f previous context)" and "guarded b (condensedPass E cid items k f context)"
  unfolding leafPass_def condensedPass_def
  by (intro guarded_rules guarded_persistPass effect_local [OF effect_linkSummaryToMessages]
      effect_local [OF effect_linkSummaryToParents] assms)+

lemma guarded_prevalidated [guarded_rules]: "guarded b m \<Longrightarrow> guarded b (prevalidated v m)"
  unfolding prevalidated_def by (cases v) (auto intro: guarded_rules)

lemma guarded_event:
  assumes "ic_acquireCommit context \<noteq> None"
  shows "guarded b (persistCompactionEvent E e (Some context))"
  unfolding persistCompactionEvent_def writeEvent_def
  by (intro guarded_rules guarded_transaction guarded_local [OF effect_local [OF keeps_getOrCreateConversation]]
      guarded_local [OF effect_local [OF keeps_appendMessagesCore]]
      guarded_local [OF effect_local [OF keeps_createMessagePartsCore]]) (simp add: contextOr_def assms)

lemma guarded_events [guarded_rules]:
  assumes "ic_acquireCommit context \<noteq> None"
  shows "guarded b (persistCompactionEvents E cid t1 t2 t3 r1 r2 (Some context))"
  unfolding persistCompactionEvents_def Let_def by (intro guarded_rules guarded_event assms)

text \<open>With an admission the passes and the events get the context.\<close>

lemma admitted_context:
  assumes "ic_acquireCommit context \<noteq> None"
  shows "passContext context = context" and "eventContext context = Some context"
  using assms by (simp_all add: passContext_def eventContext_def hasInvocationContext_def)

lemma guarded_condenseDepths:
  assumes "ic_acquireCommit context \<noteq> None"
  shows "guarded b (condenseDepths E cid f context fuel k st)"
proof (induction fuel arbitrary: k st)
  case 0
  show ?case unfolding condenseDepths.simps [of E cid f "context" 0 k st] Let_def
    by (intro guarded_rules) (simp add: guarded_rules)
next
  case (Suc fuel)
  show ?case
    unfolding condenseDepths.simps [of E cid f "context" "Suc fuel" k st] Let_def nat.case admitted_context [OF assms]
    by (intro guarded_rules assms Suc.IH)
qed

lemma guarded_compactLeaf:
  assumes "ic_acquireCommit (resolveInvocationContext (ci_context input)) \<noteq> None"
  shows "guarded b (compactLeaf E input)"
  unfolding compactLeaf_def Let_def admitted_context [OF assms]
  by (intro guarded_rules guarded_condenseDepths assms)

lemma guarded_leafSweep:
  assumes "ic_acquireCommit context \<noteq> None"
  shows "guarded b (leafSweep E input context st)"
proof (induction "sw_previousTokens st" arbitrary: st rule: less_induct)
  case less
  have again: "guarded b (if before \<le> after then ret st'
      else if after < sw_previousTokens st then leafSweep E input context (st''\<lparr>sw_previousTokens := after\<rparr>) else ret st')"
    for before after st' st''
    by (cases "after < sw_previousTokens st") (auto intro!: guarded_rules less)
  show ?case
    unfolding leafSweep.simps [of E input "context" st] Let_def admitted_context [OF assms]
    by (intro guarded_bind guarded_abort guarded_selectLeaf guarded_if guarded_run guarded_reads guarded_passes
        guarded_events guarded_option guarded_prior guarded_basic again assms)
qed

lemma guarded_condensedSweep:
  assumes "ic_acquireCommit context \<noteq> None"
  shows "guarded b (condensedSweep E input context st)"
proof (induction "sw_previousTokens st" arbitrary: st rule: less_induct)
  case less
  have again: "guarded b (if before \<le> after then ret st'
      else if after < sw_previousTokens st then condensedSweep E input context (st''\<lparr>sw_previousTokens := after\<rparr>) else ret st')"
    for before after st' st''
    by (cases "after < sw_previousTokens st") (auto intro!: guarded_rules less)
  show ?case
    unfolding condensedSweep.simps [of E input "context" st] Let_def admitted_context [OF assms]
    by (intro guarded_bind guarded_abort guarded_selectShallowest guarded_option guarded_prod guarded_run guarded_reads
        guarded_passes guarded_events guarded_basic again assms)
qed

lemma guarded_fullSweep:
  assumes "ic_acquireCommit (resolveInvocationContext (ci_context input)) \<noteq> None"
  shows "guarded b (compactFullSweep E input)"
  unfolding compactFullSweep_def Let_def
  by (intro guarded_rules guarded_leafSweep guarded_condensedSweep assms)

lemma guarded_rounds:
  assumes "ic_acquireCommit context \<noteq> None"
  shows "guarded b (untilUnderRounds E input context lastTokens rnd)"
proof (induction lastTokens arbitrary: rnd rule: less_induct)
  case (less lastTokens)
  have acq: "ic_acquireCommit (resolveInvocationContext (ci_context (roundInput input context))) \<noteq> None"
    using assms by (simp add: roundInput_def resolveInvocationContext_def orElse_def)
  have again: "guarded b (if res_actionTaken result \<and> res_tokensAfter result < lastTokens
      then untilUnderRounds E input context (res_tokensAfter result) (Suc rnd) else ret x)" for result x
    by (cases "res_tokensAfter result < lastTokens") (auto intro!: guarded_rules less)
  show ?case
    unfolding untilUnderRounds.simps [of E input "context" lastTokens rnd] Let_def compact_def
    by (rule guarded_if, intro guarded_bind guarded_abort guarded_fullSweep acq, rule guarded_if, rule guarded_basic,
        rule again, intro guarded_rules)
qed

lemma guarded_untilUnder:
  assumes "ic_acquireCommit (resolveInvocationContext (uu_context input)) \<noteq> None"
  shows "guarded b (compactUntilUnder E input)"
  unfolding compactUntilUnder_def Let_def by (intro guarded_rules guarded_rounds assms)

text \<open>C20: When the caller passes an admission, an entry point of the engine opens transactions only
  while it holds a commit permit, and gives every permit back, on every path: returns, aborts,
  refused admissions, driver failures and failing summarizers.\<close>

theorem writes_under_permit:
  assumes "ic_acquireCommit (resolveInvocationContext admission) \<noteq> None"
    and "ci_context input = admission" and "uu_context target = admission"
    and "w' = snd (compactFullSweep E input w) \<or> w' = snd (compactLeaf E input w) \<or> w' = snd (compactUntilUnder E target w)"
  shows "w_permits w' = w_permits w \<and> (\<exists>opened. w_log w' = opened @ w_log w \<and> (\<forall>held \<in> set opened. 0 < held))"
proof -
  have use: "w_permits (snd (m w)) = w_permits w \<and> (\<exists>p. w_log (snd (m w)) = p @ w_log w \<and> 0 \<notin> set p)"
    if "guarded False m" for m :: "(world, 'x) op"
    using that unfolding guarded_def by (metis prod.collapse)
  have "w_permits w' = w_permits w \<and> (\<exists>p. w_log w' = p @ w_log w \<and> 0 \<notin> set p)"
    using assms(4)
  proof (elim disjE)
    assume "w' = snd (compactFullSweep E input w)"
    then show ?thesis using use [OF guarded_fullSweep [of input False E]] assms(1,2) by simp
  next
    assume "w' = snd (compactLeaf E input w)"
    then show ?thesis using use [OF guarded_compactLeaf [of input False E]] assms(1,2) by simp
  next
    assume "w' = snd (compactUntilUnder E target w)"
    then show ?thesis using use [OF guarded_untilUnder [of target False E]] assms(1,3) by simp
  qed
  then show ?thesis by (metis gr0I)
qed

definition sample_admission :: input_context where
  "sample_admission = \<lparr>ic_signal = None, ic_acquireCommit = Some 0, ic_invocationId = None, ic_context = None\<rparr>"

definition sample_admitted :: world where
  "sample_admitted = snd (compactFullSweep sample_engine (sample_input\<lparr>ci_context := sample_admission\<rparr>) (fresh_world sample_database))"

theorem writes_under_permit_witness:
  "w_permits sample_admitted = 0 \<and> (\<exists>opened. w_log sample_admitted = opened \<and> (\<forall>held \<in> set opened. 0 < held))"
proof -
  have "ic_acquireCommit (resolveInvocationContext sample_admission) \<noteq> None"
    by (simp add: resolveInvocationContext_def orElse_def sample_admission_def)
  moreover have "ci_context (sample_input\<lparr>ci_context := sample_admission\<rparr>) = sample_admission"
    and "uu_context (sample_until\<lparr>uu_context := sample_admission\<rparr>) = sample_admission" by simp_all
  moreover have "w_permits (fresh_world sample_database) = 0" and "w_log (fresh_world sample_database) = []"
    by (simp_all add: fresh_world_def)
  ultimately show ?thesis
    using writes_under_permit [OF _ _ _ disjI1 [OF sample_admitted_def]] by (metis append_Nil2)
qed

end
