(* ===== verification/Retrieval.thy ===== *)
theory Retrieval
  imports Sqlite_Repositories Compaction
begin

text \<open>
  Reading the memory back: \<open>src/retrieval.ts\<close> (describing, searching and expanding summaries, and
  the normalization of search arguments) and \<open>src/expansion.ts\<close> (expanding several summaries under
  one token cap, and the text and the tool made of it).  The lexical searches are functions the
  engine is given, as in the code.
\<close>

section \<open>Search arguments\<close>

text \<open>An argument is a JSON value, or missing.\<close>

definition CANONICAL_SEARCH_LAYERS :: "string list" where
  "CANONICAL_SEARCH_LAYERS = [''episodic'', ''promoted'']"

definition DEFAULT_SEARCH_RESULT_LIMIT :: js_number where
  "DEFAULT_SEARCH_RESULT_LIMIT = Num 5"

definition MAX_SEARCH_RESULT_LIMIT :: js_number where
  "MAX_SEARCH_RESULT_LIMIT = Num 1000"

definition isInteger :: "js_number \<Rightarrow> bool" where
  "isInteger x = (case x of Num a \<Rightarrow> a = of_int \<lfloor>a\<rfloor> | _ \<Rightarrow> False)"

definition normalizeSearchLimit :: "json option \<Rightarrow> js_number option" where
  "normalizeSearchLimit input = (case input of
       None \<Rightarrow> Some DEFAULT_SEARCH_RESULT_LIMIT
     | Some (JNum x) \<Rightarrow> if \<not> isInteger x then None
         else if js_leq (Num 1) x \<and> js_leq x MAX_SEARCH_RESULT_LIMIT then Some x else None
     | Some _ \<Rightarrow> None)"

definition CANONICAL_GREP_SCOPES :: "string list" where
  "CANONICAL_GREP_SCOPES = [''messages'', ''summaries'', ''both'']"

definition CANONICAL_GREP_MODES :: "string list" where
  "CANONICAL_GREP_MODES = [''full_text'', ''regex'']"

definition normalizeGrepMode :: "json option \<Rightarrow> string option" where
  "normalizeGrepMode input = (case input of
       None \<Rightarrow> Some ''full_text''
     | Some (JStr s) \<Rightarrow> if s \<in> set CANONICAL_GREP_MODES then Some s else None
     | Some _ \<Rightarrow> None)"

fun normalizeLayersFrom :: "string list \<Rightarrow> json list \<Rightarrow> string list option" where
  "normalizeLayersFrom seen [] = Some seen"
| "normalizeLayersFrom seen (JStr layer # layers) =
     (let canonical = (if layer = ''semantic'' then ''promoted'' else layer) in
      if canonical \<notin> set CANONICAL_SEARCH_LAYERS then None
      else normalizeLayersFrom
        (if canonical \<in> set seen then seen else seen @ [canonical]) layers)"
| "normalizeLayersFrom seen (_ # layers) = None"

definition normalizeSearchLayers :: "json option \<Rightarrow> string list option" where
  "normalizeSearchLayers input = (case input of
       None \<Rightarrow> Some CANONICAL_SEARCH_LAYERS
     | Some (JArr layers) \<Rightarrow> normalizeLayersFrom [] layers
     | Some _ \<Rightarrow> None)"

definition normalizeGrepScope :: "json option \<Rightarrow> string option" where
  "normalizeGrepScope input = (case input of
       None \<Rightarrow> Some ''both''
     | Some (JStr s) \<Rightarrow> if s = ''all'' then Some ''both''
         else if s \<in> set CANONICAL_GREP_SCOPES then Some s else None
     | Some _ \<Rightarrow> None)"

section \<open>The stores of the engine\<close>

record search_input =
  si_query :: string
  si_mode :: string
  si_conversationId :: "nat option"
  si_since :: "int option"
  si_before :: "int option"
  si_limit :: "int option"

record message_search_result =
  msr_messageId :: nat
  msr_conversationId :: nat
  msr_role :: message_role
  msr_snippet :: string
  msr_createdAt :: int
  msr_rank :: "rat option"

record summary_search_result =
  ssr_summaryId :: string
  ssr_conversationId :: nat
  ssr_kind :: summary_kind
  ssr_snippet :: string
  ssr_createdAt :: int
  ssr_rank :: "rat option"

type_synonym message_search = "search_input \<Rightarrow> (world, message_search_result list) op"
type_synonym summary_search = "search_input \<Rightarrow> (world, summary_search_result list) op"

record retrieval_engine =
  rs_getMessageById :: "nat \<Rightarrow> (world, message_record option) op"
  rs_searchMessages :: message_search
  rs_getLargeFile :: "string \<Rightarrow> (world, large_file_record option) op"
  rs_getSummary :: "string \<Rightarrow> (world, summary_record option) op"
  rs_getSummaryChildren :: "string \<Rightarrow> (world, summary_record list) op"
  rs_getSummaryMessages :: "string \<Rightarrow> (world, nat list) op"
  rs_getSummaryParents :: "string \<Rightarrow> (world, summary_record list) op"
  rs_getSummarySubtree :: "string \<Rightarrow> (world, summary_subtree_node list) op"
  rs_searchSummaries :: summary_search

definition createRetrievalEngine :: "invoker \<Rightarrow> message_search \<Rightarrow> summary_search \<Rightarrow> retrieval_engine" where
  "createRetrievalEngine iv searchMessages searchSummaries =
     \<lparr>rs_getMessageById = repo_getMessageById iv, rs_searchMessages = searchMessages,
      rs_getLargeFile = repo_getLargeFile iv, rs_getSummary = repo_getSummary iv,
      rs_getSummaryChildren = repo_getSummaryChildren iv, rs_getSummaryMessages = repo_getSummaryMessages iv,
      rs_getSummaryParents = repo_getSummaryParents iv, rs_getSummarySubtree = repo_getSummarySubtree iv,
      rs_searchSummaries = searchSummaries\<rparr>"

section \<open>Describing\<close>

record described_summary =
  ds_summary :: summary_record
  ds_parentIds :: "string list"
  ds_childIds :: "string list"
  ds_messageIds :: "nat list"
  ds_subtree :: "summary_subtree_node list"

datatype describe_result =
    DescribedSummary string described_summary
  | DescribedFile string large_file_record

definition describeSummary :: "retrieval_engine \<Rightarrow> string \<Rightarrow> (world, describe_result option) op" where
  "describeSummary R sid = bindM (rs_getSummary R sid) (\<lambda>summary.
     case summary of None \<Rightarrow> ret None
     | Some s \<Rightarrow>
         bindM (rs_getSummaryParents R sid) (\<lambda>parents.
         bindM (rs_getSummaryChildren R sid) (\<lambda>children.
         bindM (rs_getSummaryMessages R sid) (\<lambda>messageIds.
         bindM (rs_getSummarySubtree R sid) (\<lambda>subtree.
         ret (Some (DescribedSummary sid \<lparr>ds_summary = s, ds_parentIds = map sum_id parents,
           ds_childIds = map sum_id children, ds_messageIds = messageIds, ds_subtree = subtree\<rparr>)))))))"

definition describeFile :: "retrieval_engine \<Rightarrow> string \<Rightarrow> (world, describe_result option) op" where
  "describeFile R fid = bindM (rs_getLargeFile R fid) (\<lambda>file.
     ret (case file of None \<Rightarrow> None | Some f \<Rightarrow> Some (DescribedFile fid f)))"

definition describe :: "retrieval_engine \<Rightarrow> string \<Rightarrow> (world, describe_result option) op" where
  "describe R i = (if startsWith i ''sum_'' then describeSummary R i
     else if startsWith i ''file_'' then describeFile R i else ret None)"

section \<open>Searching\<close>

record grep_input =
  gi_search :: search_input
  gi_scope :: string

record grep_result =
  gr_messages :: "message_search_result list"
  gr_summaries :: "summary_search_result list"
  gr_totalMatches :: nat

definition grep :: "retrieval_engine \<Rightarrow> grep_input \<Rightarrow> (world, grep_result) op" where
  "grep R input =
     (if si_mode (gi_search input) \<notin> set CANONICAL_GREP_MODES then throw (InputError ''Invalid grep mode'')
      else if gi_scope input \<notin> set CANONICAL_GREP_SCOPES then throw (InputError ''Invalid grep scope'')
      else bindM (if gi_scope input = ''summaries'' then ret [] else rs_searchMessages R (gi_search input)) (\<lambda>ms.
        bindM (if gi_scope input = ''messages'' then ret [] else rs_searchSummaries R (gi_search input)) (\<lambda>ss.
        ret \<lparr>gr_messages = sort_key (\<lambda>m. - msr_createdAt m) ms,
             gr_summaries = sort_key (\<lambda>s. - ssr_createdAt s) ss,
             gr_totalMatches = length ms + length ss\<rparr>)))"

section \<open>Expanding one summary\<close>

record expanded_child =
  ec_summaryId :: string
  ec_kind :: summary_kind
  ec_content :: string
  ec_tokenCount :: nat

record expanded_message =
  em_messageId :: nat
  em_role :: message_role
  em_content :: string
  em_tokenCount :: nat

record expand_result =
  er_children :: "expanded_child list"
  er_messages :: "expanded_message list"
  er_estimatedTokens :: nat
  er_truncated :: bool

definition emptyExpansion :: expand_result where
  "emptyExpansion = \<lparr>er_children = [], er_messages = [], er_estimatedTokens = 0, er_truncated = False\<rparr>"

definition exceedsCap :: "js_number \<Rightarrow> expand_result \<Rightarrow> nat \<Rightarrow> bool" where
  "exceedsCap tokenCap result tokens \<longleftrightarrow> js_less tokenCap (js_nat (er_estimatedTokens result + tokens))"

definition addChild :: "summary_record \<Rightarrow> expand_result \<Rightarrow> expand_result" where
  "addChild c result = result\<lparr>er_children := er_children result @
       [\<lparr>ec_summaryId = sum_id c, ec_kind = sum_kind c, ec_content = sum_content c, ec_tokenCount = sum_tokenCount c\<rparr>],
     er_estimatedTokens := er_estimatedTokens result + sum_tokenCount c\<rparr>"

definition expandedTokens :: "message_record \<Rightarrow> nat" where
  "expandedTokens m = (if msg_tokenCount m \<noteq> 0 then msg_tokenCount m else estimateTokens (msg_content m))"

definition addMessage :: "message_record \<Rightarrow> expand_result \<Rightarrow> expand_result" where
  "addMessage m result = result\<lparr>er_messages := er_messages result @
       [\<lparr>em_messageId = msg_id m, em_role = msg_role m, em_content = msg_content m, em_tokenCount = expandedTokens m\<rparr>],
     er_estimatedTokens := er_estimatedTokens result + expandedTokens m\<rparr>"

text \<open>The loop over the children; \<open>recurse\<close> is the call for a child, when the depth allows one.\<close>

fun expandChildren :: "(string \<Rightarrow> expand_result \<Rightarrow> (world, expand_result) op) \<Rightarrow> js_number
    \<Rightarrow> summary_record list \<Rightarrow> expand_result \<Rightarrow> (world, expand_result) op" where
  "expandChildren recurse tokenCap [] result = ret result"
| "expandChildren recurse tokenCap (c # cs) result =
     (if er_truncated result then ret result
      else if exceedsCap tokenCap result (sum_tokenCount c) then ret (result\<lparr>er_truncated := True\<rparr>)
      else bindM (recurse (sum_id c) (addChild c result)) (\<lambda>result'.
        expandChildren recurse tokenCap cs result'))"

fun expandMessages :: "retrieval_engine \<Rightarrow> js_number \<Rightarrow> nat list \<Rightarrow> expand_result \<Rightarrow> (world, expand_result) op" where
  "expandMessages R tokenCap [] result = ret result"
| "expandMessages R tokenCap (mid # mids) result = bindM (rs_getMessageById R mid) (\<lambda>msg.
     case msg of None \<Rightarrow> expandMessages R tokenCap mids result
     | Some m \<Rightarrow> if exceedsCap tokenCap result (expandedTokens m) then ret (result\<lparr>er_truncated := True\<rparr>)
         else expandMessages R tokenCap mids (addMessage m result))"

text \<open>
  The depth is a number of levels: the route lets only integers through and the tool truncates.
  At depth 1 the children are not entered, which is the call at depth 0.
\<close>

fun expandRecursive :: "retrieval_engine \<Rightarrow> bool \<Rightarrow> js_number \<Rightarrow> nat \<Rightarrow> string \<Rightarrow> expand_result
    \<Rightarrow> (world, expand_result) op" where
  "expandRecursive R includeMessages tokenCap 0 sid result = ret result"
| "expandRecursive R includeMessages tokenCap (Suc depth) sid result = bindM (rs_getSummary R sid) (\<lambda>summary.
     case summary of None \<Rightarrow> ret result
     | Some s \<Rightarrow>
         if sum_kind s = Condensed then
           bindM (rs_getSummaryChildren R sid) (\<lambda>children.
             expandChildren (expandRecursive R includeMessages tokenCap depth) tokenCap children result)
         else if includeMessages then
           bindM (rs_getSummaryMessages R sid) (\<lambda>mids. expandMessages R tokenCap mids result)
         else ret result)"

record expand_input =
  xi_summaryId :: string
  xi_depth :: "nat option"
  xi_includeMessages :: "bool option"
  xi_tokenCap :: "js_number option"

definition orDefault :: "'a \<Rightarrow> 'a option \<Rightarrow> 'a" where
  "orDefault x v = (case v of Some y \<Rightarrow> y | None \<Rightarrow> x)"

definition expand :: "retrieval_engine \<Rightarrow> expand_input \<Rightarrow> (world, expand_result) op" where
  "expand R input = expandRecursive R (orDefault False (xi_includeMessages input))
     (orDefault PosInf (xi_tokenCap input)) (orDefault 1 (xi_depth input)) (xi_summaryId input) emptyExpansion"

end
