(* ===== verification/Expansion.thy ===== *)
theory Expansion
  imports Retrieval
begin

text \<open>
  \<open>src/expansion.ts\<close>: several summaries expanded under one token cap, the text made of the result,
  and the tool \<open>lcm_expand\<close>.
\<close>

section \<open>Entries\<close>

definition SNIPPET_MAX_CHARS :: nat where
  "SNIPPET_MAX_CHARS = 200"

definition truncateSnippet :: "string \<Rightarrow> string" where
  "truncateSnippet content = (if length content \<le> SNIPPET_MAX_CHARS then content
     else take SNIPPET_MAX_CHARS content @ ''...'')"

definition resolveExpansionTokenCap :: "js_number option \<Rightarrow> js_number \<Rightarrow> js_number" where
  "resolveExpansionTokenCap requestedTokenCap maxExpandTokens =
     (let most = js_max (Num 1) (js_trunc maxExpandTokens) in
      case requestedTokenCap of
        Some x \<Rightarrow> if js_isFinite x then js_min (js_max (Num 1) (js_trunc x)) most else most
      | None \<Rightarrow> most)"

record entry_child =
  xc_summaryId :: string
  xc_kind :: summary_kind
  xc_snippet :: string
  xc_tokenCount :: nat

record entry_message =
  xm_messageId :: nat
  xm_role :: message_role
  xm_snippet :: string
  xm_tokenCount :: nat

record expansion_entry =
  xe_summaryId :: string
  xe_children :: "entry_child list"
  xe_messages :: "entry_message list"

record expansion_result =
  xr_expansions :: "expansion_entry list"
  xr_citedIds :: "string list"
  xr_totalTokens :: nat
  xr_truncated :: bool

definition toExpansionEntry :: "string \<Rightarrow> expand_result \<Rightarrow> expansion_entry" where
  "toExpansionEntry sid raw = \<lparr>xe_summaryId = sid,
     xe_children = map (\<lambda>c. \<lparr>xc_summaryId = ec_summaryId c, xc_kind = ec_kind c,
       xc_snippet = truncateSnippet (ec_content c), xc_tokenCount = ec_tokenCount c\<rparr>) (er_children raw),
     xe_messages = map (\<lambda>m. \<lparr>xm_messageId = em_messageId m, xm_role = em_role m,
       xm_snippet = truncateSnippet (em_content m), xm_tokenCount = em_tokenCount m\<rparr>) (er_messages raw)\<rparr>"

definition collectCitedIds :: "expansion_entry \<Rightarrow> string list" where
  "collectCitedIds entry = xe_summaryId entry # map xc_summaryId (xe_children entry)"

section \<open>The orchestrator\<close>

text \<open>
  The loop over the requested summaries.  The set of cited ids keeps the order of insertion, so it is
  a list without repetitions.
\<close>

definition addCited :: "string list \<Rightarrow> string list \<Rightarrow> string list" where
  "addCited cited ids = cited @ dedupe_from (set cited) ids"

fun expandEach :: "retrieval_engine \<Rightarrow> nat \<Rightarrow> bool \<Rightarrow> js_number \<Rightarrow> string list \<Rightarrow> expansion_result
    \<Rightarrow> (world, expansion_result) op" where
  "expandEach R maxDepth includeMessages tokenCap [] result = ret result"
| "expandEach R maxDepth includeMessages tokenCap (sid # sids) result =
     (if xr_truncated result then ret result
      else let remainingBudget = js_minus tokenCap (js_nat (xr_totalTokens result)) in
        if js_leq remainingBudget (Num 0) then ret (result\<lparr>xr_truncated := True\<rparr>)
        else bindM (expand R \<lparr>xi_summaryId = sid, xi_depth = Some maxDepth,
               xi_includeMessages = Some includeMessages, xi_tokenCap = Some remainingBudget\<rparr>) (\<lambda>raw.
          let entry = toExpansionEntry sid raw in
          expandEach R maxDepth includeMessages tokenCap sids
            \<lparr>xr_expansions = xr_expansions result @ [entry],
             xr_citedIds = addCited (xr_citedIds result) (collectCitedIds entry),
             xr_totalTokens = xr_totalTokens result + er_estimatedTokens raw,
             xr_truncated = er_truncated raw\<rparr>))"

definition noExpansion :: expansion_result where
  "noExpansion = \<lparr>xr_expansions = [], xr_citedIds = [], xr_totalTokens = 0, xr_truncated = False\<rparr>"

record expansion_request =
  xq_summaryIds :: "string list"
  xq_maxDepth :: "nat option"
  xq_tokenCap :: "js_number option"
  xq_includeMessages :: "bool option"

definition expandAll :: "retrieval_engine \<Rightarrow> expansion_request \<Rightarrow> (world, expansion_result) op" where
  "expandAll R request = expandEach R (orDefault 3 (xq_maxDepth request))
     (orDefault False (xq_includeMessages request)) (orDefault PosInf (xq_tokenCap request))
     (xq_summaryIds request) noExpansion"

text \<open>
  The matches of a search, newest first, equally new ones by their rank; a missing rank counts as
  infinity.
\<close>

definition rankKey :: "rat option \<Rightarrow> bool \<times> rat" where
  "rankKey r = (case r of None \<Rightarrow> (True, 0) | Some x \<Rightarrow> (False, x))"

definition describeAndExpand :: "retrieval_engine \<Rightarrow> string \<Rightarrow> string \<Rightarrow> nat option \<Rightarrow> nat option \<Rightarrow> js_number option
    \<Rightarrow> (world, expansion_result) op" where
  "describeAndExpand R query mode conversationId maxDepth tokenCap =
     bindM (grep R \<lparr>gi_search = \<lparr>si_query = query, si_mode = mode, si_conversationId = conversationId,
         si_since = None, si_before = None, si_limit = None\<rparr>, gi_scope = ''summaries''\<rparr>) (\<lambda>grepResult.
     let summaryIds = map ssr_summaryId
           (sort_key (\<lambda>s. (- ssr_createdAt s, rankKey (ssr_rank s))) (gr_summaries grepResult))
     in if summaryIds = [] then ret noExpansion
        else expandAll R \<lparr>xq_summaryIds = summaryIds, xq_maxDepth = maxDepth, xq_tokenCap = tokenCap,
               xq_includeMessages = Some False\<rparr>)"

section \<open>The text for an agent\<close>

definition roleName :: "message_role \<Rightarrow> string" where
  "roleName r = (case r of SystemRole \<Rightarrow> ''system'' | UserRole \<Rightarrow> ''user''
     | AssistantRole \<Rightarrow> ''assistant'' | ToolRole \<Rightarrow> ''tool'')"

definition entryTokens :: "expansion_entry \<Rightarrow> nat" where
  "entryTokens entry = sum_list (map xc_tokenCount (xe_children entry)) + sum_list (map xm_tokenCount (xe_messages entry))"

definition entryLines :: "expansion_entry \<Rightarrow> string list" where
  "entryLines entry =
     [''### '' @ xe_summaryId entry @ '' ('' @ (if xe_children entry \<noteq> [] then ''condensed'' else ''leaf'')
        @ '', '' @ show_nat (entryTokens entry) @ '' tokens)'']
     @ (if xe_children entry \<noteq> [] then [''Children: '' @ joinWith '', '' (map xc_summaryId (xe_children entry))] else [])
     @ (if xe_messages entry \<noteq> [] then [''Messages: '' @ joinWith '', '' (map (\<lambda>m.
          ''msg#'' @ show_nat (xm_messageId m) @ '' ('' @ roleName (xm_role m) @ '', ''
          @ show_nat (xm_tokenCount m) @ '' tokens)'') (xe_messages entry))] else [])
     @ (case List.find (\<lambda>c. xc_snippet c \<noteq> []) (xe_children entry) of
          Some c \<Rightarrow> [''[Snippet: '' @ truncateSnippet (xc_snippet c) @ '']''] | None \<Rightarrow> [])
     @ ['''']"

definition distillForSubagent :: "expansion_result \<Rightarrow> string" where
  "distillForSubagent result = joinWith newline
     ([''## Expansion Results ('' @ show_nat (length (xr_expansions result)) @ '' summaries, ''
         @ show_nat (xr_totalTokens result) @ '' total tokens)'', '''']
      @ concat (map entryLines (xr_expansions result))
      @ (if xr_citedIds result \<noteq> [] then [''Cited IDs for follow-up: '' @ joinWith '', '' (xr_citedIds result)] else [])
      @ [''[Truncated: '' @ (if xr_truncated result then ''yes'' else ''no'') @ '']''])"

section \<open>The tool\<close>

text \<open>The parameters that the schema of the tool admits; a depth is truncated, below 1 it admits no level.\<close>

record tool_params =
  tp_summaryIds :: "string list option"
  tp_query :: "string option"
  tp_maxDepth :: "rat option"
  tp_tokenCap :: "rat option"
  tp_includeMessages :: "bool option"

record tool_details =
  td_expansionCount :: nat
  td_citedIds :: "string list"
  td_totalTokens :: nat
  td_truncated :: bool

record tool_result =
  tr_text :: string
  tr_details :: "(string + tool_details)"

definition expansionAnswer :: "expansion_result \<Rightarrow> tool_result" where
  "expansionAnswer result = \<lparr>tr_text = distillForSubagent result,
     tr_details = Inr \<lparr>td_expansionCount = length (xr_expansions result), td_citedIds = xr_citedIds result,
       td_totalTokens = xr_totalTokens result, td_truncated = xr_truncated result\<rparr>\<rparr>"

definition truncRat :: "rat \<Rightarrow> int" where
  "truncRat x = (if 0 \<le> x then \<lfloor>x\<rfloor> else \<lceil>x\<rceil>)"

definition executeExpansionTool :: "retrieval_engine \<Rightarrow> js_number \<Rightarrow> nat \<Rightarrow> tool_params \<Rightarrow> (world, tool_result) op" where
  "executeExpansionTool R maxExpandTokens conversationId params =
     (let query = map_option trim (tp_query params);
          maxDepth = map_option (\<lambda>x. nat (truncRat x)) (tp_maxDepth params);
          requestedTokenCap = map_option (\<lambda>x. Num (of_int (truncRat x))) (tp_tokenCap params);
          tokenCap = resolveExpansionTokenCap requestedTokenCap maxExpandTokens;
          includeMessages = orDefault False (tp_includeMessages params);
          answer = (\<lambda>result. ret (expansionAnswer result))
      in if orDefault [] query \<noteq> [] then
           bindM (describeAndExpand R (orDefault [] query) ''full_text'' (Some conversationId) maxDepth (Some tokenCap)) answer
         else if orDefault [] (tp_summaryIds params) \<noteq> [] then
           bindM (expandAll R \<lparr>xq_summaryIds = orDefault [] (tp_summaryIds params), xq_maxDepth = maxDepth,
             xq_tokenCap = Some tokenCap, xq_includeMessages = Some includeMessages\<rparr>) answer
         else ret \<lparr>tr_text = ''Error: either summaryIds or query must be provided.'',
                   tr_details = Inl ''Error: either summaryIds or query must be provided.''\<rparr>)"

end
