(* ===== verification/Retrieval_Facts.thy ===== *)
theory Retrieval_Facts
  imports Sample_Project Expansion
begin

text \<open>
  What an expansion returns: the nodes below a summary in the order of a depth-first walk, as many of
  them as the token cap pays for.
\<close>

section \<open>The walk\<close>

datatype visit = ChildVisit summary_record | MessageVisit message_record

fun visitTokens :: "visit \<Rightarrow> nat" where
  "visitTokens (ChildVisit c) = sum_tokenCount c"
| "visitTokens (MessageVisit m) = expandedTokens m"

definition messageVisits :: "database \<Rightarrow> nat list \<Rightarrow> visit list" where
  "messageVisits d mids = concat (map (\<lambda>mid. case findMessage d mid of None \<Rightarrow> [] | Some m \<Rightarrow> [MessageVisit m]) mids)"

fun visits :: "database \<Rightarrow> bool \<Rightarrow> nat \<Rightarrow> string \<Rightarrow> visit list" where
  "visits d includeMessages 0 sid = []"
| "visits d includeMessages (Suc depth) sid = (case findSummary d sid of None \<Rightarrow> []
     | Some s \<Rightarrow> if sum_kind s = Condensed
         then concat (map (\<lambda>c. ChildVisit c # visits d includeMessages depth (sum_id c)) (summaryChildren d sid))
         else if includeMessages then messageVisits d (summaryMessageIds d sid) else [])"

text \<open>The longest affordable beginning of a walk.\<close>

fun affordable :: "js_number \<Rightarrow> nat \<Rightarrow> visit list \<Rightarrow> visit list" where
  "affordable tokenCap used [] = []"
| "affordable tokenCap used (v # vs) = (if js_less tokenCap (js_nat (used + visitTokens v)) then []
     else v # affordable tokenCap (used + visitTokens v) vs)"

fun addVisit :: "visit \<Rightarrow> expand_result \<Rightarrow> expand_result" where
  "addVisit (ChildVisit c) result = addChild c result"
| "addVisit (MessageVisit m) result = addMessage m result"

fun collect :: "js_number \<Rightarrow> expand_result \<Rightarrow> visit list \<Rightarrow> expand_result" where
  "collect tokenCap result [] = result"
| "collect tokenCap result (v # vs) = (if er_truncated result then result
     else if exceedsCap tokenCap result (visitTokens v) then result\<lparr>er_truncated := True\<rparr>
     else collect tokenCap (addVisit v result) vs)"

lemma add_truncated [simp]:
  "er_truncated (addChild c r) = er_truncated r" "er_truncated (addMessage m r) = er_truncated r"
  "er_truncated (addVisit v r) = er_truncated r"
  by (simp_all add: addChild_def addMessage_def) (cases v; simp add: addChild_def addMessage_def)

lemma add_tokens [simp]: "er_estimatedTokens (addVisit v r) = er_estimatedTokens r + visitTokens v"
  by (cases v) (simp_all add: addChild_def addMessage_def)

lemma collect_truncated [simp]: "er_truncated r \<Longrightarrow> collect cap r vs = r"
  by (cases vs) simp_all

lemma collect_append: "collect cap r (xs @ ys) = collect cap (collect cap r xs) ys"
  by (induction xs arbitrary: r) simp_all

section \<open>The loops follow the walk\<close>

lemma reads_retrieval [reads_rules]:
  "reads (getSummaryChildren sid) (\<lambda>d. summaryChildren d sid)"
  "reads (getSummaryMessages sid) (\<lambda>d. summaryMessageIds d sid)"
  by (simp_all add: reads_def getSummaryChildren_def getSummaryMessages_def getDb_def)

abbreviation root_engine :: "message_search \<Rightarrow> summary_search \<Rightarrow> retrieval_engine" where
  "root_engine \<equiv> createRetrievalEngine RootInvoker"

lemma obs_engine:
  "obs d (rs_getSummary (root_engine sm ss) sid) (\<lambda>a. a = findSummary d sid)"
  "obs d (rs_getSummaryChildren (root_engine sm ss) sid) (\<lambda>a. a = summaryChildren d sid)"
  "obs d (rs_getSummaryMessages (root_engine sm ss) sid) (\<lambda>a. a = summaryMessageIds d sid)"
  "obs d (rs_getMessageById (root_engine sm ss) mid) (\<lambda>a. a = findMessage d mid)"
  by (simp_all add: createRetrievalEngine_def repo_getSummary_def repo_getSummaryChildren_def
      repo_getSummaryMessages_def repo_getMessageById_def invoke_def)
    (rule obs_run, rule reads_store reads_retrieval)+

lemma obs_expandMessages:
  "\<not> er_truncated r \<Longrightarrow> obs d (expandMessages (root_engine sm ss) cap mids r) (\<lambda>a. a = collect cap r (messageVisits d mids))"
proof (induction mids arbitrary: r)
  case Nil
  then show ?case by (simp add: messageVisits_def obs_ret)
next
  case (Cons mid mids)
  show ?case
    unfolding expandMessages.simps
  proof (rule obs_bind [OF obs_engine(4)])
    fix a assume a: "a = findMessage d mid"
    show "obs d (case a of None \<Rightarrow> expandMessages (root_engine sm ss) cap mids r
        | Some m \<Rightarrow> if exceedsCap cap r (expandedTokens m) then ret (r\<lparr>er_truncated := True\<rparr>)
            else expandMessages (root_engine sm ss) cap mids (addMessage m r))
      (\<lambda>a. a = collect cap r (messageVisits d (mid # mids)))"
      using Cons a by (cases "findMessage d mid") (simp_all add: messageVisits_def obs_ret)
  qed
qed

lemma obs_expandChildren:
  assumes "\<And>c r. \<not> er_truncated r \<Longrightarrow> obs d (recurse c r) (\<lambda>a. a = collect cap r (walk c))"
  shows "obs d (expandChildren recurse cap cs r)
    (\<lambda>a. a = collect cap r (concat (map (\<lambda>c. ChildVisit c # walk (sum_id c)) cs)))"
proof (induction cs arbitrary: r)
  case Nil
  show ?case by (simp add: obs_ret)
next
  case (Cons c cs)
  show ?case
  proof (cases "er_truncated r \<or> exceedsCap cap r (sum_tokenCount c)")
    case True
    then show ?thesis by (auto intro: obs_ret)
  next
    case False
    have "obs d (bindM (recurse (sum_id c) (addChild c r)) (\<lambda>r'. expandChildren recurse cap cs r'))
        (\<lambda>a. a = collect cap (collect cap (addChild c r) (walk (sum_id c)))
           (concat (map (\<lambda>c. ChildVisit c # walk (sum_id c)) cs)))"
      by (rule obs_bind [OF assms]) (use False Cons.IH in auto)
    then show ?thesis using False by (simp add: collect_append)
  qed
qed

lemma obs_expandRecursive:
  "\<not> er_truncated r \<Longrightarrow> obs d (expandRecursive (root_engine sm ss) inc cap depth sid r)
     (\<lambda>a. a = collect cap r (visits d inc depth sid))"
proof (induction depth arbitrary: sid r)
  case 0
  show ?case by (simp add: obs_ret)
next
  case (Suc depth)
  have children: "obs d (bindM (rs_getSummaryChildren (root_engine sm ss) sid) (\<lambda>children.
      expandChildren (expandRecursive (root_engine sm ss) inc cap depth) cap children r))
    (\<lambda>a. a = collect cap r (concat (map (\<lambda>c. ChildVisit c # visits d inc depth (sum_id c)) (summaryChildren d sid))))"
    by (rule obs_bind [OF obs_engine(2)]) (simp add: obs_expandChildren [where walk = "visits d inc depth"] Suc.IH)
  have mids: "obs d (bindM (rs_getSummaryMessages (root_engine sm ss) sid) (\<lambda>mids.
      expandMessages (root_engine sm ss) cap mids r)) (\<lambda>a. a = collect cap r (messageVisits d (summaryMessageIds d sid)))"
    by (rule obs_bind [OF obs_engine(3)]) (simp add: obs_expandMessages Suc.prems)
  show ?case
    unfolding expandRecursive.simps
  proof (rule obs_bind [OF obs_engine(1)])
    fix a assume a: "a = findSummary d sid"
    show "obs d (case a of None \<Rightarrow> ret r | Some s \<Rightarrow> if sum_kind s = Condensed
        then bindM (rs_getSummaryChildren (root_engine sm ss) sid) (\<lambda>children.
          expandChildren (expandRecursive (root_engine sm ss) inc cap depth) cap children r)
        else if inc then bindM (rs_getSummaryMessages (root_engine sm ss) sid) (\<lambda>mids.
          expandMessages (root_engine sm ss) cap mids r) else ret r)
      (\<lambda>a. a = collect cap r (visits d inc (Suc depth) sid))"
      using children mids a by (cases "findSummary d sid") (auto intro: obs_ret)
  qed
qed

text \<open>What has been collected is the affordable part of the walk.\<close>

definition childOf :: "visit \<Rightarrow> expanded_child list" where
  "childOf v = (case v of ChildVisit c \<Rightarrow> [\<lparr>ec_summaryId = sum_id c, ec_kind = sum_kind c,
     ec_content = sum_content c, ec_tokenCount = sum_tokenCount c\<rparr>] | MessageVisit _ \<Rightarrow> [])"

definition messageOf :: "visit \<Rightarrow> expanded_message list" where
  "messageOf v = (case v of MessageVisit m \<Rightarrow> [\<lparr>em_messageId = msg_id m, em_role = msg_role m,
     em_content = msg_content m, em_tokenCount = expandedTokens m\<rparr>] | ChildVisit _ \<Rightarrow> [])"

definition expansionOf :: "js_number \<Rightarrow> visit list \<Rightarrow> expand_result" where
  "expansionOf cap vs = (let paid = affordable cap 0 vs in
     \<lparr>er_children = concat (map childOf paid), er_messages = concat (map messageOf paid),
      er_estimatedTokens = sum_list (map visitTokens paid), er_truncated = (paid \<noteq> vs)\<rparr>)"

lemma addVisit_fields: "addVisit v r = \<lparr>er_children = er_children r @ childOf v, er_messages = er_messages r @ messageOf v,
    er_estimatedTokens = er_estimatedTokens r + visitTokens v, er_truncated = er_truncated r\<rparr>"
  by (cases v) (simp_all add: addChild_def addMessage_def childOf_def messageOf_def)

lemma collect_affordable:
  "\<not> er_truncated r \<Longrightarrow> collect cap r vs = (let paid = affordable cap (er_estimatedTokens r) vs in
     \<lparr>er_children = er_children r @ concat (map childOf paid), er_messages = er_messages r @ concat (map messageOf paid),
      er_estimatedTokens = er_estimatedTokens r + sum_list (map visitTokens paid), er_truncated = (paid \<noteq> vs)\<rparr>)"
proof (induction vs arbitrary: r)
  case (Cons v vs)
  show ?case
  proof (cases "exceedsCap cap r (visitTokens v)")
    case True
    then show ?thesis using Cons.prems by (simp add: exceedsCap_def)
  next
    case False
    then show ?thesis
      using Cons.IH [of "addVisit v r"] Cons.prems
      by (simp add: exceedsCap_def Let_def addVisit_fields add.assoc)
  qed
qed simp

lemma collect_empty: "collect cap emptyExpansion vs = expansionOf cap vs"
  by (subst collect_affordable) (simp_all add: emptyExpansion_def expansionOf_def Let_def)

text \<open>C26: Expanding a summary gives exactly the longest beginning of the depth-first walk below it that
  the token cap pays for, marked as truncated when something is left out; nothing is written.\<close>

theorem expand_spec:
  assumes "settled d w" and "expand (root_engine sm ss) input w = (Inr r, w')"
  shows "settled d w' \<and> r = expansionOf (orDefault PosInf (xi_tokenCap input))
    (visits d (orDefault False (xi_includeMessages input)) (orDefault 1 (xi_depth input)) (xi_summaryId input))"
proof -
  have "obs d (expand (root_engine sm ss) input) (\<lambda>r. r = expansionOf (orDefault PosInf (xi_tokenCap input))
    (visits d (orDefault False (xi_includeMessages input)) (orDefault 1 (xi_depth input)) (xi_summaryId input)))"
    unfolding expand_def by (rule obs_conseq [OF obs_expandRecursive]) (simp_all add: emptyExpansion_def collect_empty [unfolded emptyExpansion_def])
  from triple_value [OF this [unfolded obs_def] assms] show ?thesis .
qed

abbreviation no_matches :: "search_input \<Rightarrow> (world, 'a list) op" where
  "no_matches \<equiv> \<lambda>_. ret []"

definition sample_expand :: expand_input where
  "sample_expand = \<lparr>xi_summaryId = ''A'', xi_depth = None, xi_includeMessages = Some True, xi_tokenCap = Some (Num 50)\<rparr>"

theorem expand_spec_witness:
  "\<exists>w'. expand (root_engine no_matches no_matches) sample_expand (fresh_world sample_condensable)
      = (Inr \<lparr>er_children = [], er_messages = [\<lparr>em_messageId = 1, em_role = UserRole, em_content = ''a'', em_tokenCount = 40\<rparr>],
              er_estimatedTokens = 40, er_truncated = False\<rparr>, w')
    \<and> settled sample_condensable w'"
proof -
  have "map_sum id (\<lambda>_. ()) (fst (expand (root_engine no_matches no_matches) sample_expand (fresh_world sample_condensable))) = Inr ()"
    by code_simp
  then obtain r w' where run: "expand (root_engine no_matches no_matches) sample_expand (fresh_world sample_condensable) = (Inr r, w')"
    by (cases "expand (root_engine no_matches no_matches) sample_expand (fresh_world sample_condensable)";
        cases "fst (expand (root_engine no_matches no_matches) sample_expand (fresh_world sample_condensable))") auto
  have "expansionOf (orDefault PosInf (xi_tokenCap sample_expand)) (visits sample_condensable
      (orDefault False (xi_includeMessages sample_expand)) (orDefault 1 (xi_depth sample_expand)) (xi_summaryId sample_expand))
    = \<lparr>er_children = [], er_messages = [\<lparr>em_messageId = 1, em_role = UserRole, em_content = ''a'', em_tokenCount = 40\<rparr>],
       er_estimatedTokens = 40, er_truncated = False\<rparr>" by code_simp
  with expand_spec [OF settled_fresh run] run show ?thesis by auto
qed

section \<open>Token caps\<close>

lemma affordable_sum:
  "affordable cap used vs = [] \<or> \<not> js_less cap (js_nat (used + sum_list (map visitTokens (affordable cap used vs))))"
proof (induction vs arbitrary: used)
  case (Cons v vs)
  show ?case
  proof (cases "js_less cap (js_nat (used + visitTokens v))")
    case False
    then show ?thesis
      using Cons.IH [of "used + visitTokens v"] by (cases "affordable cap (used + visitTokens v) vs = []") (auto simp: add.assoc)
  qed simp
qed simp

lemma expansion_cap: "er_estimatedTokens (expansionOf cap vs) = 0 \<or> \<not> js_less cap (js_nat (er_estimatedTokens (expansionOf cap vs)))"
  using affordable_sum [of cap 0 vs] by (auto simp: expansionOf_def Let_def)

lemma expansion_tokens: "er_estimatedTokens (expansionOf cap vs)
    = sum_list (map ec_tokenCount (er_children (expansionOf cap vs))) + sum_list (map em_tokenCount (er_messages (expansionOf cap vs)))"
proof -
  have "sum_list (map visitTokens vs) = sum_list (map ec_tokenCount (concat (map childOf vs)))
      + sum_list (map em_tokenCount (concat (map messageOf vs)))" for vs
    by (induction vs) (auto simp: childOf_def messageOf_def split: visit.split)
  then show ?thesis by (simp add: expansionOf_def Let_def)
qed

lemma entryTokens_raw: "entryTokens (toExpansionEntry sid r)
    = sum_list (map ec_tokenCount (er_children r)) + sum_list (map em_tokenCount (er_messages r))"
  by (simp add: entryTokens_def toExpansionEntry_def comp_def)

lemma obs_expand: "obs d (expand (root_engine sm ss) input) (\<lambda>r. \<exists>cap vs. r = expansionOf cap vs \<and> cap = orDefault PosInf (xi_tokenCap input))"
  unfolding expand_def
  by (rule obs_conseq [OF obs_expandRecursive])
    (auto simp: emptyExpansion_def collect_empty [unfolded emptyExpansion_def])

text \<open>What holds of an expansion at every round: the total is the sum of the entries and under the cap.\<close>

definition under_cap :: "js_number \<Rightarrow> nat \<Rightarrow> bool" where
  "under_cap cap n \<longleftrightarrow> (\<forall>q. cap = Num q \<longrightarrow> n = 0 \<or> of_nat n \<le> q)"

definition accounted :: "js_number \<Rightarrow> expansion_result \<Rightarrow> bool" where
  "accounted cap r \<longleftrightarrow> xr_totalTokens r = sum_list (map entryTokens (xr_expansions r))
     \<and> under_cap cap (xr_totalTokens r) \<and> distinct (xr_citedIds r)
     \<and> set (xr_citedIds r) = (\<Union>x \<in> set (xr_expansions r). set (collectCitedIds x))"

lemma accountedD:
  assumes "accounted cap r"
  shows "xr_totalTokens r = sum_list (map entryTokens (xr_expansions r))" "under_cap cap (xr_totalTokens r)"
    "distinct (xr_citedIds r)" "set (xr_citedIds r) = (\<Union>x \<in> set (xr_expansions r). set (collectCitedIds x))"
  using assms unfolding accounted_def by blast+

lemma accounted_truncated [simp]: "accounted cap (r\<lparr>xr_truncated := b\<rparr>) = accounted cap r"
  by (simp add: accounted_def)

lemma under_cap_add:
  assumes "under_cap cap n" and "\<not> js_leq (js_minus cap (js_nat n)) (Num 0)"
    and "m = 0 \<or> \<not> js_less (js_minus cap (js_nat n)) (js_nat m)"
  shows "under_cap cap (n + m)"
  using assms by (auto simp: under_cap_def js_nat_def)

lemma addCited_facts: "distinct cited \<Longrightarrow> distinct (addCited cited ids)" "set (addCited cited ids) = set cited \<union> set ids"
  by (auto simp: addCited_def distinct_dedupe_from set_dedupe_from)

lemma obs_expandEach: "accounted cap r \<Longrightarrow> obs d (expandEach (root_engine sm ss) maxDepth inc cap sids r) (accounted cap)"
proof (induction sids arbitrary: r)
  case Nil
  then show ?case by (simp add: obs_ret)
next
  case (Cons sid sids)
  let ?left = "js_minus cap (js_nat (xr_totalTokens r))"
  let ?input = "\<lparr>xi_summaryId = sid, xi_depth = Some maxDepth, xi_includeMessages = Some inc, xi_tokenCap = Some ?left\<rparr>"
  let ?next = "\<lambda>raw. \<lparr>xr_expansions = xr_expansions r @ [toExpansionEntry sid raw],
     xr_citedIds = addCited (xr_citedIds r) (collectCitedIds (toExpansionEntry sid raw)),
     xr_totalTokens = xr_totalTokens r + er_estimatedTokens raw, xr_truncated = er_truncated raw\<rparr>"
  have stop: "accounted cap (r\<lparr>xr_truncated := True\<rparr>)" using Cons.prems by simp
  have step: "accounted cap (?next (expansionOf ?left vs))" if "\<not> js_leq ?left (Num 0)" for vs
  proof -
    note sum = accountedD(1) [OF Cons.prems] and under = accountedD(2) [OF Cons.prems]
      and cited = accountedD(3,4) [OF Cons.prems]
    have "under_cap cap (xr_totalTokens r + er_estimatedTokens (expansionOf ?left vs))"
      by (rule under_cap_add [OF under that expansion_cap])
    then have "under_cap cap (xr_totalTokens (?next (expansionOf ?left vs)))" by simp
    moreover have "xr_totalTokens (?next (expansionOf ?left vs))
        = sum_list (map entryTokens (xr_expansions (?next (expansionOf ?left vs))))"
      by (simp add: sum [symmetric] entryTokens_raw expansion_tokens)
    ultimately show ?thesis using cited addCited_facts by (auto simp: accounted_def)
  qed
  have go: "obs d (bindM (expand (root_engine sm ss) ?input) (\<lambda>raw. expandEach (root_engine sm ss) maxDepth inc cap sids (?next raw)))
      (accounted cap)" if "\<not> js_leq ?left (Num 0)"
    by (rule obs_bind [OF obs_expand]) (use step [OF that] Cons.IH in \<open>auto simp: orDefault_def\<close>)
  show ?case
    unfolding expandEach.simps Let_def
    by (intro obs_if obs_ret Cons.prems stop go)
qed

lemma accounted_none: "accounted cap noExpansion"
  by (simp add: accounted_def noExpansion_def under_cap_def)

lemma obs_expandAll: "obs d (expandAll (root_engine sm ss) request) (accounted (orDefault PosInf (xq_tokenCap request)))"
  unfolding expandAll_def by (rule obs_expandEach [OF accounted_none])

lemma obs_describeAndExpand:
  assumes "\<And>i. obs d (ss i) (\<lambda>_. True)"
  shows "obs d (describeAndExpand (root_engine sm ss) query mode cid maxDepth (Some cap)) (accounted cap)"
proof -
  have search: "obs d (rs_searchSummaries (root_engine sm ss) i) (\<lambda>_. True)" for i
    using assms by (simp add: createRetrievalEngine_def)
  have "obs d (grep (root_engine sm ss) \<lparr>gi_search = si, gi_scope = ''summaries''\<rparr>) (\<lambda>_. True)" for si
    unfolding grep_def
    by (intro obs_if obs_throw) (simp, rule obs_bind [OF search], rule obs_ret, rule TrueI)
  moreover have "obs d (let ids = f g in if ids = [] then ret noExpansion else expandAll (root_engine sm ss)
      \<lparr>xq_summaryIds = ids, xq_maxDepth = maxDepth, xq_tokenCap = Some cap, xq_includeMessages = Some False\<rparr>) (accounted cap)" for f g
    using obs_expandAll [of d sm ss "\<lparr>xq_summaryIds = f g, xq_maxDepth = maxDepth, xq_tokenCap = Some cap, xq_includeMessages = Some False\<rparr>"]
    by (auto simp: Let_def obs_ret accounted_none orDefault_def)
  ultimately show ?thesis unfolding describeAndExpand_def by (rule obs_bind)
qed

lemma tool_cap_bound:
  assumes "1 \<le> m"
  obtains q where "resolveExpansionTokenCap requested (Num m) = Num q" and "q \<le> m"
proof -
  have "of_int \<lfloor>m\<rfloor> \<le> m" by simp
  moreover have "\<lfloor>m\<rfloor> = 1" if "\<not> 2 \<le> m" using that assms by (simp add: floor_eq_iff)
  ultimately have most: "js_max (Num 1) (js_trunc (Num m)) = Num (of_int \<lfloor>m\<rfloor>)"
    using assms by (auto simp: js_max_def)
  have "\<exists>q. resolveExpansionTokenCap requested (Num m) = Num q \<and> q \<le> of_int \<lfloor>m\<rfloor>"
  proof (cases requested)
    case (Some x)
    then show ?thesis
      by (cases x) (use assms in \<open>auto simp: resolveExpansionTokenCap_def Let_def most [simplified] js_min_def js_max_def\<close>)
  qed (simp add: resolveExpansionTokenCap_def Let_def most [simplified])
  then show thesis using that of_int_floor_le [of m] by force
qed

lemma accounted_answer:
  assumes "obs d e (accounted (Num q))" and "q \<le> m" and "1 \<le> m"
  shows "obs d (bindM e (\<lambda>r. ret (expansionAnswer r)))
    (\<lambda>t. \<forall>x. tr_details t = Inr x \<longrightarrow> (\<exists>r. t = expansionAnswer r \<and> accounted (Num m) r))"
proof (rule obs_bind [OF assms(1)], rule obs_ret)
  fix r assume "accounted (Num q) r"
  then have "accounted (Num m) r" using assms(2) by (auto simp: accounted_def under_cap_def)
  then show "\<forall>x. tr_details (expansionAnswer r) = Inr x \<longrightarrow> (\<exists>r'. expansionAnswer r = expansionAnswer r' \<and> accounted (Num m) r')"
    by blast
qed

text \<open>C27: Whatever is asked of the tool, by ids or by a query, with whatever cap, the returned text is
  made of an expansion whose total is the sum of its entries and at most the configured maximum, and the
  cited ids are the ids in it, each once, if the lexical search only reads.\<close>

theorem tool_accounts:
  assumes "settled d w" and "\<And>i. obs d (ss i) (\<lambda>_. True)" and "1 \<le> m"
    and "executeExpansionTool (root_engine sm ss) (Num m) cid params w = (Inr t, w')" and "tr_details t = Inr x"
  shows "settled d w' \<and> (\<exists>r. t = expansionAnswer r \<and> td_totalTokens x = sum_list (map entryTokens (xr_expansions r))
    \<and> of_nat (td_totalTokens x) \<le> m \<and> distinct (td_citedIds x)
    \<and> set (td_citedIds x) = (\<Union>e \<in> set (xr_expansions r). set (collectCitedIds e)))"
proof -
  obtain q where q: "resolveExpansionTokenCap (map_option (\<lambda>x. Num (of_int (truncRat x))) (tp_tokenCap params)) (Num m) = Num q"
    and "q \<le> m" using tool_cap_bound [OF assms(3)] .
  have ids: "obs d (expandAll (root_engine sm ss) \<lparr>xq_summaryIds = ids, xq_maxDepth = maxDepth,
      xq_tokenCap = Some (Num q), xq_includeMessages = Some inc\<rparr>) (accounted (Num q))" for ids maxDepth inc
    using obs_expandAll [of d sm ss "\<lparr>xq_summaryIds = ids, xq_maxDepth = maxDepth,
      xq_tokenCap = Some (Num q), xq_includeMessages = Some inc\<rparr>"] by (simp add: orDefault_def)
  have "obs d (executeExpansionTool (root_engine sm ss) (Num m) cid params)
      (\<lambda>t. \<forall>x. tr_details t = Inr x \<longrightarrow> (\<exists>r. t = expansionAnswer r \<and> accounted (Num m) r))"
    unfolding executeExpansionTool_def Let_def q
    by (intro obs_if accounted_answer [where q = q] obs_describeAndExpand assms(2,3) obs_ret ids \<open>q \<le> m\<close>) simp
  from triple_value [OF this [unfolded obs_def] assms(1,4)] assms(5)
  obtain r where s: "settled d w'" and t: "t = expansionAnswer r" and a: "accounted (Num m) r" by blast
  have "of_nat (xr_totalTokens r) \<le> m"
    using accountedD(2) [OF a] assms(3) by (cases "xr_totalTokens r = 0") (simp_all add: under_cap_def)
  moreover have "td_totalTokens x = xr_totalTokens r" "td_citedIds x = xr_citedIds r"
    using t assms(5) by (auto simp: expansionAnswer_def)
  ultimately show ?thesis using s t accountedD(1,3,4) [OF a] by metis
qed

definition sample_params :: tool_params where
  "sample_params = \<lparr>tp_summaryIds = Some [''A'', ''B''], tp_query = None, tp_maxDepth = None, tp_tokenCap = Some 50,
     tp_includeMessages = Some True\<rparr>"

theorem tool_accounts_witness:
  "\<exists>t x w'. executeExpansionTool (root_engine no_matches no_matches) (Num 4000) 1 sample_params (fresh_world sample_condensable)
      = (Inr t, w') \<and> tr_details t = Inr x \<and> settled sample_condensable w' \<and> rat_of_nat (td_totalTokens x) \<le> 4000
    \<and> td_truncated x \<and> td_citedIds x = [''A'', ''B'']"
proof -
  let ?run = "executeExpansionTool (root_engine no_matches no_matches) (Num 4000) 1 sample_params (fresh_world sample_condensable)"
  have "map_sum id (\<lambda>t. map_sum id (\<lambda>x. (td_truncated x, td_citedIds x)) (tr_details t)) (fst ?run) = Inr (Inr (True, [''A'', ''B'']))"
    by code_simp
  then obtain t x w' where run: "?run = (Inr t, w')" "tr_details t = Inr x" and x: "td_truncated x" "td_citedIds x = [''A'', ''B'']"
    by (cases ?run; cases "fst ?run"; cases "tr_details (projr (fst ?run))") auto
  have search: "obs sample_condensable (no_matches i) (\<lambda>_. True)" for i :: search_input by (simp add: obs_ret)
  show ?thesis using tool_accounts [OF settled_fresh search _ run] run x by auto
qed

section \<open>Search arguments\<close>

definition canonicalNames :: "json list \<Rightarrow> string set" where
  "canonicalNames layers = (\<lambda>l. if l = ''semantic'' then ''promoted'' else l) ` {l. JStr l \<in> set layers}"

lemma normalizeLayersFrom_spec:
  assumes "distinct seen" and "set seen \<subseteq> set CANONICAL_SEARCH_LAYERS" and "normalizeLayersFrom seen layers = Some r"
  shows "distinct r \<and> set r \<subseteq> set CANONICAL_SEARCH_LAYERS
    \<and> set r = set seen \<union> canonicalNames layers"
  using assms
proof (induction layers arbitrary: seen)
  case (Cons a layers)
  then obtain layer where a: "a = JStr layer" by (cases a) simp_all
  let ?c = "if layer = ''semantic'' then ''promoted'' else layer"
  let ?seen = "if ?c \<in> set seen then seen else seen @ [?c]"
  have step: "?c \<in> set CANONICAL_SEARCH_LAYERS \<and> normalizeLayersFrom ?seen layers = Some r"
    using Cons.prems(3) unfolding a normalizeLayersFrom.simps Let_def by (metis option.distinct(1))
  have "distinct ?seen" "set ?seen \<subseteq> set CANONICAL_SEARCH_LAYERS" using Cons.prems(1,2) step by auto
  from Cons.IH [OF this] step have r: "distinct r" "set r \<subseteq> set CANONICAL_SEARCH_LAYERS"
    and names: "set r = set ?seen \<union> canonicalNames layers" by blast+
  have "set ?seen = insert ?c (set seen)" by auto
  then show ?case using r names by (auto simp: a canonicalNames_def)
qed (simp add: canonicalNames_def)

lemma normalizeLayersFrom_canonical:
  assumes "distinct (seen @ ls)" and "set ls \<subseteq> set CANONICAL_SEARCH_LAYERS"
  shows "normalizeLayersFrom seen (map JStr ls) = Some (seen @ ls)"
  using assms
proof (induction ls arbitrary: seen)
  case (Cons l ls)
  have "l \<noteq> ''semantic''" using Cons.prems(2) by (auto simp: CANONICAL_SEARCH_LAYERS_def)
  then show ?case using Cons.prems Cons.IH [of "seen @ [l]"] by (auto simp: Let_def)
qed simp

text \<open>Normalized search layers are canonical names, each once, exactly the given ones with
  the old name \<open>semantic\<close> read as \<open>promoted\<close>; normalizing them again changes nothing.\<close>

theorem layers_normal:
  assumes "normalizeSearchLayers (Some (JArr layers)) = Some r"
  shows "distinct r \<and> set r \<subseteq> set CANONICAL_SEARCH_LAYERS
    \<and> set r = canonicalNames layers
    \<and> normalizeSearchLayers (Some (JArr (map JStr r))) = Some r"
proof -
  have r: "distinct r \<and> set r \<subseteq> set CANONICAL_SEARCH_LAYERS \<and> set r = canonicalNames layers"
    using normalizeLayersFrom_spec [of "[]" layers r, simplified] assms [unfolded normalizeSearchLayers_def, simplified] by blast
  have "normalizeLayersFrom [] (map JStr r) = Some ([] @ r)"
    by (rule normalizeLayersFrom_canonical) (unfold append_Nil, use r in blast, use r in blast)
  then have "normalizeSearchLayers (Some (JArr (map JStr r))) = Some r" by (simp add: normalizeSearchLayers_def)
  then show ?thesis using r by blast
qed

theorem layers_normal_witness:
  "normalizeSearchLayers (Some (JArr [JStr ''semantic'', JStr ''episodic'', JStr ''promoted''])) = Some [''promoted'', ''episodic'']
    \<and> distinct [''promoted'', ''episodic'']"
proof -
  have "normalizeSearchLayers (Some (JArr [JStr ''semantic'', JStr ''episodic'', JStr ''promoted''])) = Some [''promoted'', ''episodic'']"
    by (simp add: normalizeSearchLayers_def CANONICAL_SEARCH_LAYERS_def)
  from this layers_normal [OF this] show ?thesis by simp
qed

end
