(* ===== verification/Invocation_Coordinator.thy ===== *)
theory Invocation_Coordinator
  imports Storage_Model
begin

text \<open>
  \<open>src/daemon/invocation-coordinator.ts\<close>: the daemon's registry of running compactions.  An invocation
  is started with a lease, renews it by heartbeats, admits work and durable commits while it is active,
  and is drained when it is cancelled, finished, expired or the daemon shuts down.

  The record objects live in a heap, since the closures of the code (a release, a lease timer, a waiting
  cancel) keep a reference to one and compare references.  The timers of the host are a list of what
  \<open>setTimeout\<close> has registered and \<open>clearTimeout\<close> has not removed.  Every handler runs to its first
  await without interruption, so a handler is one function from state to state; a promise that is
  waited for has a number, and \<open>co_answers\<close> holds the promises that were settled.  A listener of an
  aborted signal does not call back into the coordinator before the handler ends: the listeners of the
  program settle promises, whose continuations run later.  Times are exact sums of milliseconds.
\<close>

section \<open>State\<close>

datatype live_state = ActiveState | CancellingState

datatype terminal_state = FinishedState | CancelledState

datatype invocation_state = Live live_state | Terminal terminal_state

record invocation_snapshot =
  is_invocationId :: string
  is_command :: string
  is_daemonInstanceId :: string
  is_state :: invocation_state
  is_activeCount :: int
  is_workCount :: int
  is_commitCount :: int
  is_leaseExpiresAt :: "rat option"

record invocation_record =
  ir_invocationId :: string
  ir_command :: string
  ir_daemonInstanceId :: string
  ir_state :: live_state
  ir_aborted :: bool
  ir_workCount :: int
  ir_commitCount :: int
  ir_leaseExpiresAt :: rat
  ir_leaseTimer :: "nat option"
  ir_drainState :: "terminal_state option"
  ir_zeroWaiters :: "nat list"

record tombstone =
  to_snapshot :: invocation_snapshot
  to_expiresAt :: js_number

text \<open>The message of an error is its class, its code and its HTTP status.\<close>

datatype coordinator_error =
    CoordinatorError string nat
  | CoordinatorAbort

datatype timer_callback = LeaseTimer nat | ReaperTimer

datatype shutdown_promise = ShutdownPending | ShutdownResolved

datatype admission_kind = WorkAdmission | CommitAdmission

text \<open>An admission that was handed out: the record its closure holds, its kind, and \<open>released\<close>.\<close>

record admission =
  ad_record :: nat
  ad_kind :: admission_kind
  ad_released :: bool

record coordinator =
  co_heap :: "nat \<Rightarrow> invocation_record"
  co_size :: nat
  co_records :: "(string \<times> nat) list"
  co_tombstones :: "(string \<times> tombstone) list"
  co_shutdownAborted :: bool
  co_globalZeroWaiters :: nat
  co_reaperTimer :: "nat option"
  co_shuttingDown :: bool
  co_shutdownPromise :: "shutdown_promise option"
  co_admissions :: "admission list"
  co_answers :: "(nat \<times> (coordinator_error + invocation_snapshot)) list"
  co_promises :: nat
  co_timers :: "(nat \<times> timer_callback) list"
  co_timerIds :: nat
  co_clock :: "nat \<Rightarrow> rat"
  co_clockReads :: nat

section \<open>Options\<close>

text \<open>The two spellings of the daemon instance; the other doubled options are test seams.\<close>

record coordinator_options =
  op_daemonInstanceId :: "string option"
  op_instanceId :: "string option"
  op_leaseMs :: "js_number option"
  op_tombstoneTtlMs :: "js_number option"
  op_maxTombstones :: "js_number option"

text \<open>What the constructor makes of them and the functions of the closure refer to.\<close>

record coordinator_config =
  cc_daemonInstanceId :: string
  cc_leaseMs :: rat
  cc_tombstoneTtlMs :: js_number
  cc_maxTombstones :: nat

definition isLowerHex :: "char \<Rightarrow> bool" where
  "isLowerHex c = (let k = (of_char c :: nat) in (48 \<le> k \<and> k \<le> 57) \<or> (97 \<le> k \<and> k \<le> 102))"

definition canonicalUuid :: "string \<Rightarrow> bool" where
  "canonicalUuid s \<longleftrightarrow> length s = 36
     \<and> (\<forall>i \<in> set [0..<36]. if i \<in> {8, 13, 18, 23} then s ! i = CHR ''-'' else isLowerHex (s ! i))"

definition optionNumber :: "js_number option \<Rightarrow> rat \<Rightarrow> rat option" where
  "optionNumber v fallback = (case v of None \<Rightarrow> Some fallback
     | Some (Num x) \<Rightarrow> if x < 0 then None else Some x
     | Some _ \<Rightarrow> None)"

definition DEFAULT_LEASE_MS :: rat where
  "DEFAULT_LEASE_MS = 30000"

definition DEFAULT_MAX_TOMBSTONES :: rat where
  "DEFAULT_MAX_TOMBSTONES = 1024"

definition coordinatorConfig :: "coordinator_options \<Rightarrow> string \<Rightarrow> coordinator_config option" where
  "coordinatorConfig options uuid =
     (let instance_id = (case op_daemonInstanceId options of Some i \<Rightarrow> i
          | None \<Rightarrow> (case op_instanceId options of Some i \<Rightarrow> i | None \<Rightarrow> uuid)) in
      if \<not> canonicalUuid instance_id then None
      else case optionNumber (op_leaseMs options) DEFAULT_LEASE_MS of None \<Rightarrow> None | Some leaseMs \<Rightarrow>
        (case (case op_tombstoneTtlMs options of None \<Rightarrow> Some PosInf
               | Some t \<Rightarrow> map_option Num (optionNumber (Some t) 1)) of None \<Rightarrow> None | Some ttl \<Rightarrow>
        (case optionNumber (op_maxTombstones options) DEFAULT_MAX_TOMBSTONES of None \<Rightarrow> None | Some most \<Rightarrow>
           if most \<noteq> of_int \<lfloor>most\<rfloor> then None
           else Some \<lparr>cc_daemonInstanceId = instance_id, cc_leaseMs = leaseMs,
             cc_tombstoneTtlMs = ttl, cc_maxTombstones = nat \<lfloor>most\<rfloor>\<rparr>)))"

definition blankRecord :: invocation_record where
  "blankRecord = \<lparr>ir_invocationId = '''', ir_command = '''', ir_daemonInstanceId = '''', ir_state = ActiveState,
     ir_aborted = False, ir_workCount = 0, ir_commitCount = 0, ir_leaseExpiresAt = 0, ir_leaseTimer = None,
     ir_drainState = None, ir_zeroWaiters = []\<rparr>"

text \<open>The state that the constructor sets up, over a clock.\<close>

definition newCoordinator :: "(nat \<Rightarrow> rat) \<Rightarrow> coordinator" where
  "newCoordinator clock = \<lparr>co_heap = (\<lambda>_. blankRecord), co_size = 0, co_records = [], co_tombstones = [],
     co_shutdownAborted = False, co_globalZeroWaiters = 0, co_reaperTimer = None, co_shuttingDown = False,
     co_shutdownPromise = None, co_admissions = [], co_answers = [], co_promises = 0, co_timers = [],
     co_timerIds = 0, co_clock = clock, co_clockReads = 0\<rparr>"

section \<open>Input\<close>

text \<open>\<open>value.a ?? value.b\<close> on the properties of an object: missing and null fall through.\<close>

definition fieldOr :: "(string \<times> json) list \<Rightarrow> string \<Rightarrow> string \<Rightarrow> json option" where
  "fieldOr entries a b = (case map_of entries a of
       Some v \<Rightarrow> if v = JNull then map_of entries b else Some v
     | None \<Rightarrow> map_of entries b)"

definition uuidField :: "json option \<Rightarrow> string option" where
  "uuidField v = (case v of Some (JStr s) \<Rightarrow> if canonicalUuid s then Some s else None | _ \<Rightarrow> None)"

record invocation_target =
  it_invocationId :: string
  it_command :: string
  it_daemonInstanceId :: string

definition normalizeTarget :: "json \<Rightarrow> string \<Rightarrow> coordinator_error + invocation_target" where
  "normalizeTarget input daemonInstanceId = (case input of
     JObj entries \<Rightarrow>
       (case (uuidField (fieldOr entries ''invocationId'' ''invocation_id''),
              uuidField (fieldOr entries ''daemonInstanceId'' ''daemon_instance_id'')) of
          (Some i, Some d) \<Rightarrow>
            if map_of entries ''command'' \<noteq> Some (JStr ''compact'') then Inl (CoordinatorError ''invalid-input'' 400)
            else if d \<noteq> daemonInstanceId then Inl (CoordinatorError ''wrong-instance'' 409)
            else Inr \<lparr>it_invocationId = i, it_command = ''compact'', it_daemonInstanceId = d\<rparr>
        | _ \<Rightarrow> Inl (CoordinatorError ''invalid-input'' 400))
   | _ \<Rightarrow> Inl (CoordinatorError ''invalid-input'' 400))"

section \<open>Helpers of the closure\<close>

definition activeCount :: "invocation_record \<Rightarrow> int" where
  "activeCount r = ir_workCount r + ir_commitCount r"

definition snapshotForRecord :: "invocation_record \<Rightarrow> invocation_snapshot" where
  "snapshotForRecord r = \<lparr>is_invocationId = ir_invocationId r, is_command = ir_command r,
     is_daemonInstanceId = ir_daemonInstanceId r, is_state = Live (ir_state r), is_activeCount = activeCount r,
     is_workCount = ir_workCount r, is_commitCount = ir_commitCount r, is_leaseExpiresAt = Some (ir_leaseExpiresAt r)\<rparr>"

text \<open>\<open>now()\<close>, and the registration and removal of a timer.\<close>

definition currentTime :: "coordinator \<Rightarrow> rat" where
  "currentTime c = co_clock c (co_clockReads c)"

definition tick :: "coordinator \<Rightarrow> coordinator" where
  "tick c = c\<lparr>co_clockReads := Suc (co_clockReads c)\<rparr>"

definition setTimer :: "timer_callback \<Rightarrow> coordinator \<Rightarrow> nat \<times> coordinator" where
  "setTimer callback c = (co_timerIds c,
     c\<lparr>co_timers := co_timers c @ [(co_timerIds c, callback)], co_timerIds := Suc (co_timerIds c)\<rparr>)"

definition clearTimer :: "nat \<Rightarrow> coordinator \<Rightarrow> coordinator" where
  "clearTimer h c = c\<lparr>co_timers := filter (\<lambda>(i, _). i \<noteq> h) (co_timers c)\<rparr>"

definition updateRecord :: "nat \<Rightarrow> (invocation_record \<Rightarrow> invocation_record) \<Rightarrow> coordinator \<Rightarrow> coordinator" where
  "updateRecord a f c = c\<lparr>co_heap := (co_heap c)(a := f (co_heap c a))\<rparr>"

definition clearLeaseTimer :: "nat \<Rightarrow> coordinator \<Rightarrow> coordinator" where
  "clearLeaseTimer a c = (case ir_leaseTimer (co_heap c a) of None \<Rightarrow> c
     | Some h \<Rightarrow> updateRecord a (\<lambda>r. r\<lparr>ir_leaseTimer := None\<rparr>) (clearTimer h c))"

definition globalZero :: "coordinator \<Rightarrow> bool" where
  "globalZero c = list_all (\<lambda>(_, a). activeCount (co_heap c a) = 0) (co_records c)"

definition clearReaper :: "coordinator \<Rightarrow> coordinator" where
  "clearReaper c = (case co_reaperTimer c of None \<Rightarrow> c | Some h \<Rightarrow> (clearTimer h c)\<lparr>co_reaperTimer := None\<rparr>)"

text \<open>The waiters are the closures of \<open>shutdown\<close>: each clears the reaper and resolves the promise.\<close>

definition resolveGlobalZero :: "coordinator \<Rightarrow> coordinator" where
  "resolveGlobalZero c = (if \<not> globalZero c \<or> co_globalZeroWaiters c = 0 then c
     else (clearReaper c)\<lparr>co_globalZeroWaiters := 0, co_shutdownPromise := Some ShutdownResolved\<rparr>)"

definition scheduleReaper :: "coordinator \<Rightarrow> coordinator" where
  "scheduleReaper c = (if co_reaperTimer c \<noteq> None \<or> co_tombstones c = [] then c
     else let earliest = foldl js_min PosInf (map (to_expiresAt \<circ> snd) (co_tombstones c)) in
       if \<not> js_isFinite earliest then c
       else (case setTimer ReaperTimer (tick c) of (h, c') \<Rightarrow> c'\<lparr>co_reaperTimer := Some h\<rparr>))"

fun js_after :: "rat \<Rightarrow> js_number \<Rightarrow> js_number" where
  "js_after t (Num x) = Num (t + x)"
| "js_after t x = x"

text \<open>\<open>Map.prototype.set\<close> and \<open>delete\<close> on the entries in insertion order.\<close>

definition mapDelete :: "'k \<Rightarrow> ('k \<times> 'v) list \<Rightarrow> ('k \<times> 'v) list" where
  "mapDelete k kvs = filter (\<lambda>(k', _). k' \<noteq> k) kvs"

definition mapSet :: "'k \<Rightarrow> 'v \<Rightarrow> ('k \<times> 'v) list \<Rightarrow> ('k \<times> 'v) list" where
  "mapSet k v kvs = (if k \<in> fst ` set kvs then map (\<lambda>(k', v'). (k', if k' = k then v else v')) kvs else kvs @ [(k, v)])"

definition terminalize :: "coordinator_config \<Rightarrow> nat \<Rightarrow> terminal_state \<Rightarrow> coordinator \<Rightarrow> invocation_snapshot \<times> coordinator" where
  "terminalize cfg a state c0 =
     (let c1 = updateRecord a (\<lambda>r. r\<lparr>ir_state := CancellingState\<rparr>) (clearLeaseTimer a c0);
          r = co_heap c1 a;
          terminal = (snapshotForRecord r)\<lparr>is_state := Terminal state, is_leaseExpiresAt := None\<rparr>;
          c2 = c1\<lparr>co_records := mapDelete (ir_invocationId r) (co_records c1)\<rparr>;
          ts = mapSet (ir_invocationId r) \<lparr>to_snapshot = terminal,
                 to_expiresAt = js_after (currentTime c2) (cc_tombstoneTtlMs cfg)\<rparr> (co_tombstones c2);
          c3 = (tick c2)\<lparr>co_tombstones := drop (length ts - cc_maxTombstones cfg) ts\<rparr>;
          c4 = scheduleReaper c3;
          c5 = updateRecord a (\<lambda>r. r\<lparr>ir_zeroWaiters := []\<rparr>) c4;
          c6 = c5\<lparr>co_answers := co_answers c5 @ map (\<lambda>w. (w, Inr terminal)) (ir_zeroWaiters (co_heap c4 a))\<rparr>
      in (terminal, resolveGlobalZero c6))"

definition maybeDrainRecord :: "coordinator_config \<Rightarrow> nat \<Rightarrow> coordinator \<Rightarrow> invocation_snapshot \<times> coordinator" where
  "maybeDrainRecord cfg a c =
     (if activeCount (co_heap c a) \<noteq> 0 then (snapshotForRecord (co_heap c a), resolveGlobalZero c)
      else case ir_drainState (co_heap c a) of
        None \<Rightarrow> (snapshotForRecord (co_heap c a), resolveGlobalZero c)
      | Some s \<Rightarrow> terminalize cfg a s c)"

definition transitionToCancel :: "coordinator_config \<Rightarrow> nat \<Rightarrow> terminal_state option \<Rightarrow> coordinator
    \<Rightarrow> invocation_snapshot \<times> coordinator" where
  "transitionToCancel cfg a drain c = maybeDrainRecord cfg a
     (updateRecord a (\<lambda>r. r\<lparr>ir_state := CancellingState, ir_drainState := drain, ir_aborted := True\<rparr>) (clearLeaseTimer a c))"

definition scheduleLease :: "nat \<Rightarrow> coordinator \<Rightarrow> coordinator" where
  "scheduleLease a c = (case setTimer (LeaseTimer a) (tick (clearLeaseTimer a c)) of (h, c') \<Rightarrow>
     updateRecord a (\<lambda>r. r\<lparr>ir_leaseTimer := Some h\<rparr>) c')"

text \<open>The callback of the lease timer; the host has removed the timer that fires.\<close>

definition leaseFires :: "coordinator_config \<Rightarrow> nat \<Rightarrow> coordinator \<Rightarrow> coordinator" where
  "leaseFires cfg a c0 =
     (let c = updateRecord a (\<lambda>r. r\<lparr>ir_leaseTimer := None\<rparr>) c0; r = co_heap c a in
      if map_of (co_records c) (ir_invocationId r) \<noteq> Some a \<or> ir_state r \<noteq> ActiveState then c
      else if currentTime c < ir_leaseExpiresAt r then scheduleLease a (tick c)
      else snd (transitionToCancel cfg a (Some CancelledState) (tick c)))"

definition reaperFires :: "coordinator \<Rightarrow> coordinator" where
  "reaperFires c0 =
     (let c = tick (c0\<lparr>co_reaperTimer := None\<rparr>); current = currentTime c0 in
      scheduleReaper (c\<lparr>co_tombstones := filter (\<lambda>(_, t). \<not> js_leq (to_expiresAt t) (Num current)) (co_tombstones c)\<rparr>))"

definition refreshTombstone :: "coordinator_config \<Rightarrow> string \<Rightarrow> tombstone \<Rightarrow> coordinator \<Rightarrow> tombstone \<times> coordinator" where
  "refreshTombstone cfg i t c =
     (let t' = t\<lparr>to_expiresAt := js_after (currentTime c) (cc_tombstoneTtlMs cfg)\<rparr> in
      (t', (tick c)\<lparr>co_tombstones := mapSet i t' (mapDelete i (co_tombstones c))\<rparr>))"

datatype found = FoundRecord nat | FoundTombstone tombstone

definition lookup :: "coordinator_config \<Rightarrow> string \<Rightarrow> coordinator \<Rightarrow> (coordinator_error + found) \<times> coordinator" where
  "lookup cfg i c = (case map_of (co_records c) i of
     Some a \<Rightarrow> (Inr (FoundRecord a), c)
   | None \<Rightarrow> (case map_of (co_tombstones c) i of
       Some t \<Rightarrow> (case refreshTombstone cfg i t c of (t', c') \<Rightarrow> (Inr (FoundTombstone t'), c'))
     | None \<Rightarrow> (Inl (CoordinatorError ''unknown-invocation'' 404), c)))"

section \<open>Handlers\<close>

definition startInvocation :: "coordinator_config \<Rightarrow> json \<Rightarrow> coordinator
    \<Rightarrow> (coordinator_error + invocation_snapshot) \<times> coordinator" where
  "startInvocation cfg input c = (case normalizeTarget input (cc_daemonInstanceId cfg) of
     Inl e \<Rightarrow> (Inl e, c)
   | Inr target \<Rightarrow>
       if co_shuttingDown c then (Inl (CoordinatorError ''shutdown'' 503), c)
       else if map_of (co_records c) (it_invocationId target) \<noteq> None
            \<or> map_of (co_tombstones c) (it_invocationId target) \<noteq> None
         then (Inl (CoordinatorError ''duplicate'' 409), c)
       else let a = co_size c;
              r = blankRecord\<lparr>ir_invocationId := it_invocationId target, ir_command := it_command target,
                 ir_daemonInstanceId := it_daemonInstanceId target, ir_leaseExpiresAt := currentTime c + cc_leaseMs cfg\<rparr>;
              c1 = (tick c)\<lparr>co_heap := (co_heap c)(a := r), co_size := Suc a,
                 co_records := mapSet (it_invocationId target) a (co_records c)\<rparr>;
              c2 = scheduleLease a c1
            in (Inr (snapshotForRecord (co_heap c2 a)), c2))"

definition heartbeat :: "coordinator_config \<Rightarrow> json \<Rightarrow> coordinator
    \<Rightarrow> (coordinator_error + invocation_snapshot) \<times> coordinator" where
  "heartbeat cfg input c0 = (case normalizeTarget input (cc_daemonInstanceId cfg) of
     Inl e \<Rightarrow> (Inl e, c0)
   | Inr target \<Rightarrow> (case lookup cfg (it_invocationId target) c0 of
       (Inl e, c) \<Rightarrow> (Inl e, c)
     | (Inr (FoundTombstone _), c) \<Rightarrow> (Inl (CoordinatorError ''cancelled'' 409), c)
     | (Inr (FoundRecord a), c) \<Rightarrow>
         if ir_state (co_heap c a) \<noteq> ActiveState then (Inl (CoordinatorError ''cancelled'' 409), c)
         else if ir_leaseExpiresAt (co_heap c a) \<le> currentTime c
           then (Inl (CoordinatorError ''cancelled'' 409), snd (transitionToCancel cfg a (Some CancelledState) (tick c)))
         else let c1 = scheduleLease a (updateRecord a
                (\<lambda>r. r\<lparr>ir_leaseExpiresAt := currentTime c + cc_leaseMs cfg\<rparr>) (tick c))
              in (Inr (snapshotForRecord (co_heap c1 a)), c1)))"

fun countUp :: "admission_kind \<Rightarrow> int \<Rightarrow> invocation_record \<Rightarrow> invocation_record" where
  "countUp WorkAdmission n r = r\<lparr>ir_workCount := ir_workCount r + n\<rparr>"
| "countUp CommitAdmission n r = r\<lparr>ir_commitCount := ir_commitCount r + n\<rparr>"

text \<open>The answer of an admission is its number; the signal it carries is \<open>ir_aborted\<close> of its record.\<close>

definition admit :: "coordinator_config \<Rightarrow> json \<Rightarrow> admission_kind \<Rightarrow> coordinator \<Rightarrow> (coordinator_error + nat) \<times> coordinator" where
  "admit cfg input kind c0 = (case normalizeTarget input (cc_daemonInstanceId cfg) of
     Inl e \<Rightarrow> (Inl e, c0)
   | Inr target \<Rightarrow>
       if co_shutdownAborted c0 then (Inl CoordinatorAbort, c0)
       else (case lookup cfg (it_invocationId target) c0 of
         (Inl e, c) \<Rightarrow> (Inl e, c)
       | (Inr (FoundTombstone _), c) \<Rightarrow> (Inl (CoordinatorError ''cancelled'' 409), c)
       | (Inr (FoundRecord a), c) \<Rightarrow>
           if ir_state (co_heap c a) \<noteq> ActiveState then (Inl (CoordinatorError ''cancelled'' 409), c)
           else (Inr (length (co_admissions c)), (updateRecord a (countUp kind 1) c)\<lparr>co_admissions :=
                   co_admissions c @ [\<lparr>ad_record = a, ad_kind = kind, ad_released = False\<rparr>]\<rparr>)))"

definition releaseCount :: "coordinator_config \<Rightarrow> nat \<Rightarrow> admission_kind \<Rightarrow> coordinator \<Rightarrow> coordinator" where
  "releaseCount cfg a kind c = snd (maybeDrainRecord cfg a (updateRecord a (countUp kind (- 1)) c))"

text \<open>The \<open>release\<close> closure of the admission with number \<open>i\<close>.\<close>

definition releaseAdmission :: "coordinator_config \<Rightarrow> nat \<Rightarrow> coordinator \<Rightarrow> coordinator" where
  "releaseAdmission cfg i c =
     (if length (co_admissions c) \<le> i \<or> ad_released (co_admissions c ! i) then c
      else let ad = co_admissions c ! i in
        releaseCount cfg (ad_record ad) (ad_kind ad) (c\<lparr>co_admissions := (co_admissions c)[i := ad\<lparr>ad_released := True\<rparr>]\<rparr>))"

text \<open>
  A handler that may wait either settles at once or waits for the promise with the given number.  The
  caller's own signal may be aborted already, which \<open>waitForAbortable\<close> throws for.
\<close>

datatype outcome = Settled invocation_snapshot | Waiting nat

definition waitForZero :: "nat \<Rightarrow> bool \<Rightarrow> coordinator \<Rightarrow> (coordinator_error + outcome) \<times> coordinator" where
  "waitForZero a aborted c = (if aborted then (Inl CoordinatorAbort, c)
     else (Inr (Waiting (co_promises c)),
       (updateRecord a (\<lambda>r. r\<lparr>ir_zeroWaiters := ir_zeroWaiters r @ [co_promises c]\<rparr>) c)\<lparr>co_promises := Suc (co_promises c)\<rparr>))"

text \<open>The caller of a waiting handler aborts: the promise is rejected and its waiter removed.\<close>

definition abortWait :: "nat \<Rightarrow> nat \<Rightarrow> coordinator \<Rightarrow> coordinator" where
  "abortWait a p c = (if p \<notin> set (ir_zeroWaiters (co_heap c a)) then c
     else (updateRecord a (\<lambda>r. r\<lparr>ir_zeroWaiters := remove1 p (ir_zeroWaiters r)\<rparr>) c)
            \<lparr>co_answers := co_answers c @ [(p, Inl CoordinatorAbort)]\<rparr>)"

definition cancelInvocation :: "coordinator_config \<Rightarrow> json \<Rightarrow> bool \<Rightarrow> coordinator \<Rightarrow> (coordinator_error + outcome) \<times> coordinator" where
  "cancelInvocation cfg input aborted c0 = (case normalizeTarget input (cc_daemonInstanceId cfg) of
     Inl e \<Rightarrow> (Inl e, c0)
   | Inr target \<Rightarrow> (case lookup cfg (it_invocationId target) c0 of
       (Inl e, c) \<Rightarrow> (Inl e, c)
     | (Inr (FoundTombstone t), c) \<Rightarrow> (Inr (Settled (to_snapshot t)), c)
     | (Inr (FoundRecord a), c) \<Rightarrow> (case transitionToCancel cfg a (Some CancelledState) c of (transitioned, c1) \<Rightarrow>
         if map_of (co_records c1) (ir_invocationId (co_heap c1 a)) \<noteq> Some a then (Inr (Settled transitioned), c1)
         else waitForZero a aborted c1)))"

definition finishInvocation :: "coordinator_config \<Rightarrow> json \<Rightarrow> bool \<Rightarrow> coordinator \<Rightarrow> (coordinator_error + outcome) \<times> coordinator" where
  "finishInvocation cfg input aborted c0 = (case normalizeTarget input (cc_daemonInstanceId cfg) of
     Inl e \<Rightarrow> (Inl e, c0)
   | Inr target \<Rightarrow> (case lookup cfg (it_invocationId target) c0 of
       (Inl e, c) \<Rightarrow> (Inl e, c)
     | (Inr (FoundTombstone t), c) \<Rightarrow> (Inr (Settled (to_snapshot t)), c)
     | (Inr (FoundRecord a), c) \<Rightarrow>
         let c1 = clearLeaseTimer a c;
             c2 = (if ir_drainState (co_heap c1 a) \<noteq> Some CancelledState
                   then updateRecord a (\<lambda>r. r\<lparr>ir_state := CancellingState, ir_drainState := Some FinishedState\<rparr>) c1 else c1)
         in (case maybeDrainRecord cfg a c2 of (transitioned, c3) \<Rightarrow>
           if map_of (co_records c3) (ir_invocationId (co_heap c3 a)) \<noteq> Some a then (Inr (Settled transitioned), c3)
           else waitForZero a aborted c3)))"

definition snapshotOf :: "coordinator_config \<Rightarrow> string \<Rightarrow> coordinator \<Rightarrow> (coordinator_error + invocation_snapshot) \<times> coordinator" where
  "snapshotOf cfg i c = (if \<not> canonicalUuid i then (Inl (CoordinatorError ''invalid-input'' 400), c)
     else (case lookup cfg i c of
       (Inl e, c') \<Rightarrow> (Inl e, c')
     | (Inr (FoundRecord a), c') \<Rightarrow> (Inr (snapshotForRecord (co_heap c' a)), c')
     | (Inr (FoundTombstone t), c') \<Rightarrow> (Inr (to_snapshot t), c')))"

definition tombstoneCount :: "coordinator \<Rightarrow> nat" where
  "tombstoneCount c = length (co_tombstones c)"

fun cancelEach :: "coordinator_config \<Rightarrow> nat list \<Rightarrow> coordinator \<Rightarrow> coordinator" where
  "cancelEach cfg [] c = c"
| "cancelEach cfg (a # as) c = cancelEach cfg as (snd (transitionToCancel cfg a (Some CancelledState) c))"

definition shutdownCoordinator :: "coordinator_config \<Rightarrow> coordinator \<Rightarrow> coordinator" where
  "shutdownCoordinator cfg c0 = (if co_shutdownPromise c0 \<noteq> None then c0
     else let c = cancelEach cfg (map snd (co_records c0)) (c0\<lparr>co_shuttingDown := True, co_shutdownAborted := True\<rparr>) in
       if globalZero c then (clearReaper c)\<lparr>co_shutdownPromise := Some ShutdownResolved\<rparr>
       else resolveGlobalZero (c\<lparr>co_shutdownPromise := Some ShutdownPending,
              co_globalZeroWaiters := Suc (co_globalZeroWaiters c)\<rparr>))"

section \<open>Runs\<close>

text \<open>What may happen to a coordinator: a call, a release, an abort of a waiting caller, a timer.\<close>

datatype coordinator_event =
    Start json
  | Heartbeat json
  | Admit json admission_kind
  | Release nat
  | Cancel json bool
  | Finish json bool
  | AbortWait nat nat
  | Snapshot string
  | TimerFires nat
  | Shutdown

definition timerFires :: "coordinator_config \<Rightarrow> nat \<Rightarrow> coordinator \<Rightarrow> coordinator" where
  "timerFires cfg h c = (case map_of (co_timers c) h of
     None \<Rightarrow> c
   | Some (LeaseTimer a) \<Rightarrow> leaseFires cfg a (clearTimer h c)
   | Some ReaperTimer \<Rightarrow> reaperFires (clearTimer h c))"

fun perform :: "coordinator_config \<Rightarrow> coordinator_event \<Rightarrow> coordinator \<Rightarrow> coordinator" where
  "perform cfg (Start input) c = snd (startInvocation cfg input c)"
| "perform cfg (Heartbeat input) c = snd (heartbeat cfg input c)"
| "perform cfg (Admit input kind) c = snd (admit cfg input kind c)"
| "perform cfg (Release i) c = releaseAdmission cfg i c"
| "perform cfg (Cancel input aborted) c = snd (cancelInvocation cfg input aborted c)"
| "perform cfg (Finish input aborted) c = snd (finishInvocation cfg input aborted c)"
| "perform cfg (AbortWait a p) c = abortWait a p c"
| "perform cfg (Snapshot i) c = snd (snapshotOf cfg i c)"
| "perform cfg (TimerFires h) c = timerFires cfg h c"
| "perform cfg Shutdown c = shutdownCoordinator cfg c"

inductive coordinator_run :: "coordinator_config \<Rightarrow> coordinator \<Rightarrow> coordinator \<Rightarrow> bool" for cfg where
  run_start: "coordinator_run cfg c c"
| run_event: "coordinator_run cfg c c' \<Longrightarrow> coordinator_run cfg c (perform cfg e c')"

end
