(* ===== verification/Invocation_Facts.thy ===== *)
theory Invocation_Facts
  imports Invocation_Coordinator
begin

text \<open>
  The invariant of the coordinator and what it gives: counts are exact, terminal invocations hold
  nothing, waiting callers wait for admissions only, leases are watched.
\<close>

section \<open>The invariant\<close>

definition held :: "admission list \<Rightarrow> nat \<Rightarrow> admission_kind \<Rightarrow> nat" where
  "held ads a k = length (filter (\<lambda>ad. ad_record ad = a \<and> ad_kind ad = k \<and> \<not> ad_released ad) ads)"

definition counts_ok :: "coordinator \<Rightarrow> bool" where
  "counts_ok c \<longleftrightarrow> (\<forall>a. ir_workCount (co_heap c a) = int (held (co_admissions c) a WorkAdmission)
     \<and> ir_commitCount (co_heap c a) = int (held (co_admissions c) a CommitAdmission))"

definition registered :: "coordinator \<Rightarrow> nat \<Rightarrow> bool" where
  "registered c a \<longleftrightarrow> a \<in> snd ` set (co_records c)"

definition maps_ok :: "coordinator \<Rightarrow> bool" where
  "maps_ok c \<longleftrightarrow> distinct (map fst (co_records c)) \<and> distinct (map fst (co_tombstones c))
     \<and> (\<forall>(i, a) \<in> set (co_records c). a < co_size c \<and> ir_invocationId (co_heap c a) = i)
     \<and> fst ` set (co_records c) \<inter> fst ` set (co_tombstones c) = {}"

definition idle_ok :: "coordinator \<Rightarrow> bool" where
  "idle_ok c \<longleftrightarrow> (\<forall>a. \<not> registered c a \<longrightarrow> activeCount (co_heap c a) = 0 \<and> ir_zeroWaiters (co_heap c a) = [])"

definition drained :: "invocation_snapshot \<Rightarrow> bool" where
  "drained s \<longleftrightarrow> is_activeCount s = 0 \<and> is_workCount s = 0 \<and> is_commitCount s = 0 \<and> (\<exists>t. is_state s = Terminal t)"

definition tombstones_ok :: "coordinator_config \<Rightarrow> coordinator \<Rightarrow> bool" where
  "tombstones_ok cfg c \<longleftrightarrow> length (co_tombstones c) \<le> cc_maxTombstones cfg
     \<and> (\<forall>(i, t) \<in> set (co_tombstones c). is_invocationId (to_snapshot t) = i \<and> drained (to_snapshot t))"

definition timers_ok :: "coordinator \<Rightarrow> bool" where
  "timers_ok c \<longleftrightarrow> (\<forall>(h, _) \<in> set (co_timers c). h < co_timerIds c)
     \<and> (\<forall>a h. ir_leaseTimer (co_heap c a) = Some h \<longrightarrow> map_of (co_timers c) h = Some (LeaseTimer a))
     \<and> (\<forall>h. co_reaperTimer c = Some h \<longrightarrow> map_of (co_timers c) h = Some ReaperTimer)"

definition promises_ok :: "coordinator \<Rightarrow> bool" where
  "promises_ok c \<longleftrightarrow> (\<forall>p < co_promises c. (\<exists>a. registered c a \<and> p \<in> set (ir_zeroWaiters (co_heap c a))) \<or> p \<in> fst ` set (co_answers c))
     \<and> (\<forall>(p, r) \<in> set (co_answers c). \<forall>s. r = Inr s \<longrightarrow> drained s)"

definition record_ok :: "invocation_record \<Rightarrow> bool" where
  "record_ok r \<longleftrightarrow> (ir_state r = ActiveState \<longleftrightarrow> ir_drainState r = None)
     \<and> (ir_drainState r \<noteq> None \<longrightarrow> 0 < activeCount r) \<and> (ir_zeroWaiters r \<noteq> [] \<longrightarrow> ir_drainState r \<noteq> None)
     \<and> (ir_drainState r = Some CancelledState \<longrightarrow> ir_aborted r)
     \<and> (ir_state r = ActiveState \<longrightarrow> \<not> ir_aborted r \<and> ir_leaseTimer r \<noteq> None)"

definition shutdown_ok :: "coordinator \<Rightarrow> bool" where
  "shutdown_ok c \<longleftrightarrow> (0 < co_globalZeroWaiters c \<longleftrightarrow> co_shutdownPromise c = Some ShutdownPending)
     \<and> (co_shutdownPromise c = Some ShutdownResolved \<longrightarrow> co_records c = [])
     \<and> (\<forall>a. co_shutdownPromise c \<noteq> None \<longrightarrow> registered c a \<longrightarrow> ir_state (co_heap c a) \<noteq> ActiveState)"

text \<open>Everything except the record at \<open>a\<close>, which a handler is about to drain.\<close>

definition steady_but :: "coordinator_config \<Rightarrow> nat option \<Rightarrow> coordinator \<Rightarrow> bool" where
  "steady_but cfg x c \<longleftrightarrow> counts_ok c \<and> maps_ok c \<and> idle_ok c \<and> tombstones_ok cfg c \<and> timers_ok c \<and> promises_ok c
     \<and> shutdown_ok c \<and> (\<forall>a. registered c a \<longrightarrow> Some a \<noteq> x \<longrightarrow> record_ok (co_heap c a))"

definition pending_ok :: "coordinator \<Rightarrow> bool" where
  "pending_ok c \<longleftrightarrow> (co_shutdownPromise c = Some ShutdownPending \<longrightarrow> \<not> globalZero c)"

definition flags_ok :: "coordinator \<Rightarrow> bool" where
  "flags_ok c \<longleftrightarrow> co_shuttingDown c = co_shutdownAborted c \<and> (co_shutdownPromise c \<noteq> None \<longleftrightarrow> co_shuttingDown c)"

definition coordinator_ok :: "coordinator_config \<Rightarrow> coordinator \<Rightarrow> bool" where
  "coordinator_ok cfg c \<longleftrightarrow> steady_but cfg None c \<and> pending_ok c \<and> flags_ok c"

lemmas parts_ok = counts_ok_def maps_ok_def idle_ok_def tombstones_ok_def timers_ok_def promises_ok_def shutdown_ok_def registered_def

text \<open>What the flags of the shutdown see of a step.\<close>

definition flags :: "coordinator \<Rightarrow> bool \<times> bool \<times> bool" where
  "flags c = (co_shuttingDown c, co_shutdownAborted c, co_shutdownPromise c \<noteq> None)"

section \<open>The helpers\<close>

lemma activeCount_cong [simp]:
  "activeCount (r\<lparr>ir_state := s\<rparr>) = activeCount r" "activeCount (r\<lparr>ir_leaseTimer := h\<rparr>) = activeCount r"
  "activeCount (r\<lparr>ir_drainState := d\<rparr>) = activeCount r" "activeCount (r\<lparr>ir_aborted := b\<rparr>) = activeCount r"
  "activeCount (r\<lparr>ir_zeroWaiters := ws\<rparr>) = activeCount r" "activeCount (r\<lparr>ir_leaseExpiresAt := t\<rparr>) = activeCount r"
  by (simp_all add: activeCount_def)

lemma tick_fields [simp]:
  "co_heap (tick c) = co_heap c" "co_size (tick c) = co_size c" "co_records (tick c) = co_records c"
  "co_tombstones (tick c) = co_tombstones c" "co_shutdownAborted (tick c) = co_shutdownAborted c"
  "co_globalZeroWaiters (tick c) = co_globalZeroWaiters c" "co_reaperTimer (tick c) = co_reaperTimer c"
  "co_shuttingDown (tick c) = co_shuttingDown c" "co_shutdownPromise (tick c) = co_shutdownPromise c"
  "co_admissions (tick c) = co_admissions c" "co_answers (tick c) = co_answers c" "co_promises (tick c) = co_promises c"
  "co_timers (tick c) = co_timers c" "co_timerIds (tick c) = co_timerIds c"
  by (simp_all add: tick_def)

lemma steady_tick [simp]: "steady_but cfg x (tick c) \<longleftrightarrow> steady_but cfg x c"
  by (simp add: steady_but_def parts_ok)

lemma map_of_without: "map_of (filter (\<lambda>(i, _). i \<noteq> h) xs) k = (if k = h then None else map_of xs k)"
  by (induction xs) auto

lemma map_of_snoc: "h \<notin> fst ` set xs \<Longrightarrow> map_of (xs @ [(h, v)]) k = (if k = h then Some v else map_of xs k)"
  by (induction xs) auto

lemma timer_owner:
  assumes "timers_ok c" and "ir_leaseTimer (co_heap c a) = Some h"
  shows "ir_leaseTimer (co_heap c b) = Some h \<longleftrightarrow> b = a" and "co_reaperTimer c \<noteq> Some h"
  using assms unfolding timers_ok_def by (metis option.inject timer_callback.inject, metis option.inject timer_callback.distinct(1))

lemma reaper_owner:
  assumes "timers_ok c" and "co_reaperTimer c = Some h"
  shows "ir_leaseTimer (co_heap c b) \<noteq> Some h"
  using assms unfolding timers_ok_def by (metis option.inject timer_callback.distinct(1))

lemma registered_cong [simp]:
  "registered (updateRecord a f c) b = registered c b" "registered (tick c) b = registered c b"
  by (simp_all add: registered_def updateRecord_def)

lemma update_fields [simp]:
  "co_heap (updateRecord a f c) = (co_heap c)(a := f (co_heap c a))" "co_size (updateRecord a f c) = co_size c"
  "co_records (updateRecord a f c) = co_records c" "co_tombstones (updateRecord a f c) = co_tombstones c"
  "co_shutdownAborted (updateRecord a f c) = co_shutdownAborted c" "co_globalZeroWaiters (updateRecord a f c) = co_globalZeroWaiters c"
  "co_reaperTimer (updateRecord a f c) = co_reaperTimer c" "co_shuttingDown (updateRecord a f c) = co_shuttingDown c"
  "co_shutdownPromise (updateRecord a f c) = co_shutdownPromise c" "co_admissions (updateRecord a f c) = co_admissions c"
  "co_answers (updateRecord a f c) = co_answers c" "co_promises (updateRecord a f c) = co_promises c"
  "co_timers (updateRecord a f c) = co_timers c" "co_timerIds (updateRecord a f c) = co_timerIds c"
  by (simp_all add: updateRecord_def)

lemma clearLease_heap [simp]:
  "co_heap (clearLeaseTimer a c) = (co_heap c)(a := (co_heap c a)\<lparr>ir_leaseTimer := None\<rparr>)"
proof (cases "ir_leaseTimer (co_heap c a)")
  case None
  then have same: "co_heap c a = (co_heap c a)\<lparr>ir_leaseTimer := None\<rparr>" by (cases "co_heap c a") simp
  show ?thesis by (simp only: clearLeaseTimer_def None option.case fun_upd_idem [where f = "co_heap c" and x = a, OF same])
qed (simp add: clearLeaseTimer_def clearTimer_def)

lemma clearLease_fields [simp]:
  "co_size (clearLeaseTimer a c) = co_size c" "co_records (clearLeaseTimer a c) = co_records c"
  "co_tombstones (clearLeaseTimer a c) = co_tombstones c" "co_shutdownAborted (clearLeaseTimer a c) = co_shutdownAborted c"
  "co_globalZeroWaiters (clearLeaseTimer a c) = co_globalZeroWaiters c" "co_reaperTimer (clearLeaseTimer a c) = co_reaperTimer c"
  "co_shuttingDown (clearLeaseTimer a c) = co_shuttingDown c" "co_shutdownPromise (clearLeaseTimer a c) = co_shutdownPromise c"
  "co_admissions (clearLeaseTimer a c) = co_admissions c" "co_answers (clearLeaseTimer a c) = co_answers c"
  "co_promises (clearLeaseTimer a c) = co_promises c" "co_timerIds (clearLeaseTimer a c) = co_timerIds c"
  "registered (clearLeaseTimer a c) b = registered c b"
  by (simp_all add: clearLeaseTimer_def clearTimer_def registered_def split: option.split)

lemma clearLease_timers:
  "map_of (co_timers (clearLeaseTimer a c)) h = (if ir_leaseTimer (co_heap c a) = Some h then None else map_of (co_timers c) h)"
  "set (co_timers (clearLeaseTimer a c)) \<subseteq> set (co_timers c)"
  by (auto simp: clearLeaseTimer_def clearTimer_def map_of_without split: option.split)

lemma timers_clearLease:
  assumes "timers_ok c"
  shows "timers_ok (clearLeaseTimer a c)"
  unfolding timers_ok_def
proof (intro conjI allI impI)
  show "\<forall>(h, _) \<in> set (co_timers (clearLeaseTimer a c)). h < co_timerIds (clearLeaseTimer a c)"
    using assms clearLease_timers(2) [of a c] by (auto simp: timers_ok_def)
next
  fix b h assume b: "ir_leaseTimer (co_heap (clearLeaseTimer a c) b) = Some h"
  then have "b \<noteq> a" "ir_leaseTimer (co_heap c b) = Some h" by (auto split: if_splits)
  then have "map_of (co_timers c) h = Some (LeaseTimer b)" "ir_leaseTimer (co_heap c a) \<noteq> Some h"
    using assms timer_owner(1) [OF assms, of b h a] by (auto simp: timers_ok_def)
  then show "map_of (co_timers (clearLeaseTimer a c)) h = Some (LeaseTimer b)" by (simp add: clearLease_timers)
next
  fix h assume "co_reaperTimer (clearLeaseTimer a c) = Some h"
  then have "co_reaperTimer c = Some h" by simp
  then have "map_of (co_timers c) h = Some ReaperTimer" "ir_leaseTimer (co_heap c a) \<noteq> Some h"
    using assms reaper_owner [OF assms] by (auto simp: timers_ok_def)
  then show "map_of (co_timers (clearLeaseTimer a c)) h = Some ReaperTimer" by (simp add: clearLease_timers)
qed

text \<open>A step that leaves the counts, the keys and the waiters alone and activates nothing.\<close>

definition alike :: "coordinator \<Rightarrow> coordinator \<Rightarrow> bool" where
  "alike c c' \<longleftrightarrow> co_records c' = co_records c \<and> co_tombstones c' = co_tombstones c \<and> co_admissions c' = co_admissions c
     \<and> co_answers c' = co_answers c \<and> co_promises c' = co_promises c \<and> co_size c' = co_size c
     \<and> co_globalZeroWaiters c' = co_globalZeroWaiters c \<and> co_shutdownPromise c' = co_shutdownPromise c
     \<and> (\<forall>a. ir_workCount (co_heap c' a) = ir_workCount (co_heap c a) \<and> ir_commitCount (co_heap c' a) = ir_commitCount (co_heap c a)
          \<and> ir_invocationId (co_heap c' a) = ir_invocationId (co_heap c a) \<and> ir_zeroWaiters (co_heap c' a) = ir_zeroWaiters (co_heap c a)
          \<and> (ir_state (co_heap c' a) = ActiveState \<longrightarrow> ir_state (co_heap c a) = ActiveState))"

lemma alike_registered: "alike c c' \<Longrightarrow> registered c' a = registered c a"
  by (simp add: alike_def registered_def)

lemma alike_activeCount: "alike c c' \<Longrightarrow> activeCount (co_heap c' a) = activeCount (co_heap c a)"
  by (simp add: alike_def activeCount_def)

lemma alike_parts:
  assumes "alike c c'"
  shows "counts_ok c \<Longrightarrow> counts_ok c'" "maps_ok c \<Longrightarrow> maps_ok c'" "idle_ok c \<Longrightarrow> idle_ok c'"
    "tombstones_ok cfg c \<Longrightarrow> tombstones_ok cfg c'" "promises_ok c \<Longrightarrow> promises_ok c'" "shutdown_ok c \<Longrightarrow> shutdown_ok c'"
proof -
  note eqs = assms [unfolded alike_def] and reg = alike_registered [OF assms] and act = alike_activeCount [OF assms]
  show "counts_ok c \<Longrightarrow> counts_ok c'" using eqs by (simp add: counts_ok_def)
  show "maps_ok c \<Longrightarrow> maps_ok c'" using eqs by (simp add: maps_ok_def)
  show "idle_ok c \<Longrightarrow> idle_ok c'" using eqs by (simp add: idle_ok_def reg act)
  show "tombstones_ok cfg c \<Longrightarrow> tombstones_ok cfg c'" using eqs by (simp add: tombstones_ok_def)
  show "promises_ok c \<Longrightarrow> promises_ok c'" using eqs by (simp add: promises_ok_def reg)
  show "shutdown_ok c \<Longrightarrow> shutdown_ok c'" using eqs unfolding shutdown_ok_def reg by metis
qed

lemma steady_alike:
  assumes "steady_but cfg x c" and "alike c c'" and "timers_ok c'"
    and "\<And>b. registered c b \<Longrightarrow> Some b \<noteq> x \<Longrightarrow> co_heap c' b = co_heap c b"
  shows "steady_but cfg x c'"
  using assms(1,3,4) alike_parts [OF assms(2)] alike_registered [OF assms(2)] unfolding steady_but_def by metis

lemma steady_update:
  assumes "steady_but cfg (Some a) c"
    and "ir_workCount (f (co_heap c a)) = ir_workCount (co_heap c a)"
    and "ir_commitCount (f (co_heap c a)) = ir_commitCount (co_heap c a)"
    and "ir_invocationId (f (co_heap c a)) = ir_invocationId (co_heap c a)"
    and "ir_leaseTimer (f (co_heap c a)) = ir_leaseTimer (co_heap c a)"
    and "ir_zeroWaiters (f (co_heap c a)) = ir_zeroWaiters (co_heap c a)"
    and "ir_state (f (co_heap c a)) = ActiveState \<longrightarrow> ir_state (co_heap c a) = ActiveState"
  shows "steady_but cfg (Some a) (updateRecord a f c)"
proof (rule steady_alike [OF assms(1)])
  show "alike c (updateRecord a f c)" using assms(2-7) by (simp add: alike_def)
  show "timers_ok (updateRecord a f c)" using assms(1,5) by (simp add: steady_but_def timers_ok_def)
qed simp

lemma steady_clearLease:
  assumes "steady_but cfg (Some a) c"
  shows "steady_but cfg (Some a) (clearLeaseTimer a c)"
proof (rule steady_alike [OF assms])
  show "alike c (clearLeaseTimer a c)" by (simp add: alike_def)
  show "timers_ok (clearLeaseTimer a c)" using assms by (simp add: steady_but_def timers_clearLease)
qed simp

lemma steady_weaken: "steady_but cfg None c \<Longrightarrow> steady_but cfg (Some a) c"
  by (simp add: steady_but_def)

lemma steady_full: "steady_but cfg (Some a) c \<Longrightarrow> (registered c a \<Longrightarrow> record_ok (co_heap c a)) \<Longrightarrow> steady_but cfg None c"
  unfolding steady_but_def by (metis option.inject)


lemma timers_snoc:
  assumes "timers_ok c"
  shows "map_of (co_timers c @ [(co_timerIds c, t)]) h = (if h = co_timerIds c then Some t else map_of (co_timers c) h)"
proof -
  have "co_timerIds c \<notin> fst ` set (co_timers c)" using assms by (auto simp: timers_ok_def)
  then show ?thesis by (rule map_of_snoc)
qed

lemma timers_below:
  assumes "timers_ok c"
  shows "ir_leaseTimer (co_heap c a) = Some h \<Longrightarrow> h < co_timerIds c" "co_reaperTimer c = Some h \<Longrightarrow> h < co_timerIds c"
  using assms unfolding timers_ok_def by (fastforce dest: map_of_SomeD)+

lemma steady_scheduleLease:
  assumes "steady_but cfg (Some a) c"
  shows "steady_but cfg (Some a) (scheduleLease a c)"
proof -
  let ?c = "tick (clearLeaseTimer a c)"
  have steady: "steady_but cfg (Some a) ?c" using steady_clearLease [OF assms] by simp
  then have timers: "timers_ok ?c" by (simp add: steady_but_def)
  show ?thesis
  proof (rule steady_alike [OF steady])
    show "alike ?c (scheduleLease a c)" by (simp add: scheduleLease_def setTimer_def alike_def)
    show "timers_ok (scheduleLease a c)"
      unfolding timers_ok_def
    proof (intro conjI allI impI)
      show "\<forall>(h, _) \<in> set (co_timers (scheduleLease a c)). h < co_timerIds (scheduleLease a c)"
        using timers by (auto simp: scheduleLease_def setTimer_def timers_ok_def)
    next
      fix b h assume "ir_leaseTimer (co_heap (scheduleLease a c) b) = Some h"
      then show "map_of (co_timers (scheduleLease a c)) h = Some (LeaseTimer b)"
        using timers timers_below(1) [OF timers, of b h] timers_snoc [OF timers, of "LeaseTimer a" h]
        by (auto simp: scheduleLease_def setTimer_def timers_ok_def split: if_splits)
    next
      fix h assume "co_reaperTimer (scheduleLease a c) = Some h"
      then show "map_of (co_timers (scheduleLease a c)) h = Some ReaperTimer"
        using timers timers_below(2) [OF timers, of h] timers_snoc [OF timers, of "LeaseTimer a" h]
        by (auto simp: scheduleLease_def setTimer_def timers_ok_def split: if_splits)
    qed
  qed (simp add: scheduleLease_def setTimer_def)
qed

lemma scheduleLease_fields [simp]:
  "co_heap (scheduleLease a c) = (co_heap c)(a := (co_heap c a)\<lparr>ir_leaseTimer := Some (co_timerIds c)\<rparr>)"
  "co_records (scheduleLease a c) = co_records c" "co_admissions (scheduleLease a c) = co_admissions c"
  "co_globalZeroWaiters (scheduleLease a c) = co_globalZeroWaiters c" "co_size (scheduleLease a c) = co_size c"
  "co_shutdownPromise (scheduleLease a c) = co_shutdownPromise c" "co_tombstones (scheduleLease a c) = co_tombstones c"
  "registered (scheduleLease a c) b = registered c b" "flags (scheduleLease a c) = flags c"
  by (simp_all add: scheduleLease_def setTimer_def registered_def flags_def fun_eq_iff)

lemma timers_clearReaper: "timers_ok c \<Longrightarrow> timers_ok (clearReaper c)"
  unfolding timers_ok_def clearReaper_def clearTimer_def
  by (auto simp: map_of_without split: option.splits)

lemma clearReaper_fields [simp]:
  "co_heap (clearReaper c) = co_heap c" "co_records (clearReaper c) = co_records c" "co_size (clearReaper c) = co_size c"
  "co_tombstones (clearReaper c) = co_tombstones c" "co_admissions (clearReaper c) = co_admissions c"
  "co_answers (clearReaper c) = co_answers c" "co_promises (clearReaper c) = co_promises c"
  "co_globalZeroWaiters (clearReaper c) = co_globalZeroWaiters c" "co_shutdownPromise (clearReaper c) = co_shutdownPromise c"
  "co_shuttingDown (clearReaper c) = co_shuttingDown c" "co_shutdownAborted (clearReaper c) = co_shutdownAborted c"
  "globalZero (clearReaper c) = globalZero c" "registered (clearReaper c) a = registered c a" "flags (clearReaper c) = flags c"
  by (simp_all add: clearReaper_def clearTimer_def globalZero_def registered_def flags_def split: option.split)

lemma globalZero_registered: "globalZero c \<longleftrightarrow> (\<forall>a. registered c a \<longrightarrow> activeCount (co_heap c a) = 0)"
  by (auto simp: globalZero_def registered_def list_all_iff)

text \<open>Once a shutdown is under way, nothing is left when every count is zero.\<close>

lemma shutdown_empty:
  assumes "steady_but cfg None c" and "co_shutdownPromise c \<noteq> None" and "globalZero c"
  shows "co_records c = []"
proof (rule ccontr)
  assume "co_records c \<noteq> []"
  then obtain a where a: "registered c a" by (cases "co_records c") (auto simp: registered_def)
  then have "record_ok (co_heap c a)" "ir_state (co_heap c a) \<noteq> ActiveState" "activeCount (co_heap c a) = 0"
    using assms by (auto simp: steady_but_def shutdown_ok_def globalZero_registered)
  then show False unfolding record_ok_def by auto
qed

lemma steady_resolve:
  assumes "steady_but cfg None c"
  shows "steady_but cfg None (resolveGlobalZero c) \<and> pending_ok (resolveGlobalZero c) \<and> flags (resolveGlobalZero c) = flags c"
proof (cases "globalZero c \<and> 0 < co_globalZeroWaiters c")
  case False
  then have "resolveGlobalZero c = c" by (auto simp: resolveGlobalZero_def)
  then show ?thesis using False assms by (auto simp: pending_ok_def steady_but_def shutdown_ok_def)
next
  case True
  have promise: "co_shutdownPromise c = Some ShutdownPending" using True assms by (simp add: steady_but_def shutdown_ok_def)
  then have none: "co_records c = []" using shutdown_empty [OF assms] True by simp
  have r: "resolveGlobalZero c = (clearReaper c)\<lparr>co_globalZeroWaiters := 0, co_shutdownPromise := Some ShutdownResolved\<rparr>"
    using True by (simp add: resolveGlobalZero_def)
  have "timers_ok (clearReaper c)" using assms by (simp add: steady_but_def timers_clearReaper)
  then have "timers_ok (resolveGlobalZero c)" by (simp add: r timers_ok_def)
  then show ?thesis using assms promise none
    by (simp add: steady_but_def r counts_ok_def maps_ok_def idle_ok_def tombstones_ok_def promises_ok_def shutdown_ok_def
        registered_def pending_ok_def flags_def)
qed

lemma resolve_fields [simp]:
  "co_heap (resolveGlobalZero c) = co_heap c" "co_records (resolveGlobalZero c) = co_records c" "co_size (resolveGlobalZero c) = co_size c"
  "co_admissions (resolveGlobalZero c) = co_admissions c" "co_promises (resolveGlobalZero c) = co_promises c"
  "co_answers (resolveGlobalZero c) = co_answers c" "co_tombstones (resolveGlobalZero c) = co_tombstones c"
  by (simp_all add: resolveGlobalZero_def)


section \<open>Draining\<close>

text \<open>What holds of the record that a handler is about to drain.\<close>

definition drainable :: "invocation_record \<Rightarrow> bool" where
  "drainable r \<longleftrightarrow> (ir_state r = ActiveState \<longleftrightarrow> ir_drainState r = None)
     \<and> (ir_zeroWaiters r \<noteq> [] \<longrightarrow> ir_drainState r \<noteq> None) \<and> (ir_drainState r = Some CancelledState \<longrightarrow> ir_aborted r)
     \<and> (ir_state r = ActiveState \<longrightarrow> \<not> ir_aborted r \<and> ir_leaseTimer r \<noteq> None)"

lemma record_drainable: "record_ok r \<longleftrightarrow> drainable r \<and> (ir_drainState r \<noteq> None \<longrightarrow> 0 < activeCount r)"
  by (auto simp: record_ok_def drainable_def)

lemma active_nonneg: "counts_ok c \<Longrightarrow> 0 \<le> activeCount (co_heap c a)"
  by (simp add: counts_ok_def activeCount_def)

lemma registered_key:
  assumes "maps_ok c"
  shows "registered c a \<longleftrightarrow> map_of (co_records c) (ir_invocationId (co_heap c a)) = Some a"
proof
  assume "registered c a"
  then obtain i where i: "(i, a) \<in> set (co_records c)" by (auto simp: registered_def)
  then have "ir_invocationId (co_heap c a) = i" using assms by (auto simp: maps_ok_def)
  then show "map_of (co_records c) (ir_invocationId (co_heap c a)) = Some a"
    using i assms by (simp add: maps_ok_def map_of_is_SomeI)
next
  assume "map_of (co_records c) (ir_invocationId (co_heap c a)) = Some a"
  then show "registered c a" by (force simp: registered_def dest: map_of_SomeD)
qed

lemma scheduleReaper_fields [simp]:
  "co_heap (scheduleReaper c) = co_heap c" "co_records (scheduleReaper c) = co_records c" "co_size (scheduleReaper c) = co_size c"
  "co_tombstones (scheduleReaper c) = co_tombstones c" "co_admissions (scheduleReaper c) = co_admissions c"
  "co_answers (scheduleReaper c) = co_answers c" "co_promises (scheduleReaper c) = co_promises c"
  "co_globalZeroWaiters (scheduleReaper c) = co_globalZeroWaiters c" "co_shutdownPromise (scheduleReaper c) = co_shutdownPromise c"
  "co_shuttingDown (scheduleReaper c) = co_shuttingDown c" "co_shutdownAborted (scheduleReaper c) = co_shutdownAborted c"
  by (simp_all add: scheduleReaper_def setTimer_def Let_def)

lemma timers_scheduleReaper:
  assumes "timers_ok c"
  shows "timers_ok (scheduleReaper c)"
proof (cases "scheduleReaper c = c")
  case False
  then have r: "scheduleReaper c = (tick c)\<lparr>co_timers := co_timers c @ [(co_timerIds c, ReaperTimer)],
      co_timerIds := Suc (co_timerIds c), co_reaperTimer := Some (co_timerIds c)\<rparr>"
    by (auto simp: scheduleReaper_def setTimer_def Let_def split: if_splits)
  show ?thesis
    unfolding timers_ok_def
  proof (intro conjI allI impI)
    show "\<forall>(h, _) \<in> set (co_timers (scheduleReaper c)). h < co_timerIds (scheduleReaper c)"
      using assms by (auto simp: r timers_ok_def)
  next
    fix a h assume "ir_leaseTimer (co_heap (scheduleReaper c) a) = Some h"
    then show "map_of (co_timers (scheduleReaper c)) h = Some (LeaseTimer a)"
      using assms timers_below(1) [OF assms, of a h] timers_snoc [OF assms, of ReaperTimer h] by (auto simp: r timers_ok_def)
  next
    fix h assume "co_reaperTimer (scheduleReaper c) = Some h"
    then show "map_of (co_timers (scheduleReaper c)) h = Some ReaperTimer"
      using timers_snoc [OF assms, of ReaperTimer h] by (simp add: r)
  qed
qed (simp add: assms)

lemma set_mapSet: "set (mapSet k v kvs) \<subseteq> insert (k, v) (set (mapDelete k kvs))"
proof (cases "k \<in> fst ` set kvs")
  case False
  then have "k' \<noteq> k" if "(k', v') \<in> set kvs" for k' v' using that by force
  then have "set kvs \<subseteq> set (mapDelete k kvs)" by (auto simp: mapDelete_def)
  then show ?thesis using False by (auto simp: mapSet_def)
qed (auto simp: mapSet_def mapDelete_def)

lemma keys_mapSet: "fst ` set (mapSet k v kvs) = insert k (fst ` set kvs)"
  by (force simp: mapSet_def image_iff)

lemma distinct_mapSet: "distinct (map fst kvs) \<Longrightarrow> distinct (map fst (mapSet k v kvs))"
proof -
  have "map fst (map (\<lambda>(k', v'). (k', if k' = k then v else v')) kvs) = map fst kvs" by (induction kvs) auto
  moreover assume "distinct (map fst kvs)"
  ultimately show ?thesis by (simp add: mapSet_def del: map_map)
qed

lemma keys_mapDelete: "fst ` set (mapDelete k kvs) = fst ` set kvs - {k}"
  by (auto simp: mapDelete_def image_iff)

lemma distinct_mapDelete: "distinct (map fst kvs) \<Longrightarrow> distinct (map fst (mapDelete k kvs))"
  by (simp add: mapDelete_def distinct_map_filter)

lemma fst_set_drop: "fst ` set (drop n xs) \<subseteq> fst ` set xs"
  by (rule image_mono) (rule set_drop_subset)

lemma distinct_fst_drop: "distinct (map fst xs) \<Longrightarrow> distinct (map fst (drop n xs))"
  by (simp add: drop_map [symmetric])


text \<open>The state of \<open>terminalize\<close> before the shutdown is looked at, and the snapshot it returns.\<close>

definition terminalSnapshot :: "invocation_record \<Rightarrow> terminal_state \<Rightarrow> invocation_snapshot" where
  "terminalSnapshot r s = (snapshotForRecord r)\<lparr>is_state := Terminal s, is_leaseExpiresAt := None\<rparr>"

definition buried :: "coordinator_config \<Rightarrow> nat \<Rightarrow> terminal_state \<Rightarrow> coordinator \<Rightarrow> coordinator" where
  "buried cfg a s c = (let i = ir_invocationId (co_heap c a); terminal = terminalSnapshot (co_heap c a) s;
     ts = mapSet i \<lparr>to_snapshot = terminal, to_expiresAt = js_after (currentTime c) (cc_tombstoneTtlMs cfg)\<rparr> (co_tombstones c) in
     scheduleReaper ((tick (c\<lparr>co_records := mapDelete i (co_records c)\<rparr>))
       \<lparr>co_tombstones := drop (length ts - cc_maxTombstones cfg) ts\<rparr>))"

lemma buried_fields [simp]:
  "co_heap (buried cfg a s c) = co_heap c" "co_size (buried cfg a s c) = co_size c"
  "co_records (buried cfg a s c) = mapDelete (ir_invocationId (co_heap c a)) (co_records c)"
  "co_admissions (buried cfg a s c) = co_admissions c" "co_answers (buried cfg a s c) = co_answers c"
  "co_promises (buried cfg a s c) = co_promises c" "co_globalZeroWaiters (buried cfg a s c) = co_globalZeroWaiters c"
  "co_shutdownPromise (buried cfg a s c) = co_shutdownPromise c" "co_shuttingDown (buried cfg a s c) = co_shuttingDown c"
  "co_shutdownAborted (buried cfg a s c) = co_shutdownAborted c"
  by (simp_all add: buried_def Let_def)

lemma currentTime_records [simp]: "currentTime (c\<lparr>co_records := rs\<rparr>) = currentTime c"
  by (simp add: currentTime_def)

lemma terminalize_eq:
  assumes "co_heap c1 = co_heap (updateRecord a (\<lambda>r. r\<lparr>ir_state := CancellingState\<rparr>) (clearLeaseTimer a c))"
    and "c1 = updateRecord a (\<lambda>r. r\<lparr>ir_state := CancellingState\<rparr>) (clearLeaseTimer a c)"
  shows "terminalize cfg a s c = (terminalSnapshot (co_heap c1 a) s,
    resolveGlobalZero ((updateRecord a (\<lambda>r. r\<lparr>ir_zeroWaiters := []\<rparr>) (buried cfg a s c1))
      \<lparr>co_answers := co_answers c1 @ map (\<lambda>w. (w, Inr (terminalSnapshot (co_heap c1 a) s))) (ir_zeroWaiters (co_heap c1 a))\<rparr>))"
  unfolding terminalize_def Let_def assms(2) [symmetric] terminalSnapshot_def [symmetric] buried_def
  by simp

lemma tombstones_buried:
  assumes "tombstones_ok cfg c" and "drained (terminalSnapshot (co_heap c a) s)"
  shows "tombstones_ok cfg (buried cfg a s c)"
proof -
  define i where "i = ir_invocationId (co_heap c a)"
  define t where "t = \<lparr>to_snapshot = terminalSnapshot (co_heap c a) s, to_expiresAt = js_after (currentTime c) (cc_tombstoneTtlMs cfg)\<rparr>"
  define ts where "ts = mapSet i t (co_tombstones c)"
  have tombs: "co_tombstones (buried cfg a s c) = drop (length ts - cc_maxTombstones cfg) ts"
    by (simp add: buried_def Let_def ts_def t_def i_def)
  have "set ts \<subseteq> insert (i, t) (set (co_tombstones c))"
    using set_mapSet [of i t "co_tombstones c"] by (auto simp: ts_def mapDelete_def)
  then have "set (co_tombstones (buried cfg a s c)) \<subseteq> insert (i, t) (set (co_tombstones c))"
    unfolding tombs by (meson order_trans set_drop_subset)
  moreover have "is_invocationId (to_snapshot t) = i" by (simp add: t_def i_def terminalSnapshot_def snapshotForRecord_def)
  moreover have "drained (to_snapshot t)" using assms(2) by (simp add: t_def)
  ultimately show ?thesis using assms(1) by (auto simp: tombstones_ok_def tombs)
qed

lemma maps_buried:
  assumes "maps_ok c"
  shows "maps_ok (buried cfg a s c)"
proof -
  define i where "i = ir_invocationId (co_heap c a)"
  obtain t n where tombs: "co_tombstones (buried cfg a s c) = drop n (mapSet i t (co_tombstones c))"
    by (rule that) (simp add: buried_def Let_def i_def)
  let ?d = "buried cfg a s c"
  have ok: "distinct (map fst (co_records c))" "distinct (map fst (co_tombstones c))"
    "\<And>j b. (j, b) \<in> set (co_records c) \<Longrightarrow> b < co_size c \<and> ir_invocationId (co_heap c b) = j"
    "fst ` set (co_records c) \<inter> fst ` set (co_tombstones c) = {}" using assms by (auto simp: maps_ok_def)
  have records: "co_records ?d = mapDelete i (co_records c)" by (simp add: i_def)
  have entries: "b < co_size c \<and> ir_invocationId (co_heap c b) = j" if "(j, b) \<in> set (co_records ?d)" for j b
    using ok(3) [of j b] that by (simp add: mapDelete_def)
  have keys: "fst ` set (co_records ?d) = fst ` set (co_records c) - {i}" unfolding records by (rule keys_mapDelete)
  have tkeys: "fst ` set (co_tombstones ?d) \<subseteq> insert i (fst ` set (co_tombstones c))"
    unfolding tombs using fst_set_drop [of n "mapSet i t (co_tombstones c)"] by (simp only: keys_mapSet)
  have "distinct (map fst (co_records ?d))" unfolding records by (rule distinct_mapDelete [OF ok(1)])
  moreover have "distinct (map fst (co_tombstones ?d))"
    unfolding tombs by (rule distinct_fst_drop [OF distinct_mapSet [OF ok(2)]])
  moreover have "fst ` set (co_records ?d) \<inter> fst ` set (co_tombstones ?d) = {}" using keys tkeys ok(4) by blast
  moreover have "\<forall>(j, b) \<in> set (co_records ?d). b < co_size ?d \<and> ir_invocationId (co_heap ?d b) = j"
    unfolding buried_fields(1,2) using entries by blast
  ultimately show ?thesis unfolding maps_ok_def by blast
qed

lemma timers_buried: "timers_ok c \<Longrightarrow> timers_ok (buried cfg a s c)"
  unfolding buried_def Let_def by (rule timers_scheduleReaper) (simp add: timers_ok_def)

lemma registered_buried:
  assumes "maps_ok c" and "registered c a"
  shows "registered (buried cfg a s c) b \<longleftrightarrow> registered c b \<and> b \<noteq> a"
proof -
  have key: "ir_invocationId (co_heap c x) = i" if "(i, x) \<in> set (co_records c)" for i x
    using assms(1) that by (auto simp: maps_ok_def)
  have "b \<noteq> a" if "(i, b) \<in> set (co_records c)" "i \<noteq> ir_invocationId (co_heap c a)" for i using key [OF that(1)] that(2) by auto
  moreover have "i \<noteq> ir_invocationId (co_heap c a)" if "(i, b) \<in> set (co_records c)" "b \<noteq> a" for i
  proof
    assume "i = ir_invocationId (co_heap c a)"
    moreover obtain j where j: "(j, a) \<in> set (co_records c)" using assms(2) by (auto simp: registered_def)
    ultimately have "(i, a) \<in> set (co_records c)" using key [OF j] by simp
    moreover have "distinct (map fst (co_records c))" using assms(1) by (simp add: maps_ok_def)
    ultimately show False using that by (metis map_of_is_SomeI option.inject)
  qed
  ultimately show ?thesis by (force simp: registered_def mapDelete_def image_iff)
qed


lemma terminalSnapshot_drained:
  assumes "counts_ok c" and "activeCount (co_heap c a) = 0"
  shows "drained (terminalSnapshot (co_heap c a) s)"
proof -
  have "ir_workCount (co_heap c a) = 0" "ir_commitCount (co_heap c a) = 0"
    using assms by (auto simp: counts_ok_def activeCount_def)
  then show ?thesis using assms(2) by (simp add: drained_def terminalSnapshot_def snapshotForRecord_def)
qed

lemma steady_buried:
  fixes s :: terminal_state
  assumes "steady_but cfg (Some a) c" and "registered c a" and "activeCount (co_heap c a) = 0"
    and c'_def: "c' = (updateRecord a (\<lambda>r. r\<lparr>ir_zeroWaiters := []\<rparr>) (buried cfg a s c))
      \<lparr>co_answers := co_answers c @ map (\<lambda>w. (w, Inr (terminalSnapshot (co_heap c a) s))) (ir_zeroWaiters (co_heap c a))\<rparr>"
  shows "steady_but cfg None c'"
proof -
  have ok: "counts_ok c" "maps_ok c" "idle_ok c" "tombstones_ok cfg c" "timers_ok c" "promises_ok c" "shutdown_ok c"
    and others: "\<And>b. registered c b \<Longrightarrow> b \<noteq> a \<Longrightarrow> record_ok (co_heap c b)"
    using assms(1) by (auto simp: steady_but_def)
  note dry = terminalSnapshot_drained [OF ok(1) assms(3), of s]
  have reg: "registered c' b \<longleftrightarrow> registered c b \<and> b \<noteq> a" for b
    using registered_buried [OF ok(2) assms(2), of cfg s b] by (simp add: c'_def registered_def)
  have heap: "co_heap c' b = (if b = a then (co_heap c a)\<lparr>ir_zeroWaiters := []\<rparr> else co_heap c b)" for b
    by (simp add: c'_def)
  have "counts_ok c'" using ok(1) by (simp add: c'_def counts_ok_def)
  moreover have "maps_ok c'" using maps_buried [OF ok(2), of cfg a s] by (auto simp: c'_def maps_ok_def)
  moreover have "idle_ok c'" using ok(3) assms(3) by (auto simp: idle_ok_def reg heap)
  moreover have "tombstones_ok cfg c'"
    using tombstones_buried [OF ok(4) dry] by (simp add: c'_def tombstones_ok_def)
  moreover have "timers_ok c'" using timers_buried [OF ok(5), of cfg a s] by (simp add: c'_def timers_ok_def)
  moreover have "promises_ok c'"
  proof -
    have answers: "co_answers c' = co_answers c @ map (\<lambda>w. (w, Inr (terminalSnapshot (co_heap c a) s))) (ir_zeroWaiters (co_heap c a))"
      and "co_promises c' = co_promises c" by (simp_all add: c'_def)
    have keys: "fst ` set (co_answers c') = fst ` set (co_answers c) \<union> set (ir_zeroWaiters (co_heap c a))"
      by (force simp: answers)
    have "(\<exists>b. registered c' b \<and> p \<in> set (ir_zeroWaiters (co_heap c' b))) \<or> p \<in> fst ` set (co_answers c')" if p: "p < co_promises c'" for p
    proof -
      have "p < co_promises c" using p by (simp add: c'_def)
      then consider (wait) b where "registered c b" "p \<in> set (ir_zeroWaiters (co_heap c b))" | (answered) "p \<in> fst ` set (co_answers c)"
        using ok(6) unfolding promises_ok_def by blast
      then show ?thesis
      proof cases
        case (wait b)
        then show ?thesis by (cases "b = a") (auto simp: keys reg heap intro!: exI [of _ b])
      next
        case answered
        then show ?thesis by (simp add: keys)
      qed
    qed
    moreover have "drained x" if "(p, Inr x) \<in> set (co_answers c')" for p x
      using that ok(6) dry by (auto simp: answers promises_ok_def)
    ultimately show ?thesis unfolding promises_ok_def by blast
  qed
  moreover have "shutdown_ok c'"
  proof -
    have "co_records c \<noteq> []" using assms(2) by (auto simp: registered_def)
    then show ?thesis using ok(7) unfolding shutdown_ok_def by (simp add: reg heap) (simp add: c'_def)
  qed
  moreover have "record_ok (co_heap c' b)" if "registered c' b" for b
    using that others by (simp add: reg heap)
  ultimately show ?thesis by (simp add: steady_but_def)
qed

lemma steady_terminalize:
  assumes "steady_but cfg (Some a) c" and "registered c a" and "activeCount (co_heap c a) = 0"
    and "terminalize cfg a s c = (x, c')"
  shows "steady_but cfg None c' \<and> pending_ok c' \<and> flags c' = flags c \<and> drained x \<and> \<not> registered c' a"
proof -
  let ?c = "updateRecord a (\<lambda>r. r\<lparr>ir_state := CancellingState\<rparr>) (clearLeaseTimer a c)"
  let ?b = "(updateRecord a (\<lambda>r. r\<lparr>ir_zeroWaiters := []\<rparr>) (buried cfg a s ?c))
      \<lparr>co_answers := co_answers ?c @ map (\<lambda>w. (w, Inr (terminalSnapshot (co_heap ?c a) s))) (ir_zeroWaiters (co_heap ?c a))\<rparr>"
  have steady: "steady_but cfg (Some a) ?c"
    by (rule steady_update [OF steady_clearLease [OF assms(1)]]) simp_all
  have reg: "registered ?c a" and zero: "activeCount (co_heap ?c a) = 0" using assms(2,3) by simp_all
  have "(terminalSnapshot (co_heap ?c a) s, resolveGlobalZero ?b) = (x, c')"
    using terminalize_eq [OF refl refl, of cfg a s c] assms(4) by (rule trans [OF sym])
  then have eq: "x = terminalSnapshot (co_heap ?c a) s" "c' = resolveGlobalZero ?b" by (metis prod.inject)+
  have b: "steady_but cfg None ?b" by (rule steady_buried [OF steady reg zero refl])
  have "drained x" unfolding eq(1) using steady by (intro terminalSnapshot_drained zero) (simp add: steady_but_def)
  moreover have "\<not> registered c' a"
    using registered_buried [OF _ reg, of cfg s a] steady by (simp add: eq(2) registered_def steady_but_def)
  moreover have "flags ?b = flags c" by (simp add: flags_def)
  ultimately show ?thesis using steady_resolve [OF b] unfolding eq(2) by simp
qed

text \<open>The three ways out of \<open>maybeDrainRecord\<close>.\<close>

lemma steady_maybeDrain:
  assumes "steady_but cfg (Some a) c" and "registered c a" and "drainable (co_heap c a)"
    and "maybeDrainRecord cfg a c = (x, c')"
  shows "steady_but cfg None c' \<and> pending_ok c' \<and> flags c' = flags c
    \<and> (if registered c' a then co_heap c' = co_heap c \<and> co_records c' = co_records c \<and> co_admissions c' = co_admissions c
         \<and> co_promises c' = co_promises c
       else drained x)"
proof (cases "activeCount (co_heap c a) = 0 \<and> ir_drainState (co_heap c a) \<noteq> None")
  case True
  then obtain s where s: "ir_drainState (co_heap c a) = Some s" by blast
  then have "terminalize cfg a s c = (x, c')" using True assms(4) by (simp add: maybeDrainRecord_def)
  then show ?thesis using steady_terminalize [OF assms(1,2)] True by simp
next
  case False
  have c': "c' = resolveGlobalZero c" using False assms(4) by (auto simp: maybeDrainRecord_def split: option.splits if_splits)
  have "0 \<le> activeCount (co_heap c a)" using assms(1) by (simp add: steady_but_def active_nonneg)
  then have "record_ok (co_heap c a)" using assms(3) False by (auto simp: record_drainable)
  then have "steady_but cfg None c" using assms(1) by (intro steady_full)
  moreover have "registered c' a" using assms(2) by (simp add: c' registered_def)
  ultimately show ?thesis using steady_resolve by (simp add: c')
qed


section \<open>Every event keeps the invariant\<close>

lemma okD:
  assumes "coordinator_ok cfg c"
  shows "steady_but cfg x c" "counts_ok c" "maps_ok c" "idle_ok c" "tombstones_ok cfg c" "timers_ok c" "promises_ok c"
    "shutdown_ok c" "pending_ok c" "flags_ok c" "registered c a \<Longrightarrow> record_ok (co_heap c a)"
  using assms by (simp_all add: coordinator_ok_def steady_but_def)

lemma flags_ok_flags: "flags c' = flags c \<Longrightarrow> flags_ok c \<Longrightarrow> flags_ok c'"
  by (auto simp: flags_def flags_ok_def)

lemma okI: "steady_but cfg None c' \<Longrightarrow> pending_ok c' \<Longrightarrow> flags c' = flags c \<Longrightarrow> coordinator_ok cfg c \<Longrightarrow> coordinator_ok cfg c'"
  by (auto simp: coordinator_ok_def intro: flags_ok_flags)

text \<open>The heap and the admissions after a drain.\<close>

lemma terminalize_fields:
  assumes "terminalize cfg a s c = (x, c')"
  shows "co_heap c' = (co_heap c)(a := (co_heap c a)\<lparr>ir_leaseTimer := None, ir_state := CancellingState, ir_zeroWaiters := []\<rparr>)"
    "co_admissions c' = co_admissions c" "co_size c' = co_size c" "co_promises c' = co_promises c"
    "co_records c' = mapDelete (ir_invocationId (co_heap c a)) (co_records c)"
proof -
  have c': "c' = snd (terminalize cfg a s c)" using assms by simp
  show "co_heap c' = (co_heap c)(a := (co_heap c a)\<lparr>ir_leaseTimer := None, ir_state := CancellingState, ir_zeroWaiters := []\<rparr>)"
    "co_admissions c' = co_admissions c" "co_size c' = co_size c" "co_promises c' = co_promises c"
    "co_records c' = mapDelete (ir_invocationId (co_heap c a)) (co_records c)"
    unfolding c' terminalize_eq [OF refl refl] by simp_all
qed

definition buriedRecord :: "invocation_record \<Rightarrow> invocation_record" where
  "buriedRecord r = r\<lparr>ir_leaseTimer := None, ir_state := CancellingState, ir_zeroWaiters := []\<rparr>"

lemma buriedRecord_fields [simp]:
  "ir_state (buriedRecord r) = CancellingState" "ir_aborted (buriedRecord r) = ir_aborted r"
  "ir_invocationId (buriedRecord r) = ir_invocationId r"
  by (simp_all add: buriedRecord_def)

lemma maybeDrain_fields:
  assumes "maps_ok c" and "registered c a" and "maybeDrainRecord cfg a c = (x, c')"
  shows "co_admissions c' = co_admissions c" "co_size c' = co_size c" "co_promises c' = co_promises c"
    "co_heap c' = (co_heap c)(a := if registered c' a then co_heap c a else buriedRecord (co_heap c a))"
    "registered c' b \<longleftrightarrow> registered c b \<and> (b = a \<longrightarrow> activeCount (co_heap c a) \<noteq> 0 \<or> ir_drainState (co_heap c a) = None)"
proof -
  show "co_admissions c' = co_admissions c" "co_size c' = co_size c" "co_promises c' = co_promises c"
    using assms(3) by (auto simp: maybeDrainRecord_def terminalize_fields split: if_splits option.splits)
  have out: "registered c' b \<longleftrightarrow> registered c b \<and> b \<noteq> a" "co_heap c' = (co_heap c)(a := buriedRecord (co_heap c a))"
    if "terminalize cfg a s c = (x, c')" for s b
    using terminalize_fields [OF that] registered_buried [OF assms(1,2), of cfg s b]
    by (simp_all add: registered_def buriedRecord_def)
  have stay: "registered (resolveGlobalZero c) b = registered c b" for b by (simp add: registered_def)
  show reg: "registered c' b \<longleftrightarrow> registered c b \<and> (b = a \<longrightarrow> activeCount (co_heap c a) \<noteq> 0 \<or> ir_drainState (co_heap c a) = None)" for b
    using assms(3) out(1) stay by (auto simp: maybeDrainRecord_def split: if_splits option.splits)
  show "co_heap c' = (co_heap c)(a := if registered c' a then co_heap c a else buriedRecord (co_heap c a))"
    using assms(2,3) out(2) unfolding reg by (auto simp: maybeDrainRecord_def split: if_splits option.splits)
qed

definition cancelledRecord :: "terminal_state option \<Rightarrow> invocation_record \<Rightarrow> invocation_record" where
  "cancelledRecord d r = r\<lparr>ir_leaseTimer := None, ir_state := CancellingState, ir_drainState := d, ir_aborted := True\<rparr>"

lemma steady_transition:
  assumes "steady_but cfg (Some a) c" and "registered c a" and "transitionToCancel cfg a (Some s) c = (x, c')"
  shows "steady_but cfg None c' \<and> pending_ok c' \<and> flags c' = flags c \<and> (\<not> registered c' a \<longrightarrow> drained x)
    \<and> co_admissions c' = co_admissions c \<and> co_size c' = co_size c \<and> co_promises c' = co_promises c
    \<and> (\<forall>b. registered c' b \<longleftrightarrow> registered c b \<and> (b = a \<longrightarrow> activeCount (co_heap c a) \<noteq> 0))
    \<and> co_heap c' = (co_heap c)(a := if registered c' a then cancelledRecord (Some s) (co_heap c a)
         else buriedRecord (cancelledRecord (Some s) (co_heap c a)))"
proof -
  let ?c = "updateRecord a (\<lambda>r. r\<lparr>ir_state := CancellingState, ir_drainState := Some s, ir_aborted := True\<rparr>) (clearLeaseTimer a c)"
  have steady: "steady_but cfg (Some a) ?c" by (rule steady_update [OF steady_clearLease [OF assms(1)]]) simp_all
  then have maps: "maps_ok ?c" by (simp add: steady_but_def)
  have reg: "registered ?c a" using assms(2) by simp
  have run: "maybeDrainRecord cfg a ?c = (x, c')" using assms(3) by (simp add: transitionToCancel_def)
  have heap: "co_heap ?c = (co_heap c)(a := cancelledRecord (Some s) (co_heap c a))"
    by (simp add: cancelledRecord_def)
  have dry: "drainable (co_heap ?c a)" by (simp add: drainable_def)
  have fl: "flags ?c = flags c" by (simp add: flags_def)
  note drain = steady_maybeDrain [OF steady reg dry run] and f = maybeDrain_fields [OF maps reg run]
  have "steady_but cfg None c'" "pending_ok c'" "flags c' = flags c" "\<not> registered c' a \<longrightarrow> drained x"
    using drain fl by (simp_all split: if_splits)
  moreover have "registered c' b \<longleftrightarrow> registered c b \<and> (b = a \<longrightarrow> activeCount (co_heap c a) \<noteq> 0)" for b
    using f(5) [of b] by simp
  moreover have "co_heap c' = (co_heap c)(a := if registered c' a then cancelledRecord (Some s) (co_heap c a)
         else buriedRecord (cancelledRecord (Some s) (co_heap c a)))"
    unfolding f(4) heap by (simp only: fun_upd_same fun_upd_upd)
  moreover have "co_admissions c' = co_admissions c" "co_size c' = co_size c" "co_promises c' = co_promises c"
    using f(1-3) by simp_all
  ultimately show ?thesis by blast
qed

end
