(* ===== verification/Invocation_Runs.thy ===== *)
theory Invocation_Runs
  imports Invocation_Facts
begin

text \<open>
  Every event of a coordinator keeps its invariant; what follows for the invocations of the daemon.
\<close>

section \<open>Every event keeps the invariant\<close>

text \<open>How an event may move a record: nothing is activated again, an admission needs an active record.\<close>

definition handed :: "coordinator \<Rightarrow> (nat \<times> admission_kind) list" where
  "handed c = map (\<lambda>ad. (ad_record ad, ad_kind ad)) (co_admissions c)"

definition later :: "invocation_record \<Rightarrow> invocation_record \<Rightarrow> bool" where
  "later r r' \<longleftrightarrow> ir_invocationId r' = ir_invocationId r \<and> (ir_aborted r \<longrightarrow> ir_aborted r')
     \<and> (ir_state r = CancellingState \<longrightarrow> ir_state r' = CancellingState)"

definition moved :: "coordinator \<Rightarrow> coordinator \<Rightarrow> bool" where
  "moved c c' \<longleftrightarrow> co_size c \<le> co_size c' \<and> (\<forall>a < co_size c. later (co_heap c a) (co_heap c' a))
     \<and> (\<exists>new. handed c' = handed c @ new \<and> (\<forall>a \<in> fst ` set new. a < co_size c \<longrightarrow> ir_state (co_heap c a) = ActiveState))"

lemma later_refl [simp]: "later r r"
  by (simp add: later_def)

lemma later_trans: "later r s \<Longrightarrow> later s t \<Longrightarrow> later r t"
  by (simp add: later_def)

lemma later_active: "later r s \<Longrightarrow> ir_state s = ActiveState \<Longrightarrow> ir_state r = ActiveState"
  unfolding later_def by (metis live_state.exhaust live_state.distinct(1))

lemma moved_same:
  assumes "co_size c \<le> co_size c'" and "\<And>a. a < co_size c \<Longrightarrow> later (co_heap c a) (co_heap c' a)" and "handed c' = handed c"
  shows "moved c c'"
  using assms by (simp add: moved_def)

lemma moved_refl: "moved c c"
  by (rule moved_same) simp_all

lemma moved_trans:
  assumes "moved c d" and "moved d e"
  shows "moved c e"
proof -
  obtain new1 new2 where new: "handed d = handed c @ new1" "handed e = handed d @ new2"
    and active: "\<forall>a \<in> fst ` set new1. a < co_size c \<longrightarrow> ir_state (co_heap c a) = ActiveState"
      "\<forall>a \<in> fst ` set new2. a < co_size d \<longrightarrow> ir_state (co_heap d a) = ActiveState"
    using assms unfolding moved_def by blast
  have sizes: "co_size c \<le> co_size d" "co_size d \<le> co_size e"
    and "\<And>a. a < co_size c \<Longrightarrow> later (co_heap c a) (co_heap d a)" "\<And>a. a < co_size d \<Longrightarrow> later (co_heap d a) (co_heap e a)"
    using assms by (simp_all add: moved_def)
  then have "later (co_heap c a) (co_heap e a)" "ir_state (co_heap d a) = ActiveState \<Longrightarrow> ir_state (co_heap c a) = ActiveState"
    if "a < co_size c" for a using that later_trans later_active by (meson less_le_trans)+
  then show ?thesis using sizes new active unfolding moved_def
    by (intro conjI exI [of _ "new1 @ new2"]) auto
qed

text \<open>A call that finds its invocation terminal or unknown leaves the records alone.\<close>

lemma lookup_cases:
  assumes "lookup cfg i c = (r, c')"
  obtains (live) a where "r = Inr (FoundRecord a)" "c' = c" "map_of (co_records c) i = Some a"
  | (tomb) t t' where "r = Inr (FoundTombstone t')" "refreshTombstone cfg i t c = (t', c')"
      "map_of (co_records c) i = None" "map_of (co_tombstones c) i = Some t"
  | (none) "r = Inl (CoordinatorError ''unknown-invocation'' 404)" "c' = c"
      "map_of (co_records c) i = None" "map_of (co_tombstones c) i = None"
  using assms by (auto simp: lookup_def split: option.splits prod.splits)

lemma refresh_fields:
  assumes "refreshTombstone cfg i t c = (t', c')"
  shows "co_heap c' = co_heap c" "co_records c' = co_records c" "co_size c' = co_size c" "co_admissions c' = co_admissions c"
    "co_promises c' = co_promises c" "co_answers c' = co_answers c" "co_timers c' = co_timers c" "co_timerIds c' = co_timerIds c"
    "co_reaperTimer c' = co_reaperTimer c" "co_globalZeroWaiters c' = co_globalZeroWaiters c"
    "co_shutdownPromise c' = co_shutdownPromise c" "co_shuttingDown c' = co_shuttingDown c"
    "co_shutdownAborted c' = co_shutdownAborted c" "to_snapshot t' = to_snapshot t" "flags c' = flags c"
    "co_tombstones c' = mapSet i t' (mapDelete i (co_tombstones c))"
  using assms by (auto simp: refreshTombstone_def Let_def flags_def)

lemma length_refresh:
  assumes "distinct (map fst kvs)" and "k \<in> fst ` set kvs"
  shows "length (mapSet k v (mapDelete k kvs)) = length kvs"
proof -
  have size: "length xs = card (fst ` set xs)" if "distinct (map fst xs)" for xs :: "('a \<times> 'b) list"
    using distinct_card [OF that] by simp
  have "fst ` set (mapSet k v (mapDelete k kvs)) = fst ` set kvs"
    using assms(2) unfolding keys_mapSet keys_mapDelete by blast
  then show ?thesis
    by (simp only: size [OF distinct_mapSet [OF distinct_mapDelete [OF assms(1)]]] size [OF assms(1)])
qed

lemma ok_refresh:
  assumes "coordinator_ok cfg c" and "map_of (co_tombstones c) i = Some t" and "refreshTombstone cfg i t c = (t', c')"
  shows "coordinator_ok cfg c'"
proof -
  note f = refresh_fields [OF assms(3)]
  have reg: "registered c' a = registered c a" for a by (simp add: registered_def f)
  have mem: "(i, t) \<in> set (co_tombstones c)" by (rule map_of_SomeD [OF assms(2)])
  have key: "i \<in> fst ` set (co_tombstones c)" using imageI [OF mem, of fst] by simp
  have dist: "distinct (map fst (co_tombstones c))" using okD(3) [OF assms(1)] by (simp add: maps_ok_def)
  have keys: "fst ` set (co_tombstones c') = fst ` set (co_tombstones c)"
    unfolding f(16) keys_mapSet keys_mapDelete using key by blast
  have "length (co_tombstones c') = length (co_tombstones c)"
    unfolding f(16) by (rule length_refresh [OF dist key])
  moreover have "set (co_tombstones c') \<subseteq> insert (i, t') (set (co_tombstones c))"
    unfolding f(16) using set_mapSet [of i t' "mapDelete i (co_tombstones c)"] by (auto simp: mapDelete_def)
  moreover have "\<forall>(j, b) \<in> insert (i, t') (set (co_tombstones c)). is_invocationId (to_snapshot b) = j \<and> drained (to_snapshot b)"
    using okD(5) [OF assms(1)] mem f(14) by (auto simp: tombstones_ok_def)
  ultimately have "tombstones_ok cfg c'"
    using okD(5) [OF assms(1)] unfolding tombstones_ok_def by (metis (no_types, lifting) subsetD)
  moreover have "distinct (map fst (co_tombstones c'))"
    unfolding f(16) by (intro distinct_mapSet distinct_mapDelete dist)
  then have "maps_ok c'" using okD(3) [OF assms(1)] keys by (simp add: maps_ok_def f(1-3))
  moreover have "counts_ok c'" using okD(2) [OF assms(1)] by (simp add: counts_ok_def f(1,4))
  moreover have "idle_ok c'" using okD(4) [OF assms(1)] by (simp add: idle_ok_def reg f(1))
  moreover have "timers_ok c'" using okD(6) [OF assms(1)] by (simp add: timers_ok_def f(1,7-9))
  moreover have "promises_ok c'" using okD(7) [OF assms(1)] by (simp add: promises_ok_def reg f(1,5,6))
  moreover have "shutdown_ok c'" using okD(8) [OF assms(1)] by (simp add: shutdown_ok_def reg f(1,2,10,11))
  moreover have "pending_ok c'" using okD(9) [OF assms(1)] by (simp add: pending_ok_def globalZero_def f(1,2,11))
  moreover have "flags_ok c'" using flags_ok_flags [OF f(15) okD(10) [OF assms(1)]] .
  ultimately show ?thesis using okD(11) [OF assms(1)] by (simp add: coordinator_ok_def steady_but_def reg f(1))
qed

lemma moved_refresh: "refreshTombstone cfg i t c = (t', c') \<Longrightarrow> moved c c'"
  by (rule moved_same) (simp_all add: refresh_fields handed_def)

text \<open>What an event has to show.\<close>

definition fine :: "coordinator_config \<Rightarrow> coordinator \<Rightarrow> coordinator \<Rightarrow> bool" where
  "fine cfg c c' \<longleftrightarrow> (coordinator_ok cfg c \<longrightarrow> coordinator_ok cfg c' \<and> moved c c')"

lemma fine_refl [simp]: "fine cfg c c"
  by (simp add: fine_def moved_refl)

lemma fineI: "(coordinator_ok cfg c \<Longrightarrow> coordinator_ok cfg c' \<and> moved c c') \<Longrightarrow> fine cfg c c'"
  by (simp add: fine_def)

lemma ok_tick [simp]: "coordinator_ok cfg (tick c) = coordinator_ok cfg c"
  by (simp add: coordinator_ok_def pending_ok_def flags_ok_def globalZero_def)

lemma fine_lookup:
  assumes "lookup cfg i c = (r, c')"
  shows "fine cfg c c'"
  using assms by (cases rule: lookup_cases) (auto intro: fineI ok_refresh moved_refresh)

lemma found_registered:
  assumes "coordinator_ok cfg c" and "lookup cfg i c = (Inr (FoundRecord a), c')"
  shows "c' = c" "registered c a" "ir_invocationId (co_heap c a) = i" "a < co_size c"
proof -
  have c': "c' = c" and key: "map_of (co_records c) i = Some a" using assms(2) by (cases rule: lookup_cases; simp)+
  from map_of_SomeD [OF key] have mem: "(i, a) \<in> set (co_records c)" .
  show "c' = c" by fact
  show "registered c a" using mem by (force simp: registered_def)
  show "ir_invocationId (co_heap c a) = i" "a < co_size c" using okD(3) [OF assms(1)] mem by (auto simp: maps_ok_def)
qed

lemma registered_below: "coordinator_ok cfg c \<Longrightarrow> registered c a \<Longrightarrow> a < co_size c"
  using okD(3) [of cfg c] by (auto simp: maps_ok_def registered_def)

lemma later_cancelled [simp]:
  "later r (cancelledRecord d r)" "later r (buriedRecord (cancelledRecord d r))"
  by (simp_all add: later_def cancelledRecord_def buriedRecord_def)

lemma later_buried [simp]: "later r (buriedRecord r)"
  by (simp add: later_def)

lemma fine_transition:
  assumes "registered c a" and "transitionToCancel cfg a (Some s) c = (x, c')"
  shows "fine cfg c c'"
proof (rule fineI)
  assume ok: "coordinator_ok cfg c"
  note t = steady_transition [OF okD(1) [OF ok] assms]
  then have "coordinator_ok cfg c'" using okI [OF _ _ _ ok] by blast
  moreover have "moved c c'"
  proof (rule moved_same)
    have heap: "co_heap c' = (co_heap c)(a := if registered c' a then cancelledRecord (Some s) (co_heap c a)
         else buriedRecord (cancelledRecord (Some s) (co_heap c a)))" using t by blast
    show "later (co_heap c b) (co_heap c' b)" for b unfolding heap by simp
    show "handed c' = handed c" "co_size c \<le> co_size c'" using t by (simp_all add: handed_def)
  qed
  ultimately show "coordinator_ok cfg c' \<and> moved c c'" ..
qed

text \<open>A lease is scheduled for an active record.\<close>

lemma ok_lease:
  assumes "steady_but cfg (Some a) c" and "pending_ok c" and "flags_ok c"
    and "ir_state (co_heap c a) = ActiveState" "ir_drainState (co_heap c a) = None" "ir_zeroWaiters (co_heap c a) = []"
      "\<not> ir_aborted (co_heap c a)"
  shows "coordinator_ok cfg (scheduleLease a c)"
proof -
  have "steady_but cfg None (scheduleLease a c)"
    by (rule steady_full [OF steady_scheduleLease [OF assms(1)]]) (simp add: record_ok_def assms(4-7))
  moreover have "globalZero (scheduleLease a c) = globalZero c" by (simp add: globalZero_registered) metis
  then have "pending_ok (scheduleLease a c)" using assms(2) by (simp add: pending_ok_def)
  moreover have "flags_ok (scheduleLease a c)" by (rule flags_ok_flags [OF _ assms(3)]) simp
  ultimately show ?thesis by (simp add: coordinator_ok_def)
qed


lemma active_facts:
  assumes "coordinator_ok cfg c" and "registered c a" and "ir_state (co_heap c a) = ActiveState"
  shows "ir_drainState (co_heap c a) = None" "ir_zeroWaiters (co_heap c a) = []" "\<not> ir_aborted (co_heap c a)"
    "ir_leaseTimer (co_heap c a) \<noteq> None" "co_shutdownPromise c = None"
  using okD(11) [OF assms(1,2)] okD(8) [OF assms(1)] assms(2,3) by (auto simp: record_ok_def shutdown_ok_def)

lemma later_updates [simp]:
  "later r (r\<lparr>ir_leaseExpiresAt := t\<rparr>)" "later r (r\<lparr>ir_leaseTimer := h\<rparr>)" "later r (r\<lparr>ir_leaseExpiresAt := t, ir_leaseTimer := h\<rparr>)"
  "later r (r\<lparr>ir_leaseTimer := h', ir_leaseTimer := h\<rparr>)"
  "later r (r\<lparr>ir_zeroWaiters := ws\<rparr>)" "later r (countUp k n r)"
  by (simp_all add: later_def) (cases k; simp)

lemma fine_heartbeat: "fine cfg c (snd (heartbeat cfg input c))"
proof (cases "normalizeTarget input (cc_daemonInstanceId cfg)")
  case (Inl e)
  then show ?thesis by (simp add: heartbeat_def)
next
  case (Inr target)
  obtain r c1 where look: "lookup cfg (it_invocationId target) c = (r, c1)" by (rule prod.exhaust)
  show ?thesis
  proof (cases "\<exists>a. r = Inr (FoundRecord a)")
    case False
    then have "snd (heartbeat cfg input c) = c1"
      using look Inr by (auto simp: heartbeat_def split: sum.split found.split)
    then show ?thesis using fine_lookup [OF look] by simp
  next
    case True
    then obtain a where a: "r = Inr (FoundRecord a)" by blast
    show ?thesis
    proof (rule fineI)
      assume ok: "coordinator_ok cfg c"
      note found = found_registered [OF ok look [unfolded a]]
      have beat: "snd (heartbeat cfg input c) = (if ir_state (co_heap c a) \<noteq> ActiveState then c
          else if ir_leaseExpiresAt (co_heap c a) \<le> currentTime c then snd (transitionToCancel cfg a (Some CancelledState) (tick c))
          else scheduleLease a (updateRecord a (\<lambda>r. r\<lparr>ir_leaseExpiresAt := currentTime c + cc_leaseMs cfg\<rparr>) (tick c)))"
        using look Inr a found(1) by (simp add: heartbeat_def Let_def)
      show "coordinator_ok cfg (snd (heartbeat cfg input c)) \<and> moved c (snd (heartbeat cfg input c))"
      proof (cases "ir_state (co_heap c a) = ActiveState")
        case False
        then show ?thesis using ok by (simp add: beat moved_refl)
      next
        case True
        note active = active_facts [OF ok found(2) True]
        let ?t = "transitionToCancel cfg a (Some CancelledState) (tick c)"
        have "fine cfg (tick c) (snd ?t)" by (rule fine_transition [where a = a]) (use found(2) in \<open>auto simp: prod_eq_iff\<close>)
        then have expired: "coordinator_ok cfg (snd ?t)" "moved c (snd ?t)"
          using ok by (auto simp: fine_def moved_def handed_def)
        let ?u = "updateRecord a (\<lambda>r. r\<lparr>ir_leaseExpiresAt := currentTime c + cc_leaseMs cfg\<rparr>) (tick c)"
        have "steady_but cfg (Some a) ?u" by (rule steady_update) (use okD(1) [OF ok] in simp_all)
        moreover have "pending_ok ?u" "flags_ok ?u" using active(5) okD(10) [OF ok] by (auto simp: pending_ok_def flags_ok_def)
        ultimately have "coordinator_ok cfg (scheduleLease a ?u)" using True active by (intro ok_lease) simp_all
        moreover have "moved c (scheduleLease a ?u)" by (rule moved_same) (simp_all add: handed_def)
        ultimately show ?thesis using True expired by (simp add: beat)
      qed
    qed
  qed
qed

text \<open>The record and the timer of a new invocation.\<close>

lemma fine_start: "fine cfg c (snd (startInvocation cfg input c))"
proof (cases "snd (startInvocation cfg input c) = c")
  case False
  then obtain target where target: "normalizeTarget input (cc_daemonInstanceId cfg) = Inr target"
    by (cases "normalizeTarget input (cc_daemonInstanceId cfg)") (simp_all add: startInvocation_def)
  let ?i = "it_invocationId target" and ?a = "co_size c"
  let ?r = "blankRecord\<lparr>ir_invocationId := ?i, ir_command := it_command target,
     ir_daemonInstanceId := it_daemonInstanceId target, ir_leaseExpiresAt := currentTime c + cc_leaseMs cfg\<rparr>"
  let ?c = "(tick c)\<lparr>co_heap := (co_heap c)(?a := ?r), co_size := Suc ?a, co_records := mapSet ?i ?a (co_records c)\<rparr>"
  have run: "snd (startInvocation cfg input c) = scheduleLease ?a ?c" and new: "\<not> co_shuttingDown c"
    "map_of (co_records c) ?i = None" "map_of (co_tombstones c) ?i = None"
    using False target by (auto simp: startInvocation_def Let_def split: if_splits)
  have fresh: "?i \<notin> fst ` set (co_records c)" "?i \<notin> fst ` set (co_tombstones c)"
    using new by (auto simp: map_of_eq_None_iff)
  have records: "mapSet ?i ?a (co_records c) = co_records c @ [(?i, ?a)]" using fresh(1) by (simp add: mapSet_def)
  show ?thesis
  proof (rule fineI)
    assume ok: "coordinator_ok cfg c"
    have unreg: "\<not> registered c ?a" using registered_below [OF ok, of ?a] by auto
    have reg: "registered ?c b \<longleftrightarrow> registered c b \<or> b = ?a" for b by (auto simp: registered_def records)
    have idle: "activeCount (co_heap c ?a) = 0" "ir_zeroWaiters (co_heap c ?a) = []"
      using okD(4) [OF ok] unreg by (simp_all add: idle_ok_def)
    then have none: "held (co_admissions c) ?a k = 0" for k
      using okD(2) [OF ok] by (cases k) (simp_all add: counts_ok_def activeCount_def)
    have promise: "co_shutdownPromise c = None" using okD(10) [OF ok] new(1) by (simp add: flags_ok_def)
    have "counts_ok ?c" using okD(2) [OF ok] none by (simp add: counts_ok_def blankRecord_def)
    moreover have "maps_ok ?c" using okD(3) [OF ok] fresh by (force simp: maps_ok_def records)
    moreover have "idle_ok ?c" using okD(4) [OF ok] by (auto simp: idle_ok_def reg)
    moreover have "tombstones_ok cfg ?c" using okD(5) [OF ok] by (simp add: tombstones_ok_def)
    moreover have "timers_ok ?c" using okD(6) [OF ok] by (simp add: timers_ok_def blankRecord_def)
    moreover have "promises_ok ?c" using okD(7) [OF ok] idle(2) unfolding promises_ok_def reg
      by (simp add: blankRecord_def) (metis registered_below [OF ok] less_irrefl)
    moreover have "shutdown_ok ?c" using okD(8) [OF ok] promise by (simp add: shutdown_ok_def)
    moreover have "record_ok (co_heap ?c b)" if "registered ?c b" "b \<noteq> ?a" for b
      using that okD(11) [OF ok] by (simp add: reg)
    ultimately have "steady_but cfg (Some ?a) ?c" by (simp add: steady_but_def)
    moreover have "pending_ok ?c" "flags_ok ?c" using promise okD(10) [OF ok] by (auto simp: pending_ok_def flags_ok_def)
    ultimately have "coordinator_ok cfg (scheduleLease ?a ?c)" by (intro ok_lease) (simp_all add: blankRecord_def)
    moreover have "moved c (scheduleLease ?a ?c)" by (rule moved_same) (simp_all add: handed_def)
    ultimately show "coordinator_ok cfg (snd (startInvocation cfg input c)) \<and> moved c (snd (startInvocation cfg input c))"
      by (simp add: run)
  qed
qed simp


lemma countUp_fields [simp]:
  "ir_state (countUp k n r) = ir_state r" "ir_drainState (countUp k n r) = ir_drainState r"
  "ir_zeroWaiters (countUp k n r) = ir_zeroWaiters r" "ir_aborted (countUp k n r) = ir_aborted r"
  "ir_leaseTimer (countUp k n r) = ir_leaseTimer r" "ir_invocationId (countUp k n r) = ir_invocationId r"
  "activeCount (countUp k n r) = activeCount r + n"
  "ir_workCount (countUp k n r) = ir_workCount r + (if k = WorkAdmission then n else 0)"
  "ir_commitCount (countUp k n r) = ir_commitCount r + (if k = CommitAdmission then n else 0)"
  by (cases k; simp add: activeCount_def)+

lemma fine_admit: "fine cfg c (snd (admit cfg input kind c))"
proof (cases "normalizeTarget input (cc_daemonInstanceId cfg)")
  case (Inl e)
  then show ?thesis by (simp add: admit_def)
next
  case (Inr target)
  obtain r c1 where look: "lookup cfg (it_invocationId target) c = (r, c1)" by (rule prod.exhaust)
  show ?thesis
  proof (cases "\<exists>a. \<not> co_shutdownAborted c \<and> r = Inr (FoundRecord a) \<and> ir_state (co_heap c1 a) = ActiveState")
    case False
    then have "snd (admit cfg input kind c) = c \<or> snd (admit cfg input kind c) = c1"
      using look Inr by (auto simp: admit_def split: sum.split found.split)
    then show ?thesis using fine_lookup [OF look] by auto
  next
    case True
    then obtain a where a: "\<not> co_shutdownAborted c" "r = Inr (FoundRecord a)" "ir_state (co_heap c1 a) = ActiveState" by blast
    show ?thesis
    proof (rule fineI)
      assume ok: "coordinator_ok cfg c"
      note found = found_registered [OF ok look [unfolded a(2)]]
      have active: "ir_state (co_heap c a) = ActiveState" using a(3) found(1) by simp
      let ?c = "(updateRecord a (countUp kind 1) c)\<lparr>co_admissions :=
                   co_admissions c @ [\<lparr>ad_record = a, ad_kind = kind, ad_released = False\<rparr>]\<rparr>"
      have run: "snd (admit cfg input kind c) = ?c" using look Inr a found(1) by (simp add: admit_def)
      have reg: "registered ?c b \<longleftrightarrow> registered c b" for b by (simp add: registered_def)
      have heap: "co_heap ?c = (co_heap c)(a := countUp kind 1 (co_heap c a))" by simp
      note promise = active_facts(5) [OF ok found(2) active]
      have "counts_ok ?c" using okD(2) [OF ok] by (auto simp: counts_ok_def held_def)
      moreover have "maps_ok ?c" using okD(3) [OF ok] by (auto simp: maps_ok_def)
      moreover have "idle_ok ?c" using okD(4) [OF ok] found(2) by (auto simp: idle_ok_def reg)
      moreover have "tombstones_ok cfg ?c" using okD(5) [OF ok] by (simp add: tombstones_ok_def)
      moreover have "timers_ok ?c" using okD(6) [OF ok] by (simp add: timers_ok_def)
      moreover have "promises_ok ?c"
        using okD(7) [OF ok] unfolding promises_ok_def reg by (auto simp: fun_upd_def)
      moreover have "shutdown_ok ?c" using okD(8) [OF ok] promise by (simp add: shutdown_ok_def)
      moreover have "record_ok (co_heap ?c b)" if "registered ?c b" for b
        using okD(11) [OF ok that [unfolded reg]] active_facts(1) [OF ok found(2) active] by (auto simp: record_ok_def)
      moreover have "pending_ok ?c" "flags_ok ?c" using promise okD(10) [OF ok] by (auto simp: pending_ok_def flags_ok_def)
      ultimately have "coordinator_ok cfg ?c" by (simp add: coordinator_ok_def steady_but_def)
      moreover have "moved c ?c" using active by (simp add: moved_def handed_def)
      ultimately show "coordinator_ok cfg (snd (admit cfg input kind c)) \<and> moved c (snd (admit cfg input kind c))"
        by (simp add: run)
    qed
  qed
qed

text \<open>Releasing takes one from the count that the admission is in.\<close>

lemma held_release:
  assumes "i < length ads" and "\<not> ad_released (ads ! i)"
  shows "held (ads[i := (ads ! i)\<lparr>ad_released := True\<rparr>]) a k
    = held ads a k - (if ad_record (ads ! i) = a \<and> ad_kind (ads ! i) = k then 1 else 0)"
    and "ad_record (ads ! i) = a \<Longrightarrow> ad_kind (ads ! i) = k \<Longrightarrow> 0 < held ads a k"
proof -
  have split: "ads = take i ads @ ads ! i # drop (Suc i) ads" using assms(1) by (rule id_take_nth_drop)
  have upd: "ads[i := x] = take i ads @ x # drop (Suc i) ads" for x using assms(1) by (rule upd_conv_take_nth_drop)
  show "held (ads[i := (ads ! i)\<lparr>ad_released := True\<rparr>]) a k
    = held ads a k - (if ad_record (ads ! i) = a \<and> ad_kind (ads ! i) = k then 1 else 0)"
    unfolding upd by (subst (3) split) (simp add: held_def assms(2))
  show "ad_record (ads ! i) = a \<Longrightarrow> ad_kind (ads ! i) = k \<Longrightarrow> 0 < held ads a k"
    by (subst split) (simp add: held_def assms(2))
qed

lemma held_active:
  assumes "coordinator_ok cfg c" and "0 < held (co_admissions c) a k"
  shows "registered c a" "0 < activeCount (co_heap c a)"
proof -
  have "0 < activeCount (co_heap c a)" using okD(2) [OF assms(1)] assms(2) by (cases k) (simp_all add: counts_ok_def activeCount_def)
  then show "registered c a" "0 < activeCount (co_heap c a)" using okD(4) [OF assms(1)] by (auto simp: idle_ok_def)
qed


lemma registered_admissions [simp]: "registered (c\<lparr>co_admissions := ads\<rparr>) a = registered c a"
  by (simp add: registered_def)

lemma fine_release: "fine cfg c (releaseAdmission cfg i c)"
proof (cases "length (co_admissions c) \<le> i \<or> ad_released (co_admissions c ! i)")
  case True
  then show ?thesis by (simp add: releaseAdmission_def)
next
  case False
  let ?ad = "co_admissions c ! i"
  let ?a = "ad_record ?ad"
  let ?c = "updateRecord ?a (countUp (ad_kind ?ad) (- 1)) (c\<lparr>co_admissions := (co_admissions c)[i := ?ad\<lparr>ad_released := True\<rparr>]\<rparr>)"
  obtain x c' where drain: "maybeDrainRecord cfg ?a ?c = (x, c')" by (rule prod.exhaust)
  have run: "releaseAdmission cfg i c = c'" using False drain by (simp add: releaseAdmission_def releaseCount_def Let_def)
  note rel = held_release [of i "co_admissions c"]
  show ?thesis
  proof (rule fineI)
    assume ok: "coordinator_ok cfg c"
    have pos: "0 < held (co_admissions c) ?a (ad_kind ?ad)" using False by (intro rel(2)) simp_all
    note here = held_active [OF ok pos]
    have reg: "registered ?c b \<longleftrightarrow> registered c b" for b by (simp add: registered_def)
    have waiters: "ir_zeroWaiters (co_heap ?c b) = ir_zeroWaiters (co_heap c b)" for b by simp
    have "counts_ok ?c"
      unfolding counts_ok_def
    proof (intro allI)
      fix b
      have "int (held (co_admissions ?c) b k) = int (held (co_admissions c) b k) - (if ?a = b \<and> ad_kind ?ad = k then 1 else 0)" for k
        using rel(1) [of b k] pos False by (auto simp: of_nat_diff)
      then show "ir_workCount (co_heap ?c b) = int (held (co_admissions ?c) b WorkAdmission)
          \<and> ir_commitCount (co_heap ?c b) = int (held (co_admissions ?c) b CommitAdmission)"
        using okD(2) [OF ok] by (simp add: counts_ok_def)
    qed
    moreover have maps: "maps_ok ?c" using okD(3) [OF ok] by (auto simp: maps_ok_def)
    moreover have "idle_ok ?c" using okD(4) [OF ok] here(1) by (auto simp: idle_ok_def reg)
    moreover have "tombstones_ok cfg ?c" using okD(5) [OF ok] by (simp add: tombstones_ok_def)
    moreover have "timers_ok ?c" using okD(6) [OF ok] by (simp add: timers_ok_def)
    moreover have "promises_ok ?c" using okD(7) [OF ok] unfolding promises_ok_def reg waiters by simp
    moreover have "shutdown_ok ?c" using okD(8) [OF ok] by (simp add: shutdown_ok_def reg)
    moreover have "record_ok (co_heap ?c b)" if "registered ?c b" "b \<noteq> ?a" for b
      using okD(11) [OF ok] that by (simp add: reg)
    ultimately have steady: "steady_but cfg (Some ?a) ?c" by (simp add: steady_but_def)
    have regc: "registered ?c ?a" using here(1) reg by simp
    have dry: "drainable (co_heap ?c ?a)" using okD(11) [OF ok here(1)] by (simp add: record_drainable drainable_def)
    note s = steady_maybeDrain [OF steady regc dry drain] and f = maybeDrain_fields [OF maps regc drain]
    have "flags ?c = flags c" by (simp add: flags_def)
    then have "coordinator_ok cfg c'" using s by (intro okI [OF _ _ _ ok]) simp_all
    moreover have "moved c c'"
    proof (rule moved_same)
      show "co_size c \<le> co_size c'" by (simp add: f(2))
      show "later (co_heap c b) (co_heap c' b)" for b unfolding f(4) by (simp add: later_def)
      show "handed c' = handed c" using False by (simp add: handed_def f(1) map_update list_update_same_conv)
    qed
    ultimately show "coordinator_ok cfg (releaseAdmission cfg i c) \<and> moved c (releaseAdmission cfg i c)" by (simp add: run)
  qed
qed

lemma fine_abortWait: "fine cfg c (abortWait a p c)"
proof (cases "p \<in> set (ir_zeroWaiters (co_heap c a))")
  case False
  then show ?thesis by (simp add: abortWait_def)
next
  case True
  let ?c = "(updateRecord a (\<lambda>r. r\<lparr>ir_zeroWaiters := remove1 p (ir_zeroWaiters r)\<rparr>) c)
            \<lparr>co_answers := co_answers c @ [(p, Inl CoordinatorAbort)]\<rparr>"
  show ?thesis
  proof (rule fineI)
    assume ok: "coordinator_ok cfg c"
    have here: "registered c a" using True okD(4) [OF ok] by (auto simp: idle_ok_def)
    have reg: "registered ?c b \<longleftrightarrow> registered c b" for b by (simp add: registered_def)
    have "counts_ok ?c" using okD(2) [OF ok] by (simp add: counts_ok_def)
    moreover have "maps_ok ?c" using okD(3) [OF ok] by (auto simp: maps_ok_def)
    moreover have "idle_ok ?c" using okD(4) [OF ok] here by (auto simp: idle_ok_def reg)
    moreover have "tombstones_ok cfg ?c" using okD(5) [OF ok] by (simp add: tombstones_ok_def)
    moreover have "timers_ok ?c" using okD(6) [OF ok] by (simp add: timers_ok_def)
    moreover have "promises_ok ?c"
      unfolding promises_ok_def reg
    proof (intro conjI allI impI)
      fix q assume "q < co_promises ?c"
      then have "(\<exists>b. registered c b \<and> q \<in> set (ir_zeroWaiters (co_heap c b))) \<or> q \<in> fst ` set (co_answers c)"
        using okD(7) [OF ok] by (simp add: promises_ok_def)
      then show "(\<exists>b. registered c b \<and> q \<in> set (ir_zeroWaiters (co_heap ?c b))) \<or> q \<in> fst ` set (co_answers ?c)"
        by (cases "q = p") (auto simp: in_set_remove1 image_iff)
    next
      show "\<forall>(q, r) \<in> set (co_answers ?c). \<forall>s. r = Inr s \<longrightarrow> drained s"
        using okD(7) [OF ok] by (auto simp: promises_ok_def)
    qed
    moreover have "shutdown_ok ?c" using okD(8) [OF ok] by (simp add: shutdown_ok_def reg)
    moreover have "record_ok (co_heap ?c b)" if "registered ?c b" for b
      using okD(11) [OF ok that [unfolded reg]] True by (auto simp: record_ok_def)
    moreover have "pending_ok ?c" "flags_ok ?c" using okD(9,10) [OF ok] by (auto simp: pending_ok_def flags_ok_def globalZero_registered reg)
    ultimately have "coordinator_ok cfg ?c" by (simp add: coordinator_ok_def steady_but_def)
    moreover have "moved c ?c" by (rule moved_same) (simp_all add: handed_def)
    ultimately show "coordinator_ok cfg (abortWait a p c) \<and> moved c (abortWait a p c)" using True by (simp add: abortWait_def)
  qed
qed

lemma fine_waitForZero:
  assumes "registered c a" and "ir_state (co_heap c a) \<noteq> ActiveState"
  shows "fine cfg c (snd (waitForZero a aborted c))"
proof (cases aborted)
  case True
  then show ?thesis by (simp add: waitForZero_def)
next
  case False
  let ?c = "(updateRecord a (\<lambda>r. r\<lparr>ir_zeroWaiters := ir_zeroWaiters r @ [co_promises c]\<rparr>) c)\<lparr>co_promises := Suc (co_promises c)\<rparr>"
  show ?thesis
  proof (rule fineI)
    assume ok: "coordinator_ok cfg c"
    have reg: "registered ?c b \<longleftrightarrow> registered c b" for b by (simp add: registered_def)
    have "counts_ok ?c" using okD(2) [OF ok] by (simp add: counts_ok_def)
    moreover have "maps_ok ?c" using okD(3) [OF ok] by (auto simp: maps_ok_def)
    moreover have "idle_ok ?c" using okD(4) [OF ok] assms(1) by (auto simp: idle_ok_def reg)
    moreover have "tombstones_ok cfg ?c" using okD(5) [OF ok] by (simp add: tombstones_ok_def)
    moreover have "timers_ok ?c" using okD(6) [OF ok] by (simp add: timers_ok_def)
    moreover have "promises_ok ?c"
      unfolding promises_ok_def reg
    proof (intro conjI allI impI)
      fix q assume "q < co_promises ?c"
      then consider "q = co_promises c" | "q < co_promises c" by (auto simp: less_Suc_eq)
      then show "(\<exists>b. registered c b \<and> q \<in> set (ir_zeroWaiters (co_heap ?c b))) \<or> q \<in> fst ` set (co_answers ?c)"
      proof cases
        case 1
        then show ?thesis using assms(1) by (auto intro!: exI [of _ a])
      next
        case 2
        then have "(\<exists>b. registered c b \<and> q \<in> set (ir_zeroWaiters (co_heap c b))) \<or> q \<in> fst ` set (co_answers c)"
          using okD(7) [OF ok] by (simp add: promises_ok_def)
        then show ?thesis by auto
      qed
    next
      show "\<forall>(q, r) \<in> set (co_answers ?c). \<forall>s. r = Inr s \<longrightarrow> drained s"
        using okD(7) [OF ok] by (simp add: promises_ok_def)
    qed
    moreover have "shutdown_ok ?c" using okD(8) [OF ok] by (simp add: shutdown_ok_def reg)
    moreover have "record_ok (co_heap ?c b)" if "registered ?c b" for b
      using okD(11) [OF ok that [unfolded reg]] assms(2) by (auto simp: record_ok_def)
    moreover have "pending_ok ?c" "flags_ok ?c" using okD(9,10) [OF ok] by (auto simp: pending_ok_def flags_ok_def globalZero_registered reg)
    ultimately have "coordinator_ok cfg ?c" by (simp add: coordinator_ok_def steady_but_def)
    moreover have "moved c ?c" by (rule moved_same) (simp_all add: handed_def)
    ultimately show "coordinator_ok cfg (snd (waitForZero a aborted c)) \<and> moved c (snd (waitForZero a aborted c))"
      using False by (simp add: waitForZero_def)
  qed
qed


lemma fine_trans: "fine cfg c d \<Longrightarrow> fine cfg d e \<Longrightarrow> fine cfg c e"
  unfolding fine_def using moved_trans by blast

text \<open>A drained call settles or waits.\<close>

lemma fine_settle:
  assumes "fine cfg c c1" and "coordinator_ok cfg c \<Longrightarrow> registered c1 a \<Longrightarrow> ir_state (co_heap c1 a) \<noteq> ActiveState"
  shows "fine cfg c (snd (if map_of (co_records c1) (ir_invocationId (co_heap c1 a)) \<noteq> Some a then (Inr (Settled x), c1)
     else waitForZero a aborted c1))"
proof (rule fineI)
  assume ok: "coordinator_ok cfg c"
  then have ok1: "coordinator_ok cfg c1" using assms(1) by (simp add: fine_def)
  have key: "registered c1 a \<longleftrightarrow> map_of (co_records c1) (ir_invocationId (co_heap c1 a)) = Some a"
    by (rule registered_key [OF okD(3) [OF ok1]])
  show "coordinator_ok cfg (snd (if map_of (co_records c1) (ir_invocationId (co_heap c1 a)) \<noteq> Some a then (Inr (Settled x), c1)
     else waitForZero a aborted c1)) \<and> moved c (snd (if map_of (co_records c1) (ir_invocationId (co_heap c1 a)) \<noteq> Some a
     then (Inr (Settled x), c1) else waitForZero a aborted c1))"
  proof (cases "registered c1 a")
    case True
    from fine_trans [OF assms(1) fine_waitForZero [OF True assms(2) [OF ok True], of cfg aborted]]
    show ?thesis using True key ok by (simp add: fine_def)
  next
    case False
    then show ?thesis using assms(1) key ok by (simp add: fine_def)
  qed
qed

lemma fine_cancel: "fine cfg c (snd (cancelInvocation cfg input aborted c))"
proof (cases "normalizeTarget input (cc_daemonInstanceId cfg)")
  case (Inl e)
  then show ?thesis by (simp add: cancelInvocation_def)
next
  case (Inr target)
  obtain r c1 where look: "lookup cfg (it_invocationId target) c = (r, c1)" by (rule prod.exhaust)
  show ?thesis
  proof (cases "\<exists>a. r = Inr (FoundRecord a)")
    case False
    then have "snd (cancelInvocation cfg input aborted c) = c1"
      using look Inr by (auto simp: cancelInvocation_def split: sum.split found.split)
    then show ?thesis using fine_lookup [OF look] by simp
  next
    case True
    then obtain a where a: "r = Inr (FoundRecord a)" by blast
    obtain x c2 where t: "transitionToCancel cfg a (Some CancelledState) c1 = (x, c2)" by (rule prod.exhaust)
    show ?thesis
    proof (rule fineI)
      assume ok: "coordinator_ok cfg c"
      note found = found_registered [OF ok look [unfolded a]]
      have run: "snd (cancelInvocation cfg input aborted c) = snd (if map_of (co_records c2) (ir_invocationId (co_heap c2 a)) \<noteq> Some a
          then (Inr (Settled x), c2) else waitForZero a aborted c2)"
        using look Inr a t by (simp add: cancelInvocation_def)
      have t': "transitionToCancel cfg a (Some CancelledState) c = (x, c2)" using t found(1) by simp
      have "fine cfg c c2" by (rule fine_transition [OF found(2) t'])
      moreover have "co_heap c2 = (co_heap c)(a := if registered c2 a then cancelledRecord (Some CancelledState) (co_heap c a)
         else buriedRecord (cancelledRecord (Some CancelledState) (co_heap c a)))"
        using steady_transition [OF okD(1) [OF ok] found(2) t'] by blast
      then have "ir_state (co_heap c2 a) \<noteq> ActiveState" by (simp add: cancelledRecord_def buriedRecord_def)
      ultimately show "coordinator_ok cfg (snd (cancelInvocation cfg input aborted c))
          \<and> moved c (snd (cancelInvocation cfg input aborted c))"
        unfolding run using fine_settle [of cfg c c2 a x aborted] ok by (simp add: fine_def)
    qed
  qed
qed

definition finishedRecord :: "invocation_record \<Rightarrow> invocation_record" where
  "finishedRecord r = (if ir_drainState r \<noteq> Some CancelledState
     then r\<lparr>ir_leaseTimer := None, ir_state := CancellingState, ir_drainState := Some FinishedState\<rparr> else r\<lparr>ir_leaseTimer := None\<rparr>)"

lemma fine_finish: "fine cfg c (snd (finishInvocation cfg input aborted c))"
proof (cases "normalizeTarget input (cc_daemonInstanceId cfg)")
  case (Inl e)
  then show ?thesis by (simp add: finishInvocation_def)
next
  case (Inr target)
  obtain r c1 where look: "lookup cfg (it_invocationId target) c = (r, c1)" by (rule prod.exhaust)
  show ?thesis
  proof (cases "\<exists>a. r = Inr (FoundRecord a)")
    case False
    then have "snd (finishInvocation cfg input aborted c) = c1"
      using look Inr by (auto simp: finishInvocation_def split: sum.split found.split)
    then show ?thesis using fine_lookup [OF look] by simp
  next
    case True
    then obtain a where a: "r = Inr (FoundRecord a)" by blast
    show ?thesis
    proof (rule fineI)
      assume ok: "coordinator_ok cfg c"
      note found = found_registered [OF ok look [unfolded a]]
      let ?c = "if ir_drainState (co_heap (clearLeaseTimer a c) a) \<noteq> Some CancelledState
        then updateRecord a (\<lambda>r. r\<lparr>ir_state := CancellingState, ir_drainState := Some FinishedState\<rparr>) (clearLeaseTimer a c)
        else clearLeaseTimer a c"
      obtain x c2 where t: "maybeDrainRecord cfg a ?c = (x, c2)" by (rule prod.exhaust)
      have run: "snd (finishInvocation cfg input aborted c) = snd (if map_of (co_records c2) (ir_invocationId (co_heap c2 a)) \<noteq> Some a
          then (Inr (Settled x), c2) else waitForZero a aborted c2)"
        using look Inr a t found(1) by (simp add: finishInvocation_def Let_def)
      have lease: "steady_but cfg (Some a) (clearLeaseTimer a c)" by (rule steady_clearLease [OF okD(1) [OF ok]])
      then have steady: "steady_but cfg (Some a) ?c" using steady_update [OF lease] by auto
      have heap: "co_heap ?c = (co_heap c)(a := finishedRecord (co_heap c a))" by (auto simp: finishedRecord_def)
      have reg: "registered ?c a" using found(2) by simp
      have rec: "record_ok (co_heap c a)" by (rule okD(11) [OF ok found(2)])
      have off: "ir_state (finishedRecord (co_heap c a)) = CancellingState" "ir_drainState (finishedRecord (co_heap c a)) \<noteq> None"
        using rec by (auto simp: finishedRecord_def record_ok_def intro: live_state.exhaust)
      have dry: "drainable (co_heap ?c a)" using off rec unfolding heap
        by (auto simp: drainable_def finishedRecord_def record_ok_def)
      have maps: "maps_ok ?c" using steady by (simp add: steady_but_def)
      note s = steady_maybeDrain [OF steady reg dry t] and f = maybeDrain_fields [OF maps reg t]
      have "flags ?c = flags c" "co_size ?c = co_size c" "handed ?c = handed c" by (auto simp: flags_def handed_def)
      moreover have heap2: "co_heap c2 = (co_heap c)(a := if registered c2 a then finishedRecord (co_heap c a) else buriedRecord (finishedRecord (co_heap c a)))"
        unfolding f(4) heap by (simp only: fun_upd_same fun_upd_upd)
      moreover have "later r (finishedRecord r)" for r by (simp add: later_def finishedRecord_def)
      ultimately have "fine cfg c c2"
        using s f(1,2) okI [OF _ _ _ ok, of c2]
        by (intro fineI conjI moved_same) (auto simp: handed_def intro: later_trans [OF _ later_buried])
      moreover have "ir_state (co_heap c2 a) \<noteq> ActiveState" using off(1) by (simp add: heap2)
      ultimately show "coordinator_ok cfg (snd (finishInvocation cfg input aborted c))
          \<and> moved c (snd (finishInvocation cfg input aborted c))"
        unfolding run using fine_settle [of cfg c c2 a x aborted] ok by (simp add: fine_def)
    qed
  qed
qed


lemma fine_snapshot: "fine cfg c (snd (snapshotOf cfg i c))"
proof (cases "canonicalUuid i")
  case True
  obtain r c1 where look: "lookup cfg i c = (r, c1)" by (rule prod.exhaust)
  have "snd (snapshotOf cfg i c) = c1" using True look by (auto simp: snapshotOf_def split: sum.split found.split)
  then show ?thesis using fine_lookup [OF look] by simp
qed (simp add: snapshotOf_def)

section \<open>Timers\<close>

lemma clearTimer_fields [simp]:
  "co_heap (clearTimer h c) = co_heap c" "co_records (clearTimer h c) = co_records c" "co_size (clearTimer h c) = co_size c"
  "co_tombstones (clearTimer h c) = co_tombstones c" "co_admissions (clearTimer h c) = co_admissions c"
  "co_answers (clearTimer h c) = co_answers c" "co_promises (clearTimer h c) = co_promises c"
  "co_globalZeroWaiters (clearTimer h c) = co_globalZeroWaiters c" "co_shutdownPromise (clearTimer h c) = co_shutdownPromise c"
  "co_shuttingDown (clearTimer h c) = co_shuttingDown c" "co_shutdownAborted (clearTimer h c) = co_shutdownAborted c"
  "co_reaperTimer (clearTimer h c) = co_reaperTimer c" "co_timerIds (clearTimer h c) = co_timerIds c"
  "co_timers (clearTimer h c) = filter (\<lambda>(i, _). i \<noteq> h) (co_timers c)"
  "registered (clearTimer h c) a = registered c a" "currentTime (clearTimer h c) = currentTime c"
  by (simp_all add: clearTimer_def registered_def currentTime_def)

lemma fine_leaseFires:
  assumes "map_of (co_timers c) h = Some (LeaseTimer a)"
  shows "fine cfg c (leaseFires cfg a (clearTimer h c))"
proof (rule fineI)
  assume ok: "coordinator_ok cfg c"
  let ?c = "updateRecord a (\<lambda>r. r\<lparr>ir_leaseTimer := None\<rparr>) (clearTimer h c)"
  have other: "h' \<noteq> h" if "ir_leaseTimer (co_heap c b) = Some h'" "b \<noteq> a" for b h'
    using okD(6) [OF ok] that assms by (auto simp: timers_ok_def)
  have reaper: "h' \<noteq> h" if "co_reaperTimer c = Some h'" for h'
    using okD(6) [OF ok] that assms by (auto simp: timers_ok_def)
  have "alike c ?c" by (simp add: alike_def)
  moreover have "timers_ok ?c"
    using okD(6) [OF ok] other reaper unfolding timers_ok_def by (auto simp: map_of_without)
  ultimately have steady: "steady_but cfg (Some a) ?c"
    using steady_alike [OF okD(1) [OF ok, of "Some a"]] by simp
  have zero: "globalZero ?c = globalZero c" by (simp add: globalZero_registered) metis
  have flags: "pending_ok ?c" "flags_ok ?c"
    using okD(9,10) [OF ok] zero by (simp_all add: pending_ok_def flags_ok_def)
  have key: "map_of (co_records ?c) (ir_invocationId (co_heap ?c a)) = Some a \<longleftrightarrow> registered c a"
    using registered_key [OF okD(3) [OF ok], of a] by simp
  have fires: "leaseFires cfg a (clearTimer h c) = (if \<not> registered c a \<or> ir_state (co_heap c a) \<noteq> ActiveState then ?c
      else if currentTime ?c < ir_leaseExpiresAt (co_heap ?c a) then scheduleLease a (tick ?c)
      else snd (transitionToCancel cfg a (Some CancelledState) (tick ?c)))"
    unfolding leaseFires_def Let_def key by simp
  show "coordinator_ok cfg (leaseFires cfg a (clearTimer h c)) \<and> moved c (leaseFires cfg a (clearTimer h c))"
  proof (cases "registered c a \<and> ir_state (co_heap c a) = ActiveState")
    case False
    have "steady_but cfg None ?c"
      by (rule steady_full [OF steady]) (use False okD(11) [OF ok, of a] in \<open>auto simp: record_ok_def\<close>)
    moreover have "moved c ?c" by (rule moved_same) (simp_all add: handed_def)
    ultimately show ?thesis using False flags by (auto simp: fires coordinator_ok_def)
  next
    case True
    then have active: "registered c a" "ir_state (co_heap c a) = ActiveState" by simp_all
    note facts = active_facts [OF ok active]
    have "coordinator_ok cfg (scheduleLease a (tick ?c))"
      by (rule ok_lease) (use steady flags facts active(2) in \<open>auto simp: pending_ok_def flags_ok_def\<close>)
    moreover have "moved c (scheduleLease a (tick ?c))" by (rule moved_same) (simp_all add: handed_def)
    moreover obtain x c' where t: "transitionToCancel cfg a (Some CancelledState) (tick ?c) = (x, c')" by (rule prod.exhaust)
    have "steady_but cfg (Some a) (tick ?c)" "registered (tick ?c) a" using steady active(1) by simp_all
    note s = steady_transition [OF this t]
    have "flags (tick ?c) = flags c" by (simp add: flags_def)
    then have "coordinator_ok cfg c'" using s by (intro okI [OF _ _ _ ok]) simp_all
    moreover have "moved c c'"
    proof (rule moved_same)
      have heap: "co_heap c' = (co_heap (tick ?c))(a := if registered c' a then cancelledRecord (Some CancelledState) (co_heap (tick ?c) a)
         else buriedRecord (cancelledRecord (Some CancelledState) (co_heap (tick ?c) a)))" using s by blast
      show "later (co_heap c b) (co_heap c' b)" for b unfolding heap by (simp add: later_def cancelledRecord_def buriedRecord_def)
      show "handed c' = handed c" "co_size c \<le> co_size c'" using s by (simp_all add: handed_def)
    qed
    ultimately show ?thesis using active t by (simp add: fires)
  qed
qed

lemma fine_reaperFires:
  assumes "map_of (co_timers c) h = Some ReaperTimer"
  shows "fine cfg c (reaperFires (clearTimer h c))"
proof (rule fineI)
  assume ok: "coordinator_ok cfg c"
  let ?P = "\<lambda>(_ :: string, t). \<not> js_leq (to_expiresAt t) (Num (currentTime c))"
  let ?c = "(tick ((clearTimer h c)\<lparr>co_reaperTimer := None\<rparr>))\<lparr>co_tombstones := filter ?P (co_tombstones c)\<rparr>"
  have run: "reaperFires (clearTimer h c) = scheduleReaper ?c" by (simp add: reaperFires_def Let_def)
  have reg: "registered ?c a = registered c a" "registered (scheduleReaper ?c) a = registered c a" for a
    by (simp_all add: registered_def)
  have "timers_ok ?c"
    using okD(6) [OF ok] assms unfolding timers_ok_def by (auto simp: map_of_without)
  then have "timers_ok (scheduleReaper ?c)" by (rule timers_scheduleReaper)
  moreover have "counts_ok (scheduleReaper ?c)" using okD(2) [OF ok] by (simp add: counts_ok_def)
  moreover have "maps_ok (scheduleReaper ?c)"
    using okD(3) [OF ok] by (auto simp: maps_ok_def distinct_map_filter)
  moreover have "idle_ok (scheduleReaper ?c)" using okD(4) [OF ok] by (simp add: idle_ok_def reg)
  moreover have "tombstones_ok cfg (scheduleReaper ?c)"
    using okD(5) [OF ok] le_trans [OF length_filter_le] by (auto simp: tombstones_ok_def)
  moreover have "promises_ok (scheduleReaper ?c)" using okD(7) [OF ok] by (simp add: promises_ok_def reg)
  moreover have "shutdown_ok (scheduleReaper ?c)" using okD(8) [OF ok] by (simp add: shutdown_ok_def reg)
  moreover have "record_ok (co_heap (scheduleReaper ?c) a)" if "registered (scheduleReaper ?c) a" for a
    using okD(11) [OF ok] that reg by simp
  moreover have "pending_ok (scheduleReaper ?c)" "flags_ok (scheduleReaper ?c)"
    using okD(9,10) [OF ok] by (simp_all add: pending_ok_def flags_ok_def globalZero_def)
  ultimately have "coordinator_ok cfg (scheduleReaper ?c)" by (simp add: coordinator_ok_def steady_but_def)
  moreover have "moved c (scheduleReaper ?c)" by (rule moved_same) (simp_all add: handed_def)
  ultimately show "coordinator_ok cfg (reaperFires (clearTimer h c)) \<and> moved c (reaperFires (clearTimer h c))" by (simp add: run)
qed

lemma fine_timerFires: "fine cfg c (timerFires cfg h c)"
  by (auto simp: timerFires_def fine_leaseFires fine_reaperFires split: option.split timer_callback.split)

section \<open>Shutdown\<close>

text \<open>The loop over the records, while the promise is not made yet.\<close>

lemma cancelEach_facts:
  assumes "steady_but cfg None c" and "co_shutdownPromise c = None" and "distinct as" and "\<forall>a \<in> set as. registered c a"
  shows "steady_but cfg None (cancelEach cfg as c) \<and> flags (cancelEach cfg as c) = flags c
    \<and> (\<forall>b. registered (cancelEach cfg as c) b \<longrightarrow> registered c b
        \<and> (b \<in> set as \<or> ir_state (co_heap c b) = CancellingState \<longrightarrow> ir_state (co_heap (cancelEach cfg as c) b) = CancellingState))
    \<and> handed (cancelEach cfg as c) = handed c \<and> co_size (cancelEach cfg as c) = co_size c
    \<and> (\<forall>b. later (co_heap c b) (co_heap (cancelEach cfg as c) b))"
  using assms
proof (induction "as" arbitrary: c)
  case Nil
  then show ?case by simp
next
  case (Cons a "as")
  obtain x d where t: "transitionToCancel cfg a (Some CancelledState) c = (x, d)" by (rule prod.exhaust)
  have reg: "registered c a" using Cons.prems(4) by simp
  note s = steady_transition [OF steady_weaken [OF Cons.prems(1)] reg t]
  then have heap: "co_heap d = (co_heap c)(a := if registered d a then cancelledRecord (Some CancelledState) (co_heap c a)
         else buriedRecord (cancelledRecord (Some CancelledState) (co_heap c a)))" by blast
  have later: "later (co_heap c b) (co_heap d b)" for b unfolding heap by simp
  have off: "ir_state (co_heap d a) = CancellingState" unfolding heap by (simp add: cancelledRecord_def)
  have regd: "registered d b \<longleftrightarrow> registered c b \<and> (b = a \<longrightarrow> activeCount (co_heap c a) \<noteq> 0)" for b using s by blast
  have promise: "co_shutdownPromise d = None" using s Cons.prems(2) by (auto simp: flags_def)
  have "distinct as" "\<forall>b \<in> set as. registered d b" using Cons.prems(3,4) by (auto simp: regd)
  from Cons.IH [OF _ promise this] s
  have IH: "steady_but cfg None (cancelEach cfg as d)" "flags (cancelEach cfg as d) = flags d"
    "\<And>b. registered (cancelEach cfg as d) b \<Longrightarrow> registered d b
        \<and> (b \<in> set as \<or> ir_state (co_heap d b) = CancellingState \<longrightarrow> ir_state (co_heap (cancelEach cfg as d) b) = CancellingState)"
    "handed (cancelEach cfg as d) = handed d" "co_size (cancelEach cfg as d) = co_size d"
    "\<And>b. later (co_heap d b) (co_heap (cancelEach cfg as d) b)" by blast+
  have "handed d = handed c" "co_size d = co_size c" "flags d = flags c" using s by (simp_all add: handed_def)
  moreover have "ir_state (co_heap d b) = CancellingState" if "ir_state (co_heap c b) = CancellingState" for b
    using later [of b] that by (simp add: later_def)
  ultimately show ?case
    using IH t off regd later_trans [OF later IH(6)] by auto
qed


lemma records_distinct:
  assumes "maps_ok c"
  shows "distinct (map snd (co_records c))"
proof -
  have "fst x = ir_invocationId (co_heap c (snd x))" if "x \<in> set (co_records c)" for x
    using assms that by (cases x) (auto simp: maps_ok_def)
  then have "inj_on snd (set (co_records c))" by (intro inj_onI prod_eqI) metis+
  moreover have "distinct (co_records c)" using assms by (simp add: maps_ok_def distinct_map)
  ultimately show ?thesis by (simp add: distinct_map)
qed

lemma fine_shutdown: "fine cfg c (shutdownCoordinator cfg c)"
proof (cases "co_shutdownPromise c = None")
  case False
  then show ?thesis by (simp add: shutdownCoordinator_def)
next
  case True
  let ?c = "c\<lparr>co_shuttingDown := True, co_shutdownAborted := True\<rparr>"
  let ?d = "cancelEach cfg (map snd (co_records c)) ?c"
  let ?z = "(clearReaper ?d)\<lparr>co_shutdownPromise := Some ShutdownResolved\<rparr>"
  let ?p = "?d\<lparr>co_shutdownPromise := Some ShutdownPending, co_globalZeroWaiters := Suc (co_globalZeroWaiters ?d)\<rparr>"
  show ?thesis
  proof (rule fineI)
    assume ok: "coordinator_ok cfg c"
    have reg: "registered ?c a = registered c a" for a by (simp add: registered_def)
    have steady: "steady_but cfg None ?c"
      using okD(2-8) [OF ok] okD(11) [OF ok] unfolding steady_but_def
      by (simp add: reg) (simp add: counts_ok_def maps_ok_def idle_ok_def tombstones_ok_def timers_ok_def promises_ok_def shutdown_ok_def reg)
    have "\<forall>a \<in> set (map snd (co_records c)). registered ?c a" by (auto simp: registered_def)
    from cancelEach_facts [OF steady _ records_distinct [OF okD(3) [OF ok]] this] True
    have d: "steady_but cfg None ?d" "flags ?d = flags ?c" "handed ?d = handed c" "co_size ?d = co_size c"
      "\<And>b. later (co_heap c b) (co_heap ?d b)"
      and off: "\<And>b. registered ?d b \<Longrightarrow> ir_state (co_heap ?d b) = CancellingState"
      by (auto simp: registered_def handed_def)
    have moved: "moved c ?d" by (rule moved_same) (simp_all add: d)
    have fl: "co_shuttingDown ?d" "co_shutdownAborted ?d" "co_shutdownPromise ?d = None"
      using d(2) True by (auto simp: flags_def)
    have empty: "co_records ?d = []" if "globalZero ?d"
    proof (rule ccontr)
      assume "co_records ?d \<noteq> []"
      then obtain a where a: "registered ?d a" by (cases "co_records ?d") (auto simp: registered_def)
      then have "record_ok (co_heap ?d a)" using d(1) by (simp add: steady_but_def)
      then show False using off [OF a] that a by (auto simp: record_ok_def globalZero_registered)
    qed
    show "coordinator_ok cfg (shutdownCoordinator cfg c) \<and> moved c (shutdownCoordinator cfg c)"
    proof (cases "globalZero ?d")
      case zero: True
      then have run: "shutdownCoordinator cfg c = ?z" using True by (simp add: shutdownCoordinator_def Let_def)
      have "timers_ok (clearReaper ?d)" using d(1) by (simp add: steady_but_def timers_clearReaper)
      then have "timers_ok ?z" by (simp add: timers_ok_def)
      moreover have "registered ?z a = registered ?d a" for a by (simp add: registered_def)
      moreover have "counts_ok ?z" "maps_ok ?z" "tombstones_ok cfg ?z"
        using d(1) by (simp_all add: steady_but_def counts_ok_def maps_ok_def tombstones_ok_def)
      moreover have "idle_ok ?z" "promises_ok ?z"
        using d(1) by (simp_all add: steady_but_def idle_ok_def promises_ok_def registered_def)
      moreover have "shutdown_ok ?z" using d(1) empty [OF zero] fl(3)
        by (simp add: steady_but_def shutdown_ok_def registered_def)
      ultimately have "steady_but cfg None ?z" using d(1) by (simp add: steady_but_def)
      then have "coordinator_ok cfg ?z" using fl by (simp add: coordinator_ok_def pending_ok_def flags_ok_def)
      moreover have "moved c ?z" using moved by (simp add: moved_def handed_def)
      ultimately show ?thesis by (simp add: run)
    next
      case False
      have "globalZero ?p = globalZero ?d" by (simp add: globalZero_def)
      then have run: "shutdownCoordinator cfg c = ?p"
        using True False by (simp add: shutdownCoordinator_def Let_def resolveGlobalZero_def)
      have "registered ?p a \<longleftrightarrow> registered ?d a" for a by (simp add: registered_def)
      then have "steady_but cfg None ?p" using d(1) off
        by (auto simp: steady_but_def counts_ok_def maps_ok_def idle_ok_def tombstones_ok_def timers_ok_def promises_ok_def shutdown_ok_def)
      then have "coordinator_ok cfg ?p" using fl False by (simp add: coordinator_ok_def pending_ok_def flags_ok_def globalZero_def)
      moreover have "moved c ?p" using moved by (simp add: moved_def handed_def)
      ultimately show ?thesis by (simp add: run)
    qed
  qed
qed

section \<open>Reachable coordinators\<close>

lemma fine_perform: "fine cfg c (perform cfg e c)"
  by (cases e) (simp_all add: fine_start fine_heartbeat fine_admit fine_release fine_cancel fine_finish fine_abortWait
      fine_snapshot fine_timerFires fine_shutdown)

lemma ok_new: "coordinator_ok cfg (newCoordinator clock)"
  by (simp add: newCoordinator_def coordinator_ok_def steady_but_def parts_ok pending_ok_def flags_ok_def held_def
      blankRecord_def activeCount_def globalZero_def)

lemma fine_run: "coordinator_run cfg c c' \<Longrightarrow> fine cfg c c'"
  by (induction rule: coordinator_run.induct) (auto intro: fine_trans fine_perform)

lemma run_ok: "coordinator_run cfg (newCoordinator clock) c \<Longrightarrow> coordinator_ok cfg c"
  using fine_run ok_new by (auto simp: fine_def)


lemma run_trans:
  assumes "coordinator_run cfg c d" and "coordinator_run cfg b c"
  shows "coordinator_run cfg b d"
  using assms by (induction rule: coordinator_run.induct) (auto intro: run_event)

section \<open>What the daemon can rely on\<close>

text \<open>The number of admissions of a record that were not given back.\<close>

definition outstanding :: "coordinator \<Rightarrow> nat \<Rightarrow> int" where
  "outstanding c a = int (length (filter (\<lambda>ad. ad_record ad = a \<and> \<not> ad_released ad) (co_admissions c)))"

lemma outstanding_held: "outstanding c a = int (held (co_admissions c) a WorkAdmission) + int (held (co_admissions c) a CommitAdmission)"
proof -
  have "length (filter (\<lambda>ad. ad_record ad = a \<and> \<not> ad_released ad) ads) = held ads a WorkAdmission + held ads a CommitAdmission" for ads
  proof (induction ads)
    case (Cons ad ads)
    then show ?case by (cases "ad_kind ad") (simp_all add: held_def)
  qed (simp add: held_def)
  then show ?thesis by (simp add: outstanding_def)
qed

lemma outstanding_active: "counts_ok c \<Longrightarrow> activeCount (co_heap c a) = outstanding c a"
  by (simp add: outstanding_held counts_ok_def activeCount_def)

text \<open>C37: Whatever happens to the daemon's registry, an admission that was not given back belongs to an
  invocation that is still registered, the counts of every invocation are those of its admissions, a
  terminal invocation is not registered and was drained, and no more terminal ones are kept than
  configured.\<close>

theorem admissions_registered:
  assumes "coordinator_run cfg (newCoordinator clock) c"
  shows "(\<forall>ad \<in> set (co_admissions c). \<not> ad_released ad \<longrightarrow>
      map_of (co_records c) (ir_invocationId (co_heap c (ad_record ad))) = Some (ad_record ad))
    \<and> (\<forall>i a. map_of (co_records c) i = Some a \<longrightarrow> ir_invocationId (co_heap c a) = i \<and> activeCount (co_heap c a) = outstanding c a)
    \<and> (\<forall>i t. map_of (co_tombstones c) i = Some t \<longrightarrow> map_of (co_records c) i = None
         \<and> is_invocationId (to_snapshot t) = i \<and> drained (to_snapshot t))
    \<and> tombstoneCount c \<le> cc_maxTombstones cfg"
proof (intro conjI ballI allI impI)
  note ok = run_ok [OF assms]
  fix ad assume "ad \<in> set (co_admissions c)" "\<not> ad_released ad"
  then have "0 < held (co_admissions c) (ad_record ad) (ad_kind ad)" by (auto simp: held_def length_greater_0_conv filter_empty_conv)
  then show "map_of (co_records c) (ir_invocationId (co_heap c (ad_record ad))) = Some (ad_record ad)"
    using held_active(1) [OF ok] registered_key [OF okD(3) [OF ok]] by simp
next
  note ok = run_ok [OF assms]
  fix i a assume "map_of (co_records c) i = Some a"
  then have "(i, a) \<in> set (co_records c)" by (rule map_of_SomeD)
  then show "ir_invocationId (co_heap c a) = i" using okD(3) [OF ok] by (auto simp: maps_ok_def)
  show "activeCount (co_heap c a) = outstanding c a" by (rule outstanding_active [OF okD(2) [OF ok]])
next
  note ok = run_ok [OF assms]
  fix i t assume "map_of (co_tombstones c) i = Some t"
  then have mem: "(i, t) \<in> set (co_tombstones c)" by (rule map_of_SomeD)
  have "fst ` set (co_records c) \<inter> fst ` set (co_tombstones c) = {}" using okD(3) [OF ok] by (simp add: maps_ok_def)
  then have "i \<notin> fst ` set (co_records c)" using imageI [OF mem, of fst] by auto
  then show "map_of (co_records c) i = None" by (simp add: map_of_eq_None_iff)
  show "is_invocationId (to_snapshot t) = i" "drained (to_snapshot t)"
    using mem okD(5) [OF ok] by (auto simp: tombstones_ok_def)
next
  show "tombstoneCount c \<le> cc_maxTombstones cfg"
    using okD(5) [OF run_ok [OF assms]] by (simp add: tombstones_ok_def tombstoneCount_def)
qed

lemma maybeDrain_admissions: "co_admissions (snd (maybeDrainRecord cfg a c)) = co_admissions c"
proof -
  have "co_admissions (snd (terminalize cfg a s c)) = co_admissions c" for s
    using terminalize_fields(2) [where cfg = cfg and a = a and s = s and c = c] by (cases "terminalize cfg a s c") simp
  then show ?thesis by (simp add: maybeDrainRecord_def split: option.split)
qed

lemma release_admissions:
  "co_admissions (releaseAdmission cfg i c) = (if length (co_admissions c) \<le> i \<or> ad_released (co_admissions c ! i)
     then co_admissions c else (co_admissions c)[i := (co_admissions c ! i)\<lparr>ad_released := True\<rparr>])"
  by (simp add: releaseAdmission_def releaseCount_def maybeDrain_admissions Let_def)

lemma releases:
  "length (co_admissions (fold (releaseAdmission cfg) ns c)) = length (co_admissions c)"
  "i < length (co_admissions c) \<Longrightarrow> i \<in> set ns \<or> ad_released (co_admissions c ! i) \<Longrightarrow>
     ad_released (co_admissions (fold (releaseAdmission cfg) ns c) ! i)"
proof (induction ns arbitrary: c)
  case (Cons j ns)
  case 1
  show ?case using Cons.IH(1) by (simp add: release_admissions)
next
  case (Cons j ns)
  case 2
  then show ?case using Cons.IH(2) [of "releaseAdmission cfg j c"] by (auto simp: release_admissions nth_list_update)
qed simp_all

lemma run_releases: "coordinator_run cfg c (fold (releaseAdmission cfg) ns c)"
proof (induction ns arbitrary: c)
  case (Cons i ns)
  have "coordinator_run cfg c (perform cfg (Release i) c)" by (rule run_event [OF run_start])
  then show ?case using run_trans [OF Cons] by simp
qed (simp add: run_start)

text \<open>C38: Once the admissions are given back, in any order, every caller that waits in a cancel or a
  finish is answered, a shutdown under way is complete, and only active invocations are left.\<close>

theorem releases_settle:
  assumes "coordinator_run cfg (newCoordinator clock) c" and "{..<length (co_admissions c)} \<subseteq> set ns"
    and "c' = fold (releaseAdmission cfg) ns c"
  shows "(\<forall>p < co_promises c'. p \<in> fst ` set (co_answers c'))
    \<and> (co_shutdownPromise c' \<noteq> None \<longrightarrow> co_shutdownPromise c' = Some ShutdownResolved \<and> co_records c' = [])
    \<and> (\<forall>i a. map_of (co_records c') i = Some a \<longrightarrow> ir_state (co_heap c' a) = ActiveState)"
proof -
  have "coordinator_run cfg (newCoordinator clock) c'" unfolding assms(3) by (rule run_trans [OF run_releases assms(1)])
  note ok = run_ok [OF this]
  have "ad_released ad" if "ad \<in> set (co_admissions c')" for ad
    using that assms(2) releases [where cfg = cfg and ns = ns and c = c] unfolding assms(3) by (auto simp: in_set_conv_nth)
  then have zero: "activeCount (co_heap c' a) = 0" for a
    using outstanding_active [OF okD(2) [OF ok], of a] by (simp add: outstanding_def)
  have rest: "ir_state (co_heap c' a) = ActiveState" "ir_zeroWaiters (co_heap c' a) = []" if "registered c' a" for a
    using okD(11) [OF ok that] zero [of a] by (auto simp: record_ok_def)
  have "co_records c' = []" if "co_shutdownPromise c' \<noteq> None"
  proof (rule ccontr)
    assume "co_records c' \<noteq> []"
    then obtain a where "registered c' a" by (cases "co_records c'") (auto simp: registered_def)
    then show False using okD(8) [OF ok] rest(1) that by (auto simp: shutdown_ok_def)
  qed
  moreover have "co_shutdownPromise c' = Some ShutdownResolved" if "co_shutdownPromise c' \<noteq> None"
  proof -
    have "globalZero c'" by (simp add: globalZero_registered zero)
    then show ?thesis using okD(9) [OF ok] that by (cases "the (co_shutdownPromise c')") (auto simp: pending_ok_def)
  qed
  moreover have "p \<in> fst ` set (co_answers c')" if "p < co_promises c'" for p
  proof -
    have "(\<exists>a. registered c' a \<and> p \<in> set (ir_zeroWaiters (co_heap c' a))) \<or> p \<in> fst ` set (co_answers c')"
      using okD(7) [OF ok] that by (simp add: promises_ok_def)
    then show ?thesis using rest(2) by force
  qed
  moreover have "ir_state (co_heap c' a) = ActiveState" if "map_of (co_records c') i = Some a" for i a
    using rest(1) [of a] map_of_SomeD [OF that] by (force simp: registered_def)
  ultimately show ?thesis by blast
qed

text \<open>C39: An invocation that is being cancelled or finished stays so, its signal stays aborted, and it
  never admits anything again.\<close>

theorem cancellation_final:
  assumes "coordinator_run cfg (newCoordinator clock) c" and "coordinator_run cfg c c'"
    and "a < co_size c" and "ir_state (co_heap c a) = CancellingState"
  shows "ir_state (co_heap c' a) = CancellingState \<and> (ir_aborted (co_heap c a) \<longrightarrow> ir_aborted (co_heap c' a))
    \<and> filter (\<lambda>(b, _). b = a) (handed c') = filter (\<lambda>(b, _). b = a) (handed c)"
proof -
  have "moved c c'" using fine_run [OF assms(2)] run_ok [OF assms(1)] by (simp add: fine_def)
  then obtain new where "later (co_heap c a) (co_heap c' a)" "handed c' = handed c @ new"
    "\<forall>b \<in> fst ` set new. b < co_size c \<longrightarrow> ir_state (co_heap c b) = ActiveState"
    using assms(3) unfolding moved_def by blast
  then show ?thesis using assms(3,4) by (auto simp: later_def filter_empty_conv)
qed

text \<open>C40: Every active invocation is watched by a lease timer, and when that fires at or after the end of
  the lease the invocation is cancelled and its signal aborted.\<close>

theorem lease_watched:
  assumes "coordinator_run cfg (newCoordinator clock) c" and "map_of (co_records c) i = Some a"
    and "ir_state (co_heap c a) = ActiveState"
  shows "\<exists>h. map_of (co_timers c) h = Some (LeaseTimer a)
    \<and> (ir_leaseExpiresAt (co_heap c a) \<le> currentTime c \<longrightarrow>
         ir_state (co_heap (timerFires cfg h c) a) = CancellingState \<and> ir_aborted (co_heap (timerFires cfg h c) a))"
proof -
  note ok = run_ok [OF assms(1)]
  have reg: "registered c a" using map_of_SomeD [OF assms(2)] by (force simp: registered_def)
  have key: "ir_invocationId (co_heap c a) = i" using map_of_SomeD [OF assms(2)] okD(3) [OF ok] by (auto simp: maps_ok_def)
  obtain h where lease: "ir_leaseTimer (co_heap c a) = Some h" using active_facts(4) [OF ok reg assms(3)] by blast
  then have timer: "map_of (co_timers c) h = Some (LeaseTimer a)" using okD(6) [OF ok] by (simp add: timers_ok_def)
  let ?c = "tick (updateRecord a (\<lambda>r. r\<lparr>ir_leaseTimer := None\<rparr>) (clearTimer h c))"
  have gone: "ir_state (co_heap (snd (maybeDrainRecord cfg a d)) a) = CancellingState \<and> ir_aborted (co_heap (snd (maybeDrainRecord cfg a d)) a)"
    if "ir_state (co_heap d a) = CancellingState" "ir_aborted (co_heap d a)" for d
  proof -
    have "ir_state (co_heap (snd (terminalize cfg a s d)) a) = CancellingState \<and> ir_aborted (co_heap (snd (terminalize cfg a s d)) a)" for s
      using terminalize_fields(1) [where cfg = cfg and a = a and s = s and c = d] that by (cases "terminalize cfg a s d") simp
    then show ?thesis using that by (simp add: maybeDrainRecord_def split: option.split)
  qed
  have "timerFires cfg h c = snd (transitionToCancel cfg a (Some CancelledState) ?c)" if "ir_leaseExpiresAt (co_heap c a) \<le> currentTime c"
    using that timer assms(2,3) key by (simp add: timerFires_def leaseFires_def Let_def currentTime_def updateRecord_def clearTimer_def)
  then have "ir_state (co_heap (timerFires cfg h c) a) = CancellingState \<and> ir_aborted (co_heap (timerFires cfg h c) a)"
    if "ir_leaseExpiresAt (co_heap c a) \<le> currentTime c"
    using that gone by (simp add: transitionToCancel_def)
  then show ?thesis using timer by blast
qed


section \<open>A daemon with one compaction\<close>

definition sample_daemon :: string where
  "sample_daemon = ''0f0f0f0f-0000-4000-8000-0123456789ab''"

definition sample_invocation :: string where
  "sample_invocation = ''a1b2c3d4-0000-4000-8000-0123456789ab''"

definition sample_cfg :: coordinator_config where
  "sample_cfg = \<lparr>cc_daemonInstanceId = sample_daemon, cc_leaseMs = 30000, cc_tombstoneTtlMs = PosInf, cc_maxTombstones = 1024\<rparr>"

definition sample_call :: json where
  "sample_call = JObj [(''invocation_id'', JStr sample_invocation), (''command'', JStr ''compact''),
     (''daemonInstanceId'', JStr sample_daemon)]"

definition sample_started :: coordinator where
  "sample_started = perform sample_cfg (Start sample_call) (newCoordinator (\<lambda>n. of_nat n * 20000))"

definition sample_cancelling :: coordinator where
  "sample_cancelling = perform sample_cfg (Cancel sample_call False)
     (perform sample_cfg (Admit sample_call CommitAdmission) sample_started)"

lemma sample_started_run: "coordinator_run sample_cfg (newCoordinator (\<lambda>n. of_nat n * 20000)) sample_started"
  unfolding sample_started_def by (rule run_event [OF run_start])

lemma sample_cancelling_run: "coordinator_run sample_cfg (newCoordinator (\<lambda>n. of_nat n * 20000)) sample_cancelling"
  unfolding sample_cancelling_def by (intro run_event sample_started_run)

lemma sample_started_state:
  "map_of (co_records sample_started) sample_invocation = Some 0" "ir_state (co_heap sample_started 0) = ActiveState"
  "ir_leaseExpiresAt (co_heap sample_started 0) = 30000" "currentTime sample_started = 40000"
  by code_simp+

lemma sample_cancelling_state:
  "co_size sample_cancelling = 1" "ir_state (co_heap sample_cancelling 0) = CancellingState"
  "co_admissions sample_cancelling = [\<lparr>ad_record = 0, ad_kind = CommitAdmission, ad_released = False\<rparr>]"
  "map_of (co_records sample_cancelling) sample_invocation = Some 0" "co_promises sample_cancelling = 1"
  "co_answers sample_cancelling = []"
  by code_simp+

theorem admissions_registered_witness:
  "tombstoneCount sample_cancelling \<le> 1024 \<and> activeCount (co_heap sample_cancelling 0) = outstanding sample_cancelling 0
    \<and> outstanding sample_cancelling 0 = 1"
  using admissions_registered [OF sample_cancelling_run] sample_cancelling_state
  by (auto simp: sample_cfg_def outstanding_def)

theorem releases_settle_witness:
  "\<exists>c'. c' = fold (releaseAdmission sample_cfg) [0] sample_cancelling \<and> (\<forall>p < co_promises c'. p \<in> fst ` set (co_answers c'))
    \<and> co_promises c' = 1"
proof -
  have "{..<length (co_admissions sample_cancelling)} \<subseteq> set [0]" by (auto simp: sample_cancelling_state)
  note settle = releases_settle [OF sample_cancelling_run this refl]
  have "co_promises (fold (releaseAdmission sample_cfg) [0] sample_cancelling) = 1" by code_simp
  then show ?thesis using settle by blast
qed

theorem cancellation_final_witness:
  "ir_state (co_heap (perform sample_cfg (Release 0) sample_cancelling) 0) = CancellingState
    \<and> handed (perform sample_cfg (Release 0) sample_cancelling) = [(0, CommitAdmission)]"
proof -
  have "0 < co_size sample_cancelling" by (simp add: sample_cancelling_state)
  from cancellation_final [OF sample_cancelling_run run_event [OF run_start] this sample_cancelling_state(2), of "Release 0"]
  show ?thesis by (simp add: release_admissions handed_def sample_cancelling_state)
qed

theorem lease_watched_witness:
  "\<exists>h. map_of (co_timers sample_started) h = Some (LeaseTimer 0)
    \<and> ir_state (co_heap (timerFires sample_cfg h sample_started) 0) = CancellingState"
  using lease_watched [OF sample_started_run sample_started_state(1,2)] by (auto simp: sample_started_state(3,4))

end
