(* ===== verification/Promoted_Store.thy ===== *)
theory Promoted_Store
  imports Summary_Store "HOL-Library.List_Lexorder" "HOL-Library.Char_ord" "HOL-Library.Product_Lexorder"
begin

text \<open>
  \<open>src/db/promoted.ts\<close>: the memories that were promoted out of a session, with a mirror of the active
  ones in a full-text index.

  A row holds the values that its JSON columns denote; \<open>jsonStrings\<close> is the text of the tags where a
  statement looks at it.  The ranking of the full-text index is a function the search is given; rows
  that compare equal come in the order of the table.  Content is text, so of the checks on a stored
  content the one for NUL is left, and of those on a metadata value the ones on plain JSON.
\<close>

section \<open>Text\<close>

definition nulChar :: char where
  "nulChar = char_of (0 :: nat)"

definition isWordUnit :: "char \<Rightarrow> bool" where
  "isWordUnit c = (let k = (of_char c :: nat) in (48 \<le> k \<and> k \<le> 57) \<or> (65 \<le> k \<and> k \<le> 90) \<or> k = 95 \<or> (97 \<le> k \<and> k \<le> 122))"

definition lowerAscii :: "char \<Rightarrow> char" where
  "lowerAscii c = (let k = (of_char c :: nat) in if 65 \<le> k \<and> k \<le> 90 then char_of (k + 32) else c)"

text \<open>\<open>query.replace(/[^\w\s]/g, " ").split(/\s+/).filter(Boolean)\<close>: the runs of word characters.\<close>

fun wordRuns :: "string \<Rightarrow> string \<Rightarrow> string list" where
  "wordRuns word [] = (if word = [] then [] else [word])"
| "wordRuns word (c # cs) = (if isWordUnit c then wordRuns (word @ [c]) cs
     else (if word = [] then [] else [word]) @ wordRuns [] cs)"

definition searchTerms :: "string \<Rightarrow> string list" where
  "searchTerms query = wordRuns [] query"

definition readPromotedContent :: "string \<Rightarrow> lcm_error + string" where
  "readPromotedContent content = (if nulChar \<in> set content then Inl (TypeError ''stored promoted content is unsupported'')
     else Inr content)"

definition publicPromotedRow :: "promoted_row \<Rightarrow> (world, promoted_row) op" where
  "publicPromotedRow row = bindM (liftE (readPromotedContent (prom_content row))) (\<lambda>_. ret row)"

text \<open>\<open>JSON.stringify\<close> of an array of strings.\<close>

definition hexDigit :: "nat \<Rightarrow> char" where
  "hexDigit k = (if k < 10 then char_of (48 + k) else char_of (87 + k))"

definition jsonEscape :: "char \<Rightarrow> string" where
  "jsonEscape c = (let k = (of_char c :: nat) in
     if k = 34 then [char_of (92 :: nat), c] else if k = 92 then [c, c]
     else if k = 8 then [char_of (92 :: nat), CHR ''b''] else if k = 9 then [char_of (92 :: nat), CHR ''t'']
     else if k = 10 then [char_of (92 :: nat), CHR ''n''] else if k = 12 then [char_of (92 :: nat), CHR ''f'']
     else if k = 13 then [char_of (92 :: nat), CHR ''r'']
     else if k < 32 then [char_of (92 :: nat), CHR ''u'', CHR ''0'', CHR ''0'', hexDigit (k div 16), hexDigit (k mod 16)]
     else [c])"

definition jsonString :: "string \<Rightarrow> string" where
  "jsonString s = [char_of (34 :: nat)] @ concat (map jsonEscape s) @ [char_of (34 :: nat)]"

definition jsonStrings :: "string list \<Rightarrow> string" where
  "jsonStrings ss = ''['' @ joinWith '','' (map jsonString ss) @ '']''"

fun isInfix :: "string \<Rightarrow> string \<Rightarrow> bool" where
  "isInfix p [] = (p = [])"
| "isInfix p (c # cs) = (startsWith (c # cs) p \<or> isInfix p cs)"

section \<open>Metadata\<close>

text \<open>
  \<open>promotedJsonValue\<close>: the values that JSON can carry through the store; the depth of the
  outermost value is 1.  The fields of an object are visited in the order of their names, and the
  object that is built enumerates array indices first, in numeric order, as every JavaScript object.
\<close>

definition unsupportedString :: lcm_error where
  "unsupportedString = TypeError ''metadata contains an unsupported string''"

definition validatedJsonString :: "string \<Rightarrow> lcm_error + string" where
  "validatedJsonString s = (if nulChar \<in> set s then Inl unsupportedString else Inr s)"

definition digitsValue :: "string \<Rightarrow> nat" where
  "digitsValue s = foldl (\<lambda>n c. 10 * n + (of_char c - 48)) 0 s"

definition arrayIndex :: "string \<Rightarrow> nat option" where
  "arrayIndex s = (let n = digitsValue s in if show_nat n = s \<and> n < 2 ^ 32 - 1 then Some n else None)"

definition propertyOrder :: "string \<Rightarrow> nat \<times> nat \<times> string" where
  "propertyOrder k = (case arrayIndex k of Some n \<Rightarrow> (0, n, '''') | None \<Rightarrow> (1, 0, k))"

definition safeNumber :: "js_number \<Rightarrow> bool" where
  "safeNumber x = (case x of Num a \<Rightarrow> \<not> (a = of_int \<lfloor>a\<rfloor> \<and> 2 ^ 53 - 1 < \<bar>a\<bar>) | _ \<Rightarrow> False)"

fun collectFields :: "(string \<times> (lcm_error + json)) list \<Rightarrow> lcm_error + (string \<times> json) list" where
  "collectFields [] = Inr []"
| "collectFields ((k, r) # rest) = (case validatedJsonString k of Inl e \<Rightarrow> Inl e | Inr key \<Rightarrow>
     (case r of Inl e \<Rightarrow> Inl e | Inr v \<Rightarrow>
     (case collectFields rest of Inl e \<Rightarrow> Inl e | Inr kvs \<Rightarrow> Inr ((key, v) # kvs))))"

definition tooDeep :: lcm_error where
  "tooDeep = TypeError ''metadata must be finite acyclic JSON''"

fun promotedJsonValue :: "nat \<Rightarrow> json \<Rightarrow> lcm_error + json"
  and promotedJsonArray :: "nat \<Rightarrow> json list \<Rightarrow> lcm_error + json list"
  and promotedJsonFields :: "nat \<Rightarrow> (string \<times> json) list \<Rightarrow> (string \<times> (lcm_error + json)) list" where
  "promotedJsonValue depth JNull = Inr JNull"
| "promotedJsonValue depth (JBool b) = Inr (JBool b)"
| "promotedJsonValue depth (JStr s) = (case validatedJsonString s of Inl e \<Rightarrow> Inl e | Inr t \<Rightarrow> Inr (JStr t))"
| "promotedJsonValue depth (JNum x) = (if safeNumber x then Inr (JNum x)
     else Inl (TypeError ''metadata contains an unsupported number''))"
| "promotedJsonValue depth (JArr vs) = (if 100 < depth then Inl tooDeep
     else case promotedJsonArray depth vs of Inl e \<Rightarrow> Inl e | Inr ws \<Rightarrow> Inr (JArr ws))"
| "promotedJsonValue depth (JObj kvs) = (if 100 < depth then Inl tooDeep
     else case collectFields (sort_key fst (promotedJsonFields depth kvs)) of
       Inl e \<Rightarrow> Inl e | Inr fs \<Rightarrow> Inr (JObj (sort_key (\<lambda>kv. propertyOrder (fst kv)) fs)))"
| "promotedJsonArray depth [] = Inr []"
| "promotedJsonArray depth (v # vs) = (case promotedJsonValue (Suc depth) v of Inl e \<Rightarrow> Inl e | Inr w \<Rightarrow>
     (case promotedJsonArray depth vs of Inl e \<Rightarrow> Inl e | Inr ws \<Rightarrow> Inr (w # ws)))"
| "promotedJsonFields depth [] = []"
| "promotedJsonFields depth ((k, v) # kvs) = (k, promotedJsonValue (Suc depth) v) # promotedJsonFields depth kvs"

definition normalizePromotedMetadata :: "json \<Rightarrow> lcm_error + json" where
  "normalizePromotedMetadata v = (case promotedJsonValue 1 v of
     Inl e \<Rightarrow> Inl e
   | Inr (JObj kvs) \<Rightarrow> Inr (JObj kvs)
   | Inr _ \<Rightarrow> Inl (TypeError ''metadata must be a JSON object''))"

section \<open>The index and its savepoint\<close>

definition ftsInsert :: "store_options \<Rightarrow> nat \<Rightarrow> string \<Rightarrow> string list \<Rightarrow> (world, unit) op" where
  "ftsInsert opts rowid content tags = (if \<not> ftsStatementOk opts then throw DriverError
     else sqlWrite (\<lambda>d. if rowid \<in> fst ` set (promoted_fts d) then Some ''promoted_fts.rowid'' else None)
       (\<lambda>d. d\<lparr>promoted_fts := promoted_fts d @ [(rowid, content, tags)]\<rparr>))"

definition ftsDelete :: "store_options \<Rightarrow> nat \<Rightarrow> (world, unit) op" where
  "ftsDelete opts rowid = (if \<not> ftsStatementOk opts then throw DriverError
     else setDb (\<lambda>d. d\<lparr>promoted_fts := filter (\<lambda>(r, _). r \<noteq> rowid) (promoted_fts d)\<rparr>))"

definition FTS_SYNC :: string where
  "FTS_SYNC = ''promoted_fts_sync''"

definition withFtsSavepoint :: "(world, 'a) op \<Rightarrow> (world, 'a) op" where
  "withFtsSavepoint operation = bindM (sql_exec (Savepoint FTS_SYNC)) (\<lambda>_.
     catchM (bindM operation (\<lambda>result. bindM (sql_exec (Release FTS_SYNC)) (\<lambda>_. ret result)))
       (\<lambda>e. bindM (sql_exec (RollbackTo FTS_SYNC)) (\<lambda>_. bindM (sql_exec (Release FTS_SYNC)) (\<lambda>_. throw e))))"

section \<open>Rows\<close>

definition findPromoted :: "database \<Rightarrow> string \<Rightarrow> promoted_row option" where
  "findPromoted d i = List.find (\<lambda>r. prom_id r = i) (promoted d)"

text \<open>A table without an integer key: the next rowid is one more than the largest.\<close>

definition nextPromotedRowid :: "database \<Rightarrow> nat" where
  "nextPromotedRowid d = Suc (foldr max (map prom_rowid (promoted d)) 0)"

definition mapPromoted :: "(promoted_row \<Rightarrow> promoted_row) \<Rightarrow> string \<Rightarrow> database \<Rightarrow> database" where
  "mapPromoted f i d = d\<lparr>promoted := map (\<lambda>r. if prom_id r = i then f r else r) (promoted d)\<rparr>"

record insert_params =
  ip_content :: string
  ip_tags :: "string list option"
  ip_metadata :: "json option"
  ip_sourceSummaryId :: "string option"
  ip_projectId :: string
  ip_sessionId :: "string option"
  ip_depth :: "nat option"
  ip_confidence :: "rat option"

definition insertPromotedRow :: "string \<Rightarrow> insert_params \<Rightarrow> json \<Rightarrow> (world, unit) op" where
  "insertPromotedRow i params metadata = bindM sqlNow (\<lambda>now.
     sqlWrite (\<lambda>d. if findPromoted d i \<noteq> None then Some ''promoted.id'' else None)
       (\<lambda>d. d\<lparr>promoted := promoted d @ [\<lparr>prom_rowid = nextPromotedRowid d, prom_id = i, prom_content = ip_content params,
          prom_tags = (case ip_tags params of Some ts \<Rightarrow> ts | None \<Rightarrow> []), prom_metadata = metadata,
          prom_sourceSummaryId = ip_sourceSummaryId params, prom_projectId = ip_projectId params,
          prom_sessionId = ip_sessionId params, prom_depth = (case ip_depth params of Some n \<Rightarrow> n | None \<Rightarrow> 0),
          prom_confidence = (case ip_confidence params of Some x \<Rightarrow> x | None \<Rightarrow> 1),
          prom_createdAt = now, prom_archivedAt = None\<rparr>]\<rparr>))"

definition insertPromoted :: "store_options \<Rightarrow> insert_params \<Rightarrow> (world, string) op" where
  "insertPromoted opts params =
     (if nulChar \<in> set (ip_content params) then throw (TypeError ''promoted content contains an unsupported string'')
      else bindM randomUUID (\<lambda>i.
        bindM (liftE (normalizePromotedMetadata (case ip_metadata params of Some m \<Rightarrow> m | None \<Rightarrow> JObj []))) (\<lambda>metadata.
        if \<not> fts5Available opts then bindM (insertPromotedRow i params metadata) (\<lambda>_. ret i)
        else bindM (withFtsSavepoint (bindM (insertPromotedRow i params metadata) (\<lambda>_.
               bindM (getDb (\<lambda>d. findPromoted d i)) (\<lambda>row. case row of
                 None \<Rightarrow> throw (CallerError ''inserted promoted row is unavailable'')
               | Some r \<Rightarrow> ftsInsert opts (prom_rowid r) (ip_content params)
                   (case ip_tags params of Some ts \<Rightarrow> ts | None \<Rightarrow> []))))) (\<lambda>_. ret i))))"

definition getPromotedById :: "string \<Rightarrow> (world, promoted_row option) op" where
  "getPromotedById i = bindM (getDb (\<lambda>d. findPromoted d i)) (\<lambda>row.
     case row of None \<Rightarrow> ret None | Some r \<Rightarrow> bindM (publicPromotedRow r) (\<lambda>r. ret (Some r)))"

definition exactRows :: "database \<Rightarrow> string \<Rightarrow> string \<Rightarrow> promoted_row list" where
  "exactRows d content projectId = filter (\<lambda>r. prom_archivedAt r = None \<and> prom_content r = content
     \<and> prom_projectId r = projectId) (promoted d)"

text \<open>\<open>ORDER BY created_at DESC, id DESC LIMIT 1\<close>\<close>

definition newestExact :: "database \<Rightarrow> string \<Rightarrow> string \<Rightarrow> promoted_row option" where
  "newestExact d content projectId = (let rows = sort_key (\<lambda>r. (prom_createdAt r, prom_id r)) (exactRows d content projectId)
     in if rows = [] then None else Some (last rows))"

definition findExactContent :: "string \<Rightarrow> string \<Rightarrow> (world, promoted_row option) op" where
  "findExactContent content projectId = bindM (getDb (\<lambda>d. newestExact d content projectId)) (\<lambda>row.
     case row of None \<Rightarrow> ret None | Some r \<Rightarrow> bindM (publicPromotedRow r) (\<lambda>r. ret (Some r)))"

definition getAllPromoted :: "string option \<Rightarrow> int option \<Rightarrow> string list option \<Rightarrow> (world, promoted_row list) op" where
  "getAllPromoted projectId since tags = bindM (getDb (\<lambda>d.
       sort_key (\<lambda>r. (prom_createdAt r, prom_rowid r)) (filter (\<lambda>r. prom_archivedAt r = None
         \<and> (case projectId of Some p \<Rightarrow> prom_projectId r = p | None \<Rightarrow> True)
         \<and> (case since of Some t \<Rightarrow> t \<le> prom_createdAt r | None \<Rightarrow> True)) (promoted d)))) (\<lambda>rows.
     mapM publicPromotedRow (case tags of Some ts \<Rightarrow> filter (\<lambda>r. set ts \<subseteq> set (prom_tags r)) rows | None \<Rightarrow> rows))"

text \<open>\<open>LIMIT\<close>: a negative limit is none.\<close>

definition limited :: "int \<Rightarrow> 'a list \<Rightarrow> 'a list" where
  "limited n xs = (if n < 0 then xs else take (nat n) xs)"

definition listContentPrefixes :: "int \<Rightarrow> (world, string list) op" where
  "listContentPrefixes limit = bindM (getDb (\<lambda>d. limited limit (map prom_content
       (sort_key prom_rowid (filter (\<lambda>r. prom_archivedAt r = None) (promoted d)))))) (\<lambda>contents.
     mapM (\<lambda>c. liftE (readPromotedContent c)) contents)"

definition archivePromoted :: "store_options \<Rightarrow> string \<Rightarrow> (world, unit) op" where
  "archivePromoted opts i =
     (let mark = bindM sqlNow (\<lambda>now. setDb (mapPromoted (\<lambda>r. r\<lparr>prom_archivedAt := Some now\<rparr>) i)) in
      if \<not> fts5Available opts then mark
      else withFtsSavepoint (bindM (getDb (\<lambda>d. findPromoted d i)) (\<lambda>row. bindM mark (\<lambda>_.
        case row of None \<Rightarrow> ret () | Some r \<Rightarrow> ftsDelete opts (prom_rowid r)))))"

definition deletePromoted :: "store_options \<Rightarrow> string \<Rightarrow> (world, unit) op" where
  "deletePromoted opts i =
     (let remove = setDb (\<lambda>d. d\<lparr>promoted := filter (\<lambda>r. prom_id r \<noteq> i) (promoted d)\<rparr>) in
      if \<not> fts5Available opts then remove
      else withFtsSavepoint (bindM (getDb (\<lambda>d. findPromoted d i)) (\<lambda>row.
        bindM (case row of None \<Rightarrow> ret () | Some r \<Rightarrow> ftsDelete opts (prom_rowid r)) (\<lambda>_. remove))))"

record update_fields =
  uf_content :: "string option"
  uf_confidence :: "rat option"
  uf_tags :: "string list option"
  uf_metadata :: "json option"

definition replaceFts :: "store_options \<Rightarrow> nat \<Rightarrow> string \<Rightarrow> string list \<Rightarrow> (world, unit) op" where
  "replaceFts opts rowid content tags = (if \<not> fts5Available opts then ret ()
     else bindM (ftsDelete opts rowid) (\<lambda>_. ftsInsert opts rowid content tags))"

definition updateContent :: "store_options \<Rightarrow> promoted_row \<Rightarrow> update_fields \<Rightarrow> string \<Rightarrow> json option \<Rightarrow> (world, unit) op" where
  "updateContent opts row changes content metadata =
     (let newTags = (case uf_tags changes of Some ts \<Rightarrow> ts | None \<Rightarrow> prom_tags row) in
      bindM (setDb (mapPromoted (\<lambda>r. r\<lparr>prom_content := content,
          prom_confidence := (case uf_confidence changes of Some x \<Rightarrow> x | None \<Rightarrow> prom_confidence r), prom_tags := newTags,
          prom_metadata := (case metadata of Some m \<Rightarrow> m | None \<Rightarrow> prom_metadata r)\<rparr>) (prom_id row))) (\<lambda>_.
        replaceFts opts (prom_rowid row) content newTags))"

definition updateTags :: "store_options \<Rightarrow> promoted_row \<Rightarrow> string list \<Rightarrow> (world, unit) op" where
  "updateTags opts row tags =
     bindM (if fts5Available opts then liftE (readPromotedContent (prom_content row)) else ret '''') (\<lambda>content.
     bindM (setDb (mapPromoted (\<lambda>r. r\<lparr>prom_tags := tags\<rparr>) (prom_id row))) (\<lambda>_.
       replaceFts opts (prom_rowid row) content tags))"

definition updateOthers :: "store_options \<Rightarrow> promoted_row \<Rightarrow> update_fields \<Rightarrow> json option \<Rightarrow> (world, unit) op" where
  "updateOthers opts row changes metadata =
     bindM (case uf_confidence changes of None \<Rightarrow> ret ()
       | Some x \<Rightarrow> setDb (mapPromoted (\<lambda>r. r\<lparr>prom_confidence := x\<rparr>) (prom_id row))) (\<lambda>_.
     bindM (case uf_tags changes of None \<Rightarrow> ret () | Some ts \<Rightarrow> updateTags opts row ts) (\<lambda>_.
     case metadata of None \<Rightarrow> ret () | Some m \<Rightarrow> setDb (mapPromoted (\<lambda>r. r\<lparr>prom_metadata := m\<rparr>) (prom_id row))))"

definition updatePromoted :: "store_options \<Rightarrow> string \<Rightarrow> update_fields \<Rightarrow> (world, unit) op" where
  "updatePromoted opts i changes =
     (if (case uf_content changes of Some c \<Rightarrow> nulChar \<in> set c | None \<Rightarrow> False)
        then throw (TypeError ''promoted content contains an unsupported string'')
      else bindM (case uf_metadata changes of None \<Rightarrow> ret None
             | Some m \<Rightarrow> bindM (liftE (normalizePromotedMetadata m)) (\<lambda>m. ret (Some m))) (\<lambda>metadata.
        bindM (getDb (\<lambda>d. findPromoted d i)) (\<lambda>row. case row of
          None \<Rightarrow> ret ()
        | Some r \<Rightarrow> withFtsSavepoint (case uf_content changes of
            Some content \<Rightarrow> updateContent opts r changes content metadata
          | None \<Rightarrow> updateOthers opts r changes metadata))))"

definition revivePromoted :: "store_options \<Rightarrow> string \<Rightarrow> (world, unit) op" where
  "revivePromoted opts i = bindM (getDb (\<lambda>d. findPromoted d i)) (\<lambda>row. case row of
       None \<Rightarrow> ret ()
     | Some r \<Rightarrow>
       let unmark = setDb (mapPromoted (\<lambda>r. r\<lparr>prom_archivedAt := None\<rparr>) i) in
       if \<not> fts5Available opts then unmark
       else withFtsSavepoint (bindM (liftE (readPromotedContent (prom_content r))) (\<lambda>content.
         bindM unmark (\<lambda>_. bindM (ftsDelete opts (prom_rowid r)) (\<lambda>_.
           ftsInsert opts (prom_rowid r) content (prom_tags r))))))"

section \<open>Search\<close>

text \<open>\<open>LIKE\<close> with an optional escape character.\<close>

function sqlLike :: "char option \<Rightarrow> string \<Rightarrow> string \<Rightarrow> bool" where
  "sqlLike esc [] t = (t = [])"
| "sqlLike esc (p # ps) t =
     (if Some p = esc then (case ps of [] \<Rightarrow> False | q # qs \<Rightarrow>
        (case t of [] \<Rightarrow> False | c # cs \<Rightarrow> lowerAscii q = lowerAscii c \<and> sqlLike esc qs cs))
      else if p = CHR ''%'' then sqlLike esc ps t \<or> (case t of [] \<Rightarrow> False | c # cs \<Rightarrow> sqlLike esc (p # ps) cs)
      else case t of [] \<Rightarrow> False
        | c # cs \<Rightarrow> (p = CHR ''_'' \<or> lowerAscii p = lowerAscii c) \<and> sqlLike esc ps cs)"
  by pat_completeness auto
termination by (relation "measure (\<lambda>(esc, p, t). length p + length t)") auto

record search_result =
  sr_id :: string
  sr_content :: string
  sr_tags :: "string list"
  sr_projectId :: string
  sr_sessionId :: "string option"
  sr_confidence :: rat
  sr_createdAt :: int
  sr_rank :: js_number

text \<open>
  What the index does with a query: given all its entries and the terms, the rank of a row, or
  none when the row does not match.
\<close>

type_synonym fts_index = "(nat \<times> string \<times> string list) list"
type_synonym fts_rank = "fts_index \<Rightarrow> string list \<Rightarrow> nat \<Rightarrow> rat option"

definition hasTags :: "string list \<Rightarrow> promoted_row \<Rightarrow> bool" where
  "hasTags filterTags r \<longleftrightarrow> list_all (\<lambda>t. t \<in> set (prom_tags r)) filterTags"

definition inProject :: "string option \<Rightarrow> promoted_row \<Rightarrow> bool" where
  "inProject projectId r = (case projectId of Some p \<Rightarrow> p = '''' \<or> prom_projectId r = p | None \<Rightarrow> True)"

definition rankedRows :: "fts_rank \<Rightarrow> database \<Rightarrow> string list \<Rightarrow> string option \<Rightarrow> (promoted_row \<times> rat) list" where
  "rankedRows rankOf d terms projectId =
     sort_key (\<lambda>(r, x). (x, - prom_confidence r, prom_createdAt r))
       (List.map_filter (\<lambda>r. if prom_archivedAt r = None \<and> inProject projectId r
            \<and> prom_rowid r \<in> fst ` set (promoted_fts d)
          then map_option (\<lambda>x. (r, x)) (rankOf (promoted_fts d) terms (prom_rowid r)) else None) (promoted d))"

definition searchResult :: "promoted_row \<Rightarrow> js_number \<Rightarrow> string \<Rightarrow> search_result" where
  "searchResult r x content = \<lparr>sr_id = prom_id r, sr_content = content, sr_tags = prom_tags r,
     sr_projectId = prom_projectId r, sr_sessionId = prom_sessionId r, sr_confidence = prom_confidence r,
     sr_createdAt = prom_createdAt r, sr_rank = x\<rparr>"

definition toSearchResult :: "string list \<Rightarrow> promoted_row \<times> rat \<Rightarrow> (world, search_result option) op" where
  "toSearchResult filterTags row = (case row of (r, x) \<Rightarrow>
     if filterTags \<noteq> [] \<and> \<not> hasTags filterTags r then ret None
     else bindM (liftE (readPromotedContent (prom_content r))) (\<lambda>content. ret (Some (searchResult r (Num x) content))))"

text \<open>
  The three ways of applying a tag filter: in the statement, while iterating over its rows, or on
  all its rows, as JSON functions and iteration are available.
\<close>

fun collectResults :: "string list \<Rightarrow> int \<Rightarrow> search_result list \<Rightarrow> (promoted_row \<times> rat) list \<Rightarrow>
    (world, search_result list) op" where
  "collectResults filterTags limit results [] = ret results"
| "collectResults filterTags limit results (row # rows) = bindM (toSearchResult filterTags row) (\<lambda>r.
     let results' = (case r of None \<Rightarrow> results | Some x \<Rightarrow> results @ [x])
     in if 0 \<le> limit \<and> limit \<le> int (length results') then ret results'
        else collectResults filterTags limit results' rows)"

fun flatResults :: "search_result option list \<Rightarrow> search_result list" where
  "flatResults [] = []"
| "flatResults (None # rs) = flatResults rs"
| "flatResults (Some r # rs) = r # flatResults rs"

record search_support =
  ss_jsonTags :: bool
  ss_iterate :: bool

definition searchWithFts :: "fts_rank \<Rightarrow> store_options \<Rightarrow> search_support \<Rightarrow> string list \<Rightarrow> int \<Rightarrow> string list
    \<Rightarrow> string option \<Rightarrow> (world, search_result list) op" where
  "searchWithFts rankOf opts support terms limit filterTags projectId =
     (let needsTagFilter = (filterTags \<noteq> []); native = (needsTagFilter \<and> ss_jsonTags support) in
      if needsTagFilter \<and> limit = 0 then ret []
      else if \<not> ftsStatementOk opts then throw DriverError
      else bindM (getDb (\<lambda>d. rankedRows rankOf d terms projectId)) (\<lambda>all.
        let rows = (if needsTagFilter \<and> \<not> native then all
                    else limited limit (filter (\<lambda>(r, _). native \<longrightarrow> hasTags filterTags r) all)) in
        if needsTagFilter \<and> \<not> native \<and> ss_iterate support then collectResults filterTags limit [] rows
        else if needsTagFilter \<and> \<not> native
          then bindM (mapM (toSearchResult filterTags) (limited limit (filter (\<lambda>(r, _). hasTags filterTags r) rows)))
                 (\<lambda>rs. ret (flatResults rs))
        else bindM (mapM (toSearchResult filterTags) rows) (\<lambda>rs.
          let results = flatResults rs in ret (if needsTagFilter then limited limit results else results))))"

text \<open>Without the index: the patterns \<open>t\<close>, \<open>t[^a-z0-9_]*\<close>, \<open>*[^a-z0-9_]t\<close> and
  \<open>*[^a-z0-9_]t[^a-z0-9_]*\<close> of \<open>GLOB\<close> on the lower-cased text.\<close>

definition globHere :: "string \<Rightarrow> string \<Rightarrow> bool" where
  "globHere term t = (t = term \<or> (startsWith t term
     \<and> (case drop (length term) t of [] \<Rightarrow> False | e # _ \<Rightarrow> \<not> isWordUnit e)))"

fun globBehind :: "string \<Rightarrow> string \<Rightarrow> bool" where
  "globBehind term [] = False"
| "globBehind term (c # cs) = ((\<not> isWordUnit c \<and> globHere term cs) \<or> globBehind term cs)"

definition wordMatch :: "string \<Rightarrow> string \<Rightarrow> bool" where
  "wordMatch term column = (let low = map lowerAscii column in globHere term low \<or> globBehind term low)"

definition matchesTerm :: "promoted_row \<Rightarrow> string \<Rightarrow> bool" where
  "matchesTerm r term = (wordMatch term (prom_content r) \<or> wordMatch term (jsonStrings (prom_tags r)))"

definition matchedTerms :: "string list \<Rightarrow> promoted_row \<Rightarrow> nat" where
  "matchedTerms terms r = length (filter (matchesTerm r) terms)"

definition fallbackRank :: "string list \<Rightarrow> promoted_row \<Rightarrow> js_number" where
  "fallbackRank terms r = (let m = of_nat (matchedTerms terms r) :: rat in
     js_mul (Num (4 * m)) (to_double (m / of_nat (length terms))))"

definition fallbackRows :: "database \<Rightarrow> string list \<Rightarrow> string option \<Rightarrow> promoted_row list" where
  "fallbackRows d terms projectId =
     sort_key (\<lambda>r. (- int (matchedTerms terms r), - prom_confidence r, prom_createdAt r, prom_rowid r))
       (filter (\<lambda>r. prom_archivedAt r = None \<and> list_ex (matchesTerm r) terms \<and> inProject projectId r) (promoted d))"

definition searchWithoutFts :: "string list \<Rightarrow> int \<Rightarrow> string list \<Rightarrow> string option \<Rightarrow> (world, search_result list) op" where
  "searchWithoutFts terms limit filterTags projectId =
     (let unique = dedupe_from {} (map (map lowerAscii) terms) in
      bindM (getDb (\<lambda>d. fallbackRows d unique projectId)) (\<lambda>rows.
      mapM (\<lambda>r. bindM (liftE (readPromotedContent (prom_content r))) (\<lambda>content.
          ret (searchResult r (fallbackRank unique r) content)))
        (limited limit (filter (hasTags filterTags) rows))))"

definition searchPromoted :: "fts_rank \<Rightarrow> store_options \<Rightarrow> search_support \<Rightarrow> string \<Rightarrow> int \<Rightarrow> string list option
    \<Rightarrow> string option \<Rightarrow> (world, search_result list) op" where
  "searchPromoted rankOf opts support query limit filterTags projectId =
     (let terms = searchTerms query; tags = (case filterTags of Some ts \<Rightarrow> ts | None \<Rightarrow> []) in
      if terms = [] then ret []
      else if \<not> fts5Available opts then searchWithoutFts terms limit tags projectId
      else searchWithFts rankOf opts support terms limit tags projectId)"

section \<open>Staleness\<close>

record stale_row =
  st_row :: promoted_row
  st_surfacingCount :: nat
  st_usageCount :: nat
  st_daysSinceCreated :: int

definition MS_PER_DAY :: int where
  "MS_PER_DAY = 24 * 60 * 60 * 1000"

definition surfacingCountOf :: "database \<Rightarrow> string \<Rightarrow> nat" where
  "surfacingCountOf d i = length (filter (\<lambda>s. surf_memoryId s = i) (recall_surfacing d))"

definition usedRows :: "database \<Rightarrow> promoted_row list" where
  "usedRows d = filter (\<lambda>r. prom_archivedAt r = None
     \<and> sqlLike None ([CHR ''%''] @ jsonString ''signal:memory_used'' @ [CHR ''%'']) (jsonStrings (prom_tags r))) (promoted d)"

definition quoted :: "string \<Rightarrow> string" where
  "quoted s = [char_of (34 :: nat)] @ s @ [char_of (34 :: nat)]"

definition staleUsage :: "database \<Rightarrow> string \<Rightarrow> nat" where
  "staleUsage d i = length (filter (\<lambda>r. isInfix (quoted (''memory_id:'' @ i)) (jsonStrings (prom_tags r))) (usedRows d))"

definition staleCandidates :: "database \<Rightarrow> int \<Rightarrow> string option \<Rightarrow> promoted_row list" where
  "staleCandidates d cutoff projectId = sort_key (\<lambda>r. (prom_createdAt r, prom_rowid r))
     (filter (\<lambda>r. prom_archivedAt r = None \<and> prom_createdAt r < cutoff
        \<and> (case projectId of Some p \<Rightarrow> prom_projectId r = p | None \<Rightarrow> True)) (promoted d))"

text \<open>The cutoff is printed in whole seconds.\<close>

definition findStale :: "nat \<Rightarrow> nat \<Rightarrow> string option \<Rightarrow> (world, stale_row list) op" where
  "findStale staleAfterDays staleSurfacingWithoutUseLimit projectId = bindM dateNow (\<lambda>now.
     let cutoff = (now - int staleAfterDays * MS_PER_DAY) div 1000 * 1000 in
     bindM (getDb (\<lambda>d. (d, staleCandidates d cutoff projectId))) (\<lambda>(d, rows).
     bindM (mapM (\<lambda>r. bindM dateNow (\<lambda>now.
        let surfacingCount = surfacingCountOf d (prom_id r); usageCount = staleUsage d (prom_id r) in
        if (staleSurfacingWithoutUseLimit \<le> surfacingCount \<and> usageCount = 0) \<or> (surfacingCount = 0 \<and> usageCount = 0)
        then bindM (publicPromotedRow r) (\<lambda>row. ret [\<lparr>st_row = row, st_surfacingCount = surfacingCount,
               st_usageCount = usageCount, st_daysSinceCreated = (now - prom_createdAt r) div MS_PER_DAY\<rparr>])
        else ret [])) rows) (\<lambda>found. ret (concat found))))"

end
