(* ===== verification/Promotion.thy ===== *)
theory Promotion
  imports Promoted_Store Sqlite_Repositories
begin

text \<open>
  What is built on the promoted memory: the evidence of a recall search
  (\<open>src/db/promoted-recall-evidence.ts\<close>), the log of surfaced memories (\<open>src/db/recall.ts\<close>), their
  repositories (\<open>src/storage/sqlite/repositories.ts\<close>), the signals that promote a summary
  (\<open>src/promotion/detector.ts\<close>) and the insertion that merges duplicates (\<open>src/promotion/dedup.ts\<close>).
\<close>

section \<open>Evidence\<close>

record recall_evidence =
  ev_result :: search_result
  ev_queryTermCount :: nat
  ev_matchedTermCount :: nat

definition BATCH_SIZE :: nat where
  "BATCH_SIZE = 256"

function batches :: "nat \<Rightarrow> 'a list \<Rightarrow> 'a list list" where
  "batches n [] = []"
| "batches n (x # xs) = take (Suc n) (x # xs) # batches n (drop n xs)"
  by pat_completeness auto
termination by (relation "measure (\<lambda>(n, xs). length xs)") auto

definition invalidEvidence :: lcm_error where
  "invalidEvidence = TypeError ''invalid promoted recall evidence''"

text \<open>The rows of one statement: the selected active memories with their matching terms.\<close>

definition evidenceRows :: "(promoted_row \<Rightarrow> string \<Rightarrow> bool) \<Rightarrow> database \<Rightarrow> string list \<Rightarrow> (nat \<times> string) list
    \<Rightarrow> (string \<times> nat \<times> nat) list" where
  "evidenceRows matches d terms selected = concat (map (\<lambda>(ordinal, i).
     map (\<lambda>r. (prom_id r, ordinal, length (filter (matches r) terms)))
       (filter (\<lambda>r. prom_id r = i \<and> prom_archivedAt r = None) (promoted d))) selected)"

fun addCounts :: "nat list \<Rightarrow> (string \<times> nat \<times> nat) list \<Rightarrow> nat list" where
  "addCounts counts [] = counts"
| "addCounts counts ((_, ordinal, n) # rows) = addCounts (counts[ordinal := counts ! ordinal + n]) rows"

text \<open>One statement for a batch of terms and a batch of memories, with the checks on its rows.\<close>

definition evidenceBatch :: "(database \<Rightarrow> promoted_row \<Rightarrow> string \<Rightarrow> bool) \<Rightarrow> string list \<Rightarrow> (nat \<times> string) list \<Rightarrow>
    nat list \<Rightarrow> (world, nat list) op" where
  "evidenceBatch matches terms selected counts = bindM (getDb (\<lambda>d. evidenceRows (matches d) d terms selected)) (\<lambda>rows.
     if length rows \<noteq> length selected then throw invalidEvidence
     else if list_all2 (\<lambda>(i, ordinal, n) (ordinal', i'). i = i' \<and> ordinal = ordinal' \<and> n \<le> length terms) rows selected
     then ret (addCounts counts rows) else throw invalidEvidence)"

fun foldM :: "('s \<Rightarrow> 'a \<Rightarrow> ('w, 's) op) \<Rightarrow> 's \<Rightarrow> 'a list \<Rightarrow> ('w, 's) op" where
  "foldM f s [] = ret s"
| "foldM f s (x # xs) = bindM (f s x) (\<lambda>s'. foldM f s' xs)"

definition countEvidence :: "(database \<Rightarrow> promoted_row \<Rightarrow> string \<Rightarrow> bool) \<Rightarrow> string list \<Rightarrow> string list \<Rightarrow>
    (world, nat list) op" where
  "countEvidence matches terms ids =
     foldM (\<lambda>counts termBatch. foldM (\<lambda>counts idBatch. evidenceBatch matches termBatch idBatch counts) counts
         (batches (BATCH_SIZE - 1) (zip [0..<length ids] ids)))
       (map (\<lambda>_. 0) ids) (batches (BATCH_SIZE - 1) terms)"

text \<open>
  The full-text engine: the ranking of a search, whether a row matches one term, and the terms
  among the lower-cased words of a query that its tokenizer tells apart.
\<close>

record fts_engine =
  fe_rank :: fts_rank
  fe_representatives :: "string list \<Rightarrow> lcm_error + string list"
  fe_support :: search_support

definition collectPromotedRecallEvidence :: "fts_engine \<Rightarrow> store_options \<Rightarrow> search_result list \<Rightarrow> string \<Rightarrow>
    (world, recall_evidence list) op" where
  "collectPromotedRecallEvidence engine opts selected query =
     (if selected = [] then ret []
      else let surfaces = dedupe_from {} (map (map lowerAscii) (searchTerms query)) in
        bindM (if fts5Available opts then liftE (fe_representatives engine surfaces) else ret surfaces) (\<lambda>terms.
        bindM (countEvidence (if fts5Available opts
                 then (\<lambda>d r term. prom_rowid r \<in> fst ` set (promoted_fts d)
                        \<and> fe_rank engine (promoted_fts d) [term] (prom_rowid r) \<noteq> None)
                 else (\<lambda>d. matchesTerm)) terms (map sr_id selected)) (\<lambda>counts.
          ret (map (\<lambda>(result, n). \<lparr>ev_result = result, ev_queryTermCount = length terms, ev_matchedTermCount = n\<rparr>)
            (zip selected counts)))))"

definition searchForRecall :: "fts_engine \<Rightarrow> store_options \<Rightarrow> string \<Rightarrow> int \<Rightarrow> string list option \<Rightarrow> string option
    \<Rightarrow> (world, recall_evidence list) op" where
  "searchForRecall engine opts query limit filterTags projectId = withFtsSavepoint (
     bindM (searchPromoted (fe_rank engine) opts (fe_support engine) query limit filterTags projectId) (\<lambda>selected.
       collectPromotedRecallEvidence engine opts selected query))"

section \<open>Recall\<close>

definition escapeLikePattern :: "string \<Rightarrow> string" where
  "escapeLikePattern v = concat (map (\<lambda>c. if c = char_of (92 :: nat) \<or> c = CHR ''%'' \<or> c = CHR ''_''
     then [char_of (92 :: nat), c] else [c]) v)"

definition logSurfacing :: "string list \<Rightarrow> string option \<Rightarrow> (world, unit) op" where
  "logSurfacing memoryIds sessionId = foreachM (\<lambda>i. bindM sqlNow (\<lambda>now. setDb (\<lambda>d. d\<lparr>recall_surfacing :=
     recall_surfacing d @ [\<lparr>surf_memoryId = i, surf_sessionId = sessionId, surf_surfacedAt = now\<rparr>]\<rparr>))) memoryIds"

text \<open>A \<open>Map\<close> that counts, in the order of insertion.\<close>

fun bumpCount :: "string \<Rightarrow> (string \<times> nat) list \<Rightarrow> (string \<times> nat) list" where
  "bumpCount k [] = [(k, 1)]"
| "bumpCount k ((j, n) # rest) = (if j = k then (j, Suc n) # rest else (j, n) # bumpCount k rest)"

definition memoryIdPattern :: "string \<Rightarrow> string" where
  "memoryIdPattern i = [CHR ''%''] @ quoted (''memory_id:'' @ escapeLikePattern i) @ [CHR ''%'']"

definition actedRows :: "database \<Rightarrow> string list option \<Rightarrow> promoted_row list" where
  "actedRows d memoryIds = (case memoryIds of None \<Rightarrow> usedRows d
     | Some ids \<Rightarrow> filter (\<lambda>r. list_ex (\<lambda>i. sqlLike (Some (char_of (92 :: nat))) (memoryIdPattern i)
         (jsonStrings (prom_tags r))) ids) (usedRows d))"

definition taggedMemoryId :: "promoted_row \<Rightarrow> string option" where
  "taggedMemoryId r = map_option (drop (length ''memory_id:''))
     (List.find (\<lambda>t. startsWith t ''memory_id:'') (prom_tags r))"

fun tallyUsage :: "string list option \<Rightarrow> (string \<times> nat) list \<Rightarrow> promoted_row list \<Rightarrow> (string \<times> nat) list" where
  "tallyUsage memoryIds counts [] = counts"
| "tallyUsage memoryIds counts (r # rows) = tallyUsage memoryIds (case taggedMemoryId r of
       None \<Rightarrow> counts
     | Some i \<Rightarrow> if (case memoryIds of None \<Rightarrow> False | Some ids \<Rightarrow> i \<notin> set ids) then counts else bumpCount i counts) rows"

definition collectUsageCounts :: "string list option \<Rightarrow> database \<Rightarrow> (string \<times> nat) list" where
  "collectUsageCounts memoryIds d = (if memoryIds = Some [] then [] else tallyUsage memoryIds [] (actedRows d memoryIds))"

record recall_feedback =
  rf_usageCount :: nat
  rf_surfacingCount :: nat
  rf_lastSurfacedAt :: "int option"

definition lastSurfacedOf :: "database \<Rightarrow> string \<Rightarrow> int option" where
  "lastSurfacedOf d i = (let ts = map surf_surfacedAt (filter (\<lambda>s. surf_memoryId s = i) (recall_surfacing d))
     in if ts = [] then None else Some (Max (set ts)))"

definition getFeedback :: "string list \<Rightarrow> (world, (string \<times> recall_feedback) list) op" where
  "getFeedback memoryIds = getDb (\<lambda>d. let usage = collectUsageCounts (Some memoryIds) d in
     map (\<lambda>i. (i, \<lparr>rf_usageCount = (case map_of usage i of Some n \<Rightarrow> n | None \<Rightarrow> 0),
         rf_surfacingCount = surfacingCountOf d i, rf_lastSurfacedAt = lastSurfacedOf d i\<rparr>)) (dedupe_from {} memoryIds))"

record recall_stats =
  rs_memoriesSurfaced :: nat
  rs_memoriesActedUpon :: nat
  rs_recallPrecision :: "js_number option"
  rs_topRecalled :: "(string \<times> string \<times> nat) list"

definition getStats :: "(world, recall_stats) op" where
  "getStats = bindM (getDb (\<lambda>d. (d, collectUsageCounts None d))) (\<lambda>(d, counts).
     let surfaced = length (remdups (map surf_memoryId (recall_surfacing d)));
         precision = (if 0 < surfaced
           then Some (js_min (Num 100) (js_mul (to_double (of_nat (length counts) / of_nat surfaced)) (Num 100))) else None) in
     bindM (mapM (\<lambda>(i, n). case findPromoted d i of
         None \<Rightarrow> ret (i, ''(memory not found)'', n)
       | Some r \<Rightarrow> bindM (liftE (readPromotedContent (prom_content r))) (\<lambda>content. ret (i, content, n)))
       (take 5 (sort_key (\<lambda>(_, n). - int n) counts))) (\<lambda>top.
     ret \<lparr>rs_memoriesSurfaced = surfaced, rs_memoriesActedUpon = length counts, rs_recallPrecision = precision,
       rs_topRecalled = top\<rparr>))"

section \<open>Repositories\<close>

record promoted_env =
  pe_projectId :: string
  pe_options :: store_options
  pe_engine :: fts_engine

text \<open>\<open>promotedRecord\<close>: the stored metadata is checked again.\<close>

definition promotedRecord :: "promoted_row \<Rightarrow> (world, promoted_row) op" where
  "promotedRecord row = bindM (liftE (normalizePromotedMetadata (prom_metadata row))) (\<lambda>m.
     ret (row\<lparr>prom_metadata := m\<rparr>))"

definition mapRecord :: "(world, promoted_row option) op \<Rightarrow> (world, promoted_row option) op" where
  "mapRecord m = bindM m (\<lambda>row. case row of None \<Rightarrow> ret None
     | Some r \<Rightarrow> bindM (promotedRecord r) (\<lambda>r. ret (Some r)))"

record insert_input =
  ii_content :: string
  ii_tags :: "string list option"
  ii_metadata :: "json option"
  ii_sourceSummaryId :: "string option"
  ii_sourceProjectId :: "string option"
  ii_sessionId :: "string option"
  ii_depth :: "nat option"
  ii_confidence :: "rat option"

definition ownerOr :: "promoted_env \<Rightarrow> string option \<Rightarrow> string" where
  "ownerOr env sourceProjectId = (case sourceProjectId of Some p \<Rightarrow> p | None \<Rightarrow> pe_projectId env)"

definition repo_insertPromoted :: "invoker \<Rightarrow> promoted_env \<Rightarrow> insert_input \<Rightarrow> (world, string) op" where
  "repo_insertPromoted iv env i = invoke iv False (insertPromoted (pe_options env)
     \<lparr>ip_content = ii_content i, ip_tags = ii_tags i, ip_metadata = ii_metadata i,
      ip_sourceSummaryId = ii_sourceSummaryId i, ip_projectId = ownerOr env (ii_sourceProjectId i),
      ip_sessionId = ii_sessionId i, ip_depth = ii_depth i, ip_confidence = ii_confidence i\<rparr>)"

definition repo_getPromotedById :: "invoker \<Rightarrow> string \<Rightarrow> (world, promoted_row option) op" where
  "repo_getPromotedById iv i = invoke iv False (mapRecord (getPromotedById i))"

definition repo_findExactContent :: "invoker \<Rightarrow> promoted_env \<Rightarrow> string \<Rightarrow> string option \<Rightarrow> (world, promoted_row option) op" where
  "repo_findExactContent iv env content sourceProjectId =
     invoke iv False (mapRecord (findExactContent content (ownerOr env sourceProjectId)))"

definition repo_getAllPromoted :: "invoker \<Rightarrow> string option \<Rightarrow> int option \<Rightarrow> string list option \<Rightarrow> (world, promoted_row list) op" where
  "repo_getAllPromoted iv sourceProjectId since tags =
     invoke iv False (bindM (getAllPromoted sourceProjectId since tags) (mapM promotedRecord))"

definition repo_listContentPrefixes :: "invoker \<Rightarrow> int \<Rightarrow> (world, string list) op" where
  "repo_listContentPrefixes iv limit = invoke iv False (listContentPrefixes limit)"

definition repo_archivePromoted :: "invoker \<Rightarrow> promoted_env \<Rightarrow> string \<Rightarrow> (world, unit) op" where
  "repo_archivePromoted iv env i = invoke iv False (archivePromoted (pe_options env) i)"

definition repo_deletePromoted :: "invoker \<Rightarrow> promoted_env \<Rightarrow> string \<Rightarrow> (world, unit) op" where
  "repo_deletePromoted iv env i = invoke iv False (deletePromoted (pe_options env) i)"

definition repo_updatePromoted :: "invoker \<Rightarrow> promoted_env \<Rightarrow> string \<Rightarrow> update_fields \<Rightarrow> (world, unit) op" where
  "repo_updatePromoted iv env i changes = invoke iv False (updatePromoted (pe_options env) i changes)"

definition repo_findStale :: "invoker \<Rightarrow> nat \<Rightarrow> nat \<Rightarrow> string option \<Rightarrow> (world, stale_row list) op" where
  "repo_findStale iv staleAfterDays staleSurfacingWithoutUseLimit sourceProjectId = invoke iv False (
     bindM (findStale staleAfterDays staleSurfacingWithoutUseLimit sourceProjectId)
       (mapM (\<lambda>s. bindM (promotedRecord (st_row s)) (\<lambda>r. ret (s\<lparr>st_row := r\<rparr>)))))"

definition repo_revivePromoted :: "invoker \<Rightarrow> promoted_env \<Rightarrow> string \<Rightarrow> (world, unit) op" where
  "repo_revivePromoted iv env i = invoke iv False (revivePromoted (pe_options env) i)"

definition repo_logSurfacing :: "invoker \<Rightarrow> string list \<Rightarrow> string option \<Rightarrow> (world, unit) op" where
  "repo_logSurfacing iv ids sessionId = invoke iv False (logSurfacing ids sessionId)"

definition repo_getFeedback :: "invoker \<Rightarrow> string list \<Rightarrow> (world, (string \<times> recall_feedback) list) op" where
  "repo_getFeedback iv ids = invoke iv False (getFeedback ids)"

definition repo_getStats :: "invoker \<Rightarrow> (world, recall_stats) op" where
  "repo_getStats iv = invoke iv False getStats"

definition repo_searchPromoted :: "invoker \<Rightarrow> promoted_env \<Rightarrow> string \<Rightarrow> int \<Rightarrow> string list option \<Rightarrow> string option \<Rightarrow>
    (world, search_result list) op" where
  "repo_searchPromoted iv env query limit filterTags sourceProjectId = invoke iv False (
     searchPromoted (fe_rank (pe_engine env)) (pe_options env) (fe_support (pe_engine env)) query limit filterTags sourceProjectId)"

definition repo_searchPromotedForRecall :: "invoker \<Rightarrow> promoted_env \<Rightarrow> string \<Rightarrow> int \<Rightarrow> string list option \<Rightarrow> string option \<Rightarrow>
    (world, recall_evidence list) op" where
  "repo_searchPromotedForRecall iv env query limit filterTags sourceProjectId =
     invoke iv False (searchForRecall (pe_engine env) (pe_options env) query limit filterTags sourceProjectId)"

section \<open>Signals\<close>

text \<open>\<open>toLowerCase\<close> on the code units of the model.\<close>

definition toLowerCase :: "string \<Rightarrow> string" where
  "toLowerCase s = map (\<lambda>c. let k = (of_char c :: nat) in
     if (65 \<le> k \<and> k \<le> 90) \<or> (192 \<le> k \<and> k \<le> 222 \<and> k \<noteq> 215) then char_of (k + 32) else c) s"

record promotion_input =
  pi_content :: string
  pi_depth :: nat
  pi_tokenCount :: nat
  pi_sourceMessageTokenCount :: nat

record promotion_thresholds =
  th_keywords :: "(string \<times> string list) list"
  th_architecturePatterns :: "string list option"
  th_minDepth :: js_number
  th_compressionRatio :: js_number

text \<open>The regular expressions: whether a pattern is safe (it may throw), and the test of a pattern that compiles.\<close>

record regex_engine =
  re_safe :: "string \<Rightarrow> bool option"
  re_compile :: "string \<Rightarrow> (string \<Rightarrow> bool) option"

definition validateRegex :: "regex_engine \<Rightarrow> string \<Rightarrow> (string \<Rightarrow> bool) option" where
  "validateRegex re pattern = (if re_safe re pattern = Some True then re_compile re pattern else None)"

fun architectureSignal :: "regex_engine \<Rightarrow> string \<Rightarrow> string list \<Rightarrow> bool" where
  "architectureSignal re content [] = False"
| "architectureSignal re content (p # ps) = (case validateRegex re p of
     None \<Rightarrow> architectureSignal re content ps
   | Some test \<Rightarrow> if test content then True else architectureSignal re content ps)"

record promotion_result =
  pr_promote :: bool
  pr_tags :: "string list"
  pr_confidence :: rat

definition shouldPromote :: "regex_engine \<Rightarrow> promotion_input \<Rightarrow> promotion_thresholds \<Rightarrow> promotion_result" where
  "shouldPromote re i thresholds =
     (let low = toLowerCase (pi_content i);
          keywordTags = map fst (filter (\<lambda>(_, kws). list_ex (\<lambda>kw. isInfix (toLowerCase kw) low) kws) (th_keywords thresholds));
          safe = filter (\<lambda>p. re_safe re p = Some True)
            (case th_architecturePatterns thresholds of Some ps \<Rightarrow> ps | None \<Rightarrow> []);
          tags = keywordTags
            @ (if architectureSignal re (pi_content i) safe then [''architecture''] else [])
            @ (if js_leq (th_minDepth thresholds) (js_nat (pi_depth i)) then [''depth''] else [])
            @ (if 0 < pi_sourceMessageTokenCount i
                 \<and> js_less (to_double (of_nat (pi_tokenCount i) / of_nat (pi_sourceMessageTokenCount i))) (th_compressionRatio thresholds)
               then [''compressed''] else []);
          signals = dedupe_from {} tags
      in \<lparr>pr_promote = (0 < length signals), pr_tags = signals, pr_confidence = min (of_nat (length signals) / 4) 1\<rparr>)"

section \<open>Insertion with deduplication\<close>

datatype candidate_scope = SourceScope | OwnerScope
datatype storage_backend = Sqlite | Postgresql

record dedup_input =
  dd_content :: string
  dd_tags :: "string list"
  dd_sourceProjectId :: "string option"
  dd_candidateScope :: "candidate_scope option"
  dd_backend :: "storage_backend option"
  dd_sessionId :: "string option"
  dd_depth :: nat
  dd_confidence :: rat
  dd_newEntryConfidence :: "rat option"
  dd_candidateLimit :: int
  dd_existingOnly :: bool

definition isDuplicateCandidate :: "search_result \<Rightarrow> string \<Rightarrow> bool" where
  "isDuplicateCandidate candidate content = (sr_content candidate = content)"

definition exactCandidate :: "promoted_row \<Rightarrow> search_result" where
  "exactCandidate r = searchResult r (Num 0) (prom_content r)"

definition refreshedConfidence :: "rat \<Rightarrow> search_result list \<Rightarrow> rat" where
  "refreshedConfidence confidence duplicates = foldl max confidence (map sr_confidence duplicates)"

definition mergedTags :: "search_result list \<Rightarrow> string list \<Rightarrow> string list" where
  "mergedTags duplicates tags = dedupe_from {} (concat (map sr_tags duplicates) @ tags)"

definition mergeDuplicates :: "invoker \<Rightarrow> promoted_env \<Rightarrow> dedup_input \<Rightarrow> search_result \<Rightarrow> search_result list \<Rightarrow>
    (world, string option) op" where
  "mergeDuplicates iv env i canonical others =
     bindM (repo_updatePromoted iv env (sr_id canonical) \<lparr>uf_content = None,
         uf_confidence = Some (refreshedConfidence (dd_confidence i) (canonical # others)),
         uf_tags = Some (mergedTags (canonical # others) (dd_tags i)), uf_metadata = None\<rparr>) (\<lambda>_.
     bindM (foreachM (\<lambda>c. repo_archivePromoted iv env (sr_id c)) others) (\<lambda>_. ret (Some (sr_id canonical))))"

definition combinedCandidates :: "promoted_row option \<Rightarrow> search_result list \<Rightarrow> search_result list" where
  "combinedCandidates exact candidates = (case exact of None \<Rightarrow> candidates
     | Some r \<Rightarrow> if prom_id r \<in> set (map sr_id candidates) then candidates else exactCandidate r # candidates)"

text \<open>The project whose memories are candidates.\<close>

definition candidateSource :: "dedup_input \<Rightarrow> string option" where
  "candidateSource i = (if dd_candidateScope i = Some OwnerScope \<and> dd_backend i = Some Postgresql
     then None else dd_sourceProjectId i)"

definition deduplicateAndInsertInRepositories :: "(world, unit) op option \<Rightarrow> invoker \<Rightarrow> promoted_env \<Rightarrow> dedup_input \<Rightarrow>
    (world, string option) op" where
  "deduplicateAndInsertInRepositories serializer iv env i =
     bindM (case serializer of None \<Rightarrow> ret () | Some s \<Rightarrow> s) (\<lambda>_.
     bindM (repo_searchPromoted iv env (dd_content i) (dd_candidateLimit i) None (candidateSource i)) (\<lambda>candidates.
     bindM (if dd_candidateScope i = Some OwnerScope
            then repo_findExactContent iv env (dd_content i) (candidateSource i) else ret None) (\<lambda>exact.
     case filter (\<lambda>c. isDuplicateCandidate c (dd_content i)) (combinedCandidates exact candidates) of
       [] \<Rightarrow> if dd_existingOnly i then ret None
         else bindM (repo_insertPromoted iv env \<lparr>ii_content = dd_content i, ii_tags = Some (dd_tags i),
             ii_metadata = None, ii_sourceSummaryId = None, ii_sourceProjectId = dd_sourceProjectId i,
             ii_sessionId = dd_sessionId i, ii_depth = Some (dd_depth i),
             ii_confidence = Some (case dd_newEntryConfidence i of Some x \<Rightarrow> x | None \<Rightarrow> dd_confidence i)\<rparr>)
           (\<lambda>new. ret (Some new))
     | canonical # others \<Rightarrow> mergeDuplicates iv env i canonical others)))"

text \<open>\<open>deduplicateAndInsert\<close> over the repositories: in a transaction of its own.\<close>

definition deduplicateAndInsert :: "(world, unit) op option \<Rightarrow> promoted_env \<Rightarrow> dedup_input \<Rightarrow> (world, string option) op" where
  "deduplicateAndInsert serializer env i =
     storage_transaction (\<lambda>iv. deduplicateAndInsertInRepositories serializer iv env (i\<lparr>dd_existingOnly := False\<rparr>))"


text \<open>
  The branch for callers that still hold the store itself: the search runs outside the transaction
  of the merge.
\<close>

definition promotedTransaction :: "(world, unit) op \<Rightarrow> (world, unit) op" where
  "promotedTransaction callback = bindM (sql_exec BeginImmediate) (\<lambda>_.
     catchM (bindM callback (\<lambda>_. sql_exec Commit)) (\<lambda>e. bindM (sql_exec Rollback) (\<lambda>_. throw e)))"

definition legacyDeduplicateAndInsert :: "promoted_env \<Rightarrow> string \<Rightarrow> dedup_input \<Rightarrow> (world, string) op" where
  "legacyDeduplicateAndInsert env projectId i =
     bindM (searchPromoted (fe_rank (pe_engine env)) (pe_options env) (fe_support (pe_engine env))
        (dd_content i) (dd_candidateLimit i) None (Some projectId)) (\<lambda>candidates.
     case filter (\<lambda>c. isDuplicateCandidate c (dd_content i)) candidates of
       [] \<Rightarrow> insertPromoted (pe_options env) \<lparr>ip_content = dd_content i, ip_tags = Some (dd_tags i),
          ip_metadata = None, ip_sourceSummaryId = None, ip_projectId = projectId, ip_sessionId = dd_sessionId i,
          ip_depth = Some (dd_depth i),
          ip_confidence = Some (case dd_newEntryConfidence i of Some x \<Rightarrow> x | None \<Rightarrow> dd_confidence i)\<rparr>
     | canonical # others \<Rightarrow> bindM (promotedTransaction (
          bindM (updatePromoted (pe_options env) (sr_id canonical) \<lparr>uf_content = None,
             uf_confidence = Some (refreshedConfidence (dd_confidence i) (canonical # others)),
             uf_tags = Some (mergedTags (canonical # others) (dd_tags i)), uf_metadata = None\<rparr>) (\<lambda>_.
          foreachM (\<lambda>c. archivePromoted (pe_options env) (sr_id c)) others)))
          (\<lambda>_. ret (sr_id canonical)))"

end
