(* ===== verification/Memory_Context.thy ===== *)
theory Memory_Context
  imports Promotion
begin

text \<open>
  What is written into a prompt: the fence around recalled text (\<open>src/daemon/content-fence.ts\<close>), the
  templates of the guidance (\<open>src/connectors/template-service.ts\<close>) and the selection of memory hints
  under a budget of bytes (\<open>src/hooks/memory-context.ts\<close>).

  A character of the model is a code point below 256, so a code unit is a code point, and UTF-8 needs
  one byte below 128 and two above.  The files of the guidance are a function of their name.
\<close>

section \<open>Text\<close>

definition trimEnd :: "string \<Rightarrow> string" where
  "trimEnd s = rev (dropWhile isWhitespace (rev s))"

definition utf8Length :: "string \<Rightarrow> nat" where
  "utf8Length s = sum_list (map (\<lambda>c. if (of_char c :: nat) < 128 then 1 else 2) s)"

definition isLetter :: "char \<Rightarrow> bool" where
  "isLetter c = (let k = (of_char c :: nat) in (65 \<le> k \<and> k \<le> 90) \<or> (97 \<le> k \<and> k \<le> 122))"

text \<open>\<open>s.slice(0, n)\<close>\<close>

definition sliceTo :: "js_number \<Rightarrow> string \<Rightarrow> string" where
  "sliceTo n s = (case n of Num a \<Rightarrow>
       let k = (if 0 \<le> a then \<lfloor>a\<rfloor> else \<lceil>a\<rceil>) in if 0 \<le> k then take (nat k) s else take (length s - nat (- k)) s
     | PosInf \<Rightarrow> s | NegInf \<Rightarrow> '''' | NaN \<Rightarrow> '''')"

section \<open>Fence\<close>

definition ESC :: char where
  "ESC = char_of (27 :: nat)"

definition isAnsiParameter :: "char \<Rightarrow> bool" where
  "isAnsiParameter c = (let k = (of_char c :: nat) in (48 \<le> k \<and> k \<le> 57) \<or> k = 59)"

text \<open>\<open>/\x1b\[[0-9;]*[a-zA-Z]/\<close> at the head of a text: what follows the match.\<close>

definition ansiMatch :: "string \<Rightarrow> string option" where
  "ansiMatch s = (if startsWith s [ESC, CHR ''[''] then
       (case dropWhile isAnsiParameter (drop 2 s) of [] \<Rightarrow> None | c # cs \<Rightarrow> if isLetter c then Some cs else None)
     else None)"

lemma ansiMatch_length: "ansiMatch s = Some r \<Longrightarrow> length r < length s"
  using length_dropWhile_le [of isAnsiParameter "drop 2 s"]
  by (auto simp: ansiMatch_def split: if_splits list.splits)

function stripAnsi :: "string \<Rightarrow> string" where
  "stripAnsi [] = []"
| "stripAnsi (c # cs) = (case ansiMatch (c # cs) of Some r \<Rightarrow> stripAnsi r | None \<Rightarrow> c # stripAnsi cs)"
  by pat_completeness auto
termination by (relation "measure length") (auto dest: ansiMatch_length)

text \<open>
  \<open>new RegExp(`</${escapedTag}\s*>`, "gi")\<close>, the tag taken literally, and its replacement, for a tag
  without a dollar sign.
\<close>

definition closingMatch :: "string \<Rightarrow> string \<Rightarrow> string option" where
  "closingMatch tag s = (if startsWith s ''</''
       \<and> toLowerCase (take (length tag) (drop 2 s)) = toLowerCase tag then
       (case dropWhile isWhitespace (drop (length tag + 2) s) of [] \<Rightarrow> None | c # cs \<Rightarrow> if c = CHR ''>'' then Some cs else None)
     else None)"

lemma closingMatch_length: "closingMatch tag s = Some r \<Longrightarrow> length r + 3 + length tag \<le> length s"
  using length_dropWhile_le [of isWhitespace "drop (length tag + 2) s"]
  by (auto simp: closingMatch_def toLowerCase_def split: if_splits list.splits dest: map_eq_imp_length_eq)

function escapeClosing :: "string \<Rightarrow> string \<Rightarrow> string" where
  "escapeClosing tag [] = []"
| "escapeClosing tag (c # cs) = (case closingMatch tag (c # cs) of
       Some r \<Rightarrow> ''&lt;/'' @ tag @ ''&gt;'' @ escapeClosing tag r
     | None \<Rightarrow> c # escapeClosing tag cs)"
  by pat_completeness auto
termination by (relation "measure (\<lambda>(tag, s). length s)") (auto dest: closingMatch_length)

definition fenceContent :: "string \<Rightarrow> string \<Rightarrow> string" where
  "fenceContent content tag =
     ''<'' @ tag @ ''>'' @ newline @ escapeClosing tag (stripAnsi content) @ newline @ ''</'' @ tag @ ''>''"

section \<open>Templates\<close>

definition isNameUnit :: "char \<Rightarrow> bool" where
  "isNameUnit c = isWordUnit c"

text \<open>\<open>/\{\{\s*([A-Za-z][A-Za-z0-9_]*)\s*\}\}/\<close> at the head of a text: the name and what follows.\<close>

definition placeholderAt :: "string \<Rightarrow> (string \<times> string) option" where
  "placeholderAt s = (if startsWith s ''{{'' then
       (let r = dropWhile isWhitespace (drop 2 s); name = takeWhile isNameUnit r;
            rest = dropWhile isWhitespace (dropWhile isNameUnit r) in
        if name \<noteq> [] \<and> isLetter (hd name) \<and> startsWith rest ''}}'' then Some (name, drop 2 rest) else None)
     else None)"

lemma placeholderAt_length: "placeholderAt s = Some (name, r) \<Longrightarrow> length r < length s"
proof -
  assume a: "placeholderAt s = Some (name, r)"
  let ?r = "dropWhile isWhitespace (drop 2 s)"
  from a have "r = drop 2 (dropWhile isWhitespace (dropWhile isNameUnit ?r))" and "s \<noteq> []"
    by (auto simp: placeholderAt_def Let_def startsWith_def split: if_splits)
  moreover have "length (drop 2 (dropWhile isWhitespace (dropWhile isNameUnit ?r))) \<le> length (drop 2 s)"
    using length_dropWhile_le [of isWhitespace "drop 2 s"] length_dropWhile_le [of isNameUnit ?r]
      length_dropWhile_le [of isWhitespace "dropWhile isNameUnit ?r"] by simp
  ultimately show ?thesis by (cases s) auto
qed

text \<open>The first \<open>}}\<close>: what stands before it.\<close>

fun beforeClose :: "string \<Rightarrow> string option" where
  "beforeClose [] = None"
| "beforeClose (c # cs) = (if startsWith (c # cs) ''}}'' then Some [] else map_option ((#) c) (beforeClose cs))"

definition validName :: "string \<Rightarrow> bool" where
  "validName s = (s \<noteq> [] \<and> isLetter (hd s) \<and> list_all isNameUnit s)"

definition malformed :: "string \<Rightarrow> lcm_error" where
  "malformed s = InputError (''Malformed template placeholder: '' @ s)"

function assertTemplateSyntax :: "string \<Rightarrow> lcm_error option" where
  "assertTemplateSyntax [] = None"
| "assertTemplateSyntax (c # cs) = (if startsWith (c # cs) ''{{'' then
       (case beforeClose (drop 1 cs) of
          None \<Rightarrow> Some (malformed (c # cs))
        | Some name \<Rightarrow> if validName name then assertTemplateSyntax (drop 1 cs)
            else Some (malformed (''{{'' @ name @ ''}}'')))
     else assertTemplateSyntax cs)"
  by pat_completeness auto
termination by (relation "measure length") auto

function templateKeys :: "string \<Rightarrow> string list" where
  "templateKeys [] = []"
| "templateKeys (c # cs) = (case placeholderAt (c # cs) of
       Some (name, r) \<Rightarrow> name # templateKeys r
     | None \<Rightarrow> templateKeys cs)"
  by pat_completeness auto
termination by (relation "measure length") (auto dest: placeholderAt_length)

function fillTemplate :: "(string \<times> string) list \<Rightarrow> string \<Rightarrow> string" where
  "fillTemplate values [] = []"
| "fillTemplate values (c # cs) = (case placeholderAt (c # cs) of
       Some (name, r) \<Rightarrow> the (map_of values name) @ fillTemplate values r
     | None \<Rightarrow> c # fillTemplate values cs)"
  by pat_completeness auto
termination by (relation "measure (\<lambda>(vs, s). length s)") (auto dest: placeholderAt_length)

definition renderTemplate :: "string \<Rightarrow> (string \<times> string) list \<Rightarrow> lcm_error + string" where
  "renderTemplate template values = (case assertTemplateSyntax template of
     Some e \<Rightarrow> Inl e
   | None \<Rightarrow> let expected = dedupe_from {} (templateKeys template) in
     (case List.find (\<lambda>k. k \<notin> set expected) (map fst values) of
        Some k \<Rightarrow> Inl (InputError (''Unknown template key: '' @ k))
      | None \<Rightarrow> (case List.find (\<lambda>k. map_of values k = None) expected of
          Some k \<Rightarrow> Inl (InputError (''Missing template value: '' @ k))
        | None \<Rightarrow> Inr (fillTemplate values template))))"

section \<open>Guidance\<close>

datatype connector_transport = Cli | Mcp

type_synonym guidance_files = "string \<Rightarrow> string"

definition mapE :: "('a \<Rightarrow> 'b) \<Rightarrow> lcm_error + 'a \<Rightarrow> lcm_error + 'b" where
  "mapE f r = (case r of Inl e \<Rightarrow> Inl e | Inr a \<Rightarrow> Inr (f a))"

definition bindE :: "lcm_error + 'a \<Rightarrow> ('a \<Rightarrow> lcm_error + 'b) \<Rightarrow> lcm_error + 'b" where
  "bindE r f = (case r of Inl e \<Rightarrow> Inl e | Inr a \<Rightarrow> f a)"

lemma mapE_simps [simp]: "mapE f (Inr a) = Inr (f a)" "mapE f (Inl e) = Inl e"
  by (simp_all add: mapE_def)

lemma bindE_simps [simp]: "bindE (Inr a) g = g a" "bindE (Inl e) g = Inl e"
  by (simp_all add: bindE_def)

lemma mapE_Inr: "mapE f r = Inr b \<longleftrightarrow> (\<exists>a. r = Inr a \<and> b = f a)"
  by (cases r) auto

lemma bindE_Inr: "bindE r g = Inr b \<longleftrightarrow> (\<exists>a. r = Inr a \<and> g a = Inr b)"
  by (cases r) auto

definition renderOperations :: "guidance_files \<Rightarrow> connector_transport \<Rightarrow> string option \<Rightarrow> lcm_error + string" where
  "renderOperations files transport threadId =
     (let source = files (if transport = Cli then ''operations.cli.md'' else ''operations.mcp.md'');
          sourceTag = (case threadId of None \<Rightarrow> '''' | Some t \<Rightarrow> '' --tag '' @ [char_of (39 :: nat)] @ ''source:'' @ t @ [char_of (39 :: nat)]) in
      if transport = Cli then renderTemplate source [(''sourceTag'', sourceTag)] else renderTemplate source [])"

definition renderFeedback :: "guidance_files \<Rightarrow> connector_transport \<Rightarrow> string list \<Rightarrow> lcm_error + string" where
  "renderFeedback files transport memoryIds = (if memoryIds = [] then Inr '''' else
     mapE trim (renderTemplate (files (if transport = Cli then ''feedback.cli.md'' else ''feedback.mcp.md'')) []))"

definition renderMemoryContext :: "guidance_files \<Rightarrow> connector_transport \<Rightarrow> string \<Rightarrow> string list \<Rightarrow> lcm_error + string" where
  "renderMemoryContext files transport ctxt memoryIds = (if trim ctxt = [] then Inr '''' else
     bindE (renderFeedback files transport memoryIds) (\<lambda>feedback.
       mapE trim (renderTemplate (files ''memory-context.md.tmpl'') [(''context'', ctxt), (''feedback'', feedback)])))"

definition renderBody :: "guidance_files \<Rightarrow> connector_transport \<Rightarrow> string option \<Rightarrow> lcm_error + string" where
  "renderBody files transport threadId = bindE (renderOperations files transport threadId) (\<lambda>operations.
     mapE trim (renderTemplate (files ''body.md'') [(''operations'', operations), (''feedback'', '''')]))"

definition LCM_START :: string where
  "LCM_START = ''<!-- lcm -->''"

definition LCM_END :: string where
  "LCM_END = ''<!-- lcm -->''"

definition LCM_MANAGED_SKILL_MARKER :: string where
  "LCM_MANAGED_SKILL_MARKER = ''<!-- lcm-managed-skill:v1 -->''"

definition endLine :: "string \<Rightarrow> string" where
  "endLine s = trimEnd s @ newline"

definition renderCodexRules :: "guidance_files \<Rightarrow> lcm_error + string" where
  "renderCodexRules files = mapE endLine (renderTemplate (files ''codex-rules.md.tmpl'')
     [(''marker'', LCM_START), (''endMarker'', LCM_END)])"

datatype guidance_kind = SkillKind | RulesKind

text \<open>The last argument is a header or the options, of which the thread matters.\<close>

definition renderGuidance :: "guidance_files \<Rightarrow> guidance_kind \<Rightarrow> connector_transport \<Rightarrow> string + string option \<Rightarrow>
    lcm_error + string" where
  "renderGuidance files kind transport headerOrOptions =
     (let threadId = (case headerOrOptions of Inl _ \<Rightarrow> None | Inr t \<Rightarrow> t);
          header = (case headerOrOptions of Inl h \<Rightarrow> h | Inr _ \<Rightarrow> '''') in
      bindE (renderBody files transport threadId) (\<lambda>body.
      case kind of
        SkillKind \<Rightarrow> bindE (renderBody files transport threadId) (\<lambda>body.
          mapE endLine (renderTemplate (files ''skill.md.tmpl'') [(''marker'', LCM_MANAGED_SKILL_MARKER), (''body'', body)]))
      | RulesKind \<Rightarrow> mapE endLine (renderTemplate (files ''rules.md.tmpl'')
          [(''header'', if 0 < length header then header @ newline else ''''), (''marker'', LCM_START), (''body'', body),
           (''endMarker'', LCM_END)])))"

record connector_agent =
  ca_id :: string
  ca_header :: "string option"

datatype connector_surface = RulesSurface | SkillSurface | HookSurface

definition generateRulesContent :: "guidance_files \<Rightarrow> connector_agent \<Rightarrow> connector_transport \<Rightarrow> lcm_error + string" where
  "generateRulesContent files agent transport = (if ca_id agent = ''codex'' then renderCodexRules files
     else renderGuidance files RulesKind transport (case ca_header agent of Some h \<Rightarrow> Inl h | None \<Rightarrow> Inr None))"

definition generateSkillContent :: "guidance_files \<Rightarrow> connector_agent \<Rightarrow> connector_transport \<Rightarrow> lcm_error + string" where
  "generateSkillContent files agent transport = renderGuidance files SkillKind transport (Inr None)"

fun generateContent :: "guidance_files \<Rightarrow> connector_agent \<Rightarrow> connector_surface \<Rightarrow> connector_transport \<Rightarrow> lcm_error + string" where
  "generateContent files agent RulesSurface transport = generateRulesContent files agent transport"
| "generateContent files agent SkillSurface transport = generateSkillContent files agent transport"
| "generateContent files agent HookSurface transport = Inl (InputError (''Hook connectors are managed by the structured ''
     @ ''connector installer, not the template service''))"

section \<open>Memory context\<close>

record memory_hint =
  mh_id :: string
  mh_hint :: string

record hint_selection =
  hs_hints :: "string list"
  hs_ids :: "string list"
  hs_availableHintBytes :: js_number
  hs_usedHintBytes :: nat
  hs_dedupedCount :: nat
  hs_droppedForBudget :: nat

definition hintSnippets :: "string list \<Rightarrow> string" where
  "hintSnippets hints = joinWith newline (map (\<lambda>h. ''- '' @ h) hints)"

definition idsComment :: "string list \<Rightarrow> string" where
  "idsComment ids = (if ids = [] then '''' else newline @ ''<!-- surfaced-memory-ids: '' @ joinWith '','' ids @ '' -->'')"

definition memoryFeedbackInstruction :: "guidance_files \<Rightarrow> connector_transport \<Rightarrow> lcm_error + string" where
  "memoryFeedbackInstruction files transport =
     mapE (\<lambda>t. fenceContent t ''memory-feedback'') (renderFeedback files transport [''reserved''])"

definition buildMemoryFeedbackInstruction :: "guidance_files \<Rightarrow> string list \<Rightarrow> connector_transport \<Rightarrow>
    lcm_error + string option" where
  "buildMemoryFeedbackInstruction files ids transport = (if ids = [] then Inr None else
     mapE (\<lambda>t. Some (fenceContent t ''memory-feedback'')) (renderFeedback files transport ids))"

definition buildMemoryContext :: "guidance_files \<Rightarrow> string list \<Rightarrow> string list \<Rightarrow> lcm_error + string option" where
  "buildMemoryContext files hints ids = (if hints = [] then Inr None else
     mapE (\<lambda>t. Some (fenceContent t ''memory-context'')) (renderMemoryContext files Mcp (hintSnippets hints @ idsComment ids) []))"

definition buildMemoryContextWithFeedback :: "guidance_files \<Rightarrow> string list \<Rightarrow> string list \<Rightarrow> connector_transport \<Rightarrow>
    lcm_error + string option" where
  "buildMemoryContextWithFeedback files hints ids transport = (if hints = [] then Inr None else
     bindE (renderMemoryContext files transport (hintSnippets hints @ idsComment ids) []) (\<lambda>ctxt.
     bindE (if ids = [] then Inr '''' else mapE (\<lambda>t. newline @ t) (memoryFeedbackInstruction files transport)) (\<lambda>feedback.
       Inr (Some (fenceContent (ctxt @ feedback) ''memory-context'')))))"

section \<open>Selection\<close>

text \<open>\<open>replace(/\s+/g, " ")\<close>\<close>

fun collapseSpaces :: "bool \<Rightarrow> string \<Rightarrow> string" where
  "collapseSpaces inSpace [] = []"
| "collapseSpaces inSpace (c # cs) = (if isWhitespace c
     then (if inSpace then [] else [CHR '' '']) @ collapseSpaces True cs else c # collapseSpaces False cs)"

definition normalizeHint :: "string \<Rightarrow> string" where
  "normalizeHint hint = toLowerCase (collapseSpaces False (trim hint))"

definition isNearDuplicate :: "string \<Rightarrow> string \<Rightarrow> js_number \<Rightarrow> bool" where
  "isNearDuplicate candidate existing minPrefix = (candidate = existing \<or>
     (let prefix = js_max (Num 1) minPrefix in sliceTo prefix candidate = sliceTo prefix existing))"

definition ellipsis :: string where
  "ellipsis = ''...''"

definition trimTrailingEllipsis :: "string \<Rightarrow> string" where
  "trimTrailingEllipsis hint = (if 3 \<le> length hint \<and> drop (length hint - 3) hint = ellipsis
     then trimEnd (take (length hint - 3) hint) else hint)"

text \<open>Whether the block of the selected hints and one more is within the budget.\<close>

definition blockFits :: "guidance_files \<Rightarrow> js_number \<Rightarrow> memory_hint list \<Rightarrow> string \<Rightarrow> string \<Rightarrow> lcm_error + bool" where
  "blockFits files available selected hint i =
     mapE (\<lambda>block. case block of None \<Rightarrow> False | Some b \<Rightarrow> b \<noteq> [] \<and> js_leq (js_nat (utf8Length b)) available)
       (buildMemoryContext files (map mh_hint selected @ [hint]) (map mh_id selected @ [i]))"

definition truncatedHint :: "string \<Rightarrow> nat \<Rightarrow> string" where
  "truncatedHint base k = trimEnd (take k base) @ ellipsis"

function searchPrefix :: "(string \<Rightarrow> lcm_error + bool) \<Rightarrow> string \<Rightarrow> int \<Rightarrow> int \<Rightarrow> string option \<Rightarrow> lcm_error + string option" where
  "searchPrefix fits base lo hi bestFit = (if lo \<le> hi then
       (let mid = (lo + hi) div 2; truncated = truncatedHint base (nat (mid + 1)) in
        bindE (fits truncated) (\<lambda>ok.
          if ok then searchPrefix fits base (mid + 1) hi (Some truncated) else searchPrefix fits base lo (mid - 1) bestFit))
     else Inr bestFit)"
  by pat_completeness auto
termination by (relation "measure (\<lambda>(fits, base, lo, hi, bestFit). nat (hi - lo + 1))") auto

declare searchPrefix.simps [simp del]

definition fitHintWithinBudget :: "guidance_files \<Rightarrow> memory_hint list \<Rightarrow> memory_hint \<Rightarrow> js_number \<Rightarrow> lcm_error + string option" where
  "fitHintWithinBudget files selected candidate available =
     bindE (blockFits files available selected (mh_hint candidate) (mh_id candidate)) (\<lambda>fits.
     if fits then Inr (Some (mh_hint candidate))
     else let base = trimTrailingEllipsis (mh_hint candidate) in
       searchPrefix (\<lambda>t. blockFits files available selected t (mh_id candidate)) base 0 (int (length base) - 1) None)"

record hint_options =
  ho_totalByteBudget :: js_number
  ho_reservedForLearningInstruction :: js_number
  ho_learningInstructionBytes :: js_number
  ho_maxEmitted :: js_number
  ho_dedupMinPrefix :: js_number

text \<open>The first loop: the normalized hints seen, the candidates kept, the number of near duplicates.\<close>

fun dedupeHints :: "js_number \<Rightarrow> string list \<Rightarrow> memory_hint list \<Rightarrow> nat \<Rightarrow> memory_hint list \<Rightarrow> memory_hint list \<times> nat" where
  "dedupeHints minPrefix seen deduped dups [] = (deduped, dups)"
| "dedupeHints minPrefix seen deduped dups (c # cs) =
     (let trimmedHint = trim (mh_hint c); norm = normalizeHint trimmedHint in
      if trimmedHint = [] then dedupeHints minPrefix seen deduped dups cs
      else if list_ex (\<lambda>existing. isNearDuplicate norm existing minPrefix) seen
        then dedupeHints minPrefix seen deduped (Suc dups) cs
      else dedupeHints minPrefix (seen @ [norm]) (deduped @ [c\<lparr>mh_hint := trimmedHint\<rparr>]) dups cs)"

text \<open>The second loop: what is emitted, the number of hints dropped.\<close>

fun emitHints :: "guidance_files \<Rightarrow> js_number \<Rightarrow> js_number \<Rightarrow> memory_hint list \<Rightarrow> nat \<Rightarrow> memory_hint list \<Rightarrow>
    lcm_error + (memory_hint list \<times> nat)" where
  "emitHints files available maxEmitted emitted dropped [] = Inr (emitted, dropped)"
| "emitHints files available maxEmitted emitted dropped (c # cs) =
     (if js_leq maxEmitted (js_nat (length emitted)) then emitHints files available maxEmitted emitted (Suc dropped) cs
      else bindE (fitHintWithinBudget files emitted c available) (\<lambda>fitted. case fitted of
          None \<Rightarrow> emitHints files available maxEmitted emitted (Suc dropped) cs
        | Some h \<Rightarrow> if h = [] then emitHints files available maxEmitted emitted (Suc dropped) cs
            else emitHints files available maxEmitted (emitted @ [c\<lparr>mh_hint := h\<rparr>]) dropped cs))"

definition availableBytes :: "hint_options \<Rightarrow> js_number" where
  "availableBytes options =
     (let reserve = js_max (js_max (Num 0) (js_floor (ho_reservedForLearningInstruction options)))
            (js_floor (ho_learningInstructionBytes options))
      in js_max (Num 0) (js_minus (js_floor (ho_totalByteBudget options)) reserve))"

definition selectMemoryHintsWithinBudget :: "guidance_files \<Rightarrow> memory_hint list \<Rightarrow> hint_options \<Rightarrow> lcm_error + hint_selection" where
  "selectMemoryHintsWithinBudget files candidates options =
     (let available = availableBytes options; maxEmitted = js_max (Num 0) (js_floor (ho_maxEmitted options));
          (deduped, dedupedCount) = dedupeHints (ho_dedupMinPrefix options) [] [] 0 candidates in
      bindE (emitHints files available maxEmitted [] 0 deduped) (\<lambda>(emitted, droppedForBudget).
        let hints = map mh_hint emitted; ids = map mh_id emitted in
        mapE (\<lambda>block. \<lparr>hs_hints = hints, hs_ids = ids, hs_availableHintBytes = available,
            hs_usedHintBytes = (case block of None \<Rightarrow> 0 | Some b \<Rightarrow> utf8Length b),
            hs_dedupedCount = dedupedCount, hs_droppedForBudget = droppedForBudget\<rparr>)
          (buildMemoryContext files hints ids)))"

end
