(* ===== verification/Promoted_Facts.thy ===== *)
theory Promoted_Facts
  imports Promotion Repository_Facts
begin

text \<open>
  What the promoted memory keeps: the full-text index mirrors the active memories through any
  sequence of calls, a failed operation included; a search does not depend on how a tag filter is
  applied; a matching term of the fallback is a word of the text; stored metadata is a normal form.
\<close>

section \<open>The savepoint\<close>

text \<open>What an operation in a savepoint does not touch.\<close>

definition frame :: "world \<Rightarrow> world" where
  "frame w = (outside w)\<lparr>w_saved := [], w_execs := 0\<rparr>"

lemma frame_outside: "outside w' = outside w \<Longrightarrow> frame w' = frame w \<and> w_saved w' = w_saved w"
  by (auto simp: frame_def dest: outside_fields)

lemma frame_exec: "frame (w\<lparr>w_db := d, w_saved := ss, w_execs := n\<rparr>) = frame w" "frame (w\<lparr>w_execs := n\<rparr>) = frame w"
  "frame (w\<lparr>w_execs := n, w_db := d, w_saved := ss\<rparr>) = frame w"
  "frame (w\<lparr>w_execs := n, w_saved := ss\<rparr>) = frame w"
  by (simp_all add: frame_def outside_def)

lemma frame_fields:
  assumes "frame w' = frame w"
  shows "w_poisoned w' = w_poisoned w" "w_ctx w' = w_ctx w" "w_atomic w' = w_atomic w" "w_activeTokens w' = w_activeTokens w"
    "w_failedTokens w' = w_failedTokens w"
  using arg_cong [OF assms, of w_poisoned] arg_cong [OF assms, of w_ctx] arg_cong [OF assms, of w_atomic]
    arg_cong [OF assms, of w_activeTokens] arg_cong [OF assms, of w_failedTokens]
  by (simp_all add: frame_def outside_def)

text \<open>
  The rule of \<open>withFtsSavepoint\<close>: a failure either undoes the operation or, when the driver refuses to
  roll back or to release, leaves the savepoint open over the old database.
\<close>

definition left_open :: "world \<Rightarrow> (string \<times> database) list \<Rightarrow> database \<Rightarrow> world \<Rightarrow> bool" where
  "left_open F ss d w \<longleftrightarrow> frame w = F \<and> (w_saved w = ss \<and> w_db w = d \<or> w_saved w = (FTS_SYNC, d) # ss)"

theorem triple_ftsSavepoint:
  assumes "effect P m Q"
  shows "triple (\<lambda>w. frame w = F \<and> w_saved w = ss \<and> w_db w = d \<and> P d) (withFtsSavepoint m)
    (\<lambda>a w. frame w = F \<and> w_saved w = ss \<and> Q a (w_db w)) (left_open F ss d)"
proof -
  let ?I = "\<lambda>w. frame w = F \<and> w_saved w = (FTS_SYNC, d) # ss"
  have open_: "triple (\<lambda>w. frame w = F \<and> w_saved w = ss \<and> w_db w = d \<and> P d) (sql_exec (Savepoint FTS_SYNC))
      (\<lambda>_ w. ?I w \<and> P (w_db w)) (left_open F ss d)"
    by (rule tripleI) (auto simp: sql_exec_def Let_def left_open_def frame_exec split: if_splits)
  have body: "triple (\<lambda>w. ?I w \<and> P (w_db w)) m (\<lambda>a w. ?I w \<and> Q a (w_db w)) ?I"
    by (rule triple_of_effect [OF assms]) (auto dest: frame_outside)
  have release: "triple (\<lambda>w. ?I w \<and> Q a (w_db w)) (sql_exec (Release FTS_SYNC))
      (\<lambda>_ w. frame w = F \<and> w_saved w = ss \<and> Q a (w_db w)) ?I" for a
    by (rule tripleI) (auto simp: sql_exec_def Let_def frame_exec split: if_splits)
  have undo: "triple ?I (sql_exec (RollbackTo FTS_SYNC)) (\<lambda>_ w. ?I w \<and> w_db w = d) (left_open F ss d)"
    by (rule tripleI) (auto simp: sql_exec_def Let_def left_open_def frame_exec split: if_splits)
  have close_: "triple (\<lambda>w. ?I w \<and> w_db w = d) (sql_exec (Release FTS_SYNC)) (\<lambda>_. left_open F ss d) (left_open F ss d)"
    by (rule tripleI) (auto simp: sql_exec_def Let_def left_open_def frame_exec split: if_splits)
  show ?thesis
    unfolding withFtsSavepoint_def
    by (rule triple_bind [OF open_], rule triple_catch, rule triple_bind [OF body], rule triple_bind [OF release],
        rule triple_ret, simp, rule triple_bind [OF undo], rule triple_bind [OF close_], rule triple_throw)
qed

section \<open>The index mirrors the active memories\<close>

definition entryOf :: "promoted_row \<Rightarrow> nat \<times> string \<times> string list" where
  "entryOf r = (prom_rowid r, prom_content r, prom_tags r)"

definition mirror :: "database \<Rightarrow> bool" where
  "mirror d \<longleftrightarrow> distinct (map prom_id (promoted d)) \<and> distinct (map prom_rowid (promoted d))
     \<and> distinct (map fst (promoted_fts d)) \<and> set (promoted_fts d) \<subseteq> entryOf ` set (promoted d)
     \<and> (\<forall>r \<in> set (promoted d). prom_archivedAt r = None \<longrightarrow> entryOf r \<in> set (promoted_fts d))"

lemma findPromoted_Some: "findPromoted d i = Some r \<Longrightarrow> r \<in> set (promoted d) \<and> prom_id r = i"
  unfolding findPromoted_def by (rule find_Some_mem)

lemma findPromoted_None: "findPromoted d i = None \<longleftrightarrow> i \<notin> prom_id ` set (promoted d)"
  by (auto simp: findPromoted_def find_None_iff)

lemma rowid_bound: "r \<in> set (promoted d) \<Longrightarrow> prom_rowid r < nextPromotedRowid d"
proof -
  have "x \<in> set xs \<Longrightarrow> x \<le> foldr max xs 0" for x :: nat and xs
    by (induction xs) auto
  then show "r \<in> set (promoted d) \<Longrightarrow> prom_rowid r < nextPromotedRowid d"
    by (simp add: nextPromotedRowid_def less_Suc_eq_le)
qed

lemma mirror_insert:
  assumes "mirror d" and "findPromoted d (prom_id r) = None" and "prom_rowid r = nextPromotedRowid d"
  shows "mirror (d\<lparr>promoted := promoted d @ [r], promoted_fts := promoted_fts d @ [entryOf r]\<rparr>)"
proof -
  have "prom_rowid r \<notin> prom_rowid ` set (promoted d)" using rowid_bound [of _ d] assms(3) by force
  moreover have "fst ` set (promoted_fts d) \<subseteq> prom_rowid ` set (promoted d)"
    using assms(1) by (auto simp: mirror_def entryOf_def)
  ultimately have "fst (entryOf r) \<notin> fst ` set (promoted_fts d)" by (auto simp: entryOf_def)
  with \<open>prom_rowid r \<notin> prom_rowid ` set (promoted d)\<close> assms(1,2) show ?thesis
    by (auto simp: mirror_def findPromoted_None)
qed

lemma distinct_map_change:
  "(\<And>x. f (g x) = f x) \<Longrightarrow> map f (map (\<lambda>x. if P x then g x else x) xs) = map f xs"
  by simp

definition changed :: "(promoted_row \<Rightarrow> promoted_row) \<Rightarrow> bool" where
  "changed f \<longleftrightarrow> (\<forall>r. prom_id (f r) = prom_id r \<and> prom_rowid (f r) = prom_rowid r)"

lemma mirror_change:
  assumes "mirror d" and "changed f" and "r \<in> set (promoted d)"
    and "keep = [] \<and> prom_archivedAt (f r) \<noteq> None \<or> keep = [entryOf (f r)]"
  shows "mirror (mapPromoted f (prom_id r) d\<lparr>promoted_fts :=
      filter (\<lambda>(k, _). k \<noteq> prom_rowid r) (promoted_fts d) @ keep\<rparr>)"
proof -
  let ?g = "\<lambda>x. if prom_id x = prom_id r then f x else x"
  have ids: "map prom_id (map ?g (promoted d)) = map prom_id (promoted d)"
    and rowids: "map prom_rowid (map ?g (promoted d)) = map prom_rowid (promoted d)"
    using assms(2) by (simp_all add: changed_def)
  have same: "x = r" if "x \<in> set (promoted d)" "prom_id x = prom_id r \<or> prom_rowid x = prom_rowid r" for x
    using assms(1,3) that by (auto simp: mirror_def distinct_map dest: inj_onD)
  have entry: "fst (entryOf (f r)) = prom_rowid r" using assms(2) by (simp add: entryOf_def changed_def)
  have d3: "distinct (map fst (filter (\<lambda>(k, _). k \<noteq> prom_rowid r) (promoted_fts d) @ keep))"
  proof -
    have "distinct (map fst (filter (\<lambda>(k, _). k \<noteq> prom_rowid r) (promoted_fts d)))"
      using assms(1) by (auto simp: mirror_def intro: distinct_map_filter)
    moreover have "prom_rowid r \<notin> fst ` set (filter (\<lambda>(k, _). k \<noteq> prom_rowid r) (promoted_fts d))" by auto
    moreover have "map fst keep = [] \<or> map fst keep = [prom_rowid r]" using assms(4) entry by auto
    ultimately show ?thesis unfolding map_append distinct_append set_map [symmetric] by auto
  qed
  have rest: "e \<in> entryOf ` set (map ?g (promoted d))"
    if e: "e \<in> set (filter (\<lambda>(k, _). k \<noteq> prom_rowid r) (promoted_fts d))" for e
  proof -
    obtain x where x: "x \<in> set (promoted d)" "e = entryOf x" using assms(1) e by (auto simp: mirror_def)
    then have "prom_rowid x \<noteq> prom_rowid r" using e by (auto simp: entryOf_def)
    then have g: "?g x = x" using same [OF x(1)] by auto
    have "?g x \<in> set (map ?g (promoted d))" unfolding set_map using x(1) by (rule imageI)
    then show ?thesis unfolding g x(2) by (rule imageI)
  qed
  have new: "entryOf (f r) \<in> entryOf ` set (map ?g (promoted d))" using assms(3) by force
  have active: "entryOf y \<in> set (filter (\<lambda>(k, _). k \<noteq> prom_rowid r) (promoted_fts d) @ keep)"
    if y: "y \<in> set (map ?g (promoted d))" "prom_archivedAt y = None" for y
  proof -
    obtain x where x: "x \<in> set (promoted d)" "y = ?g x" using y(1) by auto
    show ?thesis
    proof (cases "x = r")
      case True
      then show ?thesis using x y assms(4) by auto
    next
      case False
      then have "y = x" and "prom_rowid x \<noteq> prom_rowid r" using x same [OF x(1)] by auto
      then show ?thesis using x y(2) assms(1) by (auto simp: mirror_def entryOf_def)
    qed
  qed
  let ?new = "mapPromoted f (prom_id r) d\<lparr>promoted_fts :=
      filter (\<lambda>(k, _). k \<noteq> prom_rowid r) (promoted_fts d) @ keep\<rparr>"
  have rows: "promoted ?new = map ?g (promoted d)"
      "promoted_fts ?new = filter (\<lambda>(k, _). k \<noteq> prom_rowid r) (promoted_fts d) @ keep"
    by (simp_all add: mapPromoted_def)
  have "set (promoted_fts ?new) \<subseteq> entryOf ` set (promoted ?new)"
    unfolding rows set_append using rest new assms(4) by (auto simp only: list.set)
  moreover have "\<forall>y \<in> set (promoted ?new). prom_archivedAt y = None \<longrightarrow> entryOf y \<in> set (promoted_fts ?new)"
    unfolding rows using active by blast
  ultimately show ?thesis
    using assms(1) ids rowids d3 unfolding mirror_def rows by argo
qed

lemma mirror_keep:
  assumes "mirror d" and "changed f" and "\<And>r. entryOf (f r) = entryOf r" and "\<And>r. prom_archivedAt (f r) = prom_archivedAt r"
  shows "mirror (mapPromoted f i d)"
proof -
  let ?g = "\<lambda>x. if prom_id x = i then f x else x"
  have ids: "map prom_id (map ?g (promoted d)) = map prom_id (promoted d)"
    and rowids: "map prom_rowid (map ?g (promoted d)) = map prom_rowid (promoted d)"
    and same: "map entryOf (map ?g (promoted d)) = map entryOf (promoted d)"
    using assms(2,3) by (simp_all add: changed_def)
  have entries: "entryOf ` set (map ?g (promoted d)) = entryOf ` set (promoted d)"
    using arg_cong [OF same, of set] unfolding set_map .
  have "\<forall>x \<in> set (promoted d). prom_archivedAt (?g x) = None \<longrightarrow> entryOf (?g x) \<in> set (promoted_fts d)"
    using assms(1,3,4) by (simp add: mirror_def)
  then have "\<forall>y \<in> set (map ?g (promoted d)). prom_archivedAt y = None \<longrightarrow> entryOf y \<in> set (promoted_fts d)"
    by (simp only: set_map ball_simps)
  moreover have rows: "promoted (mapPromoted f i d) = map ?g (promoted d)" "promoted_fts (mapPromoted f i d) = promoted_fts d"
    by (simp_all add: mapPromoted_def)
  ultimately show ?thesis
    using assms(1) unfolding mirror_def rows ids rowids entries by blast
qed

lemma mirror_delete:
  assumes "mirror d" and "r \<in> set (promoted d)"
  shows "mirror (d\<lparr>promoted := filter (\<lambda>x. prom_id x \<noteq> prom_id r) (promoted d),
     promoted_fts := filter (\<lambda>(k, _). k \<noteq> prom_rowid r) (promoted_fts d)\<rparr>)"
proof -
  have same: "x = r" if "x \<in> set (promoted d)" "prom_id x = prom_id r \<or> prom_rowid x = prom_rowid r" for x
    using assms that by (auto simp: mirror_def distinct_map dest: inj_onD)
  have "distinct (map fst (filter (\<lambda>(k, _). k \<noteq> prom_rowid r) (promoted_fts d)))"
    using assms(1) by (auto simp: mirror_def intro: distinct_map_filter)
  moreover have "e \<in> entryOf ` set (filter (\<lambda>x. prom_id x \<noteq> prom_id r) (promoted d))"
    if e: "e \<in> set (filter (\<lambda>(k, _). k \<noteq> prom_rowid r) (promoted_fts d))" for e
  proof -
    obtain x where x: "x \<in> set (promoted d)" "e = entryOf x" using assms(1) e by (auto simp: mirror_def)
    then have "prom_rowid x \<noteq> prom_rowid r" using e by (auto simp: entryOf_def)
    then have "prom_id x \<noteq> prom_id r" using same [OF x(1)] by auto
    then show ?thesis using x by auto
  qed
  moreover have "entryOf x \<in> set (filter (\<lambda>(k, _). k \<noteq> prom_rowid r) (promoted_fts d))"
    if "x \<in> set (promoted d)" "prom_id x \<noteq> prom_id r" "prom_archivedAt x = None" for x
  proof -
    have "prom_rowid x \<noteq> prom_rowid r" using same [OF that(1)] that(2) by auto
    then show ?thesis using that assms(1) by (auto simp: mirror_def entryOf_def)
  qed
  ultimately show ?thesis
    using assms(1) unfolding mirror_def by (auto intro: distinct_map_filter)
qed

section \<open>Operations that succeed or change nothing\<close>

text \<open>
  \<open>atomic_op m Q\<close>: \<open>m\<close> returns with a database that \<open>Q\<close> relates to the old one, or fails as
  \<open>triple_ftsSavepoint\<close> says; the rest of the world is as before.
\<close>

definition atomic_op :: "(world, 'a) op \<Rightarrow> (database \<Rightarrow> 'a \<Rightarrow> database \<Rightarrow> bool) \<Rightarrow> bool" where
  "atomic_op m Q \<longleftrightarrow> (\<forall>F ss d. triple (\<lambda>w. frame w = F \<and> w_saved w = ss \<and> w_db w = d) m
     (\<lambda>a w. frame w = F \<and> w_saved w = ss \<and> Q d a (w_db w)) (left_open F ss d))"

named_theorems quiet_rules \<open>operations that change neither the database nor the executor\<close>

definition quiet :: "(world, 'a) op \<Rightarrow> bool" where
  "quiet m \<longleftrightarrow> local_op m \<and> silent m"

lemma quiet_basic [quiet_rules]:
  "quiet (ret a)" "quiet (throw e)" "quiet (getDb f)" "quiet sqlNow" "quiet randomUUID" "quiet (liftE r)" "quiet dateNow"
  by (simp_all add: quiet_def local_rules silent_rules) (simp add: silent_def dateNow_def)

lemma quiet_bind [quiet_rules]: "quiet m \<Longrightarrow> (\<And>a. quiet (k a)) \<Longrightarrow> quiet (bindM m k)"
  unfolding quiet_def by (intro conjI local_bind silent_bind; blast)

lemma quiet_if [quiet_rules]: "quiet m \<Longrightarrow> quiet n \<Longrightarrow> quiet (if c then m else n)"
  by simp

lemma quiet_mapM [quiet_rules]: "(\<And>x. quiet (f x)) \<Longrightarrow> quiet (mapM f xs)"
  by (induction xs) (auto intro: quiet_rules)

lemma quietD: "quiet m \<Longrightarrow> m w = (r, w') \<Longrightarrow> frame w' = frame w \<and> w_saved w' = w_saved w \<and> w_db w' = w_db w"
  unfolding quiet_def using frame_outside local_opD by (metis silent_def snd_conv)

lemma atomic_conseq: "atomic_op m Q' \<Longrightarrow> (\<And>d a x. Q' d a x \<Longrightarrow> Q d a x) \<Longrightarrow> atomic_op m Q"
  unfolding atomic_op_def by (blast intro: triple_post)

lemma atomic_savepoint: "(\<And>d. effect (\<lambda>x. x = d) m (Q d)) \<Longrightarrow> atomic_op (withFtsSavepoint m) Q"
  unfolding atomic_op_def
proof (intro allI)
  fix F ss d
  assume "\<And>d. effect (\<lambda>x. x = d) m (Q d)"
  then have "effect (\<lambda>x. x = d) m (Q d)" .
  from triple_ftsSavepoint [OF this, of F ss d]
  show "triple (\<lambda>w. frame w = F \<and> w_saved w = ss \<and> w_db w = d) (withFtsSavepoint m)
     (\<lambda>a w. frame w = F \<and> w_saved w = ss \<and> Q d a (w_db w)) (left_open F ss d)" by simp
qed

lemma atomic_quiet:
  assumes "quiet m" and "\<And>w a w'. m w = (Inr a, w') \<Longrightarrow> Q (w_db w) a (w_db w)"
  shows "atomic_op m Q"
  unfolding atomic_op_def
proof (intro allI tripleI)
  fix F ss d w a w' assume "frame w = F \<and> w_saved w = ss \<and> w_db w = d" and "m w = (Inr a, w')"
  then show "frame w' = F \<and> w_saved w' = ss \<and> Q d a (w_db w')" using quietD [OF assms(1)] assms(2) by metis
next
  fix F ss d w e w' assume "frame w = F \<and> w_saved w = ss \<and> w_db w = d" and "m w = (Inl e, w')"
  then show "left_open F ss d w'" using quietD [OF assms(1)] by (auto simp: left_open_def)
qed

lemma atomic_after:
  assumes "quiet m" and "\<And>a. atomic_op (k a) (\<lambda>d b x. (\<exists>w w'. w_db w = d \<and> m w = (Inr a, w')) \<longrightarrow> Q d b x)"
  shows "atomic_op (bindM m k) Q"
  unfolding atomic_op_def
proof (intro allI)
  fix F ss d
  let ?I = "\<lambda>w. frame w = F \<and> w_saved w = ss \<and> w_db w = d"
  let ?R = "\<lambda>a. \<exists>w w'. w_db w = d \<and> m w = (Inr a, w')"
  have "triple (\<lambda>w. ?I w \<and> ?R a) (k a) (\<lambda>b w. frame w = F \<and> w_saved w = ss \<and> Q d b (w_db w)) (left_open F ss d)" for a
  proof (cases "?R a")
    case True
    have "triple ?I (k a) (\<lambda>b w. frame w = F \<and> w_saved w = ss \<and> (?R a \<longrightarrow> Q d b (w_db w))) (left_open F ss d)"
      using assms(2) unfolding atomic_op_def by blast
    then show ?thesis by (rule triple_conseq) (use True in auto)
  next
    case False
    then show ?thesis unfolding triple_def by blast
  qed
  moreover have "triple ?I m (\<lambda>a w. ?I w \<and> ?R a) (left_open F ss d)"
    by (rule tripleI) (auto dest: quietD [OF assms(1)] simp: left_open_def)
  ultimately show "triple ?I (bindM m k) (\<lambda>b w. frame w = F \<and> w_saved w = ss \<and> Q d b (w_db w)) (left_open F ss d)"
    using triple_bind by blast
qed

lemma atomic_after_any: "quiet m \<Longrightarrow> (\<And>a. atomic_op (k a) Q) \<Longrightarrow> atomic_op (bindM m k) Q"
  by (rule atomic_after, assumption, rule atomic_conseq, assumption) simp

lemma atomic_then:
  assumes "atomic_op m Q"
  shows "atomic_op (bindM m (\<lambda>_. ret b)) (\<lambda>d c x. c = b \<and> (\<exists>a. Q d a x))"
  unfolding atomic_op_def
proof (intro allI)
  fix F ss d
  have m: "triple (\<lambda>w. frame w = F \<and> w_saved w = ss \<and> w_db w = d) m
     (\<lambda>a w. frame w = F \<and> w_saved w = ss \<and> Q d a (w_db w)) (left_open F ss d)"
    using assms unfolding atomic_op_def by blast
  show "triple (\<lambda>w. frame w = F \<and> w_saved w = ss \<and> w_db w = d) (bindM m (\<lambda>_. ret b))
     (\<lambda>c w. frame w = F \<and> w_saved w = ss \<and> c = b \<and> (\<exists>a. Q d a (w_db w))) (left_open F ss d)"
    by (rule triple_bind [OF m], rule triple_ret) blast
qed

section \<open>What each operation writes\<close>

definition insertedRow :: "string \<Rightarrow> insert_params \<Rightarrow> json \<Rightarrow> int \<Rightarrow> nat \<Rightarrow> promoted_row" where
  "insertedRow i params metadata now rowid = \<lparr>prom_rowid = rowid, prom_id = i, prom_content = ip_content params,
     prom_tags = (case ip_tags params of Some ts \<Rightarrow> ts | None \<Rightarrow> []), prom_metadata = metadata,
     prom_sourceSummaryId = ip_sourceSummaryId params, prom_projectId = ip_projectId params,
     prom_sessionId = ip_sessionId params, prom_depth = (case ip_depth params of Some n \<Rightarrow> n | None \<Rightarrow> 0),
     prom_confidence = (case ip_confidence params of Some x \<Rightarrow> x | None \<Rightarrow> 1), prom_createdAt = now, prom_archivedAt = None\<rparr>"

definition addedRow :: "promoted_row \<Rightarrow> database \<Rightarrow> database" where
  "addedRow r d = d\<lparr>promoted := promoted d @ [r], promoted_fts := promoted_fts d @ [entryOf r]\<rparr>"

definition rewritten :: "string \<Rightarrow> promoted_row \<Rightarrow> (promoted_row \<Rightarrow> promoted_row) \<Rightarrow> bool \<Rightarrow> database \<Rightarrow> database" where
  "rewritten i r f keep d = mapPromoted f i d\<lparr>promoted_fts :=
     filter (\<lambda>(k, _). k \<noteq> prom_rowid r) (promoted_fts d) @ (if keep then [entryOf (f r)] else [])\<rparr>"

lemma find_append_None: "List.find P xs = None \<Longrightarrow> List.find P (xs @ ys) = List.find P ys"
  by (induction xs) auto

lemma find_append_new: "findPromoted d i = None \<Longrightarrow> prom_id r = i \<Longrightarrow> List.find (\<lambda>r. prom_id r = i) (promoted d @ [r]) = Some r"
  by (simp add: findPromoted_def find_append_None)

definition insertRel :: "insert_params \<Rightarrow> database \<Rightarrow> string \<Rightarrow> database \<Rightarrow> bool" where
  "insertRel params d i x \<longleftrightarrow> findPromoted d i = None \<and> nulChar \<notin> set (ip_content params)
     \<and> (\<exists>metadata now. normalizePromotedMetadata (case ip_metadata params of Some m \<Rightarrow> m | None \<Rightarrow> JObj []) = Inr metadata
          \<and> x = addedRow (insertedRow i params metadata now (nextPromotedRowid d)) d)"

lemma effect_insertBody:
  "effect (\<lambda>x. x = d) (bindM (insertPromotedRow i params metadata) (\<lambda>_.
       bindM (getDb (\<lambda>d. findPromoted d i)) (\<lambda>row. case row of
         None \<Rightarrow> throw (CallerError ''inserted promoted row is unavailable'')
       | Some r \<Rightarrow> ftsInsert opts (prom_rowid r) (ip_content params)
           (case ip_tags params of Some ts \<Rightarrow> ts | None \<Rightarrow> []))))
     (\<lambda>_ x. findPromoted d i = None \<and> (\<exists>now. x = addedRow (insertedRow i params metadata now (nextPromotedRowid d)) d))"
proof (rule effectI)
  show "local_op (bindM (insertPromotedRow i params metadata) (\<lambda>_.
       bindM (getDb (\<lambda>d. findPromoted d i)) (\<lambda>row. case row of
         None \<Rightarrow> throw (CallerError ''inserted promoted row is unavailable'')
       | Some r \<Rightarrow> ftsInsert opts (prom_rowid r) (ip_content params)
           (case ip_tags params of Some ts \<Rightarrow> ts | None \<Rightarrow> []))))"
    unfolding insertPromotedRow_def ftsInsert_def sqlWrite_def
    by (auto intro!: local_rules split: option.split)
qed (auto simp: insertPromotedRow_def ftsInsert_def sqlWrite_def bindM_def getDb_def setDb_def sqlNow_def op_apply
    addedRow_def insertedRow_def entryOf_def findPromoted_def find_append_new [unfolded findPromoted_def]
    split: if_splits option.splits prod.splits sum.splits)

lemma atomic_insert:
  assumes "fts5Available opts"
  shows "atomic_op (insertPromoted opts params) (insertRel params)"
proof (cases "nulChar \<in> set (ip_content params)")
  case True
  then show ?thesis
    unfolding insertPromoted_def by (simp, intro atomic_quiet quiet_rules) (simp add: op_apply)
next
  case False
  let ?metadata = "case ip_metadata params of Some m \<Rightarrow> m | None \<Rightarrow> JObj []"
  let ?store = "\<lambda>i metadata. withFtsSavepoint (bindM (insertPromotedRow i params metadata) (\<lambda>_.
       bindM (getDb (\<lambda>d. findPromoted d i)) (\<lambda>row. case row of
         None \<Rightarrow> throw (CallerError ''inserted promoted row is unavailable'')
       | Some r \<Rightarrow> ftsInsert opts (prom_rowid r) (ip_content params)
           (case ip_tags params of Some ts \<Rightarrow> ts | None \<Rightarrow> []))))"
  have stored: "atomic_op (bindM (?store i metadata) (\<lambda>_. ret i)) (\<lambda>d c x. (\<exists>w w'. w_db w = d
      \<and> liftE (normalizePromotedMetadata ?metadata) w = (Inr metadata, w')) \<longrightarrow> insertRel params d c x)" for i metadata
    by (rule atomic_conseq [OF atomic_then [OF atomic_savepoint [OF effect_insertBody]]])
      (use False in \<open>auto simp: insertRel_def liftE_def op_apply split: sum.splits\<close>)
  show ?thesis
    unfolding insertPromoted_def using False assms
    by (simp, intro atomic_after_any [OF quiet_basic(5)] atomic_after [OF quiet_basic(6)] stored)
qed

definition archiveRel :: "string \<Rightarrow> database \<Rightarrow> unit \<Rightarrow> database \<Rightarrow> bool" where
  "archiveRel i d u x \<longleftrightarrow> (case findPromoted d i of None \<Rightarrow> x = d
     | Some r \<Rightarrow> \<exists>now. x = rewritten i r (\<lambda>r. r\<lparr>prom_archivedAt := Some now\<rparr>) False d)"

definition deleteRel :: "string \<Rightarrow> database \<Rightarrow> unit \<Rightarrow> database \<Rightarrow> bool" where
  "deleteRel i d u x \<longleftrightarrow> (case findPromoted d i of None \<Rightarrow> x = d
     | Some r \<Rightarrow> x = d\<lparr>promoted := filter (\<lambda>y. prom_id y \<noteq> i) (promoted d),
         promoted_fts := filter (\<lambda>(k, _). k \<noteq> prom_rowid r) (promoted_fts d)\<rparr>)"

definition reviveRel :: "string \<Rightarrow> database \<Rightarrow> unit \<Rightarrow> database \<Rightarrow> bool" where
  "reviveRel i d u x \<longleftrightarrow> (case findPromoted d i of None \<Rightarrow> x = d
     | Some r \<Rightarrow> x = rewritten i r (\<lambda>r. r\<lparr>prom_archivedAt := None\<rparr>) True d)"

definition applyChanges :: "update_fields \<Rightarrow> json option \<Rightarrow> promoted_row \<Rightarrow> promoted_row" where
  "applyChanges changes metadata r = r\<lparr>
     prom_content := (case uf_content changes of Some c \<Rightarrow> c | None \<Rightarrow> prom_content r),
     prom_confidence := (case uf_confidence changes of Some x \<Rightarrow> x | None \<Rightarrow> prom_confidence r),
     prom_tags := (case uf_tags changes of Some ts \<Rightarrow> ts | None \<Rightarrow> prom_tags r),
     prom_metadata := (case metadata of Some m \<Rightarrow> m | None \<Rightarrow> prom_metadata r)\<rparr>"

definition changedMetadata :: "update_fields \<Rightarrow> json option \<Rightarrow> bool" where
  "changedMetadata changes metadata \<longleftrightarrow> (case uf_metadata changes of None \<Rightarrow> metadata = None
     | Some m \<Rightarrow> \<exists>n. normalizePromotedMetadata m = Inr n \<and> metadata = Some n)"

definition updateRel :: "string \<Rightarrow> update_fields \<Rightarrow> database \<Rightarrow> unit \<Rightarrow> database \<Rightarrow> bool" where
  "updateRel i changes d u x \<longleftrightarrow> (case findPromoted d i of None \<Rightarrow> x = d
     | Some r \<Rightarrow> \<exists>metadata. changedMetadata changes metadata
         \<and> x = (if uf_content changes = None \<and> uf_tags changes = None then mapPromoted (applyChanges changes metadata) i d
                else rewritten i r (applyChanges changes metadata) True d))"

lemma mapPromoted_absent: "findPromoted d i = None \<Longrightarrow> mapPromoted f i d = d"
  by (cases d) (auto simp: findPromoted_None mapPromoted_def intro!: map_idI)

lemma absent_filter: "findPromoted d i = None \<Longrightarrow> d\<lparr>promoted := filter (\<lambda>r. prom_id r \<noteq> i) (promoted d)\<rparr> = d"
  by (cases d) (auto simp: findPromoted_None intro!: filter_True)

lemma mapPromoted_cong:
  "(\<And>r. r \<in> set (promoted d) \<Longrightarrow> prom_id r = i \<Longrightarrow> f r = g r) \<Longrightarrow> mapPromoted f i d = mapPromoted g i d"
  by (cases d) (auto simp: mapPromoted_def)

lemma mapPromoted_comp: "(\<And>r. prom_id (f r) = prom_id r) \<Longrightarrow> mapPromoted g i (mapPromoted f i d) = mapPromoted (\<lambda>r. g (f r)) i d"
  by (cases d) (auto simp: mapPromoted_def)

lemma mapPromoted_fts: "promoted_fts (mapPromoted f i d) = promoted_fts d"
  "mapPromoted f i (d\<lparr>promoted_fts := e\<rparr>) = (mapPromoted f i d)\<lparr>promoted_fts := e\<rparr>"
  "mapPromoted (\<lambda>r. r) i d = d"
  by (simp_all add: mapPromoted_def)

lemma atomic_archive: "fts5Available opts \<Longrightarrow> atomic_op (archivePromoted opts i) (archiveRel i)"
  unfolding archivePromoted_def Let_def
proof (simp, rule atomic_savepoint, rule effectI)
  show "local_op (bindM (getDb (\<lambda>d. findPromoted d i)) (\<lambda>row. bindM (bindM sqlNow (\<lambda>now.
      setDb (mapPromoted (\<lambda>r. r\<lparr>prom_archivedAt := Some now\<rparr>) i))) (\<lambda>_.
        case row of None \<Rightarrow> ret () | Some r \<Rightarrow> ftsDelete opts (prom_rowid r))))"
    unfolding ftsDelete_def by (auto intro!: local_rules split: option.split)
qed (auto simp: archiveRel_def rewritten_def ftsDelete_def bindM_def getDb_def setDb_def sqlNow_def op_apply mapPromoted_fts
    mapPromoted_absent split: if_splits option.splits)

lemma atomic_delete: "fts5Available opts \<Longrightarrow> atomic_op (deletePromoted opts i) (deleteRel i)"
  unfolding deletePromoted_def Let_def
proof (simp, rule atomic_savepoint, rule effectI)
  show "local_op (bindM (getDb (\<lambda>d. findPromoted d i)) (\<lambda>row.
        bindM (case row of None \<Rightarrow> ret () | Some r \<Rightarrow> ftsDelete opts (prom_rowid r)) (\<lambda>_.
          setDb (\<lambda>d. d\<lparr>promoted := filter (\<lambda>r. prom_id r \<noteq> i) (promoted d)\<rparr>))))"
    unfolding ftsDelete_def by (auto intro!: local_rules split: option.split)
qed (auto simp: deleteRel_def ftsDelete_def bindM_def getDb_def setDb_def op_apply absent_filter
    split: if_splits option.splits)

lemma atomic_revive: "fts5Available opts \<Longrightarrow> atomic_op (revivePromoted opts i) (reviveRel i)"
  unfolding revivePromoted_def Let_def
proof (rule atomic_after [OF quiet_basic(3)])
  fix row assume fts: "fts5Available opts"
  show "atomic_op (case row of None \<Rightarrow> ret () | Some r \<Rightarrow> if \<not> fts5Available opts
        then setDb (mapPromoted (\<lambda>r. r\<lparr>prom_archivedAt := None\<rparr>) i)
        else withFtsSavepoint (bindM (liftE (readPromotedContent (prom_content r))) (\<lambda>content.
           bindM (setDb (mapPromoted (\<lambda>r. r\<lparr>prom_archivedAt := None\<rparr>) i)) (\<lambda>_. bindM (ftsDelete opts (prom_rowid r)) (\<lambda>_.
             ftsInsert opts (prom_rowid r) content (prom_tags r))))))
     (\<lambda>d b x. (\<exists>w w'. w_db w = d \<and> getDb (\<lambda>d. findPromoted d i) w = (Inr row, w')) \<longrightarrow> reviveRel i d b x)"
  proof (cases row)
    case None
    then show ?thesis by (auto intro!: atomic_quiet quiet_rules simp: getDb_def reviveRel_def op_apply)
  next
    case (Some r)
    have "effect (\<lambda>x. x = d) (bindM (liftE (readPromotedContent (prom_content r))) (\<lambda>content.
        bindM (setDb (mapPromoted (\<lambda>r. r\<lparr>prom_archivedAt := None\<rparr>) i)) (\<lambda>_. bindM (ftsDelete opts (prom_rowid r)) (\<lambda>_.
          ftsInsert opts (prom_rowid r) content (prom_tags r)))))
      (\<lambda>b x. findPromoted d i = Some r \<longrightarrow> reviveRel i d b x)" for d
    proof (rule effectI)
      show "local_op (bindM (liftE (readPromotedContent (prom_content r))) (\<lambda>content.
        bindM (setDb (mapPromoted (\<lambda>r. r\<lparr>prom_archivedAt := None\<rparr>) i)) (\<lambda>_. bindM (ftsDelete opts (prom_rowid r)) (\<lambda>_.
          ftsInsert opts (prom_rowid r) content (prom_tags r)))))"
        unfolding ftsDelete_def ftsInsert_def sqlWrite_def by (auto intro!: local_rules split: option.split)
    qed (auto simp: reviveRel_def rewritten_def entryOf_def ftsDelete_def ftsInsert_def sqlWrite_def readPromotedContent_def
        bindM_def getDb_def setDb_def op_apply mapPromoted_fts split: if_splits option.splits)
    then have *: "atomic_op (withFtsSavepoint (bindM (liftE (readPromotedContent (prom_content r))) (\<lambda>content.
        bindM (setDb (mapPromoted (\<lambda>r. r\<lparr>prom_archivedAt := None\<rparr>) i)) (\<lambda>_. bindM (ftsDelete opts (prom_rowid r)) (\<lambda>_.
          ftsInsert opts (prom_rowid r) content (prom_tags r))))))
      (\<lambda>d b x. findPromoted d i = Some r \<longrightarrow> reviveRel i d b x)" by (rule atomic_savepoint)
    show ?thesis
      unfolding Some option.case if_not_P [OF iffD2 [OF not_not fts]]
      by (rule atomic_conseq [OF *]) (auto simp: getDb_def)
  qed
qed

lemma local_update [local_rules]: "local_op (updateContent opts r changes content metadata)" "local_op (updateOthers opts r changes metadata)"
  unfolding updateContent_def updateOthers_def updateTags_def replaceFts_def ftsDelete_def ftsInsert_def sqlWrite_def Let_def
  by (auto intro!: local_rules split: option.split)

lemma effect_updateContent:
  assumes "fts5Available opts" and "uf_content changes = Some content" and "changedMetadata changes metadata"
  shows "effect (\<lambda>x. x = d) (updateContent opts r changes content metadata)
     (\<lambda>u x. mirror d \<and> findPromoted d i = Some r \<longrightarrow> updateRel i changes d u x)"
proof (rule effectI [OF local_update(1)])
  fix w u w' assume d: "w_db w = d" and run: "updateContent opts r changes content metadata w = (Inr u, w')"
  show "mirror d \<and> findPromoted d i = Some r \<longrightarrow> updateRel i changes d u (w_db w')"
  proof
    assume r: "mirror d \<and> findPromoted d i = Some r"
    then have i: "prom_id r = i" and mem: "r \<in> set (promoted d)" using findPromoted_Some by auto
    have only: "y = r" if "y \<in> set (promoted d)" "prom_id y = i" for y
      using r mem i that by (auto simp: mirror_def distinct_map dest: inj_onD)
    let ?f = "\<lambda>r'. r'\<lparr>prom_content := content,
          prom_confidence := (case uf_confidence changes of Some x \<Rightarrow> x | None \<Rightarrow> prom_confidence r'),
          prom_tags := (case uf_tags changes of Some ts \<Rightarrow> ts | None \<Rightarrow> prom_tags r),
          prom_metadata := (case metadata of Some m \<Rightarrow> m | None \<Rightarrow> prom_metadata r')\<rparr>"
    have same: "mapPromoted ?f i d = mapPromoted (applyChanges changes metadata) i d"
      by (rule mapPromoted_cong) (auto simp: applyChanges_def assms(2) dest: only split: option.split)
    have "w_db w' = (mapPromoted ?f i d)\<lparr>promoted_fts := filter (\<lambda>(k, _). k \<noteq> prom_rowid r) (promoted_fts d)
        @ [(prom_rowid r, content, case uf_tags changes of Some ts \<Rightarrow> ts | None \<Rightarrow> prom_tags r)]\<rparr>"
      using run assms(1) by (auto simp: updateContent_def replaceFts_def ftsDelete_def ftsInsert_def sqlWrite_def
          bindM_def getDb_def setDb_def op_apply mapPromoted_fts i d Let_def split: if_splits)
    also have "\<dots> = rewritten i r (applyChanges changes metadata) True d"
      by (simp add: same rewritten_def entryOf_def applyChanges_def assms(2) split: option.split)
    finally show "updateRel i changes d u (w_db w')"
      using r assms(2,3) by (auto simp: updateRel_def)
  qed
qed

lemma updateOthers_db:
  assumes "fts5Available opts" and "uf_content changes = None" and "updateOthers opts r changes metadata w = (Inr u, w')"
  shows "w_db w' = (let x = mapPromoted (applyChanges changes metadata) (prom_id r) (w_db w) in
     if uf_tags changes = None then x else x\<lparr>promoted_fts := filter (\<lambda>(k, _). k \<noteq> prom_rowid r) (promoted_fts (w_db w))
        @ [(prom_rowid r, prom_content r, the (uf_tags changes))]\<rparr>)"
proof -
  have one: "mapPromoted (applyChanges changes metadata) = mapPromoted (\<lambda>r. r
      \<lparr>prom_confidence := (case uf_confidence changes of Some x \<Rightarrow> x | None \<Rightarrow> prom_confidence r),
       prom_tags := (case uf_tags changes of Some ts \<Rightarrow> ts | None \<Rightarrow> prom_tags r),
       prom_metadata := (case metadata of Some m \<Rightarrow> m | None \<Rightarrow> prom_metadata r)\<rparr>)"
    unfolding applyChanges_def using assms(2) by simp
  show ?thesis
    using assms(3,1) unfolding one
    by (cases "uf_confidence changes"; cases "uf_tags changes"; cases metadata)
      (auto simp: updateOthers_def updateTags_def replaceFts_def ftsDelete_def ftsInsert_def sqlWrite_def readPromotedContent_def
        bindM_def getDb_def setDb_def op_apply mapPromoted_fts mapPromoted_comp split: if_splits)
qed

lemma effect_updateOthers:
  assumes "fts5Available opts" and "uf_content changes = None" and "changedMetadata changes metadata"
  shows "effect (\<lambda>x. x = d) (updateOthers opts r changes metadata)
     (\<lambda>u x. mirror d \<and> findPromoted d i = Some r \<longrightarrow> updateRel i changes d u x)"
proof (rule effectI [OF local_update(2)])
  fix w u w' assume d: "w_db w = d" and run: "updateOthers opts r changes metadata w = (Inr u, w')"
  show "mirror d \<and> findPromoted d i = Some r \<longrightarrow> updateRel i changes d u (w_db w')"
    using updateOthers_db [OF assms(1,2) run] assms(2,3) findPromoted_Some [of d i r] unfolding d
    by (auto simp: updateRel_def rewritten_def entryOf_def applyChanges_def Let_def split: if_splits)
qed

lemma atomic_update:
  assumes fts: "fts5Available opts"
  shows "atomic_op (updatePromoted opts i changes) (\<lambda>d u x. mirror d \<longrightarrow> updateRel i changes d u x)"
proof (cases "case uf_content changes of Some c \<Rightarrow> nulChar \<in> set c | None \<Rightarrow> False")
  case True
  then show ?thesis
    unfolding updatePromoted_def by (simp, intro atomic_quiet quiet_rules) (simp add: op_apply)
next
  case False
  let ?metadata = "(case uf_metadata changes of None \<Rightarrow> ret None
     | Some m \<Rightarrow> bindM (liftE (normalizePromotedMetadata m)) (\<lambda>m. ret (Some m))) :: (world, json option) op"
  let ?body = "\<lambda>r metadata. case uf_content changes of
            Some content \<Rightarrow> updateContent opts r changes content metadata
          | None \<Rightarrow> updateOthers opts r changes metadata"
  have q: "quiet ?metadata" by (auto intro!: quiet_rules split: option.split)
  have m: "changedMetadata changes metadata" if "?metadata w = (Inr metadata, w')" for metadata w w'
    using that by (auto simp: changedMetadata_def op_apply bindM_def liftE_def split: option.splits sum.splits)
  have body: "atomic_op (withFtsSavepoint (?body r metadata))
      (\<lambda>d u x. mirror d \<and> findPromoted d i = Some r \<longrightarrow> updateRel i changes d u x)" if "changedMetadata changes metadata" for r metadata
  proof (rule atomic_savepoint, cases "uf_content changes")
    case None
    show "effect (\<lambda>x. x = d) (?body r metadata)
        (\<lambda>u x. mirror d \<and> findPromoted d i = Some r \<longrightarrow> updateRel i changes d u x)" for d
      unfolding None option.case by (rule effect_updateOthers [OF fts None that])
  next
    case (Some content)
    show "effect (\<lambda>x. x = d) (?body r metadata)
        (\<lambda>u x. mirror d \<and> findPromoted d i = Some r \<longrightarrow> updateRel i changes d u x)" for d
      unfolding Some option.case by (rule effect_updateContent [OF fts Some that])
  qed
  have row: "atomic_op (case row of None \<Rightarrow> ret () | Some r \<Rightarrow> withFtsSavepoint (?body r metadata))
      (\<lambda>d u x. (\<exists>w w'. w_db w = d \<and> getDb (\<lambda>d. findPromoted d i) w = (Inr row, w')) \<longrightarrow> mirror d \<longrightarrow> updateRel i changes d u x)"
    if "changedMetadata changes metadata" for row metadata
  proof (cases row)
    case None
    then show ?thesis by (auto simp: getDb_def updateRel_def op_apply intro!: atomic_quiet quiet_rules)
  next
    case (Some r)
    show ?thesis unfolding Some option.case by (rule atomic_conseq [OF body [OF that]]) (auto simp: getDb_def)
  qed
  have rest: "atomic_op (bindM (getDb (\<lambda>d. findPromoted d i)) (\<lambda>row. case row of None \<Rightarrow> ret ()
        | Some r \<Rightarrow> withFtsSavepoint (?body r metadata)))
      (\<lambda>d u x. (\<exists>w w'. w_db w = d \<and> ?metadata w = (Inr metadata, w')) \<longrightarrow> mirror d \<longrightarrow> updateRel i changes d u x)" for metadata
  proof (cases "changedMetadata changes metadata")
    case True
    show ?thesis by (rule atomic_conseq [OF atomic_after [OF quiet_basic(3) row [OF True]]]) blast
  next
    case False
    have "atomic_op (withFtsSavepoint (?body r metadata)) (\<lambda>d u x. True)" for r
      by (rule atomic_savepoint) (auto simp: effect_def local_update split: option.split)
    then have "atomic_op (bindM (getDb (\<lambda>d. findPromoted d i)) (\<lambda>row. case row of None \<Rightarrow> ret ()
        | Some r \<Rightarrow> withFtsSavepoint (?body r metadata))) (\<lambda>d u x. True)"
      by (intro atomic_after_any quiet_rules) (auto intro!: atomic_quiet quiet_rules split: option.split)
    then show ?thesis by (rule atomic_conseq) (use False m in blast)
  qed
  show ?thesis
    unfolding updatePromoted_def if_not_P [OF False] by (rule atomic_after [OF q rest])
qed

section \<open>The mirror survives\<close>

lemma mirror_insertRel: "insertRel params d i x \<Longrightarrow> mirror d \<Longrightarrow> mirror x"
  unfolding insertRel_def addedRow_def by (auto simp: insertedRow_def intro!: mirror_insert)

lemma mirror_rewritten:
  assumes "mirror d" and "findPromoted d i = Some r" and "changed f" and "keep \<or> prom_archivedAt (f r) \<noteq> None"
  shows "mirror (rewritten i r f keep d)"
  using mirror_change [OF assms(1,3), of r "if keep then [entryOf (f r)] else []"] findPromoted_Some [OF assms(2)] assms(4)
  by (auto simp: rewritten_def)

lemma mirror_archiveRel: "archiveRel i d u x \<Longrightarrow> mirror d \<Longrightarrow> mirror x"
  by (auto simp: archiveRel_def changed_def intro!: mirror_rewritten split: option.splits)

lemma mirror_reviveRel: "reviveRel i d u x \<Longrightarrow> mirror d \<Longrightarrow> mirror x"
  by (auto simp: reviveRel_def changed_def intro!: mirror_rewritten split: option.splits)

lemma mirror_deleteRel: "deleteRel i d u x \<Longrightarrow> mirror d \<Longrightarrow> mirror x"
  using mirror_delete [of d] by (auto simp: deleteRel_def dest!: findPromoted_Some split: option.splits)

lemma mirror_updateRel:
  assumes "updateRel i changes d u x" and "mirror d"
  shows "mirror x"
proof (cases "findPromoted d i")
  case None
  then show ?thesis using assms by (simp add: updateRel_def)
next
  case (Some r)
  then obtain metadata where x: "x = (if uf_content changes = None \<and> uf_tags changes = None
      then mapPromoted (applyChanges changes metadata) i d else rewritten i r (applyChanges changes metadata) True d)"
    using assms(1) by (auto simp: updateRel_def)
  have c: "changed (applyChanges changes metadata)" by (simp add: changed_def applyChanges_def)
  show ?thesis
  proof (cases "uf_content changes = None \<and> uf_tags changes = None")
    case True
    then have "mirror (mapPromoted (applyChanges changes metadata) i d)"
      by (intro mirror_keep [OF assms(2) c]) (simp_all add: entryOf_def applyChanges_def)
    then show ?thesis using x True by simp
  next
    case False
    have "mirror (rewritten i r (applyChanges changes metadata) True d)"
      by (rule mirror_rewritten [OF assms(2) Some c]) simp
    then show ?thesis unfolding x if_not_P [OF False] .
  qed
qed

end
