(* ===== verification/Promoted_Search.thy ===== *)
theory Promoted_Search
  imports Promoted_Facts
begin

text \<open>
  The searches of the promoted memory: a tag filter selects the same memories in whatever way it is
  applied, and a term matches in the fallback exactly when it is a word of the text.
\<close>

section \<open>Reading a list of rows\<close>

lemma mapM_map: "mapM (\<lambda>x. bindM (f x) (\<lambda>y. ret (g y))) xs = bindM (mapM f xs) (\<lambda>ys. ret (map g ys))"
  by (induction xs) (simp_all add: bindM_assoc)

lemma mapM_cong: "(\<And>x. x \<in> set xs \<Longrightarrow> f x = g x) \<Longrightarrow> mapM f xs = mapM g xs"
  by (induction xs) auto

lemma bind_mapM_cong:
  assumes "\<And>ys. length ys = length xs \<Longrightarrow> k ys = k' ys"
  shows "bindM (mapM f xs) k = bindM (mapM f xs) k'"
  using assms
proof (induction xs arbitrary: k k')
  case Nil
  then show ?case by simp
next
  case (Cons x xs)
  have "bindM (mapM f xs) (\<lambda>ys. k (y # ys)) = bindM (mapM f xs) (\<lambda>ys. k' (y # ys))" for y
    by (rule Cons.IH) (simp add: Cons.prems)
  then show ?case by (simp add: bindM_assoc)
qed

lemma flatResults_Some: "flatResults (map Some rs) = rs"
  by (induction rs) auto

section \<open>The tag filter\<close>

definition readResult :: "promoted_row \<times> rat \<Rightarrow> (world, search_result) op" where
  "readResult row = bindM (liftE (readPromotedContent (prom_content (fst row)))) (\<lambda>content.
     ret (searchResult (fst row) (Num (snd row)) content))"

abbreviation tagged :: "string list \<Rightarrow> promoted_row \<times> rat \<Rightarrow> bool" where
  "tagged tags \<equiv> \<lambda>(r, _). hasTags tags r"

lemma toSearchResult_tagged: "tagged tags row \<Longrightarrow> toSearchResult tags row = bindM (readResult row) (\<lambda>r. ret (Some r))"
  by (auto simp: toSearchResult_def readResult_def bindM_assoc split: prod.splits)

lemma toSearchResult_untagged: "\<not> tagged tags row \<Longrightarrow> toSearchResult tags row = ret None"
  by (auto simp: toSearchResult_def hasTags_def split: prod.splits)

lemma read_tagged:
  assumes "\<forall>row \<in> set rows. tagged tags row"
  shows "bindM (mapM (toSearchResult tags) rows) (\<lambda>rs. k (flatResults rs)) = bindM (mapM readResult rows) k"
proof -
  have "mapM (toSearchResult tags) rows = bindM (mapM readResult rows) (\<lambda>rs. ret (map Some rs))"
    using assms by (subst mapM_map [symmetric], intro mapM_cong toSearchResult_tagged) simp
  then show ?thesis by (simp add: bindM_assoc flatResults_Some)
qed

lemma collect_limit:
  assumes "int (length acc) < limit"
  shows "collectResults tags limit acc rows
    = bindM (mapM readResult (take (nat limit - length acc) (filter (tagged tags) rows))) (\<lambda>rs. ret (acc @ rs))"
  using assms
proof (induction rows arbitrary: acc)
  case Nil
  show ?case by simp
next
  case (Cons row rows)
  show ?case
  proof (cases "tagged tags row")
    case False
    then show ?thesis using Cons by (simp add: toSearchResult_untagged)
  next
    case True
    have k: "nat limit - length acc = Suc (nat limit - length acc - 1)" using Cons.prems by simp
    have step: "(if 0 \<le> limit \<and> limit \<le> int (length (acc @ [r])) then ret (acc @ [r])
        else collectResults tags limit (acc @ [r]) rows)
      = bindM (mapM readResult (take (nat limit - length acc - 1) (filter (tagged tags) rows))) (\<lambda>rs. ret (acc @ r # rs))" for r
    proof (cases "limit \<le> int (length (acc @ [r]))")
      case True
      then have "nat limit - length acc - 1 = 0" using Cons.prems by simp
      then show ?thesis using True Cons.prems by simp
    next
      case False
      then show ?thesis using Cons.IH [of "acc @ [r]"] by simp
    qed
    show ?thesis
      using True by (subst k) (simp add: toSearchResult_tagged bindM_assoc step [simplified])
  qed
qed

lemma collect_all:
  assumes "limit < 0"
  shows "collectResults tags limit acc rows = bindM (mapM readResult (filter (tagged tags) rows)) (\<lambda>rs. ret (acc @ rs))"
proof (induction rows arbitrary: acc)
  case (Cons row rows)
  then show ?case
    using assms by (cases "tagged tags row") (simp_all add: toSearchResult_untagged toSearchResult_tagged bindM_assoc)
qed simp

lemma collect_limited: "limit \<noteq> 0 \<Longrightarrow> collectResults tags limit [] rows = mapM readResult (limited limit (filter (tagged tags) rows))"
proof -
  have r: "bindM m (\<lambda>rs. ret ([] @ rs)) = m" for m :: "(world, search_result list) op"
    by (rule ext) (simp add: bindM_def op_apply split: prod.split sum.split)
  assume l: "limit \<noteq> 0"
  show ?thesis
  proof (cases "limit < 0")
    case True
    show ?thesis unfolding collect_all [OF True] r by (simp add: limited_def True)
  next
    case False
    then have "int (length ([] :: search_result list)) < limit" using l by simp
    from collect_limit [OF this] show ?thesis unfolding r using False by (simp add: limited_def)
  qed
qed

text \<open>All three ways read the first tagged rows in the order of the ranking.\<close>

lemma searchWithFts_eq:
  "searchWithFts rankOf opts support terms limit tags projectId =
     (if tags \<noteq> [] \<and> limit = 0 then ret [] else if \<not> ftsStatementOk opts then throw DriverError
      else bindM (getDb (\<lambda>d. rankedRows rankOf d terms projectId)) (\<lambda>rows.
        mapM readResult (limited limit (filter (tagged tags) rows))))"
proof -
  have r: "bindM m ret = m" for m :: "(world, search_result list) op"
    by (rule ext) (simp add: bindM_def op_apply split: prod.split sum.split)
  have sub: "set (limited limit xs) \<subseteq> set xs" for xs :: "(promoted_row \<times> rat) list"
    by (auto simp: limited_def dest: in_set_takeD)
  have none: "bindM (mapM (toSearchResult []) xs) (\<lambda>rs. ret (flatResults rs)) = mapM readResult xs" for xs
    using read_tagged [of xs "[]" ret] r by (auto simp: hasTags_def)
  have some: "bindM (mapM (toSearchResult tags) (limited limit (filter (tagged tags) xs))) (\<lambda>rs. ret (flatResults rs))
      = mapM readResult (limited limit (filter (tagged tags) xs))" for xs
    using read_tagged [of "limited limit (filter (tagged tags) xs)" tags ret] r sub by fastforce
  have again: "bindM (mapM (toSearchResult tags) (limited limit (filter (tagged tags) xs))) (\<lambda>rs. ret (limited limit (flatResults rs)))
      = mapM readResult (limited limit (filter (tagged tags) xs))" for xs
  proof -
    have "bindM (mapM (toSearchResult tags) (limited limit (filter (tagged tags) xs))) (\<lambda>rs. ret (limited limit (flatResults rs)))
        = bindM (mapM readResult (limited limit (filter (tagged tags) xs))) (\<lambda>rs. ret (limited limit rs))"
      using read_tagged [of "limited limit (filter (tagged tags) xs)" tags "\<lambda>rs. ret (limited limit rs)"] sub by fastforce
    also have "\<dots> = bindM (mapM readResult (limited limit (filter (tagged tags) xs))) ret"
      by (rule bind_mapM_cong) (auto simp: limited_def)
    finally show ?thesis by (simp only: r)
  qed
  have all: "filter (tagged []) xs = xs" for xs by (simp add: hasTags_def case_prod_beta)
  show ?thesis
  proof (cases "tags = []")
    case True
    then show ?thesis by (simp add: searchWithFts_def Let_def none all)
  next
    case False
    then show ?thesis
      by (cases "ss_jsonTags support") (simp_all add: searchWithFts_def Let_def some again collect_limited cong: if_cong)
  qed
qed

text \<open>A search of the promoted memory with a tag filter gives the same answer, and fails in the same
  cases, whether the filter runs in SQL, while iterating over the rows or on all of them.\<close>

theorem tag_filter_equivalent:
  "searchPromoted rankOf opts support query limit filterTags projectId =
   searchPromoted rankOf opts support' query limit filterTags projectId"
  unfolding searchPromoted_def searchWithFts_eq by simp

section \<open>The fallback\<close>

lemma globHere_run: "list_all isWordUnit t \<Longrightarrow> globHere t s \<longleftrightarrow> takeWhile isWordUnit s = t"
proof (induction t arbitrary: s)
  case Nil
  show ?case by (cases s) (simp_all add: globHere_def startsWith_def)
next
  case (Cons c t)
  show ?case
  proof (cases s)
    case Nil
    then show ?thesis by (simp add: globHere_def startsWith_def)
  next
    case (Cons e s')
    then have "globHere (c # t) s \<longleftrightarrow> c = e \<and> globHere t s'" by (auto simp: globHere_def startsWith_def)
    then show ?thesis using Cons.IH [of s'] Cons.prems \<open>s = e # s'\<close> by auto
  qed
qed

lemma wordRuns_mem:
  assumes "list_all isWordUnit t"
  shows "t \<in> set (wordRuns word cs) \<longleftrightarrow> t \<noteq> [] \<and> (word @ takeWhile isWordUnit cs = t \<or> globBehind t cs)"
  by (induction cs arbitrary: word) (auto simp: globHere_run [OF assms])

lemma wordRuns_units: "list_all isWordUnit word \<Longrightarrow> t \<in> set (wordRuns word cs) \<Longrightarrow> list_all isWordUnit t"
proof (induction cs arbitrary: word)
  case (Cons c cs)
  show ?case using Cons.IH [of "word @ [c]"] Cons.IH [of "[]"] Cons.prems by (auto split: if_splits)
qed (auto split: if_splits)

lemma searchTerms_mem: "t \<in> set (searchTerms s) \<longleftrightarrow> t \<noteq> [] \<and> list_all isWordUnit t \<and> (globHere t s \<or> globBehind t s)"
proof (cases "list_all isWordUnit t")
  case True
  then show ?thesis by (simp add: searchTerms_def wordRuns_mem globHere_run)
next
  case False
  then show ?thesis using wordRuns_units [of "[]" t s] by (auto simp: searchTerms_def)
qed

text \<open>The words of a text, in lower case.\<close>

definition searchWords :: "string \<Rightarrow> string set" where
  "searchWords s = set (searchTerms (map lowerAscii s))"

lemma of_char_256: "(of_char c :: nat) < 256"
  using nat_of_char_less_256 [of c] by simp

lemma isWordUnit_lower: "isWordUnit (lowerAscii c) = isWordUnit c"
  using of_char_256 [of c] by (auto simp: isWordUnit_def lowerAscii_def Let_def)

lemma wordRuns_lower: "wordRuns (map lowerAscii word) (map lowerAscii cs) = map (map lowerAscii) (wordRuns word cs)"
proof (induction cs arbitrary: word)
  case (Cons c cs)
  show ?case using Cons [of "word @ [c]"] Cons [of "[]"] by (simp add: isWordUnit_lower)
qed simp

lemma searchTerms_lower: "searchTerms (map lowerAscii s) = map (map lowerAscii) (searchTerms s)"
  using wordRuns_lower [of "[]" s] by (simp add: searchTerms_def)

lemma matchesTerm_words:
  assumes "t \<in> searchWords query"
  shows "matchesTerm r t \<longleftrightarrow> t \<in> searchWords (prom_content r) \<union> searchWords (jsonStrings (prom_tags r))"
  using assms by (auto simp: matchesTerm_def wordMatch_def searchWords_def searchTerms_mem Let_def)

lemma mapM_results:
  assumes "mapM (\<lambda>r. bindM (liftE (f r)) (\<lambda>c. ret (g r c))) xs w = (Inr ys, w')"
  shows "w' = w \<and> list_all2 (\<lambda>r y. \<exists>c. f r = Inr c \<and> y = g r c) xs ys"
  using assms
proof (induction xs arbitrary: ys w)
  case (Cons x xs)
  then show ?case by (cases "f x") (auto simp: op_apply bindM_assoc elim!: bindM_cases)
qed (simp add: op_apply)

lemma mapM_returns:
  assumes "\<And>r. r \<in> set xs \<Longrightarrow> \<exists>c. f r = Inr c"
  shows "\<exists>ys. mapM (\<lambda>r. bindM (liftE (f r)) (\<lambda>c. ret (g r c))) xs w = (Inr ys, w)"
  using assms
proof (induction xs)
  case (Cons x xs)
  then obtain c ys where "f x = Inr c"
    and "mapM (\<lambda>r. bindM (liftE (f r)) (\<lambda>c. ret (g r c))) xs w = (Inr ys, w)" by force
  then have "mapM (\<lambda>r. bindM (liftE (f r)) (\<lambda>c. ret (g r c))) (x # xs) w = (Inr (g x c # ys), w)"
    by (simp add: bindM_assoc bindM_Inr ret_apply [of "g x c # ys"])
  then show ?case by blast
qed (simp add: op_apply)

lemma fallback_returns:
  assumes "\<not> fts5Available opts" and "\<forall>r \<in> set (promoted (w_db w)). nulChar \<notin> set (prom_content r)"
  shows "\<exists>rs. searchPromoted rankOf opts support query limit filterTags projectId w = (Inr rs, w)"
proof -
  have "\<exists>c. readPromotedContent (prom_content r) = Inr c"
    if "r \<in> set (limited n (filter P (fallbackRows (w_db w) terms projectId)))" for r n P terms
    using assms(2) that by (auto simp: readPromotedContent_def limited_def fallbackRows_def dest!: in_set_takeD split: if_splits)
  from mapM_returns [OF this] show ?thesis
    using assms(1) by (auto simp: searchPromoted_def searchWithoutFts_def Let_def getDb_def op_apply)
qed


lemma image_filter_one: "P m \<Longrightarrow> f ` {r \<in> set [m]. P r} = {f m}"
  by auto

definition sample_memory :: "string \<Rightarrow> string list \<Rightarrow> promoted_row" where
  "sample_memory content tags = \<lparr>prom_rowid = 1, prom_id = ''m'', prom_content = content, prom_tags = tags,
     prom_metadata = JObj [], prom_sourceSummaryId = None, prom_projectId = ''p'', prom_sessionId = None, prom_depth = 0,
     prom_confidence = 1, prom_createdAt = 0, prom_archivedAt = None\<rparr>"

definition sample_promoted :: database where
  "sample_promoted = addedRow (sample_memory ''Use Postgres'' [''db'']) empty_database"


end
