(* ===== verification/Memory_Facts.thy ===== *)
theory Memory_Facts
  imports Memory_Context Promoted_Search "HOL-Library.Sublist"
begin

text \<open>
  Recalled text cannot close the fence it is written into; the selected hints stay under the budget of
  bytes; and the binary search of a hint that is too long finds the longest beginning that fits.
\<close>

section \<open>The fence\<close>

definition isTagUnit :: "char \<Rightarrow> bool" where
  "isTagUnit c = (isWordUnit c \<or> c = CHR ''-'')"

definition plainTag :: "string \<Rightarrow> bool" where
  "plainTag tag = (tag \<noteq> [] \<and> list_all isTagUnit tag)"

definition lowerUnit :: "char \<Rightarrow> char" where
  "lowerUnit c = (let k = (of_char c :: nat) in
     if (65 \<le> k \<and> k \<le> 90) \<or> (192 \<le> k \<and> k \<le> 222 \<and> k \<noteq> 215) then char_of (k + 32) else c)"

lemma toLowerCase_map: "toLowerCase s = map lowerUnit s"
  by (simp add: toLowerCase_def lowerUnit_def)

lemma isTagUnit_lower: "isTagUnit c \<Longrightarrow> isTagUnit (lowerUnit c)"
proof -
  assume c: "isTagUnit c"
  have "isWordUnit (lowerUnit c)" if "isWordUnit c"
  proof (cases "65 \<le> (of_char c :: nat) \<and> (of_char c :: nat) \<le> 90")
    case True
    then show ?thesis by (simp add: lowerUnit_def isWordUnit_def Let_def)
  next
    case False
    with that have "lowerUnit c = c" by (auto simp: lowerUnit_def isWordUnit_def Let_def)
    with that show ?thesis by simp
  qed
  moreover have "lowerUnit (CHR ''-'') = CHR ''-''" by (simp add: lowerUnit_def)
  ultimately show ?thesis using c by (auto simp: isTagUnit_def)
qed

lemma not_tag_units:
  "\<not> isTagUnit (CHR ''<'')" "\<not> isTagUnit (CHR ''&'')" "\<not> isTagUnit (CHR ''/'')" "\<not> isTagUnit (CHR ''>'')"
  by (simp_all add: isTagUnit_def isWordUnit_def)

text \<open>The match in closed form; what it reads contains neither an opening bracket nor an ampersand.\<close>

lemma closingMatch_Some:
  "closingMatch tag s = Some r \<longleftrightarrow> (\<exists>t ws. s = ''</'' @ t @ ws @ CHR ''>'' # r
     \<and> toLowerCase t = toLowerCase tag \<and> list_all isWhitespace ws)"
proof
  assume m: "closingMatch tag s = Some r"
  let ?t = "take (length tag) (drop 2 s)" and ?d = "drop (length tag + 2) s"
  from m have head: "take 2 s = ''</''" and low: "toLowerCase ?t = toLowerCase tag"
    and rest: "dropWhile isWhitespace ?d = CHR ''>'' # r"
    by (auto simp: closingMatch_def startsWith_def numeral_2_eq_2 split: if_splits list.splits)
  have "s = take 2 s @ ?t @ takeWhile isWhitespace ?d @ dropWhile isWhitespace ?d"
    using append_take_drop_id [of 2 s] append_take_drop_id [of "length tag" "drop 2 s"]
    by (simp add: add.commute)
  then have "s = ''</'' @ ?t @ takeWhile isWhitespace ?d @ CHR ''>'' # r" unfolding head rest .
  moreover have "list_all isWhitespace (takeWhile isWhitespace ?d)"
    by (auto simp: list_all_iff dest: set_takeWhileD)
  ultimately show "\<exists>t ws. s = ''</'' @ t @ ws @ CHR ''>'' # r
     \<and> toLowerCase t = toLowerCase tag \<and> list_all isWhitespace ws" using low by blast
next
  assume "\<exists>t ws. s = ''</'' @ t @ ws @ CHR ''>'' # r
     \<and> toLowerCase t = toLowerCase tag \<and> list_all isWhitespace ws"
  then obtain t ws where s: "s = ''</'' @ t @ ws @ CHR ''>'' # r" and low: "toLowerCase t = toLowerCase tag"
    and ws: "list_all isWhitespace ws" by blast
  from low have "length t = length tag" unfolding toLowerCase_map by (rule map_eq_imp_length_eq)
  moreover from ws have "dropWhile isWhitespace (ws @ CHR ''>'' # r) = CHR ''>'' # r"
    by (subst dropWhile_append2) (auto simp: list_all_iff isWhitespace_def)
  ultimately show "closingMatch tag s = Some r"
    unfolding closingMatch_def s using low by (simp add: startsWith_def)
qed

lemma tag_text:
  assumes "plainTag tag" and "toLowerCase t = toLowerCase tag" and "x \<in> set t"
  shows "isTagUnit (lowerUnit x)"
proof -
  from assms(2) have "lowerUnit ` set t = lowerUnit ` set tag"
    unfolding toLowerCase_map by (metis list.set_map)
  with assms(3) obtain y where "y \<in> set tag" and "lowerUnit x = lowerUnit y" by blast
  with assms(1) show ?thesis by (simp add: plainTag_def list_all_iff isTagUnit_lower)
qed

lemma match_avoids:
  assumes "plainTag tag" and "toLowerCase t = toLowerCase tag" and "list_all isWhitespace ws"
    and "x \<in> {CHR ''<'', CHR ''&''}"
  shows "x \<notin> set (CHR ''/'' # t @ ws @ [CHR ''>''])"
proof -
  have "lowerUnit x = x" and "\<not> isTagUnit x" and "\<not> isWhitespace x" and "x \<noteq> CHR ''/''" and "x \<noteq> CHR ''>''"
    using assms(4) by (auto simp: lowerUnit_def not_tag_units isWhitespace_def)
  moreover have "x \<notin> set t" using tag_text [OF assms(1,2), of x] calculation(1,2) by auto
  ultimately show ?thesis using assms(3) by (auto simp: list_all_iff)
qed

lemma closingMatch_head: "hd s \<noteq> CHR ''<'' \<Longrightarrow> closingMatch tag s = None"
  by (cases s) (auto simp: closingMatch_def startsWith_def)

lemma escapeClosing_prefix:
  "escapeClosing tag s = u @ r \<Longrightarrow> CHR ''&'' \<notin> set u \<Longrightarrow> \<exists>r'. s = u @ r'"
proof (induction tag s arbitrary: u rule: escapeClosing.induct)
  case (2 tag c cs)
  show ?case
  proof (cases u)
    case (Cons x xs)
    with 2(3,4) have none: "closingMatch tag (c # cs) = None" by (auto split: option.splits)
    with 2(3) Cons have "x = c" and "escapeClosing tag cs = xs @ r" by auto
    with 2(1) [OF none this(2)] 2(4) Cons show ?thesis by simp
  qed simp
qed simp

lemma newline_not_bracket: "newline \<noteq> [CHR ''>'']" "newline \<noteq> [CHR ''<'']"
  by code_simp+

text \<open>No position of the escaped text starts a match, whatever the end of the fence adds to it.\<close>

lemma escaped_next:
  assumes none: "closingMatch tag (c # cs) = None" and tag: "plainTag tag"
    and rest: "rest = newline @ CHR ''<'' # rest1"
  shows "closingMatch tag (c # escapeClosing tag cs @ rest) = None"
proof (rule ccontr)
  assume "closingMatch tag (c # escapeClosing tag cs @ rest) \<noteq> None"
  then obtain r t ws where eq: "c # escapeClosing tag cs @ rest = ''</'' @ t @ ws @ CHR ''>'' # r"
    and low: "toLowerCase t = toLowerCase tag" and ws: "list_all isWhitespace ws"
    using closingMatch_Some by fastforce
  let ?u = "CHR ''/'' # t @ ws @ [CHR ''>'']"
  have avoid: "CHR ''<'' \<notin> set ?u" "CHR ''&'' \<notin> set ?u" by (rule match_avoids [OF tag low ws]; simp)+
  from eq have c: "c = CHR ''<''" and both: "escapeClosing tag cs @ rest = ?u @ r" by simp_all
  have "\<exists>v. escapeClosing tag cs = ?u @ v"
  proof (rule ccontr)
    assume no: "\<nexists>v. escapeClosing tag cs = ?u @ v"
    with both obtain v where u: "?u = escapeClosing tag cs @ v" and "rest = v @ r"
      unfolding append_eq_append_conv2 by metis
    with rest no have v: "v = newline \<or> CHR ''<'' \<in> set v"
      by (cases v; cases "tl v") (auto simp: newline_def)
    from u have "set v \<subseteq> set ?u" by (metis Un_upper2 set_append)
    with avoid(1) v have nl: "v = newline" by blast
    from u have "last ?u = last (escapeClosing tag cs @ v)" by simp
    then show False unfolding nl using newline_not_bracket by (simp add: newline_def)
  qed
  then obtain v where "escapeClosing tag cs = ?u @ v" by blast
  with avoid(2) obtain v' where "cs = ?u @ v'" using escapeClosing_prefix by blast
  with c low ws have "closingMatch tag (c # cs) = Some v'" unfolding closingMatch_Some by auto
  with none show False by simp
qed

lemma escaped_none:
  "plainTag tag \<Longrightarrow> k < length (escapeClosing tag s) \<Longrightarrow>
   closingMatch tag (drop k (escapeClosing tag s @ newline @ CHR ''<'' # rest1)) = None"
proof (induction tag s arbitrary: k rule: escapeClosing.induct)
  case (2 tag c cs)
  show ?case
  proof (cases "closingMatch tag (c # cs)")
    case None
    with 2 escaped_next [OF None 2(3) refl] show ?thesis by (cases k) auto
  next
    case (Some r)
    let ?p = "''&lt;/'' @ tag @ ''&gt;''"
    have esc: "escapeClosing tag (c # cs) = ?p @ escapeClosing tag r" using Some by simp
    show ?thesis
    proof (cases "k < length ?p")
      case True
      have "CHR ''<'' \<notin> set ?p" using 2(3) not_tag_units by (auto simp: plainTag_def list_all_iff)
      then have "?p ! k \<noteq> CHR ''<''" using True nth_mem by metis
      moreover have "hd (drop k (?p @ z)) = ?p ! k" for z using True
        by (metis hd_drop_conv_nth length_append nth_append trans_less_add1)
      ultimately show ?thesis unfolding esc append_assoc [of ?p] by (intro closingMatch_head) metis
    next
      case False
      with 2(4) have "k - length ?p < length (escapeClosing tag r)" unfolding esc by simp
      from 2(2) [OF Some 2(3) this] False show ?thesis
        unfolding esc append_assoc [of ?p] drop_append [of k ?p] by simp
    qed
  qed
qed simp

lemma no_match_at: "length s \<le> i \<or> s ! i \<noteq> CHR ''<'' \<Longrightarrow> closingMatch tag (drop i s) = None"
proof (cases "length s \<le> i")
  case True
  then show ?thesis by (simp add: closingMatch_def startsWith_def)
next
  case False
  moreover assume "length s \<le> i \<or> s ! i \<noteq> CHR ''<''"
  ultimately have "hd (drop i s) \<noteq> CHR ''<''" by (simp add: hd_drop_conv_nth)
  then show ?thesis by (rule closingMatch_head)
qed

lemma no_match_in:
  assumes "CHR ''<'' \<notin> set v" and "length u \<le> i" and "i < length u + length v"
  shows "closingMatch tag (drop i (u @ v @ z)) = None"
proof (rule no_match_at)
  have "i - length u < length v" using assms(2,3) by linarith
  then have "(u @ v @ z) ! i = v ! (i - length u)" using assms(2) by (simp add: nth_append)
  moreover have "v ! (i - length u) \<in> set v" using assms(2,3) by (intro nth_mem) simp
  ultimately show "length (u @ v @ z) \<le> i \<or> (u @ v @ z) ! i \<noteq> CHR ''<''" using assms(1) by metis
qed

text \<open>C36: A fence cannot be closed from inside: for a tag of plain characters, the only position of a
  fenced text at which a closing tag can be read (letters of either case, white space before the
  bracket) is that of the tag that ends it, whatever the content.\<close>

theorem fence_closed_once:
  assumes "plainTag tag"
  shows "closingMatch tag (drop i (fenceContent content tag)) \<noteq> None
    \<longleftrightarrow> i = length (fenceContent content tag) - (length tag + 3)"
proof -
  define open_part close_part escaped where "open_part = tag @ ''>'' @ newline" and "close_part = ''/'' @ tag @ ''>''"
    and "escaped = escapeClosing tag (stripAnsi content)"
  have fence: "fenceContent content tag = ''<'' @ open_part @ escaped @ newline @ ''<'' @ close_part"
    by (simp add: fenceContent_def open_part_def close_part_def escaped_def)
  have nl: "CHR ''<'' \<notin> set newline" "length newline = 1" using newline_not_bracket by (auto simp: newline_def)
  have tag: "CHR ''<'' \<notin> set tag" "CHR ''/'' \<notin> set tag"
    using assms not_tag_units by (auto simp: plainTag_def list_all_iff)
  have units: "CHR ''<'' \<notin> set open_part" "CHR ''<'' \<notin> set close_part" "length close_part = length tag + 2"
    using tag nl by (simp_all add: open_part_def close_part_def)
  let ?last = "1 + length open_part + length escaped + 1"
  have pos: "length (fenceContent content tag) - (length tag + 3) = ?last"
    by (simp add: fence units nl)
  consider "i = 0" | "1 \<le> i" "i < 1 + length open_part"
    | "1 + length open_part \<le> i" "i < 1 + length open_part + length escaped"
    | "i = 1 + length open_part + length escaped" | "i = ?last" | "?last < i" by linarith
  then show ?thesis
  proof cases
    case 1
    have "\<not> startsWith (fenceContent content tag) ''</''"
      using assms tag unfolding fence open_part_def by (cases tag) (auto simp: plainTag_def startsWith_def)
    with 1 show ?thesis unfolding pos by (simp add: closingMatch_def)
  next
    case 2
    with no_match_in [OF units(1), of "''<''" i tag] nl(2) units(3) show ?thesis unfolding pos fence by simp
  next
    case 3
    let ?u = "''<'' @ open_part" and ?k = "i - (1 + length open_part)"
    have "drop i (?u @ escaped @ newline @ ''<'' @ close_part) = drop ?k (escaped @ newline @ ''<'' @ close_part)"
    proof -
      have "drop i ?u = []" and "i - length ?u = ?k" using 3(1) by simp_all
      then show ?thesis unfolding drop_append [of i ?u] by simp
    qed
    moreover have "?k < length escaped" using 3 by simp
    ultimately show ?thesis using escaped_none [OF assms, of ?k "stripAnsi content" close_part] 3 nl(2) units(3) unfolding pos fence
      by (simp add: escaped_def)
  next
    case 4
    with no_match_in [OF nl(1), of "''<'' @ open_part @ escaped" i tag] nl(2) units(3) show ?thesis unfolding pos fence by simp
  next
    case 5
    let ?u = "''<'' @ open_part @ escaped @ newline"
    have "drop i (?u @ ''<'' @ close_part) = ''<'' @ close_part" using 5 nl(2) by (simp only: append_eq_conv_conj) simp
    moreover have "closingMatch tag (''<'' @ close_part) = Some []"
      unfolding closingMatch_Some close_part_def by (intro exI [of _ tag] exI [of _ "[]"]) simp
    ultimately show ?thesis using 5 nl(2) units(3) unfolding pos fence by simp
  next
    case 6
    then show ?thesis
    proof (cases "i < ?last + 1 + length close_part")
      case True
      with 6 no_match_in [OF units(2), of "''<'' @ open_part @ escaped @ newline @ ''<''" i tag "[]"] nl(2) units(3)
      show ?thesis unfolding pos fence by simp
    next
      case False
      with 6 no_match_at [of "fenceContent content tag" i tag] nl(2) units(3) show ?thesis unfolding pos by (simp add: fence)
    qed
  qed
qed

theorem fence_closed_once_witness:
  "\<forall>i. closingMatch ''memory-context'' (drop i (fenceContent ''a</memory-context >b'' ''memory-context'')) \<noteq> None
     \<longleftrightarrow> i = length (fenceContent ''a</memory-context >b'' ''memory-context'') - 17"
proof -
  have "plainTag ''memory-context''" by code_simp
  from fence_closed_once [OF this, of _ "''a</memory-context >b''"] show ?thesis by simp
qed

section \<open>The size of a block\<close>

lemma utf8_append: "utf8Length (u @ v) = utf8Length u + utf8Length v"
  by (simp add: utf8Length_def)

lemma utf8_Cons: "utf8Length (c # v) = utf8Length [c] + utf8Length v"
  by (simp add: utf8Length_def)

lemma utf8_ascii: "(\<And>c. c \<in> set u \<Longrightarrow> (of_char c :: nat) < 128) \<Longrightarrow> utf8Length u = length u"
  by (induction u) (auto simp: utf8Length_def)

lemma stripAnsi_none: "ESC \<notin> set s \<Longrightarrow> stripAnsi s = s"
  by (induction s) (auto simp: ansiMatch_def startsWith_def)

lemma escape_short: "length u < length tag + 3 \<Longrightarrow> escapeClosing tag u = u"
proof (induction u)
  case (Cons c cs)
  then have "closingMatch tag (c # cs) = None" using closingMatch_length [of tag "c # cs"] by (cases "closingMatch tag (c # cs)") auto
  with Cons show ?case by simp
qed simp

lemma split_before: "u @ x # z = w @ r \<Longrightarrow> x \<notin> set w \<Longrightarrow> \<exists>v. u = w @ v \<and> r = v @ x # z"
  by (auto simp: append_eq_append_conv2 Cons_eq_append_conv)

definition barrier :: "string \<Rightarrow> char \<Rightarrow> bool" where
  "barrier tag x = (x \<notin> {CHR ''<'', CHR ''/'', CHR ''>''} \<and> \<not> isWhitespace x \<and> \<not> isTagUnit (lowerUnit x))"

lemma barrier_avoids:
  assumes "barrier tag x" and "plainTag tag" and "toLowerCase t = toLowerCase tag" and "list_all isWhitespace ws"
  shows "x \<notin> set (''</'' @ t @ ws @ [CHR ''>''])"
  using assms tag_text [OF assms(2,3), of x] by (auto simp: barrier_def list_all_iff)

lemma closingMatch_append: "closingMatch tag u = Some r \<Longrightarrow> closingMatch tag (u @ z) = Some (r @ z)"
proof -
  assume "closingMatch tag u = Some r"
  then obtain t ws where "u = ''</'' @ t @ ws @ CHR ''>'' # r" and "toLowerCase t = toLowerCase tag"
    and "list_all isWhitespace ws" unfolding closingMatch_Some by blast
  then show ?thesis unfolding closingMatch_Some by (intro exI [of _ t] exI [of _ ws]) simp
qed

lemma match_barrier:
  assumes "barrier tag x" and "plainTag tag"
  shows "closingMatch tag (u @ x # z) = Some r \<longleftrightarrow> (\<exists>v. closingMatch tag u = Some v \<and> r = v @ x # z)"
proof
  assume "closingMatch tag (u @ x # z) = Some r"
  then obtain t ws where eq: "u @ x # z = (''</'' @ t @ ws @ [CHR ''>'']) @ r"
    and low: "toLowerCase t = toLowerCase tag" "list_all isWhitespace ws" unfolding closingMatch_Some by auto
  from split_before [OF eq barrier_avoids [OF assms low]]
  obtain v where "u = (''</'' @ t @ ws @ [CHR ''>'']) @ v" and "r = v @ x # z" by blast
  moreover from this(1) low have "closingMatch tag u = Some v"
    unfolding closingMatch_Some by (intro exI [of _ t] exI [of _ ws]) simp
  ultimately show "\<exists>v. closingMatch tag u = Some v \<and> r = v @ x # z" by blast
next
  assume "\<exists>v. closingMatch tag u = Some v \<and> r = v @ x # z"
  then show "closingMatch tag (u @ x # z) = Some r" by (auto dest: closingMatch_append)
qed

lemma escape_barrier:
  assumes "barrier tag x" and "plainTag tag"
  shows "escapeClosing tag (u @ x # z) = escapeClosing tag u @ x # escapeClosing tag z"
  using assms
proof (induction tag u rule: escapeClosing.induct)
  case (1 tag)
  from 1(1) have "closingMatch tag (x # z) = None" by (intro closingMatch_head) (simp add: barrier_def)
  then show ?case by simp
next
  case (2 tag c cs)
  show ?case
  proof (cases "closingMatch tag (c # cs)")
    case None
    then have "closingMatch tag ((c # cs) @ x # z) = None" using match_barrier [OF 2(3,4), of "c # cs" z] by (cases "closingMatch tag ((c # cs) @ x # z)") auto
    with None 2 show ?thesis by simp
  next
    case (Some r)
    then have "closingMatch tag ((c # cs) @ x # z) = Some (r @ x # z)" using match_barrier [OF 2(3,4)] by blast
    with Some 2 show ?thesis by simp
  qed
qed

text \<open>A text that does not end in white space, and is continued, does not get smaller when it is escaped.\<close>

lemma isTagUnit_ascii: "isTagUnit c \<Longrightarrow> (of_char c :: nat) < 128"
  by (auto simp: isTagUnit_def isWordUnit_def Let_def)

lemma of_char_shift: "192 \<le> (of_char c :: nat) \<Longrightarrow> (of_char c :: nat) \<le> 222 \<Longrightarrow>
    (of_char (char_of ((of_char c :: nat) + 32) :: char) :: nat) = of_char c + 32"
  by simp

lemma match_ascii:
  assumes "plainTag tag" and "toLowerCase t = toLowerCase tag"
  shows "utf8Length t = length tag"
proof -
  have "(of_char x :: nat) < 128" if "x \<in> set t" for x
  proof (rule ccontr)
    assume big: "\<not> (of_char x :: nat) < 128"
    then have "128 \<le> (of_char (lowerUnit x) :: nat)"
      using of_char_shift [of x] by (auto simp: lowerUnit_def Let_def)
    with isTagUnit_ascii [OF tag_text [OF assms that]] show False by simp
  qed
  then have "utf8Length t = length t" by (rule utf8_ascii)
  then show ?thesis using assms(2) unfolding toLowerCase_map by (metis length_map)
qed

lemma match_straddles:
  assumes "closingMatch tag (u @ q) = Some r" and "closingMatch tag u = None" and "u \<noteq> [] \<Longrightarrow> \<not> isWhitespace (last u)"
    and "plainTag tag"
  shows "utf8Length (escapeClosing tag u) \<le> length tag + 2"
proof -
  from assms(1) obtain t ws where eq: "u @ q = (''</'' @ t) @ (ws @ [CHR ''>'']) @ r"
    and low: "toLowerCase t = toLowerCase tag" and ws: "list_all isWhitespace ws" unfolding closingMatch_Some by auto
  have "\<exists>v. ''</'' @ t = u @ v"
  proof (rule ccontr)
    assume no: "\<nexists>v. ''</'' @ t = u @ v"
    with eq obtain v where u: "u = (''</'' @ t) @ v" and v: "v @ q = (ws @ [CHR ''>'']) @ r"
      unfolding append_eq_append_conv2 by metis
    from no u have "v \<noteq> []" by auto
    show False
    proof (cases "\<exists>y. v = (ws @ [CHR ''>'']) @ y")
      case True
      then obtain y where "u = ''</'' @ t @ ws @ CHR ''>'' # y" unfolding u by auto
      then have "closingMatch tag u = Some y" using low ws
        unfolding closingMatch_Some by (intro exI [of _ t] exI [of _ ws]) simp
      with assms(2) show False by simp
    next
      case False
      with v obtain y where y: "v @ y = ws @ [CHR ''>'']" unfolding append_eq_append_conv2 by blast
      with False have "y \<noteq> []" by auto
      with y have "ws = v @ butlast y" by (metis butlast_append butlast_snoc)
      then have "set v \<subseteq> set ws" by simp
      with ws \<open>v \<noteq> []\<close> have "isWhitespace (last v)"
        using last_in_set [of v] by (simp add: list_all_iff subset_eq)
      with assms(3) u \<open>v \<noteq> []\<close> show False by simp
    qed
  qed
  then obtain v where v: "''</'' @ t = u @ v" by blast
  have t: "utf8Length t = length tag" "length t = length tag"
    using match_ascii [OF assms(4) low] low unfolding toLowerCase_map by (auto dest: map_eq_imp_length_eq)
  have "length u + length v = length tag + 2" using arg_cong [OF v, of length] t by simp
  then have "escapeClosing tag u = u" by (intro escape_short) simp
  moreover have "utf8Length u + utf8Length v = length tag + 2"
    using arg_cong [OF v, of utf8Length] t by (simp add: utf8_append) (simp add: utf8Length_def)
  ultimately show ?thesis by simp
qed

lemma escape_grows:
  "plainTag tag \<Longrightarrow> (u \<noteq> [] \<longrightarrow> \<not> isWhitespace (last u)) \<Longrightarrow>
   utf8Length (escapeClosing tag u) \<le> utf8Length (escapeClosing tag (u @ q))"
proof (induction tag u rule: escapeClosing.induct)
  case (1 tag)
  show ?case by (simp add: utf8Length_def)
next
  case (2 tag c cs)
  let ?p = "''&lt;/'' @ tag @ ''&gt;''"
  show ?case
  proof (cases "closingMatch tag (c # cs)")
    case (Some r)
    from Some obtain t ws where "c # cs = (''</'' @ t @ ws @ [CHR ''>'']) @ r" unfolding closingMatch_Some by auto
    with 2(4) have "r \<noteq> [] \<longrightarrow> \<not> isWhitespace (last r)" by (auto simp: last_append)
    from 2(2) [OF Some 2(3) this] closingMatch_append [OF Some, of q] Some show ?thesis by (simp add: utf8Length_def)
  next
    case None
    show ?thesis
    proof (cases "closingMatch tag ((c # cs) @ q)")
      case (Some r)
      from match_straddles [OF Some None _ 2(3)] 2(4)
      have "utf8Length (escapeClosing tag (c # cs)) \<le> length tag + 2" by simp
      also have "\<dots> \<le> utf8Length ?p" using match_ascii [OF 2(3) refl] by (simp add: utf8_append) (simp add: utf8Length_def)
      also have "\<dots> \<le> utf8Length (escapeClosing tag ((c # cs) @ q))" using Some by (simp add: utf8Length_def)
      finally show ?thesis .
    next
      case none: None
      have "cs \<noteq> [] \<longrightarrow> \<not> isWhitespace (last cs)" using 2(4) by (auto split: if_splits)
      from 2(1) [OF None 2(3) this] None none show ?thesis
        by (simp add: utf8_Cons [of c "escapeClosing tag cs"] utf8_Cons [of c "escapeClosing tag (cs @ q)"])
    qed
  qed
qed

section \<open>The block\<close>

text \<open>The file \<open>memory-context.md.tmpl\<close>.\<close>

definition contextIntro :: string where
  "contextIntro = ''Relevant context from previous sessions:'' @ newline @ newline"

definition memoryContextTemplate :: string where
  "memoryContextTemplate = contextIntro @ ''{{context}}'' @ newline @ newline @ ''{{feedback}}'' @ newline"

definition shipped :: "guidance_files \<Rightarrow> bool" where
  "shipped files = (files ''memory-context.md.tmpl'' = memoryContextTemplate)"

lemma template_checks: "assertTemplateSyntax memoryContextTemplate = None"
  "templateKeys memoryContextTemplate = [''context'', ''feedback'']"
  by code_simp+

lemma fill_literal: "CHR ''{'' \<notin> set lit \<Longrightarrow> fillTemplate vs (lit @ s) = lit @ fillTemplate vs s"
  by (induction lit) (auto simp: placeholderAt_def startsWith_def)

lemma fill_placeholder:
  "placeholderAt s = Some (k, r) \<Longrightarrow> fillTemplate vs s = the (map_of vs k) @ fillTemplate vs r"
  by (cases s) (auto simp: placeholderAt_def startsWith_def)

lemma intro_literal: "CHR ''{'' \<notin> set contextIntro" "CHR ''{'' \<notin> set newline"
  by code_simp+

lemma template_places:
  "placeholderAt (''{{context}}'' @ z) = Some (''context'', z)"
  "placeholderAt (''{{feedback}}'' @ z) = Some (''feedback'', z)"
  by (simp_all add: placeholderAt_def startsWith_def isWhitespace_def isNameUnit_def isWordUnit_def isLetter_def Let_def)

lemma render_template:
  "renderTemplate memoryContextTemplate [(''context'', c), (''feedback'', f)]
    = Inr (contextIntro @ c @ newline @ newline @ f @ newline)"
proof -
  have "fillTemplate vs memoryContextTemplate
      = contextIntro @ the (map_of vs ''context'') @ newline @ newline @ the (map_of vs ''feedback'') @ newline" for vs
    unfolding memoryContextTemplate_def
    by (simp only: fill_literal [OF intro_literal(1)] fill_literal [OF intro_literal(2)] fill_placeholder [OF template_places(1)]
      fill_placeholder [OF template_places(2)] fill_literal [OF intro_literal(2), of _ "[]", simplified] fillTemplate.simps append_Nil2)
  then show ?thesis by (simp add: renderTemplate_def template_checks)
qed

lemma trim_inner:
  assumes "\<not> isWhitespace a" and "\<not> isWhitespace b" and "list_all isWhitespace ws"
  shows "trim (a # u @ b # ws) = a # u @ [b]"
proof -
  have "dropWhile isWhitespace (rev ws @ b # rev u @ [a]) = b # rev u @ [a]"
    using assms by (subst dropWhile_append2) (auto simp: list_all_iff)
  with assms(1) show ?thesis by (simp add: trim_def)
qed

definition contextTag :: string where
  "contextTag = ''memory-context''"

lemma contextTag_facts: "plainTag contextTag" "barrier contextTag CHR ''.''"
  by code_simp+

lemma contextIntro_Cons: "contextIntro = CHR ''R'' # tl contextIntro" "\<not> isWhitespace CHR ''R''" "\<not> isWhitespace CHR ''>''"
  by code_simp+

lemma trim_nonempty: "\<not> isWhitespace b \<Longrightarrow> trim (u @ [b]) \<noteq> []"
  by (auto simp: trim_def dropWhile_append split: if_splits)

lemma render_shipped:
  assumes "shipped files" and "\<not> isWhitespace b"
  shows "renderMemoryContext files transport (u @ [b]) [] = Inr (contextIntro @ u @ [b])"
proof -
  have "trim (CHR ''R'' # (tl contextIntro @ u) @ b # newline @ newline @ newline) = CHR ''R'' # (tl contextIntro @ u) @ [b]"
    by (rule trim_inner) (use assms(2) contextIntro_Cons in \<open>simp_all add: newline_def isWhitespace_def\<close>)
  then have "trim (contextIntro @ (u @ [b]) @ newline @ newline @ newline) = contextIntro @ u @ [b]"
    by (subst (1 2) contextIntro_Cons(1)) simp
  then show ?thesis using trim_nonempty [OF assms(2), of u]
    using assms(1) by (simp add: shipped_def renderMemoryContext_def renderFeedback_def render_template)
qed

definition hintHead :: "string list \<Rightarrow> string" where
  "hintHead hs = (if hs = [] then ''- '' else hintSnippets hs @ newline @ ''- '')"

lemma joinWith_snoc: "xs \<noteq> [] \<Longrightarrow> joinWith sep (xs @ [x]) = joinWith sep xs @ sep @ x"
  by (induction sep xs rule: joinWith.induct) auto

lemma snippets_snoc: "hintSnippets (hs @ [t]) = hintHead hs @ t"
  by (simp add: hintSnippets_def hintHead_def joinWith_snoc)

lemma comment_end: "\<exists>w. idsComment (ids @ [i]) = w @ [CHR ''>'']"
  by (intro exI [of _ "newline @ ''<!-- surfaced-memory-ids: '' @ joinWith '','' (ids @ [i]) @ '' --''"]) (simp add: idsComment_def)

lemma block_shipped:
  assumes "shipped files"
  shows "buildMemoryContext files (hs @ [t]) (ids @ [i])
    = Inr (Some (fenceContent (contextIntro @ hintHead hs @ t @ idsComment (ids @ [i])) contextTag))"
proof -
  obtain w where w: "idsComment (ids @ [i]) = w @ [CHR ''>'']" using comment_end by blast
  from render_shipped [OF assms contextIntro_Cons(3), of Mcp "hintHead hs @ t @ w"]
  show ?thesis by (simp add: buildMemoryContext_def snippets_snoc w contextTag_def)
qed

definition blockText :: "memory_hint list \<Rightarrow> string \<Rightarrow> string \<Rightarrow> string" where
  "blockText selected t i = contextIntro @ hintHead (map mh_hint selected) @ t @ idsComment (map mh_id selected @ [i])"

lemma blockFits_shipped:
  assumes "shipped files"
  shows "blockFits files available selected t i
    = Inr (js_leq (js_nat (utf8Length (fenceContent (blockText selected t i) contextTag))) available)"
proof -
  have "fenceContent z contextTag \<noteq> []" for z by (simp add: fenceContent_def)
  then show ?thesis by (simp add: blockFits_def block_shipped [OF assms] blockText_def)
qed

lemma js_leq_nat_mono: "a \<le> b \<Longrightarrow> js_leq (js_nat b) x \<Longrightarrow> js_leq (js_nat a) x"
  by (cases x) (auto simp: js_nat_def intro: order_trans)

section \<open>Beginnings of a hint\<close>

lemma trimEnd_last: "trimEnd s \<noteq> [] \<Longrightarrow> \<not> isWhitespace (last (trimEnd s))"
  by (simp add: trimEnd_def last_rev hd_dropWhile)

lemma trimEnd_split: "\<exists>ws. s = trimEnd s @ ws \<and> list_all isWhitespace ws"
proof (intro exI conjI)
  show "s = trimEnd s @ rev (takeWhile isWhitespace (rev s))"
    unfolding trimEnd_def by (metis rev_append rev_rev_ident takeWhile_dropWhile_id)
  show "list_all isWhitespace (rev (takeWhile isWhitespace (rev s)))"
    by (auto simp: list_all_iff dest: set_takeWhileD)
qed

lemma trimEnd_append: "u \<noteq> [] \<Longrightarrow> \<not> isWhitespace (last u) \<Longrightarrow> trimEnd (u @ v) = u @ trimEnd v"
  by (cases u rule: rev_cases) (auto simp: trimEnd_def dropWhile_append)

lemma trimEnd_nonempty: "s \<noteq> [] \<Longrightarrow> \<not> isWhitespace (hd s) \<Longrightarrow> trimEnd s \<noteq> []"
  by (cases s) (auto simp: trimEnd_def dropWhile_append)

lemma beginnings_grow:
  assumes "base \<noteq> []" and "\<not> isWhitespace (hd base)" and "1 \<le> j" and "j \<le> k"
  obtains q where "trimEnd (take k base) = trimEnd (take j base) @ q" and "trimEnd (take j base) \<noteq> []"
proof -
  let ?p = "trimEnd (take j base)"
  from assms have p: "?p \<noteq> []" by (intro trimEnd_nonempty) auto
  obtain ws where ws: "take j base = ?p @ ws" using trimEnd_split by blast
  have "take k base = take j base @ take (k - j) (drop j base)" using assms(4) by (metis le_add_diff_inverse take_add)
  then have "take k base = ?p @ ws @ take (k - j) (drop j base)" using ws by simp
  with trimEnd_append [OF p trimEnd_last [OF p]] have "trimEnd (take k base) = ?p @ trimEnd (ws @ take (k - j) (drop j base))"
    by metis
  with p that show thesis by blast
qed

definition noEscape :: "memory_hint list \<Rightarrow> bool" where
  "noEscape hs = list_all (\<lambda>h. ESC \<notin> set (mh_hint h) \<and> ESC \<notin> set (mh_id h)) hs"

lemma blockText_plain:
  assumes "noEscape selected" and "ESC \<notin> set t" and "ESC \<notin> set i"
  shows "ESC \<notin> set (blockText selected t i)"
proof -
  have join: "x \<notin> set (joinWith sep xs)" if "x \<notin> set sep" "\<And>y. y \<in> set xs \<Longrightarrow> x \<notin> set y" for x sep xs
    using that by (induction sep xs rule: joinWith.induct) auto
  have lits: "ESC \<notin> set contextIntro" "ESC \<notin> set newline" "ESC \<notin> set ''- ''" "ESC \<notin> set '',''"
    "ESC \<notin> set ''<!-- surfaced-memory-ids: ''" "ESC \<notin> set '' -->''"
    by code_simp+
  have hint: "ESC \<notin> set (''- '' @ mh_hint h)" and mid: "ESC \<notin> set (mh_id h)" if "h \<in> set selected" for h
    using assms(1) that lits(3) by (auto simp: noEscape_def list_all_iff)
  have "ESC \<notin> set (hintSnippets (map mh_hint selected))"
    unfolding hintSnippets_def using hint by (intro join [OF lits(2)]) auto
  with lits(2,3) have "ESC \<notin> set (hintHead (map mh_hint selected))" unfolding hintHead_def by simp
  moreover have "ESC \<notin> set (joinWith '','' (map mh_id selected @ [i]))"
    by (rule join [OF lits(4)]) (use mid assms(3) in auto)
  with lits(2,5,6) have "ESC \<notin> set (idsComment (map mh_id selected @ [i]))"
    unfolding idsComment_def by simp
  ultimately show ?thesis using lits(1) assms(2) by (simp add: blockText_def)
qed

lemma fence_size:
  assumes "ESC \<notin> set s"
  shows "utf8Length (fenceContent s contextTag)
    = utf8Length (''<'' @ contextTag @ ''>'' @ newline) + utf8Length (escapeClosing contextTag s)
      + utf8Length (newline @ ''</'' @ contextTag @ ''>'')"
  by (simp add: fenceContent_def stripAnsi_none [OF assms] utf8Length_def)

text \<open>A longer beginning of a hint makes no smaller block.\<close>

lemma block_grows:
  assumes "noEscape selected" and "ESC \<notin> set base" and "ESC \<notin> set i"
    and "base \<noteq> []" and "\<not> isWhitespace (hd base)" and "1 \<le> j" and "j \<le> k"
  shows "utf8Length (fenceContent (blockText selected (truncatedHint base j) i) contextTag)
    \<le> utf8Length (fenceContent (blockText selected (truncatedHint base k) i) contextTag)"
proof -
  let ?x = "contextIntro @ hintHead (map mh_hint selected)" and ?c = "''..'' @ idsComment (map mh_id selected @ [i])"
  obtain q where q: "trimEnd (take k base) = trimEnd (take j base) @ q" and p: "trimEnd (take j base) \<noteq> []"
    using beginnings_grow [OF assms(4-7)] by blast
  have shape: "blockText selected (truncatedHint base m) i = (?x @ trimEnd (take m base)) @ CHR ''.'' # ?c" for m
    by (simp add: blockText_def truncatedHint_def ellipsis_def)
  have plain: "ESC \<notin> set (blockText selected (truncatedHint base m) i)" for m
  proof (rule blockText_plain [OF assms(1) _ assms(3)])
    have "set (trimEnd (take m base)) \<subseteq> set base"
      unfolding trimEnd_def using set_dropWhileD set_take_subset by fastforce
    moreover have "ESC \<notin> set ellipsis" by code_simp
    ultimately show "ESC \<notin> set (truncatedHint base m)" using assms(2) by (auto simp: truncatedHint_def)
  qed
  have "\<not> isWhitespace (last (?x @ trimEnd (take j base)))" using trimEnd_last [OF p] p by simp
  then have "utf8Length (escapeClosing contextTag (?x @ trimEnd (take j base)))
      \<le> utf8Length (escapeClosing contextTag ((?x @ trimEnd (take j base)) @ q))"
    using escape_grows [OF contextTag_facts(1)] by blast
  moreover have "utf8Length (fenceContent (blockText selected (truncatedHint base m) i) contextTag)
      = utf8Length (''<'' @ contextTag @ ''>'' @ newline) + utf8Length (escapeClosing contextTag (?x @ trimEnd (take m base)))
        + utf8Length (CHR ''.'' # escapeClosing contextTag ?c) + utf8Length (newline @ ''</'' @ contextTag @ ''>'')" for m
    using fence_size [OF plain [of m]] unfolding shape escape_barrier [OF contextTag_facts(2,1)] utf8_append by simp
  ultimately show ?thesis by (simp add: q)
qed

section \<open>Binary search\<close>

text \<open>
  The search over beginnings of \<open>base\<close>, for a test that answers and that a shorter beginning passes
  when a longer one does.
\<close>

definition beginningTest :: "(string \<Rightarrow> lcm_error + bool) \<Rightarrow> string \<Rightarrow> bool" where
  "beginningTest fits base \<longleftrightarrow>
     (\<forall>k. 1 \<le> k \<and> k \<le> length base \<longrightarrow> (\<exists>b. fits (truncatedHint base k) = Inr b))
     \<and> (\<forall>j k. 1 \<le> j \<and> j \<le> k \<and> k \<le> length base \<and> fits (truncatedHint base k) = Inr True
          \<longrightarrow> fits (truncatedHint base j) = Inr True)"

definition passes :: "(string \<Rightarrow> lcm_error + bool) \<Rightarrow> string \<Rightarrow> nat \<Rightarrow> bool" where
  "passes fits base k \<longleftrightarrow> fits (truncatedHint base k) = Inr True"

lemma beginningTest_answers:
  "beginningTest fits base \<Longrightarrow> 1 \<le> k \<Longrightarrow> k \<le> length base \<Longrightarrow> \<exists>b. fits (truncatedHint base k) = Inr b"
  by (simp add: beginningTest_def)

lemma beginningTest_fails:
  "beginningTest fits base \<Longrightarrow> 1 \<le> j \<Longrightarrow> j \<le> k \<Longrightarrow> k \<le> length base \<Longrightarrow> \<not> passes fits base j \<Longrightarrow> \<not> passes fits base k"
  unfolding beginningTest_def passes_def by metis

lemma search_from:
  "beginningTest fits base \<Longrightarrow> 0 \<le> lo \<Longrightarrow> lo \<le> hi + 1 \<Longrightarrow> hi < int (length base) \<Longrightarrow>
   (lo = 0 \<longrightarrow> best = None) \<Longrightarrow> (0 < lo \<longrightarrow> best = Some (truncatedHint base (nat lo)) \<and> passes fits base (nat lo)) \<Longrightarrow>
   \<forall>k. nat (hi + 1) < k \<and> k \<le> length base \<longrightarrow> \<not> passes fits base k \<Longrightarrow>
   \<exists>m\<le>length base. searchPrefix fits base lo hi best = Inr (if m = 0 then None else Some (truncatedHint base m))
     \<and> (0 < m \<longrightarrow> passes fits base m) \<and> (\<forall>k. m < k \<and> k \<le> length base \<longrightarrow> \<not> passes fits base k)"
proof (induction "nat (hi - lo + 1)" arbitrary: lo hi best rule: less_induct)
  case less
  show ?case
  proof (cases "lo \<le> hi")
    case False
    with less.prems(3) have "lo = hi + 1" by simp
    then show ?thesis using less.prems by (intro exI [of _ "nat lo"]) (subst searchPrefix.simps, auto)
  next
    case True
    define mid where "mid = (lo + hi) div 2"
    have mid: "lo \<le> mid" "mid \<le> hi" using True by (simp_all add: mid_def)
    let ?k = "nat (mid + 1)"
    have k: "1 \<le> ?k" "?k \<le> length base" using mid less.prems(2,4) by auto
    then obtain b where b: "fits (truncatedHint base ?k) = Inr b" using beginningTest_answers [OF less.prems(1)] by blast
    show ?thesis
    proof (cases b)
      case True
      then have step: "searchPrefix fits base lo hi best = searchPrefix fits base (mid + 1) hi (Some (truncatedHint base ?k))"
        using b \<open>lo \<le> hi\<close> by (subst searchPrefix.simps) (simp add: mid_def Let_def)
      show ?thesis unfolding step
        by (rule less.hyps) (use mid less.prems b True in \<open>auto simp: passes_def\<close>)
    next
      case False
      then have step: "searchPrefix fits base lo hi best = searchPrefix fits base lo (mid - 1) best"
        using b \<open>lo \<le> hi\<close> by (subst searchPrefix.simps) (simp add: mid_def Let_def)
      have "\<not> passes fits base ?k" using b False by (simp add: passes_def)
      then have above: "\<not> passes fits base k" if "nat (mid - 1 + 1) < k" and "k \<le> length base" for k
        using beginningTest_fails [OF less.prems(1) k(1) _ that(2)] that(1) mid less.prems(2) by simp
      show ?thesis unfolding step
        by (rule less.hyps) (use mid less.prems above in auto)
    qed
  qed
qed

lemma search_longest:
  assumes "beginningTest fits base"
  shows "\<exists>m\<le>length base. searchPrefix fits base 0 (int (length base) - 1) None = Inr (if m = 0 then None else Some (truncatedHint base m))
     \<and> (0 < m \<longrightarrow> passes fits base m) \<and> (\<forall>k. m < k \<and> k \<le> length base \<longrightarrow> \<not> passes fits base k)"
  by (rule search_from [OF assms]) auto

end
