(* ===== verification/Memory_Budget.thy ===== *)
theory Memory_Budget
  imports Memory_Facts
begin

text \<open>
  The selection of memory hints (\<open>src/hooks/memory-context.ts\<close>) with the shipped template: a hint that is
  too long is cut as little as possible, and what is selected stays under the budget.
\<close>

section \<open>Cutting a hint\<close>

lemma trim_trimmed: "trim s = s \<Longrightarrow> s \<noteq> [] \<Longrightarrow> \<not> isWhitespace (hd s)"
proof
  assume t: "trim s = s" "s \<noteq> []" and ws: "isWhitespace (hd s)"
  then obtain c cs where s: "s = c # cs" and c: "isWhitespace c" by (cases s) auto
  have "length (trim s) \<le> length (dropWhile isWhitespace s)"
    unfolding trim_def by (metis length_dropWhile_le length_rev)
  also have "\<dots> \<le> length cs" using c by (simp add: s length_dropWhile_le)
  finally show False using t s by simp
qed

lemma trim_twice: "trim (trim s) = trim s"
proof (cases "dropWhile isWhitespace s")
  case Nil
  have "trim s = []" unfolding trim_def Nil by simp
  moreover have "trim [] = []" by (simp add: trim_def)
  ultimately show ?thesis by simp
next
  case (Cons c cs)
  then have c: "\<not> isWhitespace c" by (metis hd_dropWhile list.distinct(1) list.sel(1))
  have t: "trim s = trimEnd (c # cs)" by (simp add: trim_def trimEnd_def Cons)
  with c trimEnd_append [of "[c]" cs] have head: "trim s = c # trimEnd cs" by simp
  have "trimEnd (trimEnd (c # cs)) = trimEnd (c # cs)"
    unfolding trimEnd_def by simp
  moreover have "trim (trim s) = trimEnd (dropWhile isWhitespace (c # trimEnd cs))"
    unfolding head by (simp only: trim_def trimEnd_def)
  ultimately show ?thesis using t head c by simp
qed

lemma base_facts:
  assumes "trim h = h" and "trimTrailingEllipsis h \<noteq> []"
  shows "\<not> isWhitespace (hd (trimTrailingEllipsis h))" and "set (trimTrailingEllipsis h) \<subseteq> set h"
proof -
  obtain ws where "take (length h - 3) h = trimEnd (take (length h - 3) h) @ ws" using trimEnd_split by blast
  then have "h = trimEnd (take (length h - 3) h) @ ws @ drop (length h - 3) h"
    by (metis append_assoc append_take_drop_id)
  then have p: "\<exists>r. h = trimTrailingEllipsis h @ r" unfolding trimTrailingEllipsis_def by (auto split: if_splits)
  with assms(2) have "hd (trimTrailingEllipsis h) = hd h" and "h \<noteq> []" by (metis hd_append2, auto)
  with trim_trimmed [OF assms(1)] show "\<not> isWhitespace (hd (trimTrailingEllipsis h))" by simp
  from p show "set (trimTrailingEllipsis h) \<subseteq> set h" by (metis Un_upper1 set_append)
qed

lemma beginnings_test:
  assumes "shipped files" and "noEscape selected" and "ESC \<notin> set h" and "ESC \<notin> set i" and "trim h = h"
  shows "beginningTest (\<lambda>t. blockFits files available selected t i) (trimTrailingEllipsis h)"
  unfolding beginningTest_def
proof (intro conjI allI impI)
  let ?base = "trimTrailingEllipsis h"
  fix j k assume k: "1 \<le> j \<and> j \<le> k \<and> k \<le> length ?base
     \<and> blockFits files available selected (truncatedHint ?base k) i = Inr True"
  then have base: "?base \<noteq> []" by auto
  from base_facts [OF assms(5) base] assms(3) have "ESC \<notin> set ?base" "\<not> isWhitespace (hd ?base)" by auto
  from block_grows [OF assms(2) this(1) assms(4) base this(2)] k
  show "blockFits files available selected (truncatedHint ?base j) i = Inr True"
    by (auto simp: blockFits_shipped [OF assms(1)] intro: js_leq_nat_mono)
qed (simp add: blockFits_shipped [OF assms(1)])


section \<open>Selection\<close>

definition shownHint :: "string \<Rightarrow> string \<Rightarrow> bool" where
  "shownHint full h \<longleftrightarrow> h = full \<or> (\<exists>k\<ge>1. h = truncatedHint (trimTrailingEllipsis full) k)"

lemma search_result:
  assumes "\<And>t. \<exists>b. fits t = Inr b"
  shows "0 \<le> lo \<Longrightarrow> \<forall>t. best = Some t \<longrightarrow> fits t = Inr True \<and> (\<exists>k\<ge>1. t = truncatedHint base k) \<Longrightarrow>
    \<exists>r. searchPrefix fits base lo hi best = Inr r \<and>
      (\<forall>t. r = Some t \<longrightarrow> fits t = Inr True \<and> (\<exists>k\<ge>1. t = truncatedHint base k))"
proof (induction "nat (hi - lo + 1)" arbitrary: lo hi best rule: less_induct)
  case less
  show ?case
  proof (cases "lo \<le> hi")
    case False
    then show ?thesis using less.prems by (subst searchPrefix.simps) simp
  next
    case True
    define mid where "mid = (lo + hi) div 2"
    have mid: "lo \<le> mid" "mid \<le> hi" using True by (simp_all add: mid_def)
    let ?t = "truncatedHint base (nat (mid + 1))"
    have k: "1 \<le> nat (mid + 1)" using mid less.prems(1) by simp
    obtain b where b: "fits ?t = Inr b" using assms by blast
    have step: "searchPrefix fits base lo hi best
        = (if b then searchPrefix fits base (mid + 1) hi (Some ?t) else searchPrefix fits base lo (mid - 1) best)"
      using b True by (subst searchPrefix.simps) (simp add: mid_def Let_def)
    show ?thesis
    proof (cases b)
      case True
      have "\<exists>r. searchPrefix fits base (mid + 1) hi (Some ?t) = Inr r \<and>
        (\<forall>t. r = Some t \<longrightarrow> fits t = Inr True \<and> (\<exists>k\<ge>1. t = truncatedHint base k))"
        by (rule less.hyps) (use mid less.prems b True k in auto)
      with step True show ?thesis by simp
    next
      case False
      have "\<exists>r. searchPrefix fits base lo (mid - 1) best = Inr r \<and>
        (\<forall>t. r = Some t \<longrightarrow> fits t = Inr True \<and> (\<exists>k\<ge>1. t = truncatedHint base k))"
        by (rule less.hyps) (use mid less.prems in auto)
      with step False show ?thesis by simp
    qed
  qed
qed

lemma fit_result:
  assumes "shipped files"
  shows "\<exists>r. fitHintWithinBudget files selected c available = Inr r \<and>
    (\<forall>t. r = Some t \<longrightarrow> blockFits files available selected t (mh_id c) = Inr True \<and> shownHint (mh_hint c) t)"
proof -
  let ?fits = "\<lambda>t. blockFits files available selected t (mh_id c)"
  have total: "\<exists>b. ?fits t = Inr b" for t by (simp add: blockFits_shipped [OF assms])
  obtain b where b: "?fits (mh_hint c) = Inr b" using total by blast
  show ?thesis
  proof (cases b)
    case True
    with b show ?thesis by (simp add: fitHintWithinBudget_def shownHint_def)
  next
    case False
    let ?base = "trimTrailingEllipsis (mh_hint c)"
    from search_result [of ?fits 0 None ?base "int (length ?base) - 1", OF total]
    obtain r where r: "searchPrefix ?fits ?base 0 (int (length ?base) - 1) None = Inr r"
      "\<forall>t. r = Some t \<longrightarrow> ?fits t = Inr True \<and> (\<exists>k\<ge>1. t = truncatedHint ?base k)" by auto
    have "fitHintWithinBudget files selected c available = Inr r"
      using b False r(1) by (simp add: fitHintWithinBudget_def Let_def)
    with r(2) show ?thesis unfolding shownHint_def by blast
  qed
qed

definition blockBytes :: "memory_hint list \<Rightarrow> nat" where
  "blockBytes hs = utf8Length (fenceContent (contextIntro @ hintSnippets (map mh_hint hs) @ idsComment (map mh_id hs)) contextTag)"

lemma blockFits_bytes:
  assumes "shipped files"
  shows "blockFits files available selected h (mh_id c) = Inr True
    \<longleftrightarrow> js_leq (js_nat (blockBytes (selected @ [c\<lparr>mh_hint := h\<rparr>]))) available"
  by (simp add: blockFits_shipped [OF assms] blockText_def blockBytes_def snippets_snoc)

definition wholeLimit :: "js_number \<Rightarrow> bool" where
  "wholeLimit x \<longleftrightarrow> (case x of Num a \<Rightarrow> 0 \<le> a \<and> a = of_int \<lfloor>a\<rfloor> | PosInf \<Rightarrow> True | NegInf \<Rightarrow> False | NaN \<Rightarrow> False)"

lemma wholeLimit_max: "x \<noteq> NaN \<Longrightarrow> wholeLimit (js_max (Num 0) (js_floor x))"
  by (cases x) (auto simp: wholeLimit_def js_max_def)

lemma wholeLimit_next: "wholeLimit x \<Longrightarrow> \<not> js_leq x (js_nat n) \<Longrightarrow> js_leq (js_nat (Suc n)) x"
proof (cases x)
  case (Num a)
  assume w: "wholeLimit x" and n: "\<not> js_leq x (js_nat n)"
  from w Num obtain z where z: "a = of_int z" by (auto simp: wholeLimit_def)
  from n Num have "of_int (int n) < (of_int z :: rat)" by (simp add: js_nat_def z)
  then have "int n < z" by (simp only: of_int_less_iff)
  then have "of_int (int (Suc n)) \<le> (of_int z :: rat)" by (simp only: of_int_le_iff)
  then show ?thesis by (simp add: Num z js_nat_def)
qed (auto simp: wholeLimit_def js_nat_def)

lemma emit_spec:
  assumes "shipped files"
  shows "\<exists>new d kept. emitHints files available maxEmitted emitted dropped cs = Inr (emitted @ new, dropped + d)
    \<and> length new + d = length cs \<and> subseq kept cs
    \<and> list_all2 (\<lambda>k n. mh_id n = mh_id k \<and> shownHint (mh_hint k) (mh_hint n)) kept new
    \<and> (new \<noteq> [] \<longrightarrow> js_leq (js_nat (blockBytes (emitted @ new))) available)
    \<and> (new \<noteq> [] \<longrightarrow> wholeLimit maxEmitted \<longrightarrow> js_leq (js_nat (length (emitted @ new))) maxEmitted)"
proof (induction cs arbitrary: emitted dropped)
  case Nil
  show ?case by simp
next
  case (Cons c cs)
  have skip: ?case if step: "emitHints files available maxEmitted emitted dropped (c # cs)
      = emitHints files available maxEmitted emitted (Suc dropped) cs"
  proof -
    from Cons [of emitted "Suc dropped"] obtain new d kept where
      r: "emitHints files available maxEmitted emitted (Suc dropped) cs = Inr (emitted @ new, Suc dropped + d)"
      "length new + d = length cs" "subseq kept cs"
      "list_all2 (\<lambda>k n. mh_id n = mh_id k \<and> shownHint (mh_hint k) (mh_hint n)) kept new"
      "new \<noteq> [] \<longrightarrow> js_leq (js_nat (blockBytes (emitted @ new))) available"
      "new \<noteq> [] \<longrightarrow> wholeLimit maxEmitted \<longrightarrow> js_leq (js_nat (length (emitted @ new))) maxEmitted" by blast
    then show ?thesis unfolding step by (intro exI [of _ new] exI [of _ "Suc d"] exI [of _ kept]) (simp add: list_emb_Cons)
  qed
  show ?case
  proof (cases "js_leq maxEmitted (js_nat (length emitted))")
    case True
    then show ?thesis by (intro skip) simp
  next
    case False
    obtain r where r: "fitHintWithinBudget files emitted c available = Inr r"
      "\<And>t. r = Some t \<Longrightarrow> blockFits files available emitted t (mh_id c) = Inr True \<and> shownHint (mh_hint c) t"
      using fit_result [OF assms] by blast
    show ?thesis
    proof (cases "\<exists>h. r = Some h \<and> h \<noteq> []")
      case no: False
      then show ?thesis using False r(1) by (intro skip) (auto split: option.splits)
    next
      case True
      then obtain h where h: "r = Some h" "h \<noteq> []" by blast
      let ?n = "c\<lparr>mh_hint := h\<rparr>"
      have step: "emitHints files available maxEmitted emitted dropped (c # cs)
          = emitHints files available maxEmitted (emitted @ [?n]) dropped cs" using False r(1) h by simp
      from r(2) [OF h(1)] have fits: "js_leq (js_nat (blockBytes (emitted @ [?n]))) available" "shownHint (mh_hint c) h"
        by (simp_all add: blockFits_bytes [OF assms])
      have room: "wholeLimit maxEmitted \<Longrightarrow> js_leq (js_nat (length (emitted @ [?n]))) maxEmitted"
        using wholeLimit_next [OF _ False] by simp
      from Cons [of "emitted @ [?n]" dropped] obtain new d kept where
        e: "emitHints files available maxEmitted (emitted @ [?n]) dropped cs = Inr (emitted @ ?n # new, dropped + d)"
        "length new + d = length cs" "subseq kept cs"
        "list_all2 (\<lambda>k n. mh_id n = mh_id k \<and> shownHint (mh_hint k) (mh_hint n)) kept new"
        "new \<noteq> [] \<longrightarrow> js_leq (js_nat (blockBytes (emitted @ ?n # new))) available"
        "new \<noteq> [] \<longrightarrow> wholeLimit maxEmitted \<longrightarrow> js_leq (js_nat (length (emitted @ ?n # new))) maxEmitted" by auto
      show ?thesis unfolding step
        by (intro exI [of _ "?n # new"] exI [of _ d] exI [of _ "c # kept"])
          (use e fits room in \<open>cases new; auto\<close>)
    qed
  qed
qed

text \<open>A candidate that is kept is no near duplicate of one kept before it.\<close>

definition distinctHints :: "js_number \<Rightarrow> memory_hint \<Rightarrow> memory_hint \<Rightarrow> bool" where
  "distinctHints minPrefix a b \<longleftrightarrow>
     \<not> isNearDuplicate (normalizeHint (trim (mh_hint b))) (normalizeHint (trim (mh_hint a))) minPrefix"

definition trimmedHint :: "memory_hint \<Rightarrow> memory_hint" where
  "trimmedHint c = c\<lparr>mh_hint := trim (mh_hint c)\<rparr>"

definition hintNorm :: "memory_hint \<Rightarrow> string" where
  "hintNorm c = normalizeHint (trim (mh_hint c))"

lemma dedupe_spec:
  "sorted_wrt (distinctHints p) old \<Longrightarrow>
   \<exists>kept n. dedupeHints p (map hintNorm old) (map trimmedHint old) dups cs = (map trimmedHint (old @ kept), dups + n)
     \<and> subseq kept cs \<and> sorted_wrt (distinctHints p) (old @ kept)
     \<and> length cs = length kept + n + length (filter (\<lambda>c. trim (mh_hint c) = []) cs)"
proof (induction cs arbitrary: old dups)
  case Nil
  then show ?case by simp
next
  case (Cons c cs)
  let ?dup = "list_ex (\<lambda>existing. isNearDuplicate (hintNorm c) existing p) (map hintNorm old)"
  consider "trim (mh_hint c) = []" | "trim (mh_hint c) \<noteq> []" ?dup | "trim (mh_hint c) \<noteq> []" "\<not> ?dup" by blast
  then show ?case
  proof cases
    case 1
    from Cons.IH [OF Cons.prems, of dups] 1 show ?thesis by (auto simp: Let_def intro!: list_emb_Cons)
  next
    case 2
    then have step: "dedupeHints p (map hintNorm old) (map trimmedHint old) dups (c # cs)
        = dedupeHints p (map hintNorm old) (map trimmedHint old) (Suc dups) cs" by (simp add: hintNorm_def Let_def)
    from Cons.IH [OF Cons.prems, of "Suc dups"] obtain kept n where
      "dedupeHints p (map hintNorm old) (map trimmedHint old) (Suc dups) cs = (map trimmedHint (old @ kept), Suc dups + n)"
      "subseq kept cs" "sorted_wrt (distinctHints p) (old @ kept)"
      "length cs = length kept + n + length (filter (\<lambda>c. trim (mh_hint c) = []) cs)" by blast
    with 2(1) show ?thesis unfolding step by (intro exI [of _ kept] exI [of _ "Suc n"]) (simp add: list_emb_Cons)
  next
    case 3
    then have step: "dedupeHints p (map hintNorm old) (map trimmedHint old) dups (c # cs)
        = dedupeHints p (map hintNorm (old @ [c])) (map trimmedHint (old @ [c])) dups cs"
      by (simp add: hintNorm_def trimmedHint_def Let_def)
    have "sorted_wrt (distinctHints p) (old @ [c])"
      unfolding sorted_wrt_append using Cons.prems 3(2) by (simp add: list_ex_iff distinctHints_def [of p _ c] hintNorm_def)
    from Cons.IH [OF this, of dups] obtain kept n where
      "dedupeHints p (map hintNorm (old @ [c])) (map trimmedHint (old @ [c])) dups cs
         = (map trimmedHint ((old @ [c]) @ kept), dups + n)"
      "subseq kept cs" "sorted_wrt (distinctHints p) ((old @ [c]) @ kept)"
      "length cs = length kept + n + length (filter (\<lambda>c. trim (mh_hint c) = []) cs)" by blast
    with 3(1) show ?thesis unfolding step by (intro exI [of _ "c # kept"] exI [of _ n]) simp
  qed
qed

lemma subseq_of_map: "subseq zs (map f xs) \<Longrightarrow> \<exists>ys. zs = map f ys \<and> subseq ys xs"
  by (auto simp: subseq_conv_nths nths_map)

lemma sorted_wrt_subseq: "subseq ys xs \<Longrightarrow> sorted_wrt P xs \<Longrightarrow> sorted_wrt P ys"
proof (induction rule: list_emb.induct)
  case (list_emb_Cons2 a b as bs)
  then have "set as \<subseteq> set bs" using subseq_conv_nths set_nths_subset by metis
  with list_emb_Cons2 show ?case by auto
qed auto

lemma block_of_hints:
  assumes "shipped files"
  shows "buildMemoryContext files (map mh_hint hs) (map mh_id hs) =
    Inr (if hs = [] then None else Some (fenceContent (contextIntro @ hintSnippets (map mh_hint hs) @ idsComment (map mh_id hs)) contextTag))"
proof (cases hs rule: rev_cases)
  case Nil
  then show ?thesis by (simp add: buildMemoryContext_def)
next
  case (snoc init c)
  then show ?thesis by (simp add: block_shipped [OF assms] snippets_snoc)
qed

text \<open>The selection as the two loops leave it.\<close>

definition selectionOf :: "hint_options \<Rightarrow> memory_hint list \<Rightarrow> nat \<Rightarrow> nat \<Rightarrow> hint_selection" where
  "selectionOf options new dups dropped = \<lparr>hs_hints = map mh_hint new, hs_ids = map mh_id new,
     hs_availableHintBytes = availableBytes options, hs_usedHintBytes = (if new = [] then 0 else blockBytes new),
     hs_dedupedCount = dups, hs_droppedForBudget = dropped\<rparr>"

lemma selection_run:
  assumes "shipped files"
  shows "\<exists>new kept n dropped. selectMemoryHintsWithinBudget files candidates options = Inr (selectionOf options new n dropped)
    \<and> subseq kept candidates \<and> sorted_wrt (distinctHints (ho_dedupMinPrefix options)) kept
    \<and> list_all2 (\<lambda>k h. mh_id h = mh_id k \<and> shownHint (trim (mh_hint k)) (mh_hint h)) kept new
    \<and> (new \<noteq> [] \<longrightarrow> js_leq (js_nat (blockBytes new)) (availableBytes options))
    \<and> (new \<noteq> [] \<longrightarrow> wholeLimit (js_max (Num 0) (js_floor (ho_maxEmitted options))) \<longrightarrow>
        js_leq (js_nat (length new)) (js_max (Num 0) (js_floor (ho_maxEmitted options))))
    \<and> length candidates = length kept + n + dropped + length (filter (\<lambda>c. trim (mh_hint c) = []) candidates)"
proof -
  let ?limit = "js_max (Num 0) (js_floor (ho_maxEmitted options))" and ?av = "availableBytes options"
    and ?p = "ho_dedupMinPrefix options"
  from dedupe_spec [of ?p "[]" 0 candidates] obtain found n where
    d: "dedupeHints ?p [] [] 0 candidates = (map trimmedHint found, n)" "subseq found candidates"
    "sorted_wrt (distinctHints ?p) found"
    "length candidates = length found + n + length (filter (\<lambda>c. trim (mh_hint c) = []) candidates)" by auto
  from emit_spec [OF assms, of ?av ?limit "[]" 0 "map trimmedHint found"] obtain new dropped shown where
    e: "emitHints files ?av ?limit [] 0 (map trimmedHint found) = Inr (new, dropped)"
    "length new + dropped = length found" "subseq shown (map trimmedHint found)"
    "list_all2 (\<lambda>k n. mh_id n = mh_id k \<and> shownHint (mh_hint k) (mh_hint n)) shown new"
    "new \<noteq> [] \<longrightarrow> js_leq (js_nat (blockBytes new)) ?av"
    "new \<noteq> [] \<longrightarrow> wholeLimit ?limit \<longrightarrow> js_leq (js_nat (length new)) ?limit" by auto
  from e(3) obtain kept where k: "shown = map trimmedHint kept" "subseq kept found"
    using subseq_of_map by blast
  from e(4) have pairs: "list_all2 (\<lambda>k n. mh_id n = mh_id k \<and> shownHint (trim (mh_hint k)) (mh_hint n)) kept new"
    unfolding k(1) by (simp add: list_all2_map1 trimmedHint_def)
  have "selectMemoryHintsWithinBudget files candidates options = Inr (selectionOf options new n dropped)"
    by (simp add: selectMemoryHintsWithinBudget_def d(1) e(1) block_of_hints [OF assms] blockBytes_def selectionOf_def Let_def)
  moreover have "subseq kept candidates" and "sorted_wrt (distinctHints ?p) kept"
    using subseq_order.trans [OF k(2) d(2)] sorted_wrt_subseq [OF k(2) d(3)] by auto
  moreover have "length candidates = length kept + n + dropped + length (filter (\<lambda>c. trim (mh_hint c) = []) candidates)"
    using d(4) e(2) list_all2_lengthD [OF pairs] by simp
  ultimately show ?thesis using pairs e(5,6) by blast
qed

lemma kept_shown:
  assumes "list_all2 (\<lambda>k h. mh_id h = mh_id k \<and> shownHint (trim (mh_hint k)) (mh_hint h)) kept new"
  shows "length new = length kept" "map mh_id new = map mh_id kept"
    "list_all2 (\<lambda>k h. shownHint (trim (mh_hint k)) h) kept (map mh_hint new)"
  using assms by (auto simp: list_all2_conv_all_nth intro: nth_equalityI)

text \<open>C34:
  With the shipped template the selection answers.  What it returns is a part of the candidates in
  their order, no two of them near duplicates, each shown whole or as a beginning with dots; the block
  that is made of it is within the available bytes, at most the configured number is emitted, and every
  other candidate is counted as blank, duplicate or dropped.
\<close>

theorem hints_fit_budget:
  assumes "shipped files"
  shows "\<exists>s kept. selectMemoryHintsWithinBudget files candidates options = Inr s
    \<and> subseq kept candidates \<and> sorted_wrt (distinctHints (ho_dedupMinPrefix options)) kept
    \<and> hs_ids s = map mh_id kept \<and> list_all2 (\<lambda>k h. shownHint (trim (mh_hint k)) h) kept (hs_hints s)
    \<and> (kept \<noteq> [] \<longrightarrow> js_leq (js_nat (hs_usedHintBytes s)) (availableBytes options))
    \<and> buildMemoryContext files (hs_hints s) (hs_ids s) = Inr (if kept = [] then None else Some (fenceContent
        (contextIntro @ hintSnippets (hs_hints s) @ idsComment (hs_ids s)) contextTag))
    \<and> (kept \<noteq> [] \<longrightarrow> hs_usedHintBytes s = utf8Length (fenceContent
        (contextIntro @ hintSnippets (hs_hints s) @ idsComment (hs_ids s)) contextTag))
    \<and> (kept \<noteq> [] \<longrightarrow> ho_maxEmitted options \<noteq> NaN \<longrightarrow>
        js_leq (js_nat (length kept)) (js_max (Num 0) (js_floor (ho_maxEmitted options))))
    \<and> length candidates = length kept + hs_dedupedCount s + hs_droppedForBudget s
        + length (filter (\<lambda>c. trim (mh_hint c) = []) candidates)"
proof -
  from selection_run [OF assms, of candidates options] obtain new kept n dropped where
    r: "selectMemoryHintsWithinBudget files candidates options = Inr (selectionOf options new n dropped)"
    "subseq kept candidates" "sorted_wrt (distinctHints (ho_dedupMinPrefix options)) kept"
    "list_all2 (\<lambda>k h. mh_id h = mh_id k \<and> shownHint (trim (mh_hint k)) (mh_hint h)) kept new"
    "new \<noteq> [] \<longrightarrow> js_leq (js_nat (blockBytes new)) (availableBytes options)"
    "new \<noteq> [] \<longrightarrow> wholeLimit (js_max (Num 0) (js_floor (ho_maxEmitted options))) \<longrightarrow>
        js_leq (js_nat (length new)) (js_max (Num 0) (js_floor (ho_maxEmitted options)))"
    "length candidates = length kept + n + dropped + length (filter (\<lambda>c. trim (mh_hint c) = []) candidates)" by blast
  note k = kept_shown [OF r(4)]
  have empty: "new = [] \<longleftrightarrow> kept = []" using k(1) by auto
  have block: "buildMemoryContext files (map mh_hint new) (map mh_id new) = Inr (if kept = [] then None else
      Some (fenceContent (contextIntro @ hintSnippets (map mh_hint new) @ idsComment (map mh_id new)) contextTag))"
    using block_of_hints [OF assms, of new] empty by simp
  show ?thesis
    using r(1-3,5-7) k block empty wholeLimit_max
    by (intro exI [of _ "selectionOf options new n dropped"] exI [of _ kept]) (simp add: blockBytes_def selectionOf_def)
qed

section \<open>Instances\<close>

definition shippedFiles :: guidance_files where
  "shippedFiles name = (if name = ''memory-context.md.tmpl'' then memoryContextTemplate else [])"

definition sample_hint :: memory_hint where
  "sample_hint = \<lparr>mh_id = ''m1'', mh_hint = ''Use Postgres for tests''\<rparr>"

definition sample_budget :: hint_options where
  "sample_budget = \<lparr>ho_totalByteBudget = Num 200, ho_reservedForLearningInstruction = Num 72,
     ho_learningInstructionBytes = Num 0, ho_maxEmitted = Num 2, ho_dedupMinPrefix = Num 40\<rparr>"

lemma shipped_sample: "shipped shippedFiles"
  by (simp add: shipped_def shippedFiles_def)

lemma sample_cut: "fitHintWithinBudget shippedFiles [] sample_hint (Num 128) = Inr (Some ''Use Postgres...'')"
  by code_simp

lemma sample_plain: "noEscape []" "ESC \<notin> set (mh_hint sample_hint)" "ESC \<notin> set (mh_id sample_hint)"
  "trim (mh_hint sample_hint) = mh_hint sample_hint"
  by code_simp+

lemma cut_choice: "Inr (Some t) = Inr (if b then Some h else if m = 0 then None else Some u) \<Longrightarrow> h \<noteq> t \<Longrightarrow> t = u"
  by (auto split: if_splits)


theorem hints_fit_budget_witness:
  "\<exists>s kept. selectMemoryHintsWithinBudget shippedFiles [sample_hint, sample_hint] sample_budget = Inr s
     \<and> subseq kept [sample_hint, sample_hint] \<and> hs_ids s = map mh_id kept
     \<and> 2 = length kept + hs_dedupedCount s + hs_droppedForBudget s"
proof -
  have "trim (mh_hint sample_hint) \<noteq> []" by code_simp
  moreover from hints_fit_budget [OF shipped_sample, of "[sample_hint, sample_hint]" sample_budget]
  obtain s kept where "selectMemoryHintsWithinBudget shippedFiles [sample_hint, sample_hint] sample_budget = Inr s"
    "subseq kept [sample_hint, sample_hint]" "hs_ids s = map mh_id kept"
    "length [sample_hint, sample_hint] = length kept + hs_dedupedCount s + hs_droppedForBudget s
        + length (filter (\<lambda>c. trim (mh_hint c) = []) [sample_hint, sample_hint])" by (elim exE conjE) rule
  ultimately show ?thesis by (intro exI [of _ s] exI [of _ kept]) simp
qed

text \<open>
  With an escape sequence in a hint the size of a block is not monotone, since a complete sequence is
  stripped and an incomplete one is not: the search stops inside the sequence although a longer
  beginning fits.  One pass of stripping may also leave a sequence.
\<close>

definition coloured_hint :: memory_hint where
  "coloured_hint = \<lparr>mh_id = ''m1'', mh_hint = ''ab'' @ [ESC] @ ''[31mcdefghijklmnop''\<rparr>"

lemma escape_misleads_search:
  "fitHintWithinBudget shippedFiles [] coloured_hint (Num 119) = Inr (Some (''ab'' @ [ESC] @ ''[...''))"
  "blockFits shippedFiles (Num 119) [] (truncatedHint (mh_hint coloured_hint) 9) ''m1'' = Inr True"
  by code_simp+

lemma strip_leaves_sequence: "stripAnsi ([ESC, ESC] @ ''[0m[0m'') = ESC # ''[0m''"
  by code_simp

end
