(* ===== verification/Promoted_Dedup.thy ===== *)
theory Promoted_Dedup
  imports Promoted_Search
begin

text \<open>
  The promoted memory as a whole: the mirror survives any sequence of calls with any failures, and an
  insertion with deduplication never adds a second active memory of the same content to a project.
\<close>

section \<open>Calls inside a transaction\<close>

lemma triple_scoped_atomic:
  assumes "atomic_op m Q"
  shows "triple (\<lambda>w. in_transaction d t w \<and> w_db w = x) (invoke (ScopedInvoker t) False m)
     (\<lambda>a w. in_transaction d t w \<and> Q x a (w_db w)) (broken_transaction d)"
proof -
  have body: "triple (\<lambda>w. in_transaction d t w \<and> w_db w = x) m
     (\<lambda>a w. in_transaction d t w \<and> Q x a (w_db w)) (broken_transaction d)"
  proof (rule triple_pre)
    fix v assume v: "in_transaction d t v \<and> w_db v = x"
    have "triple (\<lambda>w. frame w = frame v \<and> w_saved w = [('''', d)] \<and> w_db w = x) m
       (\<lambda>a w. frame w = frame v \<and> w_saved w = [('''', d)] \<and> Q x a (w_db w)) (left_open (frame v) [('''', d)] x)"
      using assms unfolding atomic_op_def by blast
    then show "triple (\<lambda>w. w = v) m (\<lambda>a w. in_transaction d t w \<and> Q x a (w_db w)) (broken_transaction d)"
      by (rule triple_conseq)
        (use v in \<open>auto simp: in_transaction_def left_open_def broken_transaction_def dest: frame_fields\<close>)
  qed
  show ?thesis
    unfolding invoke_def runScoped_def
    by (simp, rule triple_getW, rule triple_if, rule triple_throw, blast intro: in_transaction_broken,
        rule triple_usable, rule triple_pre_imp [OF triple_normalized [OF body]])
      (auto intro: in_transaction_broken)
qed

lemma triple_scoped_mirror:
  assumes "atomic_op m Q" and "\<And>x a y. Q x a y \<Longrightarrow> mirror x \<Longrightarrow> mirror y"
  shows "triple (\<lambda>w. in_transaction d t w \<and> mirror (w_db w)) (invoke (ScopedInvoker t) False m)
     (\<lambda>_ w. in_transaction d t w \<and> mirror (w_db w)) (broken_transaction d)"
  by (rule triple_pre, rule triple_conseq [OF triple_scoped_atomic [OF assms(1)]]) (use assms(2) in auto)

section \<open>The searches change nothing\<close>

lemma quiet_results: "quiet (mapM (\<lambda>r. bindM (liftE (f r)) (\<lambda>c. ret (g r c))) xs)"
  by (intro quiet_rules)

lemma quiet_search: "quiet (searchPromoted rankOf opts support query limit filterTags projectId)"
  unfolding searchPromoted_def searchWithFts_eq searchWithoutFts_def Let_def readResult_def [abs_def]
  by (intro quiet_rules)

lemma quiet_exact: "quiet (mapRecord (findExactContent content projectId))"
  unfolding mapRecord_def findExactContent_def publicPromotedRow_def promotedRecord_def
  by (intro quiet_rules; auto intro!: quiet_rules split: option.split)+

lemma quiet_foldM [quiet_rules]: "(\<And>s x. quiet (f s x)) \<Longrightarrow> quiet (foldM f s xs)"
  by (induction xs arbitrary: s) (auto intro: quiet_rules)

lemma quiet_evidence: "quiet (collectPromotedRecallEvidence engine opts selected query)"
  unfolding collectPromotedRecallEvidence_def countEvidence_def evidenceBatch_def Let_def
  by (intro quiet_rules)

lemma effect_quiet: "quiet m \<Longrightarrow> effect (\<lambda>x. x = d) m (\<lambda>_ x. x = d)"
  by (rule effectI) (auto simp: quiet_def silent_def, metis snd_conv)

lemma atomic_recall: "atomic_op (searchForRecall engine opts query limit filterTags projectId) (\<lambda>d _ x. x = d)"
  unfolding searchForRecall_def
  by (rule atomic_savepoint, rule effect_quiet, intro quiet_bind quiet_search quiet_evidence)

lemma quiet_atomic: "quiet m \<Longrightarrow> atomic_op m (\<lambda>d _ x. x = d)"
  by (rule atomic_quiet) simp_all

section \<open>Any sequence of calls\<close>

text \<open>A call of the promoted memory from outside a transaction, with any outcome.\<close>

inductive promoted_call :: "promoted_env \<Rightarrow> world \<Rightarrow> world \<Rightarrow> bool" for env where
  call_insertPromoted: "repo_insertPromoted RootInvoker env i w = (r1, w') \<Longrightarrow> promoted_call env w w'"
| call_archivePromoted: "repo_archivePromoted RootInvoker env k w = (r2, w') \<Longrightarrow> promoted_call env w w'"
| call_deletePromoted: "repo_deletePromoted RootInvoker env k w = (r2, w') \<Longrightarrow> promoted_call env w w'"
| call_updatePromoted: "repo_updatePromoted RootInvoker env k changes w = (r2, w') \<Longrightarrow> promoted_call env w w'"
| call_revivePromoted: "repo_revivePromoted RootInvoker env k w = (r2, w') \<Longrightarrow> promoted_call env w w'"
| call_searchForRecall: "repo_searchPromotedForRecall RootInvoker env q n tags p w = (r3, w') \<Longrightarrow> promoted_call env w w'"
| call_deduplicate: "deduplicateAndInsert None env dd w = (r4, w') \<Longrightarrow> promoted_call env w w'"

text \<open>Between two calls: no scope is open, and what is durable has its mirror.\<close>

definition mirrored :: "world \<Rightarrow> bool" where
  "mirrored w \<longleftrightarrow> w_ctx w = None \<and> w_atomic w = None \<and> mirror (durable w)"

lemma mirrored_atomic:
  assumes "atomic_op m Q" and "\<And>x a y. Q x a y \<Longrightarrow> mirror x \<Longrightarrow> mirror y" and "mirrored w"
    and "invoke RootInvoker False m w = (r, w')"
  shows "mirrored w'"
proof (cases "w_poisoned w")
  case True
  then show ?thesis using assms(3,4)
    by (auto simp: invoke_def run_def assertUsable_def mirrored_def bindM_def op_apply split: if_splits)
next
  case False
  then have n: "normalized m w = (r, w')"
    using assms(3,4) by (simp add: invoke_def run_def enqueue_def assertUsable_def mirrored_def normalized_def catchM_def
        bindM_def op_apply)
  obtain r0 where m: "m w = (r0, w')"
    using n by (auto simp: normalized_def catchM_def op_apply split: prod.splits sum.splits)
  have t: "triple (\<lambda>v. frame v = frame w \<and> w_saved v = w_saved w \<and> w_db v = w_db w) m
     (\<lambda>a v. frame v = frame w \<and> w_saved v = w_saved w \<and> Q (w_db w) a (w_db v)) (left_open (frame w) (w_saved w) (w_db w))"
    using assms(1) unfolding atomic_op_def by blast
  show ?thesis
  proof (cases r0)
    case (Inl e)
    then have "left_open (frame w) (w_saved w) (w_db w) w'" using triple_error [OF t _] m by blast
    then show ?thesis using assms(3) by (auto simp: left_open_def mirrored_def durable_def dest: frame_fields)
  next
    case (Inr a)
    then have "frame w' = frame w \<and> w_saved w' = w_saved w \<and> Q (w_db w) a (w_db w')" using triple_value [OF t _] m by blast
    then show ?thesis using assms(2,3) by (auto simp: mirrored_def durable_def dest: frame_fields split: if_splits)
  qed
qed

lemma triple_foreach_archive:
  assumes "fts5Available (pe_options env)"
  shows "triple (\<lambda>w. in_transaction d t w \<and> mirror (w_db w)) (foreachM (\<lambda>c. repo_archivePromoted (ScopedInvoker t) env (sr_id c)) cs)
     (\<lambda>_ w. in_transaction d t w \<and> mirror (w_db w)) (broken_transaction d)"
  by (rule triple_foreachM, unfold repo_archivePromoted_def,
      rule triple_scoped_mirror [OF atomic_archive [OF assms]]) (rule mirror_archiveRel)

lemma dedup_keeps_mirror:
  assumes fts: "fts5Available (pe_options env)"
  shows "triple (\<lambda>w. in_transaction d t w \<and> mirror (w_db w)) (deduplicateAndInsertInRepositories None (ScopedInvoker t) env i)
     (\<lambda>_ w. in_transaction d t w \<and> mirror (w_db w)) (broken_transaction d)"
proof -
  let ?I = "\<lambda>w. in_transaction d t w \<and> mirror (w_db w)"
  have search: "triple ?I (repo_searchPromoted (ScopedInvoker t) env q n None p) (\<lambda>_. ?I) (broken_transaction d)" for q n p
    unfolding repo_searchPromoted_def by (rule triple_scoped_mirror [OF quiet_atomic [OF quiet_search]]) simp
  have exact: "triple ?I (repo_findExactContent (ScopedInvoker t) env c p) (\<lambda>_. ?I) (broken_transaction d)" for c p
    unfolding repo_findExactContent_def by (rule triple_scoped_mirror [OF quiet_atomic [OF quiet_exact]]) simp
  have insert: "triple ?I (repo_insertPromoted (ScopedInvoker t) env j) (\<lambda>_. ?I) (broken_transaction d)" for j
    unfolding repo_insertPromoted_def by (rule triple_scoped_mirror [OF atomic_insert [OF fts]]) (rule mirror_insertRel)
  have update: "triple ?I (repo_updatePromoted (ScopedInvoker t) env k changes) (\<lambda>_. ?I) (broken_transaction d)" for k changes
    unfolding repo_updatePromoted_def
    by (rule triple_scoped_mirror [OF atomic_update [OF fts]]) (blast intro: mirror_updateRel)
  have merge: "triple ?I (mergeDuplicates (ScopedInvoker t) env i c cs) (\<lambda>_. ?I) (broken_transaction d)" for c cs
    unfolding mergeDuplicates_def
    by (rule triple_bind [OF update], rule triple_bind [OF triple_foreach_archive [OF fts]], rule triple_ret)
  have done_: "triple ?I (ret a) (\<lambda>_. ?I) (broken_transaction d)" for a :: "string option"
    by (rule triple_ret)
  have none: "triple ?I (ret None) (\<lambda>_. ?I) (broken_transaction d)" for a :: "promoted_row option"
    by (rule triple_ret)
  show ?thesis
    unfolding deduplicateAndInsertInRepositories_def option.case bindM_ret
    by (rule triple_bind [OF search], rule triple_bind [where R = "\<lambda>_. ?I"], rule triple_if, rule exact, rule none)
      (auto split: list.split intro!: triple_if done_ merge triple_bind [OF insert])
qed

lemma mirrored_dedup:
  assumes fts: "fts5Available (pe_options env)" and "mirrored w" and run: "deduplicateAndInsert None env i w = (r, w')"
  shows "mirrored w'"
proof (cases "w_saved w = []")
  case True
  then have s: "settled (durable w) w" and m: "mirror (durable w)" using assms(2) by (simp_all add: mirrored_def settled_def)
  have "triple (settled (durable w)) (deduplicateAndInsert None env i)
     (\<lambda>_ v. settled (w_db v) v \<and> w_saved v = [] \<and> mirror (w_db v)) (settled (durable w))"
    unfolding deduplicateAndInsert_def storage_transaction_def
    by (rule triple_transaction, rule triple_pre_imp [OF dedup_keeps_mirror [OF fts]]) (use m in auto)
  from triple_value [OF this s] triple_error [OF this s] show ?thesis
    using run m by (cases r) (auto simp: mirrored_def settled_def)
next
  case False
  then have "w_saved w' = w_saved w \<and> w_ctx w' = None \<and> w_atomic w' = None"
    using run assms(2) unfolding deduplicateAndInsert_def storage_transaction_def
    by (auto simp: transaction_def assertUsable_def enqueue_def normalized_def catchM_def bindM_def op_apply openToken_def
        sql_exec_def Let_def mirrored_def split: if_splits)
  then show ?thesis using assms(2) False by (simp add: mirrored_def durable_def)
qed

text \<open>C28: Through any sequence of calls of the promoted memory, insertions with deduplication included,
  with any outcome and any failure of the driver, every active memory that is durable has exactly one
  entry in the full-text index, with its own content and tags, and every entry belongs to a memory.\<close>

theorem index_mirrors_memories:
  assumes "fts5Available (pe_options env)" and "mirrored w" and "(promoted_call env)\<^sup>*\<^sup>* w w'"
  shows "mirror (durable w')"
proof -
  have "mirrored w'"
    using assms(3)
  proof (induction rule: rtranclp_induct)
    case (step v v')
    from step(2,3) show ?case
    proof (induction rule: promoted_call.induct)
      case (call_deduplicate dd w r4 w')
      then show ?case using mirrored_dedup [OF assms(1)] by blast
    qed (auto simp: repo_insertPromoted_def repo_archivePromoted_def repo_deletePromoted_def repo_updatePromoted_def
        repo_revivePromoted_def repo_searchPromotedForRecall_def
        intro: mirrored_atomic [OF atomic_insert [OF assms(1)] mirror_insertRel]
          mirrored_atomic [OF atomic_archive [OF assms(1)] mirror_archiveRel]
          mirrored_atomic [OF atomic_delete [OF assms(1)] mirror_deleteRel]
          mirrored_atomic [OF atomic_revive [OF assms(1)] mirror_reviveRel]
          mirrored_atomic [OF atomic_update [OF assms(1)]] mirror_updateRel mirrored_atomic [OF atomic_recall])
  qed (rule assms(2))
  then show ?thesis by (simp add: mirrored_def)
qed

section \<open>Candidates\<close>

text \<open>A search result that shows the row \<open>r\<close>; the rows that a search finds, each once.\<close>

definition shows_row :: "promoted_row \<Rightarrow> search_result \<Rightarrow> bool" where
  "shows_row r s \<longleftrightarrow> s = searchResult r (sr_rank s) (prom_content r)"

lemma shows_rowD: "shows_row r s \<Longrightarrow> sr_id s = prom_id r \<and> sr_content s = prom_content r \<and> sr_tags s = prom_tags r
    \<and> sr_confidence s = prom_confidence r"
  unfolding shows_row_def by (metis searchResult_def search_result.select_convs)

definition found_rows :: "database \<Rightarrow> string option \<Rightarrow> promoted_row list \<Rightarrow> search_result list \<Rightarrow> bool" where
  "found_rows d p rows rs \<longleftrightarrow> list_all2 shows_row rows rs \<and> distinct (map prom_id rows)
     \<and> set rows \<subseteq> {r \<in> set (promoted d). prom_archivedAt r = None \<and> inProject p r}"

lemma ranked_rows:
  assumes "mirror d"
  shows "distinct (map prom_id (map fst (rankedRows rankOf d terms p)))"
    and "set (map fst (rankedRows rankOf d terms p)) \<subseteq> {r \<in> set (promoted d). prom_archivedAt r = None \<and> inProject p r}"
proof -
  let ?f = "\<lambda>r. if prom_archivedAt r = None \<and> inProject p r \<and> prom_rowid r \<in> fst ` set (promoted_fts d)
          then map_option (\<lambda>x. (r, x)) (rankOf (promoted_fts d) terms (prom_rowid r)) else None"
  let ?hits = "List.map_filter ?f (promoted d)"
  have "map fst ?hits = filter (\<lambda>r. ?f r \<noteq> None) (promoted d)"
    by (auto simp: List.map_filter_def comp_def intro!: map_idI)
  then have "distinct (map prom_id (map fst ?hits))"
    and "set (map fst ?hits) \<subseteq> {r \<in> set (promoted d). prom_archivedAt r = None \<and> inProject p r}"
    using assms by (auto simp: mirror_def intro: distinct_map_filter split: if_splits)
  moreover have "mset (map prom_id (map fst (rankedRows rankOf d terms p))) = mset (map prom_id (map fst ?hits))"
    and "set (rankedRows rankOf d terms p) = set ?hits"
    by (simp_all add: rankedRows_def)
  ultimately show "distinct (map prom_id (map fst (rankedRows rankOf d terms p)))"
    and "set (map fst (rankedRows rankOf d terms p)) \<subseteq> {r \<in> set (promoted d). prom_archivedAt r = None \<and> inProject p r}"
    using mset_eq_imp_distinct_iff by (blast, simp only: set_map)
qed

lemma search_found:
  assumes "fts5Available opts" and "mirror (w_db w)"
    and "searchPromoted rankOf opts support query limit None p w = (Inr rs, w')"
  shows "\<exists>rows. found_rows (w_db w) p rows rs"
proof -
  let ?rows = "limited limit (filter (tagged []) (rankedRows rankOf (w_db w) (searchTerms query) p))"
  have sub: "map fst ?rows = limited limit (map fst (rankedRows rankOf (w_db w) (searchTerms query) p))"
  proof -
    have all: "filter (tagged []) xs = xs" for xs by (simp add: hasTags_def case_prod_beta)
    show ?thesis unfolding all limited_def by (cases "limit < 0") (simp_all only: if_True if_False take_map)
  qed
  have lim: "distinct xs \<Longrightarrow> distinct (limited limit xs)" "set (limited limit xs) \<subseteq> set xs"
    "map f (limited limit xs) = limited limit (map f xs)" for xs :: "'b list" and f :: "'b \<Rightarrow> 'c"
    by (auto simp: limited_def take_map dest: in_set_takeD)
  have dist: "distinct (map prom_id (map fst ?rows))"
    unfolding sub lim(3) [of prom_id] by (rule lim(1) [OF ranked_rows(1) [OF assms(2)]])
  have within: "set (map fst ?rows) \<subseteq> {r \<in> set (promoted (w_db w)). prom_archivedAt r = None \<and> inProject p r}"
    unfolding sub by (rule subset_trans [OF lim(2) ranked_rows(2) [OF assms(2)]])
  show ?thesis
  proof (cases "searchTerms query = []")
    case True
    then have "rs = []" using assms(3) by (simp add: searchPromoted_def op_apply)
    then have "found_rows (w_db w) p [] rs" by (simp add: found_rows_def)
    then show ?thesis by blast
  next
    case False
    then have run: "mapM readResult ?rows w = (Inr rs, w')"
      using assms(1,3) by (auto simp: searchPromoted_def searchWithFts_eq getDb_def op_apply split: if_splits)
    have "list_all2 (\<lambda>row s. \<exists>c. readPromotedContent (prom_content (fst row)) = Inr c
        \<and> s = searchResult (fst row) (Num (snd row)) c) ?rows rs"
      by (rule conjunct2 [OF mapM_results [OF run [unfolded readResult_def [abs_def]]]])
    then have "list_all2 shows_row (map fst ?rows) rs"
      unfolding list_all2_map1
      by (rule list.rel_mono_strong) (auto simp: shows_row_def readPromotedContent_def searchResult_def split: if_splits)
    then have "found_rows (w_db w) p (map fst ?rows) rs" using dist within by (simp add: found_rows_def)
    then show ?thesis by blast
  qed
qed

lemma newest_exact:
  "newestExact d content p = None \<longleftrightarrow> exactRows d content p = []"
  "newestExact d content p = Some r \<Longrightarrow> r \<in> set (exactRows d content p)"
proof -
  let ?s = "sort_key (\<lambda>r. (prom_createdAt r, prom_id r)) (exactRows d content p)"
  have e: "?s = [] \<longleftrightarrow> exactRows d content p = []" by (metis length_0_conv length_sort)
  then show "newestExact d content p = None \<longleftrightarrow> exactRows d content p = []"
    by (simp add: newestExact_def Let_def)
  assume "newestExact d content p = Some r"
  then have "r = last ?s" and "?s \<noteq> []" by (auto simp: newestExact_def Let_def split: if_splits)
  then have "r \<in> set ?s" using last_in_set by blast
  then show "r \<in> set (exactRows d content p)" unfolding set_sort .
qed

lemma exact_found:
  assumes "mapRecord (findExactContent content p) w = (Inr row, w')"
  shows "row = None \<and> exactRows (w_db w) content p = []
    \<or> (\<exists>r m. row = Some (r\<lparr>prom_metadata := m\<rparr>) \<and> r \<in> set (exactRows (w_db w) content p))"
proof (cases "newestExact (w_db w) content p")
  case None
  then have "row = None" using assms by (auto simp: mapRecord_def findExactContent_def getDb_def op_apply bindM_assoc)
  then show ?thesis using None newest_exact(1) by blast
next
  case (Some r)
  then have "\<exists>m. row = Some (r\<lparr>prom_metadata := m\<rparr>)"
    using assms by (auto simp: mapRecord_def findExactContent_def publicPromotedRow_def promotedRecord_def getDb_def op_apply
        bindM_assoc liftE_def elim!: bindM_cases split: sum.splits)
  then show ?thesis using newest_exact(2) [OF Some] by blast
qed

text \<open>The duplicates among the candidates: active memories of the project with this content, each once.\<close>

lemma duplicate_rows:
  assumes m: "mirror d" and f: "found_rows d (Some p) rows candidates" and p: "p \<noteq> ''''"
    and e: "exact = None \<and> exactRows d content p = [] \<or>
      (\<exists>r m. exact = Some (r\<lparr>prom_metadata := m\<rparr>) \<and> r \<in> set (exactRows d content p))"
  obtains dups where "list_all2 shows_row dups (filter (\<lambda>c. isDuplicateCandidate c content) (combinedCandidates exact candidates))"
    and "distinct (map prom_id dups)" and "set dups \<subseteq> set (exactRows d content p)"
    and "dups = [] \<longleftrightarrow> exactRows d content p = []"
proof -
  have filtered: "list_all2 shows_row (filter (\<lambda>r. prom_content r = content) xs) (filter (\<lambda>c. isDuplicateCandidate c content) cs)"
    if "list_all2 shows_row xs cs" for xs cs
    using that by induction (auto simp: isDuplicateCandidate_def dest: shows_rowD)
  have rows: "list_all2 shows_row rows candidates" "distinct (map prom_id rows)"
      "set (filter (\<lambda>r. prom_content r = content) rows) \<subseteq> set (exactRows d content p)"
    using f p by (auto simp: found_rows_def exactRows_def inProject_def)
  have ids: "map sr_id candidates = map prom_id rows"
    using rows(1) by induction (auto dest: shows_rowD)
  show ?thesis
  proof (cases exact)
    case None
    have none: "exactRows d content p = []" using e None by auto
    then have "filter (\<lambda>r. prom_content r = content) rows = []" using rows(3) by (metis set_empty subset_empty)
    then have "filter (\<lambda>c. isDuplicateCandidate c content) (combinedCandidates exact candidates) = []"
      using filtered [OF rows(1)] None by (simp add: combinedCandidates_def)
    then show ?thesis using that [of "[]"] none by simp
  next
    case (Some r')
    then obtain r m where r: "r' = r\<lparr>prom_metadata := m\<rparr>" "r \<in> set (exactRows d content p)" using e by auto
    then have c: "prom_content r = content" "r \<in> set (promoted d)" by (simp_all add: exactRows_def)
    show ?thesis
    proof (cases "prom_id r' \<in> set (map sr_id candidates)")
      case True
      then obtain x where x: "x \<in> set rows" "prom_id x = prom_id r" unfolding ids by (auto simp: r(1))
      then have "x \<in> set (promoted d)" using f by (auto simp: found_rows_def)
      then have "x = r" using m c(2) x(2) by (auto simp: mirror_def distinct_map dest: inj_onD)
      then have "r \<in> set (filter (\<lambda>r. prom_content r = content) rows)" using x(1) c by simp
      then have "filter (\<lambda>r. prom_content r = content) rows \<noteq> []" "exactRows d content p \<noteq> []"
        using r(2) by (metis emptyE empty_set)+
      moreover have "combinedCandidates exact candidates = candidates" using True Some by (simp add: combinedCandidates_def)
      ultimately show ?thesis
        using that [of "filter (\<lambda>r. prom_content r = content) rows"] filtered [OF rows(1)] rows
        by (simp add: distinct_map_filter)
    next
      case False
      have "shows_row r (exactCandidate r')" by (simp add: shows_row_def exactCandidate_def searchResult_def r(1))
      then have "list_all2 shows_row (r # rows) (exactCandidate r' # candidates)" using rows(1) by simp
      moreover have "combinedCandidates exact candidates = exactCandidate r' # candidates"
        using False Some by (simp add: combinedCandidates_def)
      ultimately have "list_all2 shows_row (filter (\<lambda>r. prom_content r = content) (r # rows))
          (filter (\<lambda>c. isDuplicateCandidate c content) (combinedCandidates exact candidates))" using filtered by metis
      moreover have "prom_id r \<notin> prom_id ` set rows" using False unfolding ids by (simp add: r(1))
      then have "distinct (map prom_id (filter (\<lambda>r. prom_content r = content) (r # rows)))"
        using rows(2) by (auto intro: distinct_map_filter)
      moreover have "set (filter (\<lambda>r. prom_content r = content) (r # rows)) \<subseteq> set (exactRows d content p)"
        using rows(3) r(2) by auto
      moreover have "filter (\<lambda>r. prom_content r = content) (r # rows) \<noteq> []" using c(1) by simp
      moreover have "exactRows d content p \<noteq> []" using r(2) by (metis emptyE empty_set)
      ultimately show ?thesis using that by blast
    qed
  qed
qed

section \<open>Merging\<close>

lemma map_absent: "findPromoted d i = None \<Longrightarrow> map (\<lambda>r. if prom_id r = i then f r else r) (promoted d) = promoted d"
  by (auto simp: findPromoted_None intro!: map_idI)

lemma update_rows:
  assumes "updateRel i changes d u x" and "uf_metadata changes = None"
  shows "promoted x = map (\<lambda>r. if prom_id r = i then applyChanges changes None r else r) (promoted d)"
  using assms by (auto simp: updateRel_def changedMetadata_def rewritten_def mapPromoted_def map_absent split: option.splits if_splits)

definition archived_rows :: "string set \<Rightarrow> promoted_row list \<Rightarrow> promoted_row list \<Rightarrow> bool" where
  "archived_rows ids xs ys \<longleftrightarrow> (\<exists>T. ys = map (\<lambda>r. if prom_id r \<in> ids
     then r\<lparr>prom_archivedAt := Some (T (prom_id r))\<rparr> else r) xs)"

lemma archived_none: "archived_rows {} xs xs"
  by (simp add: archived_rows_def)

lemma archive_rows:
  assumes "archiveRel i d u x" and "archived_rows ids xs (promoted d)"
  shows "archived_rows (insert i ids) xs (promoted x)"
proof -
  have "\<exists>now. promoted x = map (\<lambda>r. if prom_id r = i then r\<lparr>prom_archivedAt := Some now\<rparr> else r) (promoted d)"
  proof (cases "findPromoted d i")
    case None
    then show ?thesis using assms(1) by (simp add: archiveRel_def map_absent)
  next
    case (Some r)
    then obtain now where "x = rewritten i r (\<lambda>r. r\<lparr>prom_archivedAt := Some now\<rparr>) False d"
      using assms(1) by (auto simp: archiveRel_def)
    then have "promoted x = map (\<lambda>r. if prom_id r = i then r\<lparr>prom_archivedAt := Some now\<rparr> else r) (promoted d)"
      by (simp add: rewritten_def mapPromoted_def)
    then show ?thesis by blast
  qed
  then obtain now where x: "promoted x = map (\<lambda>r. if prom_id r = i then r\<lparr>prom_archivedAt := Some now\<rparr> else r) (promoted d)" ..
  obtain T where "promoted d = map (\<lambda>r. if prom_id r \<in> ids then r\<lparr>prom_archivedAt := Some (T (prom_id r))\<rparr> else r) xs"
    using assms(2) by (auto simp: archived_rows_def)
  then have "promoted x = map (\<lambda>r. if prom_id r \<in> insert i ids
      then r\<lparr>prom_archivedAt := Some ((T(i := now)) (prom_id r))\<rparr> else r) xs"
    unfolding x by (auto simp: comp_def)
  then show ?thesis unfolding archived_rows_def by blast
qed

lemma triple_archive_all:
  assumes fts: "fts5Available (pe_options env)"
  shows "triple (\<lambda>w. in_transaction d t w \<and> mirror (w_db w) \<and> archived_rows ids xs (promoted (w_db w)))
     (foreachM (\<lambda>c. repo_archivePromoted (ScopedInvoker t) env (sr_id c)) cs)
     (\<lambda>_ w. in_transaction d t w \<and> mirror (w_db w) \<and> archived_rows (ids \<union> sr_id ` set cs) xs (promoted (w_db w)))
     (broken_transaction d)"
proof (induction cs arbitrary: ids)
  case Nil
  show ?case by (simp add: triple_ret)
next
  case (Cons c cs)
  have one: "triple (\<lambda>w. in_transaction d t w \<and> mirror (w_db w) \<and> archived_rows ids xs (promoted (w_db w)))
     (repo_archivePromoted (ScopedInvoker t) env (sr_id c))
     (\<lambda>_ w. in_transaction d t w \<and> mirror (w_db w) \<and> archived_rows (insert (sr_id c) ids) xs (promoted (w_db w)))
     (broken_transaction d)"
    unfolding repo_archivePromoted_def
  proof (rule triple_pre)
    fix v assume "in_transaction d t v \<and> mirror (w_db v) \<and> archived_rows ids xs (promoted (w_db v))"
    then show "triple (\<lambda>w. w = v) (invoke (ScopedInvoker t) False (archivePromoted (pe_options env) (sr_id c)))
       (\<lambda>_ w. in_transaction d t w \<and> mirror (w_db w) \<and> archived_rows (insert (sr_id c) ids) xs (promoted (w_db w)))
       (broken_transaction d)"
      by (intro triple_conseq [OF triple_scoped_atomic [OF atomic_archive [OF fts], where x = "w_db v"]])
        (auto intro: archive_rows mirror_archiveRel)
  qed
  have "insert (sr_id c) ids \<union> sr_id ` set cs = ids \<union> sr_id ` set (c # cs)" by auto
  then show ?case unfolding foreachM.simps using triple_bind [OF one Cons.IH] by simp
qed

definition mergeChanges :: "dedup_input \<Rightarrow> search_result list \<Rightarrow> update_fields" where
  "mergeChanges i dups = \<lparr>uf_content = None, uf_confidence = Some (refreshedConfidence (dd_confidence i) dups),
     uf_tags = Some (mergedTags dups (dd_tags i)), uf_metadata = None\<rparr>"

definition mergedInto :: "dedup_input \<Rightarrow> search_result \<Rightarrow> search_result list \<Rightarrow> database \<Rightarrow> database \<Rightarrow> bool" where
  "mergedInto i c cs d x \<longleftrightarrow> mirror x \<and> archived_rows (sr_id ` set cs)
     (map (\<lambda>r. if prom_id r = sr_id c then applyChanges (mergeChanges i (c # cs)) None r else r) (promoted d)) (promoted x)"

lemma triple_merge:
  assumes fts: "fts5Available (pe_options env)" and m: "mirror x"
  shows "triple (\<lambda>w. in_transaction d t w \<and> w_db w = x) (mergeDuplicates (ScopedInvoker t) env i c cs)
     (\<lambda>k w. in_transaction d t w \<and> k = Some (sr_id c) \<and> mergedInto i c cs x (w_db w)) (broken_transaction d)"
proof -
  let ?rows = "map (\<lambda>r. if prom_id r = sr_id c then applyChanges (mergeChanges i (c # cs)) None r else r) (promoted x)"
  have update: "triple (\<lambda>w. in_transaction d t w \<and> w_db w = x)
      (repo_updatePromoted (ScopedInvoker t) env (sr_id c) (mergeChanges i (c # cs)))
      (\<lambda>_ w. in_transaction d t w \<and> mirror (w_db w) \<and> archived_rows {} ?rows (promoted (w_db w))) (broken_transaction d)"
    unfolding repo_updatePromoted_def
  proof (rule triple_conseq [OF triple_scoped_atomic [OF atomic_update [OF fts]]])
    fix u w assume "in_transaction d t w \<and> (mirror x \<longrightarrow> updateRel (sr_id c) (mergeChanges i (c # cs)) x u (w_db w))"
    then have "in_transaction d t w" and rel: "updateRel (sr_id c) (mergeChanges i (c # cs)) x u (w_db w)" using m by auto
    moreover have "promoted (w_db w) = ?rows" by (rule update_rows [OF rel]) (simp add: mergeChanges_def)
    ultimately show "in_transaction d t w \<and> mirror (w_db w) \<and> archived_rows {} ?rows (promoted (w_db w))"
      using mirror_updateRel [OF rel m] archived_none by simp
  qed simp_all
  show ?thesis
    unfolding mergeDuplicates_def mergeChanges_def [symmetric]
    by (rule triple_bind [OF update], rule triple_bind [OF triple_archive_all [OF fts]], rule triple_ret)
      (simp add: mergedInto_def)
qed

text \<open>What an insertion with deduplication promises for the active memories of a project with its content.\<close>

definition converged :: "dedup_input \<Rightarrow> string \<Rightarrow> database \<Rightarrow> string \<Rightarrow> database \<Rightarrow> bool" where
  "converged i src d k x \<longleftrightarrow> (let content = dd_content i; old = exactRows d content src; new = exactRows x content src in
     (\<exists>row. findPromoted x k = Some row \<and> row \<in> set new \<and> set (dd_tags i) \<subseteq> set (prom_tags row)
        \<and> (\<forall>r \<in> set old. r \<in> set (promoted x)
             \<or> (set (prom_tags r) \<subseteq> set (prom_tags row) \<and> prom_confidence r \<le> prom_confidence row)))
     \<and> length new \<le> max 1 (length old)
     \<and> (\<forall>r \<in> set (promoted d). prom_content r \<noteq> content \<longrightarrow> r \<in> set (promoted x)))"

lemma foldl_max: "(a :: rat) \<le> foldl max a xs" "x \<in> set xs \<Longrightarrow> x \<le> foldl max a xs"
proof -
  show base: "a \<le> foldl max a xs" for a :: rat and xs
    by (induction xs arbitrary: a) (auto intro: order_trans [OF max.cobounded1])
  show "x \<in> set xs \<Longrightarrow> x \<le> foldl max a xs"
    by (induction xs arbitrary: a) (auto intro: order_trans [OF max.cobounded2 base])
qed

lemma length_filter_map_le: "(\<And>x. x \<in> set xs \<Longrightarrow> P (f x) \<Longrightarrow> P x) \<Longrightarrow> length (filter P (map f xs)) \<le> length (filter P xs)"
  by (induction xs) (auto simp: le_SucI)

lemma list_all2_left: "list_all2 P xs ys \<Longrightarrow> x \<in> set xs \<Longrightarrow> \<exists>y \<in> set ys. P x y"
  by (induction rule: list_all2_induct) auto

lemma merged_converged:
  assumes m: "mirror d" and merged: "mergedInto i c cs d x"
    and dups: "list_all2 shows_row (r0 # rs) (c # cs)" "distinct (map prom_id (r0 # rs))"
      "set (r0 # rs) \<subseteq> set (exactRows d (dd_content i) src)"
  shows "converged i src d (sr_id c) x"
proof -
  let ?ch = "mergeChanges i (c # cs)"
  obtain T where T: "promoted x = map (\<lambda>r. if prom_id r \<in> sr_id ` set cs
      then r\<lparr>prom_archivedAt := Some (T (prom_id r))\<rparr> else r)
     (map (\<lambda>r. if prom_id r = sr_id c then applyChanges ?ch None r else r) (promoted d))"
    using merged by (auto simp: mergedInto_def archived_rows_def)
  define F where "F r = (if prom_id r \<in> sr_id ` set cs then
      (if prom_id r = sr_id c then applyChanges ?ch None r else r)\<lparr>prom_archivedAt := Some (T (prom_id r))\<rparr>
      else if prom_id r = sr_id c then applyChanges ?ch None r else r)" for r
  have idf: "prom_id (applyChanges ?ch None r) = prom_id r" for r by (simp add: applyChanges_def)
  have x: "promoted x = map F (promoted d)" unfolding T by (auto simp: F_def idf)
  have ids: "map sr_id (c # cs) = map prom_id (r0 # rs)"
    using dups(1) by induction (auto dest: shows_rowD)
  then have k: "sr_id c = prom_id r0" and ids': "sr_id ` set cs = prom_id ` set rs"
    by (simp, metis list.set_map list.inject list.simps(9))
  have inj: "r = r'" if "r \<in> set (promoted d)" "r' \<in> set (promoted d)" "prom_id r = prom_id r'" for r r'
    using m that by (auto simp: mirror_def distinct_map dest: inj_onD)
  have dup: "prom_archivedAt r = None \<and> prom_content r = dd_content i \<and> prom_projectId r = src \<and> r \<in> set (promoted d)"
    if "r \<in> set (r0 # rs)" for r
    using dups(3) that by (auto simp: exactRows_def)
  have r0: "F r0 = applyChanges ?ch None r0" using dups(2) by (auto simp: F_def k ids')
  have fields: "prom_content (applyChanges ?ch None r) = prom_content r" "prom_projectId (applyChanges ?ch None r) = prom_projectId r"
    "prom_archivedAt (applyChanges ?ch None r) = prom_archivedAt r" for r
    by (simp_all add: applyChanges_def mergeChanges_def)
  have find: "findPromoted x (sr_id c) = Some (F r0)"
  proof -
    have "distinct (map prom_id (promoted x))" using merged by (simp add: mergedInto_def mirror_def)
    moreover have "F r0 \<in> set (promoted x)" unfolding x using dup [of r0] by simp
    ultimately show ?thesis using find_unique [of prom_id "promoted x" "F r0"] by (simp add: findPromoted_def k r0 idf)
  qed
  have mem: "F r0 \<in> set (map F (promoted d))" using dup [of r0] by simp
  have new: "F r0 \<in> set (exactRows x (dd_content i) src)"
  proof -
    have "prom_archivedAt (F r0) = None \<and> prom_content (F r0) = dd_content i \<and> prom_projectId (F r0) = src"
      using dup [of r0] unfolding r0 fields by simp
    then show ?thesis unfolding exactRows_def x set_filter using mem by blast
  qed
  have signals: "set (prom_tags r) \<subseteq> set (prom_tags (F r0)) \<and> prom_confidence r \<le> prom_confidence (F r0)" if "r \<in> set (r0 # rs)" for r
  proof -
    obtain s where s: "s \<in> set (c # cs)" "shows_row r s"
      using list_all2_left [OF dups(1)] \<open>r \<in> set (r0 # rs)\<close> by blast
    then have "prom_tags r = sr_tags s" "prom_confidence r = sr_confidence s" using shows_rowD by auto
    then show ?thesis
      using s(1) foldl_max(2) [of "sr_confidence s" "map sr_confidence (c # cs)"] unfolding r0
      by (auto simp: applyChanges_def mergeChanges_def mergedTags_def set_dedupe_from refreshedConfidence_def)
  qed
  have kept: "F r = r" if "r \<in> set (promoted d)" "r \<notin> set (r0 # rs)" for r
  proof -
    have "prom_id r \<notin> prom_id ` set (r0 # rs)" using inj [OF that(1)] that(2) dup by blast
    then show ?thesis by (simp add: F_def k ids')
  qed
  have tags: "set (dd_tags i) \<subseteq> set (prom_tags (F r0))"
    unfolding r0 by (auto simp: applyChanges_def mergeChanges_def mergedTags_def set_dedupe_from)
  have old: "r \<in> set (promoted x) \<or> set (prom_tags r) \<subseteq> set (prom_tags (F r0)) \<and> prom_confidence r \<le> prom_confidence (F r0)"
    if "r \<in> set (exactRows d (dd_content i) src)" for r
  proof (cases "r \<in> set (r0 # rs)")
    case True
    then show ?thesis using signals by blast
  next
    case False
    have "r \<in> set (promoted d)" using that by (simp add: exactRows_def)
    then show ?thesis unfolding x using kept [OF _ False] by (metis image_eqI list.set_map)
  qed
  have count: "length (exactRows x (dd_content i) src) \<le> length (exactRows d (dd_content i) src)"
    unfolding exactRows_def x by (rule length_filter_map_le) (auto simp: F_def fields split: if_splits)
  have others: "r \<in> set (promoted x)" if "r \<in> set (promoted d)" "prom_content r \<noteq> dd_content i" for r
  proof -
    have "r \<notin> set (r0 # rs)" using dup that(2) by blast
    then show ?thesis unfolding x using kept [OF that(1)] that(1) by (metis image_eqI list.set_map)
  qed
  show ?thesis
    unfolding converged_def Let_def using find new tags old count others by (auto intro: le_trans)
qed
section \<open>Insertion with deduplication\<close>

lemma inserted_converged:
  assumes "insertRel params d k x" and "exactRows d (dd_content i) src = []"
    and "ip_content params = dd_content i" and "ip_tags params = Some (dd_tags i)" and "ip_projectId params = src"
  shows "converged i src d k x"
proof -
  obtain metadata now where x: "x = addedRow (insertedRow k params metadata now (nextPromotedRowid d)) d"
    and k: "findPromoted d k = None" using assms(1) by (auto simp: insertRel_def)
  let ?row = "insertedRow k params metadata now (nextPromotedRowid d)"
  have "findPromoted x k = Some ?row"
    unfolding x using find_append_new [OF k, of ?row] by (simp add: findPromoted_def addedRow_def insertedRow_def)
  moreover have "exactRows x (dd_content i) src = [?row]"
    using assms(2-5) unfolding x by (simp add: exactRows_def addedRow_def insertedRow_def)
  moreover have "prom_tags ?row = dd_tags i" using assms(4) by (simp add: insertedRow_def)
  moreover have "set (promoted d) \<subseteq> set (promoted x)" unfolding x by (auto simp: addedRow_def)
  ultimately show ?thesis using assms(2) by (auto simp: converged_def)
qed

lemma atomic_reads:
  assumes "quiet m" and "\<And>w a w'. m w = (Inr a, w') \<Longrightarrow> Q (w_db w) a"
  shows "atomic_op m (\<lambda>d a x. x = d \<and> Q d a)"
  by (rule atomic_quiet [OF assms(1)]) (use assms(2) in blast)

lemma triple_dedup:
  assumes fts: "fts5Available (pe_options env)" and m: "mirror x"
    and i: "dd_candidateScope i = Some OwnerScope" "dd_backend i \<noteq> Some Postgresql" "dd_sourceProjectId i = Some src"
      "src \<noteq> ''''" "\<not> dd_existingOnly i"
  shows "triple (\<lambda>w. in_transaction d t w \<and> w_db w = x) (deduplicateAndInsertInRepositories None (ScopedInvoker t) env i)
     (\<lambda>k w. in_transaction d t w \<and> (\<exists>j. k = Some j \<and> mirror (w_db w) \<and> converged i src x j (w_db w))) (broken_transaction d)"
proof -
  let ?I = "\<lambda>w. in_transaction d t w \<and> w_db w = x"
  let ?done = "\<lambda>k w. in_transaction d t w \<and> (\<exists>j. k = Some j \<and> mirror (w_db w) \<and> converged i src x j (w_db w))"
  let ?exact = "\<lambda>e. e = None \<and> exactRows x (dd_content i) src = []
    \<or> (\<exists>r m. e = Some (r\<lparr>prom_metadata := m\<rparr>) \<and> r \<in> set (exactRows x (dd_content i) src))"
  have search: "triple ?I (repo_searchPromoted (ScopedInvoker t) env (dd_content i) (dd_candidateLimit i) None (Some src))
      (\<lambda>cs w. ?I w \<and> (\<exists>rows. found_rows x (Some src) rows cs)) (broken_transaction d)"
    unfolding repo_searchPromoted_def
  proof (rule triple_conseq [OF triple_scoped_atomic [OF atomic_reads [OF quiet_search]]])
    show "mirror (w_db w) \<longrightarrow> (\<exists>rows. found_rows (w_db w) (Some src) rows cs)"
      if "searchPromoted (fe_rank (pe_engine env)) (pe_options env) (fe_support (pe_engine env)) (dd_content i)
        (dd_candidateLimit i) None (Some src) w = (Inr cs, w')" for w cs w'
      using search_found [OF fts _ that] by blast
  qed (use m in auto)
  have exact: "triple ?I (repo_findExactContent (ScopedInvoker t) env (dd_content i) (Some src))
      (\<lambda>e w. ?I w \<and> ?exact e) (broken_transaction d)"
    unfolding repo_findExactContent_def ownerOr_def option.case
  proof (rule triple_conseq [OF triple_scoped_atomic [OF atomic_reads [OF quiet_exact]]])
    show "e = None \<and> exactRows (w_db w) (dd_content i) src = []
      \<or> (\<exists>r m. e = Some (r\<lparr>prom_metadata := m\<rparr>) \<and> r \<in> set (exactRows (w_db w) (dd_content i) src))"
      if "mapRecord (findExactContent (dd_content i) src) w = (Inr e, w')" for w e w'
      using exact_found [OF that] .
  qed (auto simp: i)
  have insert: "triple ?I (bindM (repo_insertPromoted (ScopedInvoker t) env j) (\<lambda>new. ret (Some new))) ?done (broken_transaction d)"
    if "exactRows x (dd_content i) src = []" "ii_content j = dd_content i" "ii_tags j = Some (dd_tags i)" "ii_sourceProjectId j = Some src" for j
  proof -
    let ?p = "\<lparr>ip_content = ii_content j, ip_tags = ii_tags j, ip_metadata = ii_metadata j,
      ip_sourceSummaryId = ii_sourceSummaryId j, ip_projectId = ownerOr env (ii_sourceProjectId j),
      ip_sessionId = ii_sessionId j, ip_depth = ii_depth j, ip_confidence = ii_confidence j\<rparr>"
    have "converged i src x k y" if "insertRel ?p x k y" for k y
      by (rule inserted_converged [OF that]) (simp_all add: \<open>exactRows x (dd_content i) src = []\<close> \<open>ii_content j = dd_content i\<close>
        \<open>ii_tags j = Some (dd_tags i)\<close> \<open>ii_sourceProjectId j = Some src\<close> ownerOr_def)
    then show ?thesis
      unfolding repo_insertPromoted_def
      by (intro triple_bind [OF triple_scoped_atomic [OF atomic_insert [OF fts]]] triple_ret)
        (auto intro: mirror_insertRel m)
  qed
  have decide: "triple (\<lambda>w. ?I w \<and> ?exact e \<and> (\<exists>rows. found_rows x (Some src) rows cs))
      (case filter (\<lambda>c. isDuplicateCandidate c (dd_content i)) (combinedCandidates e cs) of
       [] \<Rightarrow> if dd_existingOnly i then ret None
         else bindM (repo_insertPromoted (ScopedInvoker t) env \<lparr>ii_content = dd_content i, ii_tags = Some (dd_tags i),
             ii_metadata = None, ii_sourceSummaryId = None, ii_sourceProjectId = dd_sourceProjectId i,
             ii_sessionId = dd_sessionId i, ii_depth = Some (dd_depth i),
             ii_confidence = Some (case dd_newEntryConfidence i of Some x \<Rightarrow> x | None \<Rightarrow> dd_confidence i)\<rparr>)
           (\<lambda>new. ret (Some new))
     | canonical # others \<Rightarrow> mergeDuplicates (ScopedInvoker t) env i canonical others) ?done (broken_transaction d)" for e cs
  proof (cases "?exact e \<and> (\<exists>rows. found_rows x (Some src) rows cs)")
    case True
    then obtain rows where f: "found_rows x (Some src) rows cs" and e: "?exact e" by blast
    obtain dups where dups: "list_all2 shows_row dups (filter (\<lambda>c. isDuplicateCandidate c (dd_content i)) (combinedCandidates e cs))"
      "distinct (map prom_id dups)" "set dups \<subseteq> set (exactRows x (dd_content i) src)"
      "dups = [] \<longleftrightarrow> exactRows x (dd_content i) src = []"
      using duplicate_rows [OF m f i(4) e] .
    show ?thesis
    proof (cases "filter (\<lambda>c. isDuplicateCandidate c (dd_content i)) (combinedCandidates e cs)")
      case Nil
      then have "exactRows x (dd_content i) src = []" using dups(1,4) by simp
      then show ?thesis
        unfolding Nil list.case if_not_P [OF i(5)] by (intro triple_pre_imp [OF insert]) (simp_all add: i(3))
    next
      case (Cons c others)
      then obtain r0 rs where r: "dups = r0 # rs" using dups(1) by (cases dups) auto
      have good: "mirror y \<and> converged i src x (sr_id c) y" if "mergedInto i c others x y" for y
        using merged_converged [OF m that dups(1-3) [unfolded r Cons]] that by (simp add: mergedInto_def)
      show ?thesis
        unfolding Cons list.case by (rule triple_conseq [OF triple_merge [OF fts m]]) (auto dest: good)
    qed
  next
    case False
    then show ?thesis unfolding triple_def by blast
  qed
  have source: "candidateSource i = Some src" using i by (simp add: candidateSource_def)
  show ?thesis
    unfolding deduplicateAndInsertInRepositories_def option.case bindM_ret source if_P [OF i(1)]
  proof (rule triple_bind [OF search])
    fix cs
    have exact': "triple (\<lambda>w. ?I w \<and> (\<exists>rows. found_rows x (Some src) rows cs))
       (repo_findExactContent (ScopedInvoker t) env (dd_content i) (Some src))
       (\<lambda>e w. ?I w \<and> ?exact e \<and> (\<exists>rows. found_rows x (Some src) rows cs)) (broken_transaction d)"
    proof (cases "\<exists>rows. found_rows x (Some src) rows cs")
      case True
      then show ?thesis using exact by simp
    qed (simp add: triple_def)
    show "triple (\<lambda>w. ?I w \<and> (\<exists>rows. found_rows x (Some src) rows cs))
       (bindM (repo_findExactContent (ScopedInvoker t) env (dd_content i) (Some src))
         (\<lambda>exact. case filter (\<lambda>c. isDuplicateCandidate c (dd_content i)) (combinedCandidates exact cs) of
           [] \<Rightarrow> if dd_existingOnly i then ret None
             else bindM (repo_insertPromoted (ScopedInvoker t) env \<lparr>ii_content = dd_content i, ii_tags = Some (dd_tags i),
                 ii_metadata = None, ii_sourceSummaryId = None, ii_sourceProjectId = dd_sourceProjectId i,
                 ii_sessionId = dd_sessionId i, ii_depth = Some (dd_depth i),
                 ii_confidence = Some (case dd_newEntryConfidence i of Some x \<Rightarrow> x | None \<Rightarrow> dd_confidence i)\<rparr>)
               (\<lambda>new. ret (Some new))
         | canonical # others \<Rightarrow> mergeDuplicates (ScopedInvoker t) env i canonical others)) ?done (broken_transaction d)"
      by (rule triple_bind [OF exact' decide])
  qed
qed

text \<open>C29: Inserting with deduplication for the owner of a project, in a transaction of its own, ends with
  an active memory of the project that has the content and the given tags.  It adds a memory only when
  the project had no active one of this content; otherwise it keeps one of them, which takes over the
  tags and the highest confidence of every duplicate it archives.  Memories with other contents are
  left alone, and a failure changes nothing.\<close>

theorem dedup_converges:
  assumes "settled d w" and "mirror d" and "fts5Available (pe_options env)"
    and "dd_candidateScope i = Some OwnerScope" and "dd_backend i \<noteq> Some Postgresql"
    and "dd_sourceProjectId i = Some src" and "src \<noteq> ''''"
    and "deduplicateAndInsert None env i w = (r, w')"
  shows "case r of Inl e \<Rightarrow> settled d w'
    | Inr k \<Rightarrow> settled (durable w') w' \<and> (\<exists>j. k = Some j \<and> mirror (durable w') \<and> converged i src d j (durable w'))"
proof -
  have same: "converged (i\<lparr>dd_existingOnly := False\<rparr>) src d j x = converged i src d j x" for j x
    by (simp add: converged_def)
  have "triple (\<lambda>w. in_transaction d t w \<and> w_db w = d)
      (deduplicateAndInsertInRepositories None (ScopedInvoker t) env (i\<lparr>dd_existingOnly := False\<rparr>))
      (\<lambda>k w. in_transaction d t w \<and> (\<exists>j. k = Some j \<and> mirror (w_db w) \<and> converged (i\<lparr>dd_existingOnly := False\<rparr>) src d j (w_db w)))
      (broken_transaction d)" for t
    by (rule triple_dedup) (simp_all add: assms)
  then have "triple (settled d) (deduplicateAndInsert None env i)
     (\<lambda>k v. settled (w_db v) v \<and> w_saved v = [] \<and> (\<exists>j. k = Some j \<and> mirror (w_db v) \<and> converged i src d j (w_db v))) (settled d)"
    unfolding deduplicateAndInsert_def storage_transaction_def same by (rule triple_transaction)
  from root_outcome [OF assms(1) this assms(8)] show ?thesis .
qed

section \<open>A small project\<close>

definition sample_env :: promoted_env where
  "sample_env = \<lparr>pe_projectId = ''p'', pe_options = \<lparr>fts5Available = True, ftsStatementOk = True\<rparr>,
     pe_engine = \<lparr>fe_rank = (\<lambda>_ _ _. None), fe_representatives = Inr, fe_support = \<lparr>ss_jsonTags = True, ss_iterate = True\<rparr>\<rparr>\<rparr>"

definition sample_dedup :: dedup_input where
  "sample_dedup = \<lparr>dd_content = ''A'', dd_tags = [''t''], dd_sourceProjectId = Some ''p'', dd_candidateScope = Some OwnerScope,
     dd_backend = None, dd_sessionId = None, dd_depth = 0, dd_confidence = 1, dd_newEntryConfidence = None,
     dd_candidateLimit = 5, dd_existingOnly = False\<rparr>"

definition sample_memories :: database where
  "sample_memories = addedRow (sample_memory ''A'' [''db'']) empty_database"

lemma sample_mirror: "mirror sample_memories"
  by (simp add: mirror_def sample_memories_def addedRow_def empty_database_def sample_memory_def entryOf_def)

lemma sample_dedup_run: "map_sum id id (fst (deduplicateAndInsert None sample_env sample_dedup (fresh_world sample_memories))) = Inr (Some ''m'')"
  by code_simp

theorem dedup_converges_witness:
  "\<exists>w'. deduplicateAndInsert None sample_env sample_dedup (fresh_world sample_memories) = (Inr (Some ''m''), w')
    \<and> converged sample_dedup ''p'' sample_memories ''m'' (durable w')"
proof -
  obtain r w' where run: "deduplicateAndInsert None sample_env sample_dedup (fresh_world sample_memories) = (r, w')"
    by (rule prod.exhaust)
  then have r: "r = Inr (Some ''m'')" using sample_dedup_run by (cases r) auto
  have "fts5Available (pe_options sample_env)" "dd_candidateScope sample_dedup = Some OwnerScope"
    "dd_backend sample_dedup \<noteq> Some Postgresql" "dd_sourceProjectId sample_dedup = Some ''p''" "''p'' \<noteq> []"
    by (simp_all add: sample_env_def sample_dedup_def)
  from dedup_converges [OF settled_fresh sample_mirror this run] show ?thesis
    using run unfolding r by auto
qed

theorem index_mirrors_memories_witness:
  "\<exists>w'. (promoted_call sample_env)\<^sup>*\<^sup>* (fresh_world sample_memories) w' \<and> w' \<noteq> fresh_world sample_memories
    \<and> mirror (durable w')"
proof -
  obtain r w' where run: "repo_archivePromoted RootInvoker sample_env ''m'' (fresh_world sample_memories) = (r, w')"
    by (rule prod.exhaust)
  have "w_reads (snd (repo_archivePromoted RootInvoker sample_env ''m'' (fresh_world sample_memories))) = 1" by code_simp
  then have "w' \<noteq> fresh_world sample_memories" using run by (auto simp: fresh_world_def)
  moreover have steps: "(promoted_call sample_env)\<^sup>*\<^sup>* (fresh_world sample_memories) w'"
    using call_archivePromoted [OF run] by (rule r_into_rtranclp)
  moreover have "mirror (durable w')"
  proof (rule index_mirrors_memories [OF _ _ steps])
    show "fts5Available (pe_options sample_env)" by (simp add: sample_env_def)
    show "mirrored (fresh_world sample_memories)"
      using sample_mirror by (simp add: mirrored_def durable_def fresh_world_def)
  qed
  ultimately show ?thesis by blast
qed

section \<open>A savepoint left open\<close>

text \<open>
  When \<open>ROLLBACK TO\<close> fails in \<open>withFtsSavepoint\<close>, the savepoint, and with it a transaction, stays open
  on an executor that still takes calls, which then return without being durable.
\<close>

theorem savepoint_left_open:
  "\<exists>w' w''. repo_insertPromoted RootInvoker (sample_env\<lparr>pe_options := \<lparr>fts5Available = True, ftsStatementOk = False\<rparr>\<rparr>)
        \<lparr>ii_content = ''B'', ii_tags = None, ii_metadata = None, ii_sourceSummaryId = None, ii_sourceProjectId = None,
         ii_sessionId = None, ii_depth = None, ii_confidence = None\<rparr>
        ((fresh_world sample_memories)\<lparr>w_execFault := (\<lambda>n. n = 1)\<rparr>) = (Inl (StorageError ''STORAGE_OPERATION_FAILED''), w')
    \<and> \<not> w_poisoned w' \<and> w_saved w' \<noteq> []
    \<and> repo_logSurfacing RootInvoker [''m''] None w' = (Inr (), w'')
    \<and> recall_surfacing (w_db w'') \<noteq> [] \<and> durable w'' = sample_memories"
proof -
  have "normalizePromotedMetadata (JObj []) = Inr (JObj [])" by code_simp
  moreover have "nulChar \<noteq> CHR ''B''" by code_simp
  moreover have "findPromoted sample_memories ''0'' = None" by code_simp
  moreover have "show_nat 0 = ''0''" by code_simp
  ultimately show ?thesis
    by (simp add: repo_insertPromoted_def repo_logSurfacing_def logSurfacing_def invoke_def run_def sample_env_def
        enqueue_def normalized_def catchM_def assertUsable_def bindM_def op_apply fresh_world_def
        insertPromoted_def insertPromotedRow_def withFtsSavepoint_def ftsInsert_def randomUUID_def liftE_def
        sql_exec_def Let_def setDb_def getDb_def sqlNow_def sqlWrite_def findPromoted_def find_append_None
        normalizeStorageError_def durable_def)
qed

end
