(* ===== verification/Promoted_Values.thy ===== *)
theory Promoted_Values
  imports Promoted_Dedup
begin

text \<open>
  The values that the promoted memory stores: metadata has a normal form, so what was inserted is read
  back; and the evidence of a recall search counts what it says, in whatever batches.
\<close>

section \<open>Metadata\<close>

lemma propertyOrder_inj: "propertyOrder k = propertyOrder k' \<Longrightarrow> k = k'"
  by (auto simp: propertyOrder_def arrayIndex_def Let_def split: option.splits if_splits)

text \<open>Sorting by another injective key in between does not show.\<close>

lemma sort_key_again:
  assumes "\<And>x y. f x = f y \<Longrightarrow> g x = g y" and "\<And>x y. g x = g y \<Longrightarrow> f x = f y"
  shows "sort_key f (sort_key g (sort_key f xs)) = sort_key f xs"
proof (rule properties_for_sort_key)
  show "mset (sort_key f xs) = mset (sort_key g (sort_key f xs))" by simp
  show "filter (\<lambda>x. f k = f x) (sort_key f xs) = filter (\<lambda>x. f k = f x) (sort_key g (sort_key f xs))" for k
  proof -
    have "(\<lambda>x. f k = f x) = (\<lambda>x. g x = g k)" 
      by (intro ext iffI; metis assms)
    then show ?thesis by (simp only: sort_key_stable)
  qed
  show "sorted (map f (sort_key f xs))" by simp
qed

lemma promotedJsonFields_map: "promotedJsonFields depth kvs = map (\<lambda>(k, v). (k, promotedJsonValue (Suc depth) v)) kvs"
  by (induction kvs) auto

lemma collectFields_Inr:
  "collectFields xs = Inr fs \<Longrightarrow> xs = map (\<lambda>(k, v). (k, Inr v)) fs \<and> (\<forall>(k, v) \<in> set fs. nulChar \<notin> set k)"
proof (induction xs arbitrary: fs)
  case (Cons x xs)
  obtain k r where x: "x = (k, r)" by (rule prod.exhaust)
  show ?case
    using Cons.prems unfolding x by (auto simp: validatedJsonString_def split: sum.splits if_splits dest!: Cons.IH)
qed simp

lemma collectFields_map:
  "\<forall>(k, v) \<in> set fs. nulChar \<notin> set k \<Longrightarrow> collectFields (map (\<lambda>(k, v). (k, Inr v)) fs) = Inr fs"
  by (induction fs) (auto simp: validatedJsonString_def)

lemma insort_map_Inr: "insort_key fst (k, Inr v) (map (\<lambda>(k, v). (k, Inr v)) ys) = map (\<lambda>(k, v). (k, Inr v)) (insort_key fst (k, v) ys)"
  by (induction ys) auto

lemma sort_key_map_Inr: "sort_key fst (map (\<lambda>(k, v). (k, Inr v)) xs) = map (\<lambda>(k, v). (k, Inr v)) (sort_key fst xs)"
  by (induction xs) (auto simp: insort_map_Inr)

lemma promotedJson_normal:
  "(\<forall>w. promotedJsonValue depth v = Inr w \<longrightarrow> promotedJsonValue depth w = Inr w)"
  "(\<forall>ws. promotedJsonArray depth' vs = Inr ws \<longrightarrow> promotedJsonArray depth' ws = Inr ws)"
  "(\<forall>(k :: string, v) \<in> set kvs. \<forall>w. promotedJsonValue (Suc depth'') v = Inr w \<longrightarrow> promotedJsonValue (Suc depth'') w = Inr w)"
proof (induction depth v and depth' vs and depth'' kvs rule: promotedJsonValue_promotedJsonArray_promotedJsonFields.induct)
  case (6 depth kvs)
  show ?case
  proof (intro allI impI)
    fix w assume run: "promotedJsonValue depth (JObj kvs) = Inr w"
    let ?po = "\<lambda>kv. propertyOrder (fst kv)"
    obtain fs where d: "\<not> 100 < depth" and c: "collectFields (sort_key fst (promotedJsonFields depth kvs)) = Inr fs"
      and w: "w = JObj (sort_key ?po fs)" using run by (auto split: if_splits sum.splits)
    have fs: "sort_key fst (promotedJsonFields depth kvs) = map (\<lambda>(k, v). (k, Inr v)) fs"
      and keys: "\<forall>(k, v) \<in> set fs. nulChar \<notin> set k"
      using collectFields_Inr [OF c] by auto
    have normal: "promotedJsonValue (Suc depth) x = Inr x" if "(k, x) \<in> set fs" for k x
    proof -
      have "(k, Inr x :: lcm_error + json) \<in> set (map (\<lambda>(k, v). (k, Inr v)) fs)" using that by force
      moreover have "set (map (\<lambda>(k, v). (k, Inr v :: lcm_error + json)) fs) = set (promotedJsonFields depth kvs)"
        unfolding fs [symmetric] by (rule set_sort)
      ultimately have "(k, Inr x) \<in> set (promotedJsonFields depth kvs)" by simp
      then obtain x0 where "(k, x0) \<in> set kvs" "promotedJsonValue (Suc depth) x0 = Inr x"
        by (auto simp: promotedJsonFields_map)
      then show ?thesis using "6.IH" [OF d] by blast
    qed
    let ?fs = "sort_key ?po fs"
    have "promotedJsonFields depth ?fs = map (\<lambda>(k, v). (k, Inr v)) ?fs"
      unfolding promotedJsonFields_map by (rule map_cong) (auto simp: normal)
    then have "sort_key fst (promotedJsonFields depth ?fs) = map (\<lambda>(k, v). (k, Inr v)) (sort_key fst ?fs)"
      by (simp only: sort_key_map_Inr)
    then have again: "collectFields (sort_key fst (promotedJsonFields depth ?fs)) = Inr (sort_key fst ?fs)"
      using keys by (simp add: collectFields_map)
    have "sort_key ?po (sort_key fst ?fs) = ?fs"
      by (rule sort_key_again) (auto dest: propertyOrder_inj)
    then show "promotedJsonValue depth w = Inr w" unfolding w using d again by simp
  qed
next
  case (5 depth vs)
  then show ?case by (auto split: sum.splits)
next
  case (8 depth v vs)
  then show ?case by (auto split: sum.splits)
qed (auto split: sum.splits if_splits simp: validatedJsonString_def)

lemma metadata_normal: "normalizePromotedMetadata v = Inr w \<Longrightarrow> normalizePromotedMetadata w = Inr w"
proof -
  assume n: "normalizePromotedMetadata v = Inr w"
  then have "promotedJsonValue 1 v = Inr w" by (auto simp: normalizePromotedMetadata_def split: sum.splits json.splits)
  then have "promotedJsonValue 1 w = Inr w" using promotedJson_normal(1) by blast
  then show "normalizePromotedMetadata w = Inr w"
    using n by (auto simp: normalizePromotedMetadata_def split: sum.splits json.splits)
qed

section \<open>What was inserted is read back\<close>

lemma root_atomic:
  assumes "usable d w" and "atomic_op m Q" and "invoke RootInvoker False m w = (Inr a, w')"
  shows "usable (w_db w') w' \<and> Q d a (w_db w')"
proof -
  have "normalized m w = (Inr a, w')" using assms(3) by (simp add: invoke_def run_usable [OF assms(1)])
  then have m: "m w = (Inr a, w')" by (auto simp: normalized_def catchM_def op_apply split: prod.splits sum.splits)
  have t: "triple (\<lambda>v. frame v = frame w \<and> w_saved v = [] \<and> w_db v = d) m
     (\<lambda>a v. frame v = frame w \<and> w_saved v = [] \<and> Q d a (w_db v)) (left_open (frame w) [] d)"
    using assms(2) unfolding atomic_op_def by blast
  have "frame w' = frame w \<and> w_saved w' = [] \<and> Q d a (w_db w')"
    using triple_value [OF t _ m] usable_fields [OF assms(1)] by blast
  then show ?thesis using assms(1) by (auto simp: usable_def settled_def durable_def dest: frame_fields)
qed

text \<open>C30: A memory that was inserted is read back by its id with the given content, tags and confidence
  and the normal form of its metadata, as an active memory.\<close>

theorem insert_read_back:
  assumes "usable d w" and "fts5Available (pe_options env)"
    and "repo_insertPromoted RootInvoker env i w = (Inr k, w')"
  shows "\<exists>row. repo_getPromotedById RootInvoker k w' = (Inr (Some row), w') \<and> prom_id row = k
    \<and> prom_content row = ii_content i \<and> prom_tags row = (case ii_tags i of Some ts \<Rightarrow> ts | None \<Rightarrow> [])
    \<and> prom_confidence row = (case ii_confidence i of Some x \<Rightarrow> x | None \<Rightarrow> 1)
    \<and> normalizePromotedMetadata (case ii_metadata i of Some m \<Rightarrow> m | None \<Rightarrow> JObj []) = Inr (prom_metadata row)
    \<and> prom_archivedAt row = None"
proof -
  let ?params = "\<lparr>ip_content = ii_content i, ip_tags = ii_tags i, ip_metadata = ii_metadata i,
      ip_sourceSummaryId = ii_sourceSummaryId i, ip_projectId = ownerOr env (ii_sourceProjectId i),
      ip_sessionId = ii_sessionId i, ip_depth = ii_depth i, ip_confidence = ii_confidence i\<rparr>"
  have u: "usable (w_db w') w'" and rel: "insertRel ?params d k (w_db w')"
    using root_atomic [OF assms(1) atomic_insert [OF assms(2)] assms(3) [unfolded repo_insertPromoted_def]] by auto
  obtain metadata now where n: "normalizePromotedMetadata (case ii_metadata i of Some m \<Rightarrow> m | None \<Rightarrow> JObj []) = Inr metadata"
    and x: "w_db w' = addedRow (insertedRow k ?params metadata now (nextPromotedRowid d)) d"
    and new: "findPromoted d k = None" and nul: "nulChar \<notin> set (ii_content i)"
    using rel by (auto simp: insertRel_def)
  let ?row = "insertedRow k ?params metadata now (nextPromotedRowid d)"
  have row: "findPromoted (w_db w') k = Some ?row"
    unfolding x using find_append_new [OF new, of ?row] by (simp add: findPromoted_def addedRow_def insertedRow_def)
  have "mapRecord (getPromotedById k) w' = (Inr (Some ?row), w')"
    using row nul metadata_normal [OF n]
    by (simp add: mapRecord_def getPromotedById_def getDb_def publicPromotedRow_def promotedRecord_def readPromotedContent_def
        insertedRow_def bindM_Inr bindM_assoc) (simp add: ret_apply)
  then have "repo_getPromotedById RootInvoker k w' = (Inr (Some ?row), w')"
    by (simp add: repo_getPromotedById_def invoke_def run_usable [OF u] normalized_def catchM_def)
  then show ?thesis using n by (auto simp: insertedRow_def)
qed

definition sample_insert :: insert_input where
  "sample_insert = \<lparr>ii_content = ''A'', ii_tags = None, ii_metadata = Some (JObj [(''b'', JNull), (''a'', JBool True)]),
     ii_sourceSummaryId = None, ii_sourceProjectId = None, ii_sessionId = None, ii_depth = None, ii_confidence = None\<rparr>"

lemma sample_insert_run: "map_sum id id (fst (repo_insertPromoted RootInvoker sample_env sample_insert (fresh_world empty_database))) = Inr ''0''"
  by code_simp

theorem insert_read_back_witness:
  "\<exists>w' row. repo_insertPromoted RootInvoker sample_env sample_insert (fresh_world empty_database) = (Inr ''0'', w')
    \<and> repo_getPromotedById RootInvoker ''0'' w' = (Inr (Some row), w') \<and> prom_content row = ''A''"
proof -
  obtain r w' where run: "repo_insertPromoted RootInvoker sample_env sample_insert (fresh_world empty_database) = (r, w')"
    by (rule prod.exhaust)
  then have r: "r = Inr ''0''" using sample_insert_run by (cases r) auto
  have "fts5Available (pe_options sample_env)" by (simp add: sample_env_def)
  from insert_read_back [OF usable_fresh this run [unfolded r]] show ?thesis
    using run unfolding r by (auto simp: sample_insert_def)
qed

section \<open>Evidence in batches\<close>

lemma concat_batches: "concat (batches n xs) = xs"
  by (induction n xs rule: batches.induct) auto

lemma batches_subset: "b \<in> set (batches n xs) \<Longrightarrow> set b \<subseteq> set xs"
  using concat_batches [of n xs] by (metis UN_upper set_concat)

definition rowOf :: "database \<Rightarrow> string \<Rightarrow> promoted_row" where
  "rowOf d i = the (findPromoted d i)"

definition activeId :: "database \<Rightarrow> string \<Rightarrow> bool" where
  "activeId d i \<longleftrightarrow> (\<exists>r \<in> set (promoted d). prom_id r = i \<and> prom_archivedAt r = None)"

lemma filter_only:
  assumes "distinct (map prom_id rs)" and "r \<in> set rs" and "P r"
  shows "filter (\<lambda>x. prom_id x = prom_id r \<and> P x) rs = [r]"
  using assms
proof (induction rs)
  case (Cons x rs)
  show ?case
  proof (cases "x = r")
    case True
    then have "prom_id r \<notin> prom_id ` set rs" using Cons.prems(1) by simp
    then have "filter (\<lambda>x. prom_id x = prom_id r \<and> P x) rs = []"
      unfolding filter_empty_conv by (metis imageI)
    then show ?thesis using True Cons.prems(3) by simp
  next
    case False
    then show ?thesis using Cons by auto
  qed
qed simp

lemma activeId_row:
  assumes "distinct (map prom_id (promoted d))" and "activeId d i"
  shows "filter (\<lambda>r. prom_id r = i \<and> prom_archivedAt r = None) (promoted d) = [rowOf d i]"
    and "rowOf d i \<in> set (promoted d) \<and> prom_id (rowOf d i) = i"
proof -
  obtain r where r: "r \<in> set (promoted d)" "prom_id r = i" "prom_archivedAt r = None" using assms(2) by (auto simp: activeId_def)
  have "rowOf d i = r" using find_unique [OF assms(1) r(1)] by (simp add: rowOf_def findPromoted_def r(2))
  then show "filter (\<lambda>r. prom_id r = i \<and> prom_archivedAt r = None) (promoted d) = [rowOf d i]"
    and "rowOf d i \<in> set (promoted d) \<and> prom_id (rowOf d i) = i"
    using filter_only [of "promoted d" r "\<lambda>r. prom_archivedAt r = None"] assms(1) r by simp_all
qed

abbreviation evidenceOf :: "(promoted_row \<Rightarrow> string \<Rightarrow> bool) \<Rightarrow> database \<Rightarrow> string list \<Rightarrow> string \<Rightarrow> nat" where
  "evidenceOf matches d terms i \<equiv> length (filter (matches (rowOf d i)) terms)"

lemma evidenceRows_active:
  assumes "distinct (map prom_id (promoted d))" and "\<forall>(ordinal, i) \<in> set selected. activeId d i"
  shows "evidenceRows matches d terms selected = map (\<lambda>(ordinal, i). (i, ordinal, evidenceOf matches d terms i)) selected"
  using assms(2)
proof (induction selected)
  case (Cons s selected)
  obtain ordinal i where s: "s = (ordinal, i)" by (rule prod.exhaust)
  then have i: "activeId d i" using Cons.prems by auto
  show ?case
    using Cons activeId_row [OF assms(1) i] by (simp add: evidenceRows_def s)
qed (simp add: evidenceRows_def)

lemma addCounts_append: "addCounts counts (xs @ ys) = addCounts (addCounts counts xs) ys"
  by (induction counts xs rule: addCounts.induct) auto

lemma evidenceBatch_active:
  assumes "distinct (map prom_id (promoted (w_db w)))" and "\<forall>(ordinal, i) \<in> set selected. activeId (w_db w) i"
  shows "evidenceBatch matches terms selected counts w =
    (Inr (addCounts counts (map (\<lambda>(ordinal, i). (i, ordinal, evidenceOf (matches (w_db w)) (w_db w) terms i)) selected)), w)"
proof -
  have "list_all2 (\<lambda>(i, ordinal, n) (ordinal', i'). i = i' \<and> ordinal = ordinal' \<and> n \<le> length terms)
     (map (\<lambda>(ordinal, i). (i, ordinal, evidenceOf (matches (w_db w)) (w_db w) terms i)) selected) selected"
    by (auto simp: list_all2_conv_all_nth case_prod_beta)
  then show ?thesis
    by (simp add: evidenceBatch_def getDb_def evidenceRows_active [OF assms] ret_apply)
qed

lemma idBatches:
  assumes "distinct (map prom_id (promoted (w_db w)))" and "\<forall>b \<in> set bs. \<forall>(ordinal, i) \<in> set b. activeId (w_db w) i"
  shows "foldM (\<lambda>counts b. evidenceBatch matches terms b counts) counts bs w =
    (Inr (addCounts counts (map (\<lambda>(ordinal, i). (i, ordinal, evidenceOf (matches (w_db w)) (w_db w) terms i)) (concat bs))), w)"
  using assms(2)
proof (induction bs arbitrary: counts)
  case (Cons b bs)
  have b: "\<forall>(ordinal, i) \<in> set b. activeId (w_db w) i" using Cons.prems by simp
  show ?case
    using Cons by (simp add: addCounts_append bindM_Inr evidenceBatch_active [OF assms(1) b])
qed (simp add: ret_apply)

lemma addCounts_zip:
  assumes "length counts = length ids"
  shows "addCounts (pre @ counts) (map (\<lambda>(ordinal, i). (i, ordinal, f i)) (zip [length pre..<length pre + length ids] ids))
    = pre @ map2 (+) counts (map f ids)"
  using assms
proof (induction ids arbitrary: pre counts)
  case (Cons i ids)
  then obtain c cs where c: "counts = c # cs" by (cases counts) auto
  have upt: "[length pre..<length pre + length (i # ids)]
    = length pre # [length (pre @ [c + f i])..<length (pre @ [c + f i]) + length ids]"
    by (subst upt_conv_Cons) auto
  show ?case using Cons.IH [of cs "pre @ [c + f i]"] Cons.prems unfolding upt c by simp
qed simp

lemma countEvidence_active:
  assumes "distinct (map prom_id (promoted (w_db w)))" and "\<forall>i \<in> set ids. activeId (w_db w) i"
  shows "countEvidence matches terms ids w = (Inr (map (evidenceOf (matches (w_db w)) (w_db w) terms) ids), w)"
proof -
  define bs where "bs = batches (BATCH_SIZE - 1) (zip [0..<length ids] ids)"
  let ?n = "\<lambda>ts i. evidenceOf (matches (w_db w)) (w_db w) ts i"
  have b: "\<forall>b \<in> set bs. \<forall>(ordinal, i) \<in> set b. activeId (w_db w) i"
    unfolding bs_def using assms(2) batches_subset [of _ "BATCH_SIZE - 1" "zip [0..<length ids] ids"] by (force dest: set_zip_rightD)
  have step: "foldM (\<lambda>counts b. evidenceBatch matches ts b counts) counts bs w = (Inr (map2 (+) counts (map (?n ts) ids)), w)"
    if "length counts = length ids" for ts counts
    using idBatches [OF assms(1) b] addCounts_zip [OF that, of "[]"] by (simp add: bs_def concat_batches)
  have "foldM (\<lambda>counts ts. foldM (\<lambda>counts b. evidenceBatch matches ts b counts) counts bs) (map h ids) tbs w
      = (Inr (map (\<lambda>i. h i + ?n (concat tbs) i) ids), w)" for h tbs
  proof (induction tbs arbitrary: h)
    case (Cons ts tbs)
    have "map2 (+) (map h ids) (map (?n ts) ids) = map (\<lambda>i. h i + ?n ts i) ids"
      by (simp add: map2_map_map)
    then have s: "foldM (\<lambda>counts b. evidenceBatch matches ts b counts) (map h ids) bs w = (Inr (map (\<lambda>i. h i + ?n ts i) ids), w)"
      using step [of "map h ids" ts] by simp
    show ?case using Cons.IH by (simp add: bindM_Inr s add.assoc)
  qed (simp add: ret_apply)
  from this [of "\<lambda>_. 0" "batches (BATCH_SIZE - 1) terms"] show ?thesis
    unfolding countEvidence_def bs_def [symmetric] by (simp add: concat_batches)
qed

text \<open>Without the full-text index, the evidence of every memory a search found is the number of
  different words of the query, and how many of them are words of its content or tags; the collection
  in batches neither fails nor counts anything twice.\<close>

theorem evidence_counts_words:
  assumes "\<not> fts5Available opts" and "distinct (map prom_id (promoted (w_db w)))"
    and "searchPromoted (fe_rank engine) opts (fe_support engine) query limit filterTags projectId w = (Inr rs, w')"
  shows "collectPromotedRecallEvidence engine opts rs query w = (Inr (map (\<lambda>s. let r = rowOf (w_db w) (sr_id s) in
      \<lparr>ev_result = s, ev_queryTermCount = card (searchWords query),
       ev_matchedTermCount = card (searchWords query \<inter> (searchWords (prom_content r) \<union> searchWords (jsonStrings (prom_tags r))))\<rparr>) rs), w)"
proof (cases "searchTerms query = [] \<or> rs = []")
  case True
  then have "rs = []" using assms(3) by (auto simp: searchPromoted_def ret_apply)
  then show ?thesis by (simp add: collectPromotedRecallEvidence_def ret_apply)
next
  case False
  let ?terms = "dedupe_from {} (map (map lowerAscii) (searchTerms query))"
  let ?tags = "case filterTags of Some ts \<Rightarrow> ts | None \<Rightarrow> []"
  let ?rows = "limited limit (filter (hasTags ?tags) (fallbackRows (w_db w) ?terms projectId))"
  have terms: "set ?terms = searchWords query" "distinct ?terms"
    by (simp_all add: set_dedupe_from searchWords_def searchTerms_lower distinct_dedupe_from)
  have "mapM (\<lambda>r. bindM (liftE (readPromotedContent (prom_content r))) (\<lambda>content.
      ret (searchResult r (fallbackRank ?terms r) content))) ?rows w = (Inr rs, w')"
    using assms(1,3) False by (simp add: searchPromoted_def searchWithoutFts_def getDb_def Let_def)
  from mapM_results [OF this] have "map sr_id rs = map prom_id ?rows"
    by (auto simp: list_all2_conv_all_nth searchResult_def intro!: nth_equalityI)
  then have "set (map sr_id rs) \<subseteq> prom_id ` set ?rows" by (metis list.set_map order_refl)
  moreover have "set ?rows \<subseteq> {r \<in> set (promoted (w_db w)). prom_archivedAt r = None}"
    by (auto simp: limited_def fallbackRows_def dest: in_set_takeD)
  ultimately have active: "\<forall>i \<in> set (map sr_id rs). activeId (w_db w) i" unfolding activeId_def by blast
  have count: "length (filter (matchesTerm r) ?terms) = card (searchWords query \<inter> (searchWords (prom_content r) \<union> searchWords (jsonStrings (prom_tags r))))" for r
  proof -
    have "length (filter (matchesTerm r) ?terms) = card (set (filter (matchesTerm r) ?terms))"
      using distinct_card [OF distinct_filter [OF terms(2)]] by simp
    also have "set (filter (matchesTerm r) ?terms) = searchWords query \<inter> (searchWords (prom_content r) \<union> searchWords (jsonStrings (prom_tags r)))"
      using matchesTerm_words [of _ query r] terms(1) by auto
    finally show ?thesis .
  qed
  have "length ?terms = card (searchWords query)" using distinct_card [OF terms(2)] terms(1) by simp
  moreover have "countEvidence (\<lambda>d. matchesTerm) ?terms (map sr_id rs) w
      = (Inr (map (evidenceOf matchesTerm (w_db w) ?terms) (map sr_id rs)), w)"
    by (rule countEvidence_active [OF assms(2) active])
  ultimately show ?thesis
    using False assms(1)
    by (simp add: collectPromotedRecallEvidence_def Let_def bindM_Inr count ret_apply zip_map2 comp_def zip_same_conv_map)
qed

theorem evidence_counts_words_witness:
  "\<exists>rs evs. searchPromoted (fe_rank (pe_engine sample_env)) \<lparr>fts5Available = False, ftsStatementOk = False\<rparr>
        (fe_support (pe_engine sample_env)) ''A, B?'' 5 None None (fresh_world sample_memories) = (Inr rs, fresh_world sample_memories)
     \<and> collectPromotedRecallEvidence (pe_engine sample_env) \<lparr>fts5Available = False, ftsStatementOk = False\<rparr> rs ''A, B?''
         (fresh_world sample_memories) = (Inr evs, fresh_world sample_memories)
     \<and> (\<forall>e \<in> set evs. ev_queryTermCount e = 2)"
proof -
  let ?options = "\<lparr>fts5Available = False, ftsStatementOk = False\<rparr>"
  let ?search = "searchPromoted (fe_rank (pe_engine sample_env)) ?options (fe_support (pe_engine sample_env)) ''A, B?'' 5 None None"
  have db: "w_db (fresh_world sample_memories) = sample_memories" by (simp add: fresh_world_def)
  have rows: "promoted sample_memories = [sample_memory ''A'' [''db'']]"
    by (simp add: sample_memories_def addedRow_def empty_database_def)
  have "nulChar \<notin> set ''A''" by code_simp
  then have "\<forall>r \<in> set (promoted (w_db (fresh_world sample_memories))). nulChar \<notin> set (prom_content r)"
    unfolding db rows by (simp add: sample_memory_def)
  then have "\<exists>rs. ?search (fresh_world sample_memories) = (Inr rs, fresh_world sample_memories)"
    by (intro fallback_returns) simp_all
  then obtain rs where run: "?search (fresh_world sample_memories) = (Inr rs, fresh_world sample_memories)" ..
  have off: "\<not> fts5Available ?options" by simp
  have "distinct (map prom_id (promoted (w_db (fresh_world sample_memories))))" unfolding db rows by simp
  note evs = evidence_counts_words [OF off this run]
  have two: "card (searchWords ''A, B?'') = 2" unfolding searchWords_def by code_simp
  show ?thesis
    by (intro exI conjI, rule run, rule evs) (simp add: Let_def two)
qed

end
