(* ===== verification/Prompt_Search.thy ===== *)
theory Prompt_Search
  imports Memory_Budget Promoted_Values
begin

text \<open>
  \<open>src/daemon/routes/prompt-search.ts\<close>: the memories that are shown beside a prompt.  The handler asks
  for candidates with their evidence, ranks them, applies the cooldown, selects hints under the budget
  and logs what it shows.

  Unicode normalization and \<open>Math.pow(0.5, x)\<close>, which the language leaves to the implementation, are
  functions of the environment.  Timestamps are milliseconds, so \<open>localeCompare\<close> on them is the order of
  numbers and they are always finite.
\<close>

section \<open>Arithmetic\<close>

fun js_add :: "js_number \<Rightarrow> js_number \<Rightarrow> js_number" where
  "js_add (Num a) (Num b) = to_double (a + b)"
| "js_add NaN _ = NaN"
| "js_add _ NaN = NaN"
| "js_add PosInf NegInf = NaN"
| "js_add NegInf PosInf = NaN"
| "js_add PosInf _ = PosInf"
| "js_add _ PosInf = PosInf"
| "js_add NegInf _ = NegInf"
| "js_add _ NegInf = NegInf"

fun js_negate :: "js_number \<Rightarrow> js_number" where
  "js_negate (Num a) = Num (- a)"
| "js_negate PosInf = NegInf"
| "js_negate NegInf = PosInf"
| "js_negate NaN = NaN"

definition js_sub :: "js_number \<Rightarrow> js_number \<Rightarrow> js_number" where
  "js_sub a b = js_add a (js_negate b)"

fun js_div :: "js_number \<Rightarrow> js_number \<Rightarrow> js_number" where
  "js_div (Num a) (Num b) = (if b = 0 then (if a = 0 then NaN else js_signed_inf (a < 0)) else to_double (a / b))"
| "js_div NaN _ = NaN"
| "js_div _ NaN = NaN"
| "js_div (Num a) _ = Num 0"
| "js_div x (Num b) = js_signed_inf ((x = NegInf) \<noteq> (b < 0))"
| "js_div _ _ = NaN"

text \<open>Evaluation need not look at the largest double for a product that is zero.\<close>

lemma to_double_code [code]: "to_double x = (if x = 0 then Num 0 else let r = round_double x
     in if 2 ^ 1024 \<le> r then PosInf else if r \<le> - (2 ^ 1024) then NegInf else Num r)"
  by (simp add: to_double_def round_double_def)

definition js_equal :: "js_number \<Rightarrow> js_number \<Rightarrow> bool" where
  "js_equal a b = (a = b \<and> a \<noteq> NaN)"

section \<open>Budget of a query\<close>

definition CANDIDATE_LIMIT_MULTIPLIER :: nat where "CANDIDATE_LIMIT_MULTIPLIER = 5"
definition MIN_CANDIDATE_LIMIT :: nat where "MIN_CANDIDATE_LIMIT = 10"
definition MAX_QUERY_BYTES :: nat where "MAX_QUERY_BYTES = 64 * 1024"
definition MAX_QUERY_WORDS :: nat where "MAX_QUERY_WORDS = 1024"
definition MAX_CANDIDATE_LIMIT :: nat where "MAX_CANDIDATE_LIMIT = 1000"
definition MAX_QUERY_CANDIDATE_PAIRS :: nat where "MAX_QUERY_CANDIDATE_PAIRS = 65536"
definition PRE_TOOL_MAX_RESULTS :: nat where "PRE_TOOL_MAX_RESULTS = 2"
definition PRE_TOOL_MIN_SCORE_RELIEF :: js_number where "PRE_TOOL_MIN_SCORE_RELIEF = Num (1 / 2)"

text \<open>The loop over the words, which gives up at the first count that is too large.\<close>

fun countQueryWords :: "nat \<Rightarrow> nat \<Rightarrow> string list \<Rightarrow> bool" where
  "countQueryWords candidateLimit wordCount [] = True"
| "countQueryWords candidateLimit wordCount (w # ws) =
     (if MAX_QUERY_WORDS < Suc wordCount \<or> MAX_QUERY_CANDIDATE_PAIRS < Suc wordCount * candidateLimit then False
      else countQueryWords candidateLimit (Suc wordCount) ws)"

definition isRecallQueryWithinBudget :: "string \<Rightarrow> nat \<Rightarrow> bool" where
  "isRecallQueryWithinBudget query candidateLimit =
     (if MAX_QUERY_BYTES < utf8Length query \<or> MAX_CANDIDATE_LIMIT < candidateLimit then False
      else countQueryWords candidateLimit 0 (wordRuns [] query))"

section \<open>Ranking\<close>

record ranked_result =
  rr_result :: search_result
  rr_lexicalScore :: nat
  rr_matchedTermCount :: nat
  rr_queryTermCount :: nat
  rr_wholeTextMatch :: bool
  rr_strongMatchBonus :: nat
  rr_baseScore :: js_number
  rr_finalScore :: js_number
  rr_usageBoost :: js_number
  rr_unusedPenalty :: js_number
  rr_stalePenalty :: js_number
  rr_cooledDown :: bool
  rr_feedback :: recall_feedback

record search_math =
  sm_nfkc :: "string \<Rightarrow> string"
  sm_powHalf :: "js_number \<Rightarrow> js_number"

text \<open>\<open>\p{White_Space}\<close> and the byte order mark: the next-line character is one, unlike in \<open>\s\<close>.\<close>

definition isUnicodeSpace :: "char \<Rightarrow> bool" where
  "isUnicodeSpace c = (isWhitespace c \<or> (of_char c :: nat) = 133)"

fun collapseUnicodeSpaces :: "bool \<Rightarrow> string \<Rightarrow> string" where
  "collapseUnicodeSpaces inSpace [] = []"
| "collapseUnicodeSpaces inSpace (c # cs) = (if isUnicodeSpace c
     then (if inSpace then [] else [CHR '' '']) @ collapseUnicodeSpaces True cs else c # collapseUnicodeSpaces False cs)"

definition normalizeWholeText :: "search_math \<Rightarrow> string \<Rightarrow> string" where
  "normalizeWholeText m s = trim (collapseUnicodeSpaces False (toLowerCase (sm_nfkc m s)))"

definition js_int :: "int \<Rightarrow> js_number" where
  "js_int i = Num (of_int i)"

definition computeBaseScore :: "search_math \<Rightarrow> search_result \<Rightarrow> nat \<Rightarrow> string option \<Rightarrow> int \<Rightarrow> js_number \<Rightarrow> js_number \<Rightarrow> js_number" where
  "computeBaseScore m result lexicalScore querySessionId now halfLife crossSessionAffinity =
     (let ageHours = js_max (Num 0) (js_div (js_int (now - sr_createdAt result)) (Num 3600000));
          recencyFactor = sm_powHalf m (js_div ageHours halfLife);
          sessionAffinity = (if querySessionId = None then Num 1
            else if sr_sessionId result = querySessionId then Num 1 else crossSessionAffinity)
      in js_mul (js_mul (js_nat lexicalScore) recencyFactor) sessionAffinity)"

definition computeUsageBoost :: "nat \<Rightarrow> js_number \<Rightarrow> js_number \<Rightarrow> js_number" where
  "computeUsageBoost usageCount boost smoothing =
     (if usageCount = 0 \<or> js_leq boost (Num 0) then Num 1
      else let denominator = js_add (js_nat usageCount) (js_max (Num 0) smoothing) in
        if js_leq denominator (Num 0) then Num 1
        else js_add (Num 1) (js_mul boost (js_div (js_nat usageCount) denominator)))"

definition isWithinCooldown :: "int option \<Rightarrow> int \<Rightarrow> js_number \<Rightarrow> bool" where
  "isWithinCooldown lastSurfacedAt now cooldownWindowHours = (case lastSurfacedAt of None \<Rightarrow> False
     | Some surfacedAt \<Rightarrow> if js_leq cooldownWindowHours (Num 0) then False
         else js_less (js_int (now - surfacedAt)) (js_mul cooldownWindowHours (Num 3600000)))"

record rank_options =
  ro_queryText :: string
  ro_querySessionId :: "string option"
  ro_now :: int
  ro_halfLife :: js_number
  ro_crossSessionAffinity :: js_number
  ro_recallUsageBoost :: js_number
  ro_recallUsageSmoothing :: js_number
  ro_surfacingCooldownWindow :: js_number
  ro_unusedSurfacingPenalty :: js_number
  ro_staleAfterDays :: js_number
  ro_staleSurfacingWithoutUseLimit :: js_number
  ro_stalePenalty :: js_number
  ro_allowStaleOnStrongMatch :: bool

definition noFeedback :: recall_feedback where
  "noFeedback = \<lparr>rf_usageCount = 0, rf_surfacingCount = 0, rf_lastSurfacedAt = None\<rparr>"

definition rankOne :: "search_math \<Rightarrow> (string \<times> recall_feedback) list \<Rightarrow> rank_options \<Rightarrow> recall_evidence \<Rightarrow> ranked_result" where
  "rankOne m feedbackById options c =
     (let result = ev_result c; matched = ev_matchedTermCount c;
          wholeTextMatch = (0 < matched \<and> 0 < length (ro_queryText options)
            \<and> normalizeWholeText m (sr_content result) = ro_queryText options);
          strongMatchBonus = (if wholeTextMatch then 4 else 0);
          lexicalScore = matched + strongMatchBonus;
          feedback = (case map_of feedbackById (sr_id result) of Some f \<Rightarrow> f | None \<Rightarrow> noFeedback);
          baseScore = computeBaseScore m result lexicalScore (ro_querySessionId options) (ro_now options)
            (ro_halfLife options) (ro_crossSessionAffinity options);
          usageBoost = computeUsageBoost (rf_usageCount feedback) (ro_recallUsageBoost options) (ro_recallUsageSmoothing options);
          unusedPenalty = (if rf_usageCount feedback = 0
            then js_mul (js_nat (rf_surfacingCount feedback)) (js_max (Num 0) (ro_unusedSurfacingPenalty options)) else Num 0);
          ageDays = js_div (js_int (ro_now options - sr_createdAt result)) (Num 86400000);
          isStale = (js_leq (ro_staleAfterDays options) ageDays \<and> rf_usageCount feedback = 0
            \<and> js_leq (ro_staleSurfacingWithoutUseLimit options) (js_nat (rf_surfacingCount feedback)));
          stalePenalty = (if isStale then js_max (Num 0) (ro_stalePenalty options) else Num 0);
          rawScore = js_sub (js_sub (js_mul baseScore usageBoost) unusedPenalty) stalePenalty;
          finalScore = (if isStale \<and> \<not> ro_allowStaleOnStrongMatch options then js_min rawScore (Num 0) else rawScore)
      in \<lparr>rr_result = result, rr_lexicalScore = lexicalScore, rr_matchedTermCount = matched,
          rr_queryTermCount = ev_queryTermCount c, rr_wholeTextMatch = wholeTextMatch, rr_strongMatchBonus = strongMatchBonus,
          rr_baseScore = baseScore, rr_finalScore = finalScore, rr_usageBoost = usageBoost, rr_unusedPenalty = unusedPenalty,
          rr_stalePenalty = stalePenalty,
          rr_cooledDown = isWithinCooldown (rf_lastSurfacedAt feedback) (ro_now options) (ro_surfacingCooldownWindow options),
          rr_feedback = feedback\<rparr>)"

text \<open>The sign of \<open>b - a\<close>; NaN counts as zero.\<close>

definition descending :: "js_number \<Rightarrow> js_number \<Rightarrow> int" where
  "descending a b = (if js_less a b then 1 else if js_less b a then - 1 else 0)"

definition compareRankedResults :: "ranked_result \<Rightarrow> ranked_result \<Rightarrow> int" where
  "compareRankedResults a b =
     (if \<not> js_equal (rr_finalScore b) (rr_finalScore a) then descending (rr_finalScore a) (rr_finalScore b)
      else if \<not> js_equal (rr_baseScore b) (rr_baseScore a) then descending (rr_baseScore a) (rr_baseScore b)
      else if sr_confidence (rr_result b) \<noteq> sr_confidence (rr_result a)
        then descending (Num (sr_confidence (rr_result a))) (Num (sr_confidence (rr_result b)))
      else sgn (sr_createdAt (rr_result a) - sr_createdAt (rr_result b)))"

text \<open>
  \<open>Array.prototype.sort\<close> is stable; its result for a comparison that is no order (which takes a score
  that is NaN) is left to the implementation, here it is that of insertion.
\<close>

fun insertBy :: "('a \<Rightarrow> 'a \<Rightarrow> int) \<Rightarrow> 'a \<Rightarrow> 'a list \<Rightarrow> 'a list" where
  "insertBy cmp x [] = [x]"
| "insertBy cmp x (y # ys) = (if cmp x y \<le> 0 then x # y # ys else y # insertBy cmp x ys)"

definition sortBy :: "('a \<Rightarrow> 'a \<Rightarrow> int) \<Rightarrow> 'a list \<Rightarrow> 'a list" where
  "sortBy cmp xs = foldr (insertBy cmp) xs []"

definition rankResults :: "search_math \<Rightarrow> recall_evidence list \<Rightarrow> (string \<times> recall_feedback) list \<Rightarrow> rank_options \<Rightarrow>
    ranked_result list" where
  "rankResults m candidates feedbackById options =
     sortBy compareRankedResults (map (rankOne m feedbackById options) candidates)"

section \<open>Cooldown\<close>

definition meetsMinScore :: "js_number \<Rightarrow> bool \<Rightarrow> ranked_result \<Rightarrow> bool" where
  "meetsMinScore minScore preTool r = (if js_leq minScore (rr_finalScore r) then True
     else preTool \<and> 0 < rr_queryTermCount r \<and> rr_matchedTermCount r = rr_queryTermCount r
       \<and> js_less (Num 0) (rr_finalScore r) \<and> js_leq (js_sub minScore PRE_TOOL_MIN_SCORE_RELIEF) (rr_finalScore r))"

definition applyCooldown :: "ranked_result list \<Rightarrow> js_number \<Rightarrow> js_number \<Rightarrow> bool \<Rightarrow> ranked_result list" where
  "applyCooldown results minScore resurfaceMargin strictCooldown =
     (case filter (meetsMinScore minScore strictCooldown) results of
        [] \<Rightarrow> []
      | first # rest \<Rightarrow> let eligible = first # rest in
        if strictCooldown then filter (\<lambda>r. \<not> rr_cooledDown r) eligible
        else (case List.find (\<lambda>r. \<not> rr_cooledDown r) eligible of
            None \<Rightarrow> [first]
          | Some best \<Rightarrow> filter (\<lambda>r. if \<not> rr_cooledDown r then True
              else js_leq (js_add (rr_finalScore best) (js_max (Num 0) resurfaceMargin)) (rr_finalScore r)) eligible))"

section \<open>Request\<close>

record prompt_request =
  pq_query :: string
  pq_cwd :: string
  pq_sessionId :: "string option"
  pq_learningInstructionBytes :: "js_number option"
  pq_logSurfacing :: bool
  pq_debug :: bool
  pq_preTool :: bool

text \<open>\<open>String(v)\<close> and \<open>Number(v)\<close> of a value of JSON.\<close>

record json_conversions =
  jc_string :: "json \<Rightarrow> string"
  jc_number :: "json \<Rightarrow> js_number"

fun jsonTruthy :: "json \<Rightarrow> bool" where
  "jsonTruthy JNull = False"
| "jsonTruthy (JBool b) = b"
| "jsonTruthy (JNum x) = (x \<noteq> NaN \<and> x \<noteq> Num 0)"
| "jsonTruthy (JStr s) = (s \<noteq> [])"
| "jsonTruthy _ = True"

definition requestField :: "json \<Rightarrow> string \<Rightarrow> json option" where
  "requestField v k = (case v of JObj kvs \<Rightarrow> map_of (rev kvs) k | _ \<Rightarrow> None)"

definition validatePromptSearchInput :: "json_conversions \<Rightarrow> json \<Rightarrow> lcm_error + prompt_request" where
  "validatePromptSearchInput jc input =
     (if \<not> (case input of JObj _ \<Rightarrow> True | JArr _ \<Rightarrow> True | _ \<Rightarrow> False)
        then Inl (InputError ''Request body must be a JSON object'')
      else case requestField input ''query'' of
        Some (JStr query) \<Rightarrow> (case requestField input ''cwd'' of
          Some (JStr cwd) \<Rightarrow> Inr \<lparr>pq_query = query, pq_cwd = cwd,
            pq_sessionId = (case requestField input ''session_id'' of None \<Rightarrow> None
              | Some v \<Rightarrow> if jsonTruthy v then Some (jc_string jc v) else None),
            pq_learningInstructionBytes = (case requestField input ''learningInstructionBytes'' of None \<Rightarrow> None
              | Some v \<Rightarrow> let n = jc_number jc v in
                  Some (js_max (Num 0) (js_floor (if n = NaN then Num 0 else n)))),
            pq_logSurfacing = (requestField input ''logSurfacing'' \<noteq> Some (JBool False)),
            pq_debug = (requestField input ''debug'' = Some (JBool True)),
            pq_preTool = (requestField input ''recallMode'' = Some (JStr ''pre-tool''))\<rparr>
        | _ \<Rightarrow> Inl (InputError ''Missing or invalid cwd field''))
      | _ \<Rightarrow> Inl (InputError ''Missing or invalid query field''))"

section \<open>Handler\<close>

record restoration_config =
  rc_promptSearchMaxResults :: nat
  rc_promptSearchMinScore :: js_number
  rc_promptSnippetLength :: nat
  rc_maxInjectedMemoryBytes :: js_number
  rc_reservedForLearningInstruction :: js_number
  rc_maxInjectedMemoryItems :: js_number
  rc_dedupMinPrefix :: js_number
  rc_recencyHalfLifeHours :: js_number
  rc_crossSessionAffinity :: js_number
  rc_recallUsageBoost :: js_number
  rc_recallUsageSmoothing :: js_number
  rc_surfacingCooldownWindow :: js_number
  rc_resurfaceMargin :: js_number
  rc_unusedSurfacingPenalty :: js_number
  rc_staleAfterDays :: js_number
  rc_staleSurfacingWithoutUseLimit :: js_number
  rc_stalePenalty :: js_number
  rc_allowStaleOnStrongMatch :: bool

record prompt_debug =
  pd_candidates :: "(ranked_result \<times> bool) list"
  pd_selection :: hint_selection

text \<open>The body of a response with status 200: the hints, the ids where it has them, what debugging adds.\<close>

record prompt_response =
  ps_hints :: "string list"
  ps_ids :: "string list option"
  ps_debug :: "prompt_debug option"

definition noHints :: prompt_response where
  "noHints = \<lparr>ps_hints = [], ps_ids = None, ps_debug = None\<rparr>"

definition maxResultsOf :: "restoration_config \<Rightarrow> bool \<Rightarrow> nat" where
  "maxResultsOf rc preTool = (if preTool then min (rc_promptSearchMaxResults rc) PRE_TOOL_MAX_RESULTS
     else rc_promptSearchMaxResults rc)"

definition candidateLimitOf :: "restoration_config \<Rightarrow> bool \<Rightarrow> nat" where
  "candidateLimitOf rc preTool = max (maxResultsOf rc preTool * CANDIDATE_LIMIT_MULTIPLIER) MIN_CANDIDATE_LIMIT"

definition rankOptionsOf :: "search_math \<Rightarrow> restoration_config \<Rightarrow> prompt_request \<Rightarrow> int \<Rightarrow> rank_options" where
  "rankOptionsOf m rc request now = \<lparr>ro_queryText = normalizeWholeText m (pq_query request),
     ro_querySessionId = pq_sessionId request, ro_now = now, ro_halfLife = rc_recencyHalfLifeHours rc,
     ro_crossSessionAffinity = rc_crossSessionAffinity rc, ro_recallUsageBoost = rc_recallUsageBoost rc,
     ro_recallUsageSmoothing = rc_recallUsageSmoothing rc, ro_surfacingCooldownWindow = rc_surfacingCooldownWindow rc,
     ro_unusedSurfacingPenalty = rc_unusedSurfacingPenalty rc, ro_staleAfterDays = rc_staleAfterDays rc,
     ro_staleSurfacingWithoutUseLimit = rc_staleSurfacingWithoutUseLimit rc, ro_stalePenalty = rc_stalePenalty rc,
     ro_allowStaleOnStrongMatch = rc_allowStaleOnStrongMatch rc\<rparr>"

definition snippetOf :: "nat \<Rightarrow> ranked_result \<Rightarrow> memory_hint" where
  "snippetOf snippetLength r = (let content = sr_content (rr_result r) in
     \<lparr>mh_id = sr_id (rr_result r),
      mh_hint = (if snippetLength < length content then take snippetLength content @ ellipsis else content)\<rparr>)"

definition hintOptionsOf :: "restoration_config \<Rightarrow> prompt_request \<Rightarrow> hint_options" where
  "hintOptionsOf rc request = \<lparr>ho_totalByteBudget = rc_maxInjectedMemoryBytes rc,
     ho_reservedForLearningInstruction = rc_reservedForLearningInstruction rc,
     ho_learningInstructionBytes = (case pq_learningInstructionBytes request of Some n \<Rightarrow> n | None \<Rightarrow> Num 0),
     ho_maxEmitted = (if pq_preTool request then js_min (rc_maxInjectedMemoryItems rc) (js_nat PRE_TOOL_MAX_RESULTS)
        else rc_maxInjectedMemoryItems rc),
     ho_dedupMinPrefix = rc_dedupMinPrefix rc\<rparr>"

text \<open>The evidence is checked before anything else is read or written.\<close>

definition safeInteger :: "nat \<Rightarrow> bool" where
  "safeInteger n = (n < 2 ^ 53)"

definition validEvidence :: "recall_evidence \<Rightarrow> bool" where
  "validEvidence c = (safeInteger (ev_queryTermCount c) \<and> safeInteger (ev_matchedTermCount c)
     \<and> ev_matchedTermCount c \<le> ev_queryTermCount c)"

text \<open>The callback that runs with the storage of the project; the backend is SQLite.\<close>

definition bestEffort :: "(world, unit) op \<Rightarrow> (world, unit) op" where
  "bestEffort m = catchM m (\<lambda>e. if e = AbortError then throw e else ret ())"

definition rankedFor :: "search_math \<Rightarrow> restoration_config \<Rightarrow> prompt_request \<Rightarrow> recall_evidence list \<Rightarrow> int \<Rightarrow>
    (string \<times> recall_feedback) list \<Rightarrow> ranked_result list" where
  "rankedFor m rc request candidates now feedbackById = rankResults m candidates feedbackById (rankOptionsOf m rc request now)"

definition selectionFor :: "guidance_files \<Rightarrow> restoration_config \<Rightarrow> prompt_request \<Rightarrow> ranked_result list \<Rightarrow> lcm_error + hint_selection" where
  "selectionFor files rc request ranked =
     (let filtered = applyCooldown ranked (rc_promptSearchMinScore rc) (rc_resurfaceMargin rc) (pq_preTool request)
      in selectMemoryHintsWithinBudget files
          (map (snippetOf (rc_promptSnippetLength rc)) (take (maxResultsOf rc (pq_preTool request)) filtered))
          (hintOptionsOf rc request))"

definition logShown :: "prompt_request \<Rightarrow> string list \<Rightarrow> (world, unit) op" where
  "logShown request ids = bestEffort (if pq_logSurfacing request
     then repo_logSurfacing RootInvoker ids (pq_sessionId request) else ret ())"

definition responseOf :: "prompt_request \<Rightarrow> ranked_result list \<Rightarrow> hint_selection \<Rightarrow> prompt_response" where
  "responseOf request ranked selection = \<lparr>ps_hints = hs_hints selection, ps_ids = Some (hs_ids selection),
     ps_debug = (if pq_debug request
       then Some \<lparr>pd_candidates = map (\<lambda>r. (r, sr_id (rr_result r) \<in> set (hs_ids selection))) ranked,
         pd_selection = selection\<rparr> else None)\<rparr>"

definition showCandidates :: "search_math \<Rightarrow> guidance_files \<Rightarrow> restoration_config \<Rightarrow> prompt_request \<Rightarrow> recall_evidence list \<Rightarrow>
    (world, prompt_response) op" where
  "showCandidates m files rc request candidates =
     (if \<not> list_all validEvidence candidates then throw (StorageError ''STORAGE_OPERATION_FAILED'')
      else bindM dateNow (\<lambda>now.
      bindM (repo_getFeedback RootInvoker (map (\<lambda>c. sr_id (ev_result c)) candidates)) (\<lambda>feedbackById.
      let ranked = rankedFor m rc request candidates now feedbackById in
      bindM (liftE (selectionFor files rc request ranked)) (\<lambda>selection.
      bindM (logShown request (hs_ids selection)) (\<lambda>_. ret (responseOf request ranked selection))))))"

definition searchHints :: "search_math \<Rightarrow> guidance_files \<Rightarrow> promoted_env \<Rightarrow> restoration_config \<Rightarrow> prompt_request \<Rightarrow>
    (world, prompt_response) op" where
  "searchHints m files env rc request =
     (if rc_promptSearchMaxResults rc = 0 then ret \<lparr>ps_hints = [], ps_ids = Some [], ps_debug = None\<rparr>
      else bindM (repo_searchPromotedForRecall RootInvoker env (pq_query request)
          (int (candidateLimitOf rc (pq_preTool request))) None None) (showCandidates m files rc request))"

text \<open>
  The handler, for the body of the request as JSON (or none when it cannot be parsed), the check of the
  directory, and the storage of the project (or none when the project has none).
\<close>

definition promptSearch :: "search_math \<Rightarrow> json_conversions \<Rightarrow> guidance_files \<Rightarrow> restoration_config \<Rightarrow> (string \<Rightarrow> bool) \<Rightarrow>
    promoted_env option \<Rightarrow> json option \<Rightarrow> (world, prompt_response) op" where
  "promptSearch m jc files rc validCwd project body =
     (case (case body of None \<Rightarrow> Inl (InputError ''JSON'') | Some v \<Rightarrow> validatePromptSearchInput jc v) of
        Inl _ \<Rightarrow> ret noHints
      | Inr request \<Rightarrow>
        if pq_query request = [] \<or> pq_cwd request = [] \<or> \<not> validCwd (pq_cwd request) then ret noHints
        else if rc_promptSearchMaxResults rc = 0 then ret \<lparr>ps_hints = [], ps_ids = Some [], ps_debug = None\<rparr>
        else if \<not> isRecallQueryWithinBudget (pq_query request) (candidateLimitOf rc (pq_preTool request)) then ret noHints
        else catchM (case project of None \<Rightarrow> ret noHints | Some env \<Rightarrow> searchHints m files env rc request)
          (\<lambda>e. if e = AbortError then throw e else ret noHints))"

end
