(* ===== verification/Prompt_Facts.thy ===== *)
theory Prompt_Facts
  imports Prompt_Search Promoted_Dedup
begin

text \<open>
  What the prompt search shows and writes: at most the configured number of active memories, none of them
  cooled down before a tool call, and exactly one row in the log of surfaced memories for each.
\<close>

section \<open>Candidates are active memories\<close>

definition activeResult :: "database \<Rightarrow> search_result \<Rightarrow> bool" where
  "activeResult d s \<longleftrightarrow> (\<exists>r \<in> set (promoted d). prom_id r = sr_id s \<and> prom_content r = sr_content s \<and> prom_archivedAt r = None)"

lemma list_all2_origin: "list_all2 P xs ys \<Longrightarrow> y \<in> set ys \<Longrightarrow> \<exists>x \<in> set xs. P x y"
  by (induction rule: list_all2_induct) auto

lemma limited_subset: "set (limited n xs) \<subseteq> set xs"
  by (auto simp: limited_def dest: in_set_takeD)

lemma fts_active:
  assumes "searchWithFts rankOf opts support terms limit [] p w = (Inr rs, w')" and "s \<in> set rs"
  shows "activeResult (w_db w) s"
proof -
  let ?rows = "limited limit (filter (tagged []) (rankedRows rankOf (w_db w) terms p))"
  have "mapM readResult ?rows w = (Inr rs, w')"
    using assms(1) by (auto simp: searchWithFts_eq getDb_def op_apply split: if_splits)
  from mapM_results [OF this [unfolded readResult_def [abs_def]]] assms(2)
  obtain row where row: "row \<in> set ?rows" and c: "readPromotedContent (prom_content (fst row)) = Inr (sr_content s)"
    and s: "sr_id s = prom_id (fst row)"
    by (auto simp: searchResult_def dest!: list_all2_origin)
  have "row \<in> set (rankedRows rankOf (w_db w) terms p)" using row limited_subset by fastforce
  then have "fst row \<in> set (promoted (w_db w)) \<and> prom_archivedAt (fst row) = None"
    by (auto simp: rankedRows_def List.map_filter_def split: if_splits option.splits)
  with c s show ?thesis by (auto simp: activeResult_def readPromotedContent_def split: if_splits)
qed

lemma fallback_active:
  assumes "searchWithoutFts terms limit [] p w = (Inr rs, w')" and "s \<in> set rs"
  shows "activeResult (w_db w) s"
proof -
  let ?unique = "dedupe_from {} (map (map lowerAscii) terms)"
  let ?rows = "limited limit (filter (hasTags []) (fallbackRows (w_db w) ?unique p))"
  have "mapM (\<lambda>r. bindM (liftE (readPromotedContent (prom_content r))) (\<lambda>content.
          ret (searchResult r (fallbackRank ?unique r) content))) ?rows w = (Inr rs, w')"
    using assms(1) by (simp add: searchWithoutFts_def Let_def getDb_def)
  from mapM_results [OF this] assms(2)
  obtain r where row: "r \<in> set ?rows" and c: "readPromotedContent (prom_content r) = Inr (sr_content s)" and s: "sr_id s = prom_id r"
    by (auto simp: searchResult_def dest!: list_all2_origin)
  have "r \<in> set (fallbackRows (w_db w) ?unique p)" using row limited_subset by fastforce
  then have "r \<in> set (promoted (w_db w)) \<and> prom_archivedAt r = None" by (simp add: fallbackRows_def)
  with c s show ?thesis by (auto simp: activeResult_def readPromotedContent_def split: if_splits)
qed

lemma search_active:
  assumes "searchPromoted rankOf opts support query limit None p w = (Inr rs, w')" and "s \<in> set rs"
  shows "activeResult (w_db w) s"
  using assms by (auto simp: searchPromoted_def op_apply Let_def split: if_splits dest: fts_active fallback_active)

lemma evidence_selected:
  assumes "collectPromotedRecallEvidence engine opts selected query w = (Inr cs, w')"
  shows "ev_result ` set cs \<subseteq> set selected"
  using assms by (auto simp: collectPromotedRecallEvidence_def op_apply Let_def split: if_splits
      elim!: bindM_cases in_set_zipE)

lemma atomic_recall_active:
  "atomic_op (searchForRecall engine opts query limit None p)
     (\<lambda>d cs x. x = d \<and> (\<forall>c \<in> set cs. activeResult d (ev_result c)))"
  unfolding searchForRecall_def
proof (rule atomic_savepoint, rule effectI)
  fix d w cs w'
  let ?m = "bindM (searchPromoted (fe_rank engine) opts (fe_support engine) query limit None p) (\<lambda>selected.
       collectPromotedRecallEvidence engine opts selected query)"
  have q: "quiet ?m" by (intro quiet_bind quiet_search quiet_evidence)
  show "local_op ?m" using q by (simp add: quiet_def)
  assume d: "w_db w = d" and run: "?m w = (Inr cs, w')"
  from run obtain rs w1 where s: "searchPromoted (fe_rank engine) opts (fe_support engine) query limit None p w = (Inr rs, w1)"
    and e: "collectPromotedRecallEvidence engine opts rs query w1 = (Inr cs, w')" by (elim bindM_cases) auto
  show "w_db w' = d \<and> (\<forall>c \<in> set cs. activeResult d (ev_result c))"
    using quietD [OF q run] search_active [OF s] evidence_selected [OF e] d by blast
qed

section \<open>The log\<close>

definition surfacedRows :: "world \<Rightarrow> string option \<Rightarrow> string list \<Rightarrow> surfacing_row list" where
  "surfacedRows w sessionId ids = map (\<lambda>(k, i). \<lparr>surf_memoryId = i, surf_sessionId = sessionId,
     surf_surfacedAt = w_clock w (w_reads w + k) div 1000 * 1000\<rparr>) (zip [0..<length ids] ids)"

definition loggedDb :: "surfacing_row list \<Rightarrow> database \<Rightarrow> database" where
  "loggedDb rows d = d\<lparr>recall_surfacing := recall_surfacing d @ rows\<rparr>"

lemma surfacedRows_Cons:
  "surfacedRows w s (i # ids) = \<lparr>surf_memoryId = i, surf_sessionId = s, surf_surfacedAt = w_clock w (w_reads w) div 1000 * 1000\<rparr>
     # surfacedRows (w\<lparr>w_db := d, w_reads := Suc (w_reads w)\<rparr>) s ids"
  unfolding surfacedRows_def by (simp add: upt_conv_Cons map_Suc_upt [symmetric] zip_map1 case_prod_beta del: upt_Suc)

lemma logSurfacing_run:
  "logSurfacing ids s w = (Inr (), w\<lparr>w_db := loggedDb (surfacedRows w s ids) (w_db w), w_reads := w_reads w + length ids\<rparr>)"
proof (induction ids arbitrary: w)
  case Nil
  show ?case by (simp add: logSurfacing_def surfacedRows_def loggedDb_def op_apply)
next
  case (Cons i ids)
  let ?row = "\<lparr>surf_memoryId = i, surf_sessionId = s, surf_surfacedAt = w_clock w (w_reads w) div 1000 * 1000\<rparr>"
  let ?w = "w\<lparr>w_db := loggedDb [?row] (w_db w), w_reads := Suc (w_reads w)\<rparr>"
  have "logSurfacing (i # ids) s w = logSurfacing ids s
      (w\<lparr>w_reads := Suc (w_reads w), w_db := loggedDb [?row] (w_db w)\<rparr>)"
    by (simp add: logSurfacing_def sqlNow_def setDb_def bindM_def loggedDb_def)
  also have "w\<lparr>w_reads := Suc (w_reads w), w_db := loggedDb [?row] (w_db w)\<rparr> = ?w" by simp
  also have "logSurfacing ids s ?w = (Inr (), ?w\<lparr>w_db := loggedDb (surfacedRows ?w s ids) (w_db ?w), w_reads := w_reads ?w + length ids\<rparr>)"
    by (rule Cons)
  also have "\<dots> = (Inr (), w\<lparr>w_db := loggedDb (surfacedRows w s (i # ids)) (w_db w), w_reads := w_reads w + length (i # ids)\<rparr>)"
    unfolding surfacedRows_Cons [of w s i ids "loggedDb [?row] (w_db w)"] by (simp add: loggedDb_def)
  finally show ?case .
qed

lemma surfaced_ids: "map surf_memoryId (surfacedRows w s ids) = ids"
  by (rule nth_equalityI) (simp_all add: surfacedRows_def)

section \<open>Ranking and cooldown\<close>

lemma set_insertBy: "set (insertBy cmp x xs) = insert x (set xs)"
  by (induction xs) auto

lemma set_sortBy: "set (sortBy cmp xs) = set xs"
  unfolding sortBy_def by (induction xs) (simp_all add: set_insertBy)

lemma mset_insertBy: "mset (insertBy cmp x xs) = add_mset x (mset xs)"
  by (induction xs) auto

lemma mset_sortBy: "mset (sortBy cmp xs) = mset xs"
  unfolding sortBy_def by (induction xs) (simp_all add: mset_insertBy)

lemma cooldown_subset: "set (applyCooldown results m margin strict) \<subseteq> set results"
proof (cases "filter (meetsMinScore m strict) results")
  case Nil
  then show ?thesis by (simp add: applyCooldown_def)
next
  case (Cons first rest)
  have "set (first # rest) \<subseteq> set results" unfolding Cons [symmetric] by (rule filter_is_subset)
  with Cons show ?thesis by (auto simp: applyCooldown_def Let_def split: option.splits if_splits)
qed

lemma cooldown_strict: "r \<in> set (applyCooldown results m margin True) \<Longrightarrow> \<not> rr_cooledDown r"
  by (auto simp: applyCooldown_def Let_def split: list.splits if_splits)

lemma feedback_read:
  "i \<in> set ids \<Longrightarrow> map_of (map (\<lambda>i. (i, f i)) (dedupe_from {} ids)) i = Some (f i)"
  by (simp add: map_of_map_restrict set_dedupe_from)


section \<open>The search as a whole\<close>

lemma root_atomic_frame:
  assumes "usable d w" and "atomic_op m Q" and "invoke RootInvoker False m w = (Inr a, w')"
  shows "frame w' = frame w \<and> usable (w_db w') w' \<and> Q d a (w_db w')"
proof -
  have "normalized m w = (Inr a, w')" using assms(3) by (simp add: invoke_def run_usable [OF assms(1)])
  then have m: "m w = (Inr a, w')" by (auto simp: normalized_def catchM_def op_apply split: prod.splits sum.splits)
  have "triple (\<lambda>v. frame v = frame w \<and> w_saved v = [] \<and> w_db v = d) m
     (\<lambda>a v. frame v = frame w \<and> w_saved v = [] \<and> Q d a (w_db v)) (left_open (frame w) [] d)"
    using assms(2) unfolding atomic_op_def by blast
  from triple_value [OF this _ m] usable_fields [OF assms(1)] have "frame w' = frame w" by blast
  with root_atomic [OF assms] show ?thesis by simp
qed

lemma frame_clock: "frame w' = frame w \<Longrightarrow> w_clock w' = w_clock w"
  by (drule arg_cong [of _ _ w_clock]) (simp add: frame_def outside_def)

lemma root_local_run:
  assumes "usable d w" and "m w = (Inr a, w')"
  shows "invoke RootInvoker False m w = (Inr a, w')"
  using assms(2) by (simp add: invoke_def run_usable [OF assms(1)] normalized_def catchM_def)

definition shownIds :: "restoration_config \<Rightarrow> prompt_request \<Rightarrow> database \<Rightarrow> int \<Rightarrow> string list \<Rightarrow> bool" where
  "shownIds rc request d now ids \<longleftrightarrow> length ids \<le> maxResultsOf rc (pq_preTool request)
     \<and> (\<forall>i \<in> set ids. \<exists>r \<in> set (promoted d). prom_id r = i \<and> prom_archivedAt r = None)
     \<and> (pq_preTool request \<longrightarrow> (\<forall>i \<in> set ids.
          \<not> isWithinCooldown (lastSurfacedOf d i) now (rc_surfacingCooldownWindow rc)))"

lemma selection_ids:
  assumes "shipped files" and "selectMemoryHintsWithinBudget files candidates options = Inr s"
  shows "length (hs_hints s) = length (hs_ids s)" and "length (hs_ids s) \<le> length candidates"
    and "set (hs_ids s) \<subseteq> mh_id ` set candidates"
proof -
  from selection_run [OF assms(1), of candidates options] assms(2) obtain new kept n dropped where
    s: "s = selectionOf options new n dropped" and k: "subseq kept candidates"
    and pairs: "list_all2 (\<lambda>k h. mh_id h = mh_id k \<and> shownHint (trim (mh_hint k)) (mh_hint h)) kept new" by auto
  have ids: "hs_ids s = map mh_id kept" using kept_shown(2) [OF pairs] by (simp add: s selectionOf_def)
  show "length (hs_hints s) = length (hs_ids s)" by (simp add: s selectionOf_def)
  from k show "length (hs_ids s) \<le> length candidates" unfolding ids by (simp add: list_emb_length)
  from k have "set kept \<subseteq> set candidates" using subseq_conv_nths set_nths_subset by metis
  then show "set (hs_ids s) \<subseteq> mh_id ` set candidates" unfolding ids by auto
qed

lemma ranked_facts:
  assumes "r \<in> set (rankResults m cs fb options)"
  shows "\<exists>c \<in> set cs. rr_result r = ev_result c
    \<and> rr_cooledDown r = isWithinCooldown (rf_lastSurfacedAt (case map_of fb (sr_id (ev_result c)) of Some f \<Rightarrow> f | None \<Rightarrow> noFeedback))
        (ro_now options) (ro_surfacingCooldownWindow options)"
proof -
  from assms obtain c where "c \<in> set cs" and "r = rankOne m fb options c" by (auto simp: rankResults_def set_sortBy)
  then show ?thesis by (intro bexI [of _ c]) (simp_all add: rankOne_def Let_def)
qed

lemma shown_selection:
  assumes "shipped files" and "\<And>c. c \<in> set cs \<Longrightarrow> activeResult d (ev_result c)"
    and "fst (getFeedback (map (\<lambda>c. sr_id (ev_result c)) cs) w) = Inr fb" and "w_db w = d"
    and "selectionFor files rc request (rankedFor m rc request cs now fb) = Inr s"
  shows "shownIds rc request d now (hs_ids s) \<and> length (hs_hints s) = length (hs_ids s)"
proof -
  let ?ranked = "rankResults m cs fb (rankOptionsOf m rc request now)"
  let ?cool = "applyCooldown ?ranked (rc_promptSearchMinScore rc) (rc_resurfaceMargin rc) (pq_preTool request)"
  let ?shown = "take (maxResultsOf rc (pq_preTool request)) ?cool" and ?n = "rc_promptSnippetLength rc"
  note sel = selection_ids [OF assms(1) assms(5) [unfolded selectionFor_def rankedFor_def Let_def]]
  have len: "length (hs_ids s) \<le> maxResultsOf rc (pq_preTool request)" using sel(2) by simp
  have each: "\<exists>r \<in> set ?shown. i = sr_id (rr_result r)" if "i \<in> set (hs_ids s)" for i
  proof -
    have "i \<in> mh_id ` set (map (snippetOf ?n) ?shown)" using sel(3) that by blast
    moreover have "mh_id (snippetOf ?n r) = sr_id (rr_result r)" for r by (simp add: snippetOf_def Let_def)
    ultimately show ?thesis unfolding set_map image_image by auto
  qed
  have fb: "map_of fb i = Some \<lparr>rf_usageCount = u i, rf_surfacingCount = surfacingCountOf d i, rf_lastSurfacedAt = lastSurfacedOf d i\<rparr>"
    if "i \<in> set (map (\<lambda>c. sr_id (ev_result c)) cs)"
      and "u = (\<lambda>i. case map_of (collectUsageCounts (Some (map (\<lambda>c. sr_id (ev_result c)) cs)) d) i of Some n \<Rightarrow> n | None \<Rightarrow> 0)" for i u
  proof -
    have "fb = map (\<lambda>i. (i, \<lparr>rf_usageCount = u i, rf_surfacingCount = surfacingCountOf d i, rf_lastSurfacedAt = lastSurfacedOf d i\<rparr>))
        (dedupe_from {} (map (\<lambda>c. sr_id (ev_result c)) cs))"
      using assms(3,4) that(2) by (simp add: getFeedback_def getDb_def Let_def)
    then show ?thesis using feedback_read [OF that(1)] by simp
  qed
  have "\<exists>r \<in> set (promoted d). prom_id r = i \<and> prom_archivedAt r = None"
    and "pq_preTool request \<longrightarrow> \<not> isWithinCooldown (lastSurfacedOf d i) now (rc_surfacingCooldownWindow rc)"
    if i: "i \<in> set (hs_ids s)" for i
  proof -
    from each [OF i] obtain r where r: "r \<in> set ?cool"
      and id: "i = sr_id (rr_result r)" by (auto dest: in_set_takeD)
    from ranked_facts r cooldown_subset obtain c where c: "c \<in> set cs" "rr_result r = ev_result c"
      "rr_cooledDown r = isWithinCooldown (rf_lastSurfacedAt (case map_of fb (sr_id (ev_result c)) of Some f \<Rightarrow> f | None \<Rightarrow> noFeedback))
        (ro_now (rankOptionsOf m rc request now)) (ro_surfacingCooldownWindow (rankOptionsOf m rc request now))" by blast
    from assms(2) [OF c(1)] show "\<exists>r \<in> set (promoted d). prom_id r = i \<and> prom_archivedAt r = None"
      by (auto simp: activeResult_def id c(2))
    have "rr_cooledDown r = isWithinCooldown (lastSurfacedOf d i) now (rc_surfacingCooldownWindow rc)"
      using c(1,3) fb [OF _ refl, of i] by (simp add: rankOptionsOf_def id c(2))
    then show "pq_preTool request \<longrightarrow> \<not> isWithinCooldown (lastSurfacedOf d i) now (rc_surfacingCooldownWindow rc)"
      using r cooldown_strict by metis
  qed
  with len sel(1) show ?thesis by (simp add: shownIds_def)
qed

lemma search_effects:
  assumes "usable d w" and "shipped files" and "rc_promptSearchMaxResults rc \<noteq> 0"
    and "searchHints m files env rc request w = (Inr resp, w')"
  shows "\<exists>ids k rows. ps_ids resp = Some ids \<and> length (ps_hints resp) = length ids
    \<and> shownIds rc request d (w_clock w k) ids
    \<and> usable (w_db w') w' \<and> w_db w' = (if pq_logSurfacing request then loggedDb rows d else d)
    \<and> map surf_memoryId rows = ids
    \<and> (\<forall>r \<in> set rows. surf_sessionId r = pq_sessionId request \<and> (\<exists>j. surf_surfacedAt r = w_clock w j div 1000 * 1000))"
proof -
  let ?pre = "pq_preTool request"
  have "bindM (repo_searchPromotedForRecall RootInvoker env (pq_query request) (int (candidateLimitOf rc ?pre)) None None)
      (showCandidates m files rc request) w = (Inr resp, w')" using assms(3,4) by (simp add: searchHints_def)
  then obtain cs w1 where search: "repo_searchPromotedForRecall RootInvoker env (pq_query request)
      (int (candidateLimitOf rc ?pre)) None None w = (Inr cs, w1)" and rest: "showCandidates m files rc request cs w1 = (Inr resp, w')"
    by (rule bindM_cases) auto
  have found: "frame w1 = frame w \<and> usable (w_db w1) w1 \<and> w_db w1 = d \<and> (\<forall>c \<in> set cs. activeResult d (ev_result c))"
    by (rule root_atomic_frame [OF assms(1) atomic_recall_active search [unfolded repo_searchPromotedForRecall_def]])
  then have u1: "usable d w1" by (elim conjE) simp
  from found have clock: "w_clock w1 = w_clock w" by (intro frame_clock) simp
  have active: "activeResult d (ev_result c)" if "c \<in> set cs" for c using found that by simp
  let ?w2 = "w1\<lparr>w_reads := Suc (w_reads w1)\<rparr>" and ?now = "w_clock w (w_reads w1)"
  let ?ids = "map (\<lambda>c. sr_id (ev_result c)) cs" and ?rows = "\<lambda>s. surfacedRows ?w2 (pq_sessionId request) (hs_ids s)"
  have u2: "usable d ?w2" and db: "w_db ?w2 = d" using usable_outside [OF u1, of ?w2] usable_fields [OF u1] by (simp_all add: outside_def)
  obtain fb where get: "getFeedback ?ids ?w2 = (Inr fb, ?w2)" by (simp add: getFeedback_def getDb_def)
  then have fb: "fst (getFeedback ?ids ?w2) = Inr fb" by simp
  have read: "repo_getFeedback RootInvoker ?ids ?w2 = (Inr fb, ?w2)"
    unfolding repo_getFeedback_def by (rule root_local_run [OF u2]) (rule get)
  let ?ranked = "rankedFor m rc request cs ?now fb"
  let ?w3 = "\<lambda>s. if pq_logSurfacing request then ?w2\<lparr>w_db := loggedDb (?rows s) d, w_reads := w_reads ?w2 + length (hs_ids s)\<rparr> else ?w2"
  have log: "logShown request (hs_ids s) ?w2 = (Inr (), ?w3 s)" for s
    using root_local_run [OF u2, of "logSurfacing (hs_ids s) (pq_sessionId request)"] logSurfacing_run [of "hs_ids s" "pq_sessionId request" ?w2] db
    by (simp add: logShown_def bestEffort_def catchM_def repo_logSurfacing_def op_apply)
  from rest have run: "bindM (liftE (selectionFor files rc request ?ranked)) (\<lambda>s.
      bindM (logShown request (hs_ids s)) (\<lambda>_. ret (responseOf request ?ranked s))) ?w2 = (Inr resp, w')"
    by (simp add: showCandidates_def dateNow_def bindM_Inr read clock op_apply Let_def bindM_def [of dateNow] split: if_splits)
  then obtain s where s: "selectionFor files rc request ?ranked = Inr s"
    by (cases "selectionFor files rc request ?ranked") (auto simp: op_apply)
  from run have "ret (responseOf request ?ranked s) (?w3 s) = (Inr resp, w')"
    unfolding s by (simp add: bindM_Inr log)
  then have resp: "ps_ids resp = Some (hs_ids s)" "ps_hints resp = hs_hints s" "w' = ?w3 s"
    by (auto simp: op_apply responseOf_def)
  have shown: "shownIds rc request d ?now (hs_ids s) \<and> length (hs_hints s) = length (hs_ids s)"
    by (rule shown_selection [OF assms(2) active fb db s])
  have "usable (w_db w') w'" unfolding resp(3) using usable_outside [OF u2, of "?w3 s"] by (simp add: outside_def)
  moreover have "w_db w' = (if pq_logSurfacing request then loggedDb (?rows s) d else d)" by (simp add: resp(3) db)
  moreover have "\<forall>r \<in> set (?rows s). surf_sessionId r = pq_sessionId request \<and> (\<exists>j. surf_surfacedAt r = w_clock w j div 1000 * 1000)"
    by (auto simp: surfacedRows_def clock)
  ultimately show ?thesis
    using shown resp(1,2) surfaced_ids by (intro exI [of _ "hs_ids s"] exI [of _ "w_reads w1"] exI [of _ "?rows s"]) simp
qed

text \<open>C32:
  When the prompt search answers: it shows at most the configured number of memories, all active; a
  request before a tool call shows none that is within the cooldown; and nothing is written but one row
  of the log for each memory shown, with the session of the request.
\<close>

theorem prompt_search_spec:
  assumes "usable d w" and "shipped files" and "rc_promptSearchMaxResults rc \<noteq> 0"
    and "searchHints m files env rc request w = (Inr resp, w')"
  shows "\<exists>ids rows. ps_ids resp = Some ids \<and> length (ps_hints resp) = length ids
    \<and> length ids \<le> maxResultsOf rc (pq_preTool request)
    \<and> (\<forall>i \<in> set ids. \<exists>r \<in> set (promoted d). prom_id r = i \<and> prom_archivedAt r = None)
    \<and> usable (w_db w') w' \<and> w_db w' = (if pq_logSurfacing request then loggedDb rows d else d)
    \<and> map surf_memoryId rows = ids \<and> (\<forall>r \<in> set rows. surf_sessionId r = pq_sessionId request)"
  using search_effects [OF assms] unfolding shownIds_def by blast

section \<open>No repetition\<close>

lemma js_less_mono: "a \<le> b \<Longrightarrow> js_less (js_int b) x \<Longrightarrow> js_less (js_int a) x"
  by (cases x) (auto simp: js_int_def intro: le_less_trans)

lemma lastSurfaced_after:
  assumes "r \<in> set (recall_surfacing d)"
  shows "\<exists>t. lastSurfacedOf d (surf_memoryId r) = Some t \<and> surf_surfacedAt r \<le> t"
proof -
  let ?ts = "map surf_surfacedAt (filter (\<lambda>s. surf_memoryId s = surf_memoryId r) (recall_surfacing d))"
  have mem: "surf_surfacedAt r \<in> set ?ts" using assms by simp
  have "x \<in> set xs \<Longrightarrow> xs \<noteq> []" for x and xs :: "int list" by auto
  from this [OF mem] have "?ts \<noteq> []" .
  then have "lastSurfacedOf d (surf_memoryId r) = Some (Max (set ?ts))" by (simp add: lastSurfacedOf_def Let_def)
  with mem show ?thesis by (intro exI [of _ "Max (set ?ts)"]) simp
qed

text \<open>C33:
  A memory that was shown and logged is not shown again before a tool call for as long as the clock stays
  within the cooldown, whatever else has been stored in between.
\<close>

theorem pre_tool_not_repeated:
  assumes "usable d1 w1" and "searchHints m files env rc request1 w1 = (Inr resp1, w1')" and "pq_logSurfacing request1"
    and "usable d2 w2" and "searchHints m files env rc request2 w2 = (Inr resp2, w2')" and "pq_preTool request2"
    and "shipped files" and "rc_promptSearchMaxResults rc \<noteq> 0"
    and "set (recall_surfacing (w_db w1')) \<subseteq> set (recall_surfacing d2)"
    and "\<not> js_leq (rc_surfacingCooldownWindow rc) (Num 0)"
    and "\<And>j k. js_less (js_int (w_clock w2 k - w_clock w1 j div 1000 * 1000))
          (js_mul (rc_surfacingCooldownWindow rc) (Num 3600000))"
  shows "set (the (ps_ids resp1)) \<inter> set (the (ps_ids resp2)) = {}"
proof (rule ccontr)
  assume "set (the (ps_ids resp1)) \<inter> set (the (ps_ids resp2)) \<noteq> {}"
  then obtain i where i1: "i \<in> set (the (ps_ids resp1))" and i2: "i \<in> set (the (ps_ids resp2))" by blast
  from search_effects [OF assms(1,7,8,2)] obtain ids1 rows where
    r1: "ps_ids resp1 = Some ids1" "w_db w1' = loggedDb rows d1" "map surf_memoryId rows = ids1"
      "\<forall>r \<in> set rows. \<exists>j. surf_surfacedAt r = w_clock w1 j div 1000 * 1000" using assms(3) by auto
  from search_effects [OF assms(4,7,8,5)] obtain ids2 k where
    r2: "ps_ids resp2 = Some ids2" "shownIds rc request2 d2 (w_clock w2 k) ids2" by auto
  from i1 r1(1,3) obtain r where r: "r \<in> set rows" "surf_memoryId r = i" by auto
  then obtain j where j: "surf_surfacedAt r = w_clock w1 j div 1000 * 1000" using r1(4) by blast
  have "r \<in> set (recall_surfacing d2)" using assms(9) r(1) by (auto simp: r1(2) loggedDb_def)
  from lastSurfaced_after [OF this] r(2) j obtain t where
    t: "lastSurfacedOf d2 i = Some t" "w_clock w1 j div 1000 * 1000 \<le> t" by auto
  have "js_less (js_int (w_clock w2 k - t)) (js_mul (rc_surfacingCooldownWindow rc) (Num 3600000))"
    by (rule js_less_mono [OF _ assms(11) [of k j]]) (use t(2) in simp)
  with t(1) assms(10) have "isWithinCooldown (lastSurfacedOf d2 i) (w_clock w2 k) (rc_surfacingCooldownWindow rc)"
    by (simp add: isWithinCooldown_def)
  with r2 i2 assms(6) show False by (simp add: shownIds_def)
qed

section \<open>Instances\<close>

definition sample_math :: search_math where
  "sample_math = \<lparr>sm_nfkc = id, sm_powHalf = (\<lambda>_. PosInf)\<rparr>"

definition sample_restoration :: restoration_config where
  "sample_restoration = \<lparr>rc_promptSearchMaxResults = 3, rc_promptSearchMinScore = Num 2, rc_promptSnippetLength = 200,
     rc_maxInjectedMemoryBytes = Num 1000, rc_reservedForLearningInstruction = Num 0, rc_maxInjectedMemoryItems = Num 3,
     rc_dedupMinPrefix = Num 40, rc_recencyHalfLifeHours = Num 24, rc_crossSessionAffinity = Num 1, rc_recallUsageBoost = Num 0,
     rc_recallUsageSmoothing = Num 0, rc_surfacingCooldownWindow = PosInf, rc_resurfaceMargin = Num 0,
     rc_unusedSurfacingPenalty = Num 0, rc_staleAfterDays = PosInf, rc_staleSurfacingWithoutUseLimit = Num 5,
     rc_stalePenalty = Num 0, rc_allowStaleOnStrongMatch = True\<rparr>"

definition sample_request :: "bool \<Rightarrow> prompt_request" where
  "sample_request preTool = \<lparr>pq_query = ''A'', pq_cwd = ''/p'', pq_sessionId = None, pq_learningInstructionBytes = None,
     pq_logSurfacing = True, pq_debug = False, pq_preTool = preTool\<rparr>"

definition sample_search_env :: promoted_env where
  "sample_search_env = sample_env\<lparr>pe_engine := \<lparr>fe_rank = (\<lambda>_ _ _. Some 0), fe_representatives = Inr,
     fe_support = \<lparr>ss_jsonTags = True, ss_iterate = True\<rparr>\<rparr>\<rparr>"

lemma sample_searches:
  "(case searchHints sample_math shippedFiles sample_search_env sample_restoration (sample_request False) (fresh_world sample_memories) of
     (r, w) \<Rightarrow> (map_sum id ps_ids r, map_sum id ps_ids (fst (searchHints sample_math shippedFiles sample_search_env
        sample_restoration (sample_request True) w)))) = (Inr (Some [''m'']), Inr (Some []))"
  by code_simp

lemma sample_first_search:
  obtains resp w' where "searchHints sample_math shippedFiles sample_search_env sample_restoration (sample_request False)
      (fresh_world sample_memories) = (Inr resp, w')" and "ps_ids resp = Some [''m'']"
    and "\<exists>resp2 w2. searchHints sample_math shippedFiles sample_search_env sample_restoration (sample_request True) w' = (Inr resp2, w2)"
proof -
  obtain r w' where run: "searchHints sample_math shippedFiles sample_search_env sample_restoration (sample_request False)
      (fresh_world sample_memories) = (r, w')" by (rule prod.exhaust)
  obtain r2 w2 where run2: "searchHints sample_math shippedFiles sample_search_env sample_restoration (sample_request True) w'
      = (r2, w2)" by (rule prod.exhaust)
  from sample_searches have "map_sum id ps_ids r = Inr (Some [''m''])" and "map_sum id ps_ids r2 = Inr (Some [])"
    unfolding run prod.case run2 by simp_all
  then obtain resp resp2 where "r = Inr resp" "ps_ids resp = Some [''m'']" "r2 = Inr resp2"
    by (cases r; cases r2) auto
  with run run2 that show thesis by blast
qed

lemma sample_settings: "rc_promptSearchMaxResults sample_restoration \<noteq> 0" "pq_logSurfacing (sample_request b)"
  "pq_preTool (sample_request True)" "rc_surfacingCooldownWindow sample_restoration = PosInf"
  by (simp_all add: sample_restoration_def sample_request_def)

theorem prompt_search_spec_witness:
  "\<exists>resp w' rows. searchHints sample_math shippedFiles sample_search_env sample_restoration (sample_request False)
      (fresh_world sample_memories) = (Inr resp, w') \<and> ps_ids resp = Some [''m'']
    \<and> w_db w' = loggedDb rows sample_memories \<and> map surf_memoryId rows = [''m'']"
proof -
  obtain resp w' where run: "searchHints sample_math shippedFiles sample_search_env sample_restoration (sample_request False)
      (fresh_world sample_memories) = (Inr resp, w')" and ids: "ps_ids resp = Some [''m'']" by (rule sample_first_search)
  from prompt_search_spec [OF usable_fresh shipped_sample sample_settings(1) run] ids sample_settings(2)
  obtain rows where "w_db w' = loggedDb rows sample_memories" "map surf_memoryId rows = [''m'']" by auto
  then show ?thesis using run ids by (intro exI [of _ resp] exI [of _ w'] exI [of _ rows] conjI)
qed

theorem pre_tool_not_repeated_witness:
  "\<exists>resp w' resp2 w2. searchHints sample_math shippedFiles sample_search_env sample_restoration (sample_request False)
      (fresh_world sample_memories) = (Inr resp, w') \<and> ps_ids resp = Some [''m'']
    \<and> searchHints sample_math shippedFiles sample_search_env sample_restoration (sample_request True) w' = (Inr resp2, w2)
    \<and> ''m'' \<notin> set (the (ps_ids resp2))"
proof -
  obtain resp w' resp2 w2 where run: "searchHints sample_math shippedFiles sample_search_env sample_restoration (sample_request False)
      (fresh_world sample_memories) = (Inr resp, w')" and ids: "ps_ids resp = Some [''m'']"
    and run2: "searchHints sample_math shippedFiles sample_search_env sample_restoration (sample_request True) w' = (Inr resp2, w2)"
    by (rule sample_first_search) blast
  from search_effects [OF usable_fresh shipped_sample sample_settings(1) run] have u: "usable (w_db w') w'" by blast
  have "set (the (ps_ids resp)) \<inter> set (the (ps_ids resp2)) = {}"
    by (rule pre_tool_not_repeated [OF usable_fresh run sample_settings(2) u run2 sample_settings(3) shipped_sample sample_settings(1)])
      (simp_all add: sample_settings js_int_def js_signed_inf_def)
  then have "''m'' \<notin> set (the (ps_ids resp2))" unfolding ids by simp
  then show ?thesis using run ids run2 by (intro exI [of _ resp] exI [of _ w'] exI [of _ resp2] exI [of _ w2] conjI)
qed

end
