(* ===== verification/Spec2Isabelle.thy ===== *)
theory Spec2Isabelle
  imports File_References Lineage_Queries Repository_Facts Executor_Facts Transcript_Slots Commit_Permits Retrieval_Facts Invocation_Runs Prompt_Facts
begin

text \<open>
  A verification library for the lossless conversation memory of LCM (TypeScript, under
  \<open>src/\<close>): the stores that hold a conversation, the transaction executor under them, and the
  compaction engine that replaces old messages by summaries.  The main claim of the program is that
  compaction is lossless: however often it runs and however it fails, every message can still be
  reached from the context through the links of the summaries.

  \<^bold>\<open>Parts and theories.\<close>

  \<^item> \<open>Lcm_Prelude\<close>: JavaScript numbers (rationals with the infinities and NaN, rounding to
    doubles where a product needs it), strings, list lemmas, the monad of fallible operations on a
    world and its Hoare triples.
  \<^item> \<open>Storage_Model\<close>: the records of \<open>store/conversation-store.ts\<close> and
    \<open>store/summary-store.ts\<close>, the tables of \<open>db/migration.ts\<close> as lists of rows, and the world:
    the database, the snapshots of the open transaction, the fields of the executor, and the
    choices of the environment (clock, UUIDs, driver faults, abort signals, refused admissions).
  \<^item> \<open>Sqlite_Executor\<close>: \<open>storage/sqlite/executor.ts\<close>, every method, over a model of
    \<open>BEGIN\<close>, \<open>COMMIT\<close>, \<open>ROLLBACK\<close> and savepoints as a stack of snapshots; any driver
    command may fail.  \<open>durable\<close> is what a crash would leave, \<open>settled\<close> the state between
    operations.
  \<^item> \<open>Summary_Store\<close>, \<open>Conversation_Store\<close>: the methods of the two stores; a statement is
    its effect on the rows with the constraint it may violate.  The latter also holds the slot
    markers of \<open>storage/contracts.ts\<close>.
  \<^item> \<open>Context_Facts\<close>, \<open>Store_Facts\<close>: what the context operations do to the ordinals, and the
    well-formedness of a database (\<open>wf_db\<close>) with the lemma for every operation that it is kept.
  \<^item> \<open>Lineage\<close>: the locale \<open>lineage_store\<close>, the interface on which losslessness rests (a
    context expands to messages; a step may replace a part of the context by a summary that expands
    to the same messages), and what the linking statements insert.
  \<^item> \<open>Compaction_Steps\<close>: the abstract specification of compaction, the step relation
    \<open>compaction_step\<close> with its invariants, and the interpretation of \<open>lineage_store\<close> on it.
  \<^item> \<open>Compaction\<close>: \<open>compaction.ts\<close>, every method, and the file references of
    \<open>large-files.ts\<close>.
  \<^item> \<open>Selection_Facts\<close>, \<open>Selection_Spec\<close>: the chunk selections against declarative
    descriptions.
  \<^item> \<open>Engine_Facts\<close>, \<open>Engine_Refinement\<close>: a pass is a step; every entry point is a sequence
    of steps, also when it fails; the loops end.
  \<^item> \<open>File_References\<close>, \<open>Lineage_Queries\<close>, \<open>Store_Effects\<close>: properties of the file-id scanner,
    of the lineage queries, of the store operations and of the executor.
  \<^item> \<open>Sample_Project\<close>: concrete databases, engines and runs on which the properties are
    instantiated.

  \<^bold>\<open>How the parts interact.\<close>  The engine calls the stores through the executor: reads through
  \<open>run\<close>, writes in a \<open>transaction\<close> whose repository calls go through \<open>runScoped\<close>.  The
  specification of an operation is therefore a triple: from a settled world it ends settled with the
  described durable database, or it throws and the durable database has moved by whole steps only.

  \<^bold>\<open>Bounds and fuel.\<close>  The loops of the full sweep and of \<open>compactUntilUnder\<close> are functions
  that terminate because the token count falls.  The condensation of \<open>compactLeaf\<close> is bounded
  by the token count at its start; \<open>condensation_terminates\<close> shows that more fuel changes nothing.
  The recursive subtree query gets one level more than there are links; \<open>subtree_terminates\<close> shows
  that this is enough when links go back in time, which \<open>runs_keep_links_back\<close> shows compaction to
  keep.

  \<^bold>\<open>Parameters.\<close>  SHA-256, the parts that \<open>Intl.DateTimeFormat\<close> returns, the summarizer and
  the scrubber are functions the engine is given; nothing is assumed of them.  The driver may fail
  at any command, an abort may be seen at any check, an admission may be refused at any time.

  \<^bold>\<open>Not modelled.\<close>  The lexical searches (FTS5 ranking and regular expressions belong to
  SQLite), the direct transactions of the conversation store, schema migration, the PostgreSQL
  backend, the publication protocol between backends, the daemon, connectors, hooks, the command
  line: their substance is SQL run by a server, files, processes and sockets.
\<close>

section \<open>Compaction as a whole\<close>

text \<open>C1: Whatever an entry point of the engine does to a well-formed project, errors, aborts and
  driver failures included, the durable database moves by steps of the specification only.\<close>

theorem runs_refine_steps:
  assumes "settled d w" and "wf_db d" and "compaction_run E cid w w'"
  shows "settled (durable w') w'
    \<and> (compaction_step (resolveFreshTailCount (eng_config E)) cid)\<^sup>*\<^sup>* d (durable w')"
  using run_steps [OF assms(3,1,2)] by blast

theorem runs_refine_steps_witness:
  "\<exists>w'. compaction_run sample_engine 1 (fresh_world sample_database) w' \<and> settled (durable w') w'
    \<and> (compaction_step (resolveFreshTailCount (eng_config sample_engine)) 1)\<^sup>*\<^sup>* sample_database (durable w')"
  using runs_refine_steps [OF settled_fresh sample_wf sample_run] sample_run by blast

text \<open>C2: No sequence of runs, on whatever conversations, loses a message: the transcript that a
  context stands for, through any number of summaries, stays the same list of messages.\<close>

theorem runs_keep_transcript:
  assumes "settled d w" and "wf_db d" and "any_run\<^sup>*\<^sup>* w w'" and "transcript d c ms"
  shows "transcript (durable w') c ms"
  using assms any_runs_keep(1) by blast

theorem runs_keep_transcript_witness:
  "any_run\<^sup>*\<^sup>* (fresh_world sample_database) sample_world \<and> transcript (durable sample_world) 1 [1, 2, 3]"
  using runs_keep_transcript [OF settled_fresh sample_wf sample_any_run sample_transcript] sample_any_run by blast



text \<open>C4: A run leaves the protected newest messages raw and in place, as many as
  \<open>resolveFreshTailCount\<close> says.\<close>

theorem runs_keep_fresh_tail:
  assumes "settled d w" and "wf_db d" and "compaction_run E cid w w'"
  shows "takeLast (resolveFreshTailCount (eng_config E)) (rawMessages (durable w') cid)
    = takeLast (resolveFreshTailCount (eng_config E)) (rawMessages d cid)"
  using run_steps [OF assms(3,1,2)] steps_tail assms(2) by blast

theorem runs_keep_fresh_tail_witness:
  "compaction_run sample_engine 1 (fresh_world sample_database) sample_world
    \<and> takeLast 1 (rawMessages (durable sample_world) 1) = [3]"
  using runs_keep_fresh_tail [OF settled_fresh sample_wf sample_run] sample_run sample_tail
  unfolding sample_tail_count by argo

text \<open>C5: Runs only add rows to messages, parts, summaries and links; nothing stored is changed or
  deleted.\<close>

theorem runs_append_history:
  assumes "settled d w" and "wf_db d" and "any_run\<^sup>*\<^sup>* w w'"
  shows "history_kept d (durable w')"
  using assms any_runs_keep(2) by blast

theorem runs_append_history_witness:
  "\<exists>w'. any_run\<^sup>*\<^sup>* (fresh_world sample_database) w' \<and> history_kept sample_database (durable w')"
  using runs_append_history [OF settled_fresh sample_wf sample_any_run] sample_any_run by blast

text \<open>C6: The lineage stays acyclic: a link goes from a summary to one stored before it.\<close>

theorem runs_keep_links_back:
  assumes "settled d w" and "wf_db d" and "any_run\<^sup>*\<^sup>* w w'" and "links_back d"
  shows "links_back (durable w')"
  using assms any_runs_keep(3) by blast

theorem runs_keep_links_back_witness:
  "\<exists>w'. any_run\<^sup>*\<^sup>* (fresh_world sample_database) w' \<and> links_back (durable w')"
  using runs_keep_links_back [OF settled_fresh sample_wf sample_any_run sample_links] sample_any_run by blast

text \<open>C7: What \<open>compactFullSweep\<close> reports when it returns is true of the database: the token
  counts before and after, and that without an action nothing has changed.\<close>

theorem fullSweep_report:
  assumes "settled d w" and "wf_db d" and "compactFullSweep E input w = (Inr r, w')" and "cid = ci_conversationId input"
  shows "res_tokensBefore r = contextTokenCount d cid \<and> res_tokensAfter r = contextTokenCount (durable w') cid
    \<and> (res_actionTaken r \<or> durable w' = d)"
  using triple_value [OF triple_compactFullSweep [OF assms(2,4) refl] assms(1,3)] settled_durable
  by (auto simp: compacted_def swept_def)

theorem fullSweep_report_witness:
  "\<exists>w'. compactFullSweep sample_engine idle_input (fresh_world sample_database) = (Inr (noAction 120), w')
    \<and> contextTokenCount (durable w') 1 = 120"
proof -
  obtain w' where run: "compactFullSweep sample_engine idle_input (fresh_world sample_database) = (Inr (noAction 120), w')"
    using idle_run by blast
  have "1 = ci_conversationId idle_input" by (simp add: idle_input_def sample_input_def)
  from fullSweep_report [OF settled_fresh sample_wf run this] show ?thesis
    using run by (auto simp: noAction_def)
qed

text \<open>C8: When \<open>compactUntilUnder\<close> reports success, the context it leaves has at most the
  requested number of tokens.\<close>

theorem untilUnder_success:
  assumes "settled d w" and "wf_db d" and "compactUntilUnder E input w = (Inr r, w')" and "uur_success r"
  shows "js_leq (js_nat (uur_finalTokens r)) (targetTokensOf input)
    \<and> contextTokenCount (durable w') (uu_conversationId input) \<le> uur_finalTokens r"
  using triple_value [OF triple_compactUntilUnder [OF assms(2) refl refl] assms(1,3)] assms(4) settled_durable
  by (auto simp: compacted_under_def)

theorem untilUnder_success_witness:
  "\<exists>w'. compactUntilUnder sample_engine sample_until (fresh_world sample_database)
      = (Inr \<lparr>uur_success = True, uur_rounds = Num 0, uur_finalTokens = 120\<rparr>, w')
    \<and> js_leq (js_nat 120) (targetTokensOf sample_until) \<and> contextTokenCount (durable w') 1 \<le> 120"
  using untilUnder_success [OF settled_fresh sample_wf sample_until_run] sample_until_run
  by (auto simp: sample_until_def)

text \<open>C9: The incremental condensation of \<open>compactLeaf\<close> ends by itself: any fuel above the
  token count of the context gives the same result, so the model's fuel is never used up.\<close>

theorem condensation_terminates:
  assumes "settled d w" and "wf_db d" and "contextTokenCount d cid < fuel" and "contextTokenCount d cid < fuel'"
  shows "condenseDepths E cid f context fuel k st w = condenseDepths E cid f context fuel' k st w"
  using condenseDepths_fuel [OF assms(2-4)] assms(1) by (simp add: agree_def)

theorem condensation_terminates_witness:
  "condenseDepths sample_engine 1 (ci_summarize sample_input) noContext 121 0 (noAction 120) (fresh_world sample_database)
    = condenseDepths sample_engine 1 (ci_summarize sample_input) noContext 1000 0 (noAction 120) (fresh_world sample_database)"
  by (rule condensation_terminates [OF settled_fresh sample_wf]) (unfold sample_tokens, simp_all)

section \<open>Passes\<close>





text \<open>C12: \<open>selectOldestLeafChunk\<close>, with its two loops and their early exits, selects the
  declarative chunk: among the items before the fresh tail the first run of raw messages, cut
  greedily to the token cap; it reads only.\<close>

theorem selectOldestLeafChunk_spec:
  assumes "settled d w" and "selectOldestLeafChunk E cid s w = (Inr c, w')"
  shows "settled d w' \<and> lc_items c = oldestLeafChunk E d cid
    \<and> lc_rawTokensOutsideTail c = rawTokensOutsideTail E d cid"
  using triple_value [OF obs_selectOldestLeafChunk [unfolded obs_def] assms] by blast

theorem selectOldestLeafChunk_spec_witness:
  "\<exists>c w'. selectOldestLeafChunk sample_engine 1 None (fresh_world sample_database) = (Inr c, w')
    \<and> lc_items c = oldestLeafChunk sample_engine sample_database 1 \<and> length (lc_items c) = 2"
proof -
  obtain c w' where run: "selectOldestLeafChunk sample_engine 1 None (fresh_world sample_database) = (Inr c, w')"
    and "length (lc_items c) = 2"
    using sample_selects by blast
  then show ?thesis using selectOldestLeafChunk_spec [OF settled_fresh run] by blast
qed



text \<open>C14: \<open>selectShallowestCondensationCandidate\<close> finds the smallest depth whose oldest chunk
  reaches the fanout and the minimum of tokens, and that chunk.\<close>

theorem selectShallowest_spec:
  assumes "settled d w" and "selectShallowestCondensationCandidate E cid hard s w = (Inr r, w')"
  shows "settled d w' \<and> map_option (\<lambda>(k, c). (k, cc_items c)) r = shallowestCandidate E d cid hard"
  using triple_value [OF obs_selectShallowest [unfolded obs_def] assms] by blast

theorem selectShallowest_spec_witness:
  "\<exists>w'. selectShallowestCondensationCandidate sample_engine 1 True None (fresh_world sample_database) = (Inr None, w')
    \<and> shallowestCandidate sample_engine sample_database 1 True = None"
  using selectShallowest_spec [OF settled_fresh sample_no_candidate] sample_no_candidate by auto



text \<open>Recording an event is best effort and atomic: a call that returns has stored the whole
  event, message and both parts, or nothing; one that throws has stored nothing.\<close>

theorem persistEvent_atomic:
  assumes "settled d w" and "wf_db d" and "findBySession d (ev_sessionId e) \<noteq> None"
    and "persistCompactionEvent E e context w = (r, w')"
  shows "case r of Inl err \<Rightarrow> settled d w'
    | Inr _ \<Rightarrow> settled (durable w') w' \<and> (durable w' = d \<or> event_recorded e d (durable w'))"
proof -
  note event = triple_persistCompactionEvent [OF assms(2,3), of E "context"]
  show ?thesis
  proof (cases r)
    case (Inl err)
    then show ?thesis using triple_error [OF event assms(1)] assms(4) by auto
  next
    case (Inr u)
    then obtain d' where "settled d' w'" and "event_or_not e d d'"
      using triple_value [OF event assms(1)] assms(4) by blast
    then show ?thesis using Inr settled_durable by (auto simp: event_or_not_def)
  qed
qed

theorem persistEvent_atomic_witness:
  "\<exists>r w'. persistCompactionEvent sample_engine sample_event None (fresh_world sample_database) = (r, w')
    \<and> (case r of Inl err \<Rightarrow> settled sample_database w'
       | Inr _ \<Rightarrow> settled (durable w') w' \<and> (durable w' = sample_database \<or> event_recorded sample_event sample_database (durable w')))"
proof -
  obtain r w' where run: "persistCompactionEvent sample_engine sample_event None (fresh_world sample_database) = (r, w')"
    by (rule prod.exhaust)
  then show ?thesis using persistEvent_atomic [OF settled_fresh sample_wf sample_session run] by blast
qed

text \<open>\<open>evaluate\<close> asks for compaction exactly when the larger of the stored and the
  observed token count exceeds the threshold, and reports both.\<close>

theorem evaluate_spec:
  assumes "settled d w" and "evaluate E cid tokenBudget observed s w = (Inr r, w')"
  shows "settled d w' \<and> dec_currentTokens r = max (contextTokenCount d cid) (liveTokens observed)
    \<and> dec_threshold r = contextTokenThreshold E tokenBudget
    \<and> dec_shouldCompact r = js_less (dec_threshold r) (js_nat (dec_currentTokens r))
    \<and> (dec_reason r = ThresholdReason \<longleftrightarrow> dec_shouldCompact r)"
proof -
  have "obs d (evaluate E cid tokenBudget observed s) (\<lambda>r. dec_currentTokens r = max (contextTokenCount d cid) (liveTokens observed)
    \<and> dec_threshold r = contextTokenThreshold E tokenBudget
    \<and> dec_shouldCompact r = js_less (dec_threshold r) (js_nat (dec_currentTokens r))
    \<and> (dec_reason r = ThresholdReason \<longleftrightarrow> dec_shouldCompact r))"
    unfolding evaluate_def Let_def
    by (rule obs_abort_then, rule obs_bind [OF obs_reads(2)], rule obs_abort_then, intro obs_if obs_ret) auto
  from triple_value [OF this [unfolded obs_def] assms] show ?thesis .
qed

theorem evaluate_spec_witness:
  "\<exists>r w'. evaluate sample_engine 1 (Num 1000) None None (fresh_world sample_database) = (Inr r, w')
    \<and> dec_currentTokens r = 120 \<and> dec_threshold r = Num 750 \<and> \<not> dec_shouldCompact r"
proof -
  obtain r w' where run: "evaluate sample_engine 1 (Num 1000) None None (fresh_world sample_database) = (Inr r, w')"
    using sample_evaluate by blast
  from evaluate_spec [OF settled_fresh run] show ?thesis
    using run by (auto simp: sample_tokens [simplified] sample_threshold_value liveTokens_def js_nat_def)
qed

end
